(* ===== verification/Prelude.thy ===== *)
theory Prelude
  imports Main "HOL-Library.Word" "HOL-Library.Sublist" "HOL-Library.Multiset"
begin

text \<open>
  Shared vocabulary of the development: the machine types of the C++ code, the result of an
  operation whose behaviour may be undefined, the collections of simplification rules the component
  proofs use, and the generic facts on lists and words that more than one component needs.

  A C++ \<open>size_t\<close> is a \<open>nat\<close> below \<open>2 ^ 64\<close>; where the code adds two sizes that a caller
  chooses freely, the addition is \<open>sz_add\<close>, which wraps around. An access outside a vector or
  string is undefined behaviour in C++ and is the value \<open>None\<close> here (\<open>at_idx\<close>), so a theorem that
  an operation returns \<open>Some\<close> says that it stays in bounds.
\<close>

section \<open>Collections of rules\<close>

named_theorems std_simps \<open>equations of the modelled standard library\<close>
named_theorems model_defs \<open>unfolding rules of small model definitions\<close>

section \<open>Machine types\<close>

type_synonym uint8 = "8 word"
type_synonym char16 = "16 word"
type_synonym char32 = "32 word"

definition sz_max :: nat where
  "sz_max = 2 ^ 64 - 1"

definition sz_add :: "nat \<Rightarrow> nat \<Rightarrow> nat" where
  "sz_add a b = (a + b) mod 2 ^ 64"

lemma sz_add_exact [std_simps]: "a + b < 2 ^ 64 \<Longrightarrow> sz_add a b = a + b"
  by (simp add: sz_add_def)

definition at_idx :: "'a list \<Rightarrow> nat \<Rightarrow> 'a option" where
  "at_idx xs i = (if i < length xs then Some (xs ! i) else None)"

definition put_idx :: "'a list \<Rightarrow> nat \<Rightarrow> 'a \<Rightarrow> 'a list option" where
  "put_idx xs i x = (if i < length xs then Some (xs[i := x]) else None)"

lemma at_idx_in [simp]: "i < length xs \<Longrightarrow> at_idx xs i = Some (xs ! i)"
  by (simp add: at_idx_def)

lemma at_idx_out [simp]: "length xs \<le> i \<Longrightarrow> at_idx xs i = None"
  by (simp add: at_idx_def)

lemma put_idx_in [simp]: "i < length xs \<Longrightarrow> put_idx xs i x = Some (xs[i := x])"
  by (simp add: put_idx_def)

lemma put_idx_out [simp]: "length xs \<le> i \<Longrightarrow> put_idx xs i x = None"
  by (simp add: put_idx_def)

section \<open>Bytes\<close>

lemma unat_take_bit_mod: "unat (take_bit n w) = unat w mod 2 ^ n" for w :: "'a :: len word"
  by (subst unsigned_take_bit_eq) (rule take_bit_eq_mod)

lemma unat_drop_bit_div: "unat (drop_bit n w) = unat w div 2 ^ n" for w :: "'a :: len word"
  by (subst unat_drop_bit_eq) (rule drop_bit_eq_div)

lemma byte_eqI:
  fixes a b :: uint8
  assumes "bit a 0 = bit b 0" "bit a 1 = bit b 1" "bit a 2 = bit b 2" "bit a 3 = bit b 3"
    "bit a 4 = bit b 4" "bit a 5 = bit b 5" "bit a 6 = bit b 6" "bit a 7 = bit b 7"
  shows "a = b"
proof (rule bit_word_eqI)
  fix n assume "n < LENGTH(8)"
  then have "n = 0 \<or> n = 1 \<or> n = 2 \<or> n = 3 \<or> n = 4 \<or> n = 5 \<or> n = 6 \<or> n = 7" by auto
  then show "bit a n = bit b n" using assms by auto
qed

section \<open>Lists\<close>

lemma nth_small: "(x # y # z # xs) ! 2 = z" "(x # y # z # w # xs) ! 3 = w"
  by (simp_all add: numeral_2_eq_2 numeral_3_eq_3)

lemma length_eq_0_drop: "n \<le> length xs \<Longrightarrow> drop n xs = [] \<longleftrightarrow> n = length xs"
  by auto

lemma takeWhile_not_in: "c \<notin> set p \<Longrightarrow> takeWhile (\<lambda>x. x \<noteq> c) (p @ c # s) = p"
  by (induction p) auto

lemma dropWhile_not_in: "c \<notin> set p \<Longrightarrow> dropWhile (\<lambda>x. x \<noteq> c) (p @ c # s) = c # s"
  by (induction p) auto

text \<open>Removing the elements that satisfy a predicate at both ends.\<close>

definition strip :: "('a \<Rightarrow> bool) \<Rightarrow> 'a list \<Rightarrow> 'a list" where
  "strip P s = rev (dropWhile P (rev (dropWhile P s)))"

lemma strip_Nil [simp]: "strip P [] = []"
  by (simp add: strip_def)

lemma dropWhile_all_append: "list_all P a \<Longrightarrow> dropWhile P (a @ s) = dropWhile P s"
  by (induction a) simp_all

lemma strip_left: "list_all P a \<Longrightarrow> strip P (a @ s) = strip P s"
  by (simp add: strip_def dropWhile_all_append)

lemma strip_keep: "s = [] \<or> \<not> P (hd s) \<and> \<not> P (last s) \<Longrightarrow> strip P s = s"
proof (cases "s = []")
  case False
  assume "s = [] \<or> \<not> P (hd s) \<and> \<not> P (last s)"
  with False have "dropWhile P s = s" "dropWhile P (rev s) = rev s"
    by (simp_all add: dropWhile_eq_self_iff hd_rev)
  then show ?thesis by (simp add: strip_def)
qed simp

lemma strip_right:
  assumes "list_all P b" "s = [] \<or> \<not> P (hd s)"
  shows "strip P (s @ b) = strip P s"
proof (cases "s = []")
  case True
  then show ?thesis using assms(1) strip_left [of P b "[]"] by simp
next
  case False
  with assms(2) have "dropWhile P (s @ b) = s @ b" "dropWhile P s = s"
    by (simp_all add: dropWhile_eq_self_iff)
  then show ?thesis using assms(1) by (simp add: strip_def dropWhile_all_append)
qed

text \<open>A counted loop whose body may have undefined behaviour.\<close>

fun fold_opt :: "('a \<Rightarrow> 's \<Rightarrow> 's option) \<Rightarrow> 'a list \<Rightarrow> 's \<Rightarrow> 's option" where
  "fold_opt f [] s = Some s"
| "fold_opt f (x # xs) s = Option.bind (f x s) (fold_opt f xs)"

lemma fold_opt_append: "fold_opt f (xs @ ys) s = Option.bind (fold_opt f xs s) (fold_opt f ys)"
  by (induction xs arbitrary: s) (simp_all split: Option.bind_split)

section \<open>Codecs\<close>

text \<open>The contract of a pair of functions of which the second parses what the first prints, on the
  inputs that satisfy \<open>valid\<close>. Encryption, hexadecimal transport, the Unicode encodings and the
  textual formats are codecs; two of them in a row are again one.\<close>

locale codec =
  fixes valid :: "'a \<Rightarrow> bool"
    and encode :: "'a \<Rightarrow> 'b"
    and decode :: "'b \<Rightarrow> 'a option"
  assumes decode_encode: "valid x \<Longrightarrow> decode (encode x) = Some x"
begin

lemma encode_inject: "valid x \<Longrightarrow> valid y \<Longrightarrow> encode x = encode y \<longleftrightarrow> x = y"
  by (metis decode_encode option.inject)

lemma encode_inj_on: "inj_on encode (Collect valid)"
  by (auto simp: inj_on_def encode_inject)

lemma map_decode_encode:
  "list_all valid xs \<Longrightarrow> those (map (\<lambda>x. decode (encode x)) xs) = Some xs"
  by (induction xs) (simp_all add: decode_encode)

end

locale codec_chain =
  outer: codec valid encode decode + inner: codec valid' encode' decode'
  for valid :: "'a \<Rightarrow> bool" and encode :: "'a \<Rightarrow> 'b" and decode :: "'b \<Rightarrow> 'a option"
    and valid' :: "'b \<Rightarrow> bool" and encode' :: "'b \<Rightarrow> 'c" and decode' :: "'c \<Rightarrow> 'b option" +
  assumes encode_valid: "valid x \<Longrightarrow> valid' (encode x)"
begin

lemma chain_decode_encode:
  "valid x \<Longrightarrow> Option.bind (decode' (encode' (encode x))) decode = Some x"
  by (simp add: inner.decode_encode outer.decode_encode encode_valid)

end

sublocale codec_chain \<subseteq> chain: codec valid "\<lambda>x. encode' (encode x)" "\<lambda>y. Option.bind (decode' y) decode"
  by unfold_locales (rule chain_decode_encode)

end
