(* ===== verification/Cpp_Std.thy ===== *)
theory Cpp_Std
  imports Prelude
begin

text \<open>
  The part of the C++ standard library the components use, in the C locale: the character classes
  of \<open>cctype\<close>, \<open>std::string::find\<close> and \<open>rfind\<close>, the decimal printing of integers, and the
  prefix parsers behind \<open>strtoll\<close>, \<open>stoi\<close> and \<open>stoul\<close>. A \<open>char\<close> is a byte; \<open>npos\<close> is \<open>None\<close>.
\<close>

section \<open>Character classes\<close>

abbreviation code :: "char \<Rightarrow> nat" where
  "code c \<equiv> of_char c"

definition isspace :: "char \<Rightarrow> bool" where
  "isspace c \<longleftrightarrow> code c = 32 \<or> 9 \<le> code c \<and> code c \<le> 13"

definition isdigit :: "char \<Rightarrow> bool" where
  "isdigit c \<longleftrightarrow> 48 \<le> code c \<and> code c \<le> 57"

definition isupper :: "char \<Rightarrow> bool" where
  "isupper c \<longleftrightarrow> 65 \<le> code c \<and> code c \<le> 90"

definition islower :: "char \<Rightarrow> bool" where
  "islower c \<longleftrightarrow> 97 \<le> code c \<and> code c \<le> 122"

definition isalnum :: "char \<Rightarrow> bool" where
  "isalnum c \<longleftrightarrow> isdigit c \<or> isupper c \<or> islower c"

definition tolower :: "char \<Rightarrow> char" where
  "tolower c = (if isupper c then char_of (code c + 32) else c)"

definition toupper :: "char \<Rightarrow> char" where
  "toupper c = (if islower c then char_of (code c - 32) else c)"

lemma code_char_of [simp]: "n < 256 \<Longrightarrow> code (char_of n) = n"
  by simp

lemma tolower_code: "code (tolower c) = (if isupper c then code c + 32 else code c)"
  by (simp add: tolower_def isupper_def)

lemma toupper_code: "code (toupper c) = (if islower c then code c - 32 else code c)"
  by (auto simp: toupper_def islower_def)

lemma char_eq_code: "c = d \<longleftrightarrow> code c = code d"
  by simp

lemma tolower_idem [simp]: "tolower (tolower c) = tolower c"
  unfolding char_eq_code tolower_code by (auto simp: isupper_def tolower_code)

lemma toupper_tolower [simp]: "toupper (tolower c) = toupper c"
  unfolding char_eq_code toupper_code tolower_code
  by (auto simp: isupper_def islower_def tolower_code)

lemma tolower_toupper [simp]: "tolower (toupper c) = tolower c"
  unfolding char_eq_code toupper_code tolower_code
  by (auto simp: isupper_def islower_def toupper_code)

text \<open>A \<open>char\<close> as an unsigned byte and back.\<close>

definition byte_of_char :: "char \<Rightarrow> uint8" where
  "byte_of_char c = word_of_nat (code c)"

definition char_of_byte :: "uint8 \<Rightarrow> char" where
  "char_of_byte b = char_of (unat b)"

lemma char_byte_char [simp]: "char_of_byte (byte_of_char c) = c"
proof -
  have "unat (byte_of_char c) = code c"
    by (simp add: byte_of_char_def unat_of_nat take_bit_nat_def of_char_mod_256)
  then show ?thesis by (simp add: char_of_byte_def)
qed

lemma byte_char_byte [simp]: "byte_of_char (char_of_byte b) = b"
proof -
  have "unat b < 256" using unsigned_less [of b] by simp
  then show ?thesis by (simp add: byte_of_char_def char_of_byte_def)
qed

section \<open>Searching\<close>

text \<open>\<open>std::basic_string::find(needle, pos)\<close>: the least index from \<open>pos\<close> on where the needle
  occurs; \<open>rfind(needle)\<close>: the greatest.\<close>

fun find_in :: "'a list \<Rightarrow> 'a list \<Rightarrow> nat option" where
  "find_in needle [] = (if needle = [] then Some 0 else None)"
| "find_in needle (x # xs) =
     (if take (length needle) (x # xs) = needle then Some 0
      else map_option Suc (find_in needle xs))"

definition find_from :: "'a list \<Rightarrow> 'a list \<Rightarrow> nat \<Rightarrow> nat option" where
  "find_from s needle pos =
     (if pos \<le> length s then map_option (\<lambda>i. pos + i) (find_in needle (drop pos s)) else None)"

fun rfind_in :: "'a list \<Rightarrow> 'a list \<Rightarrow> nat option" where
  "rfind_in needle [] = (if needle = [] then Some 0 else None)"
| "rfind_in needle (x # xs) =
     (case rfind_in needle xs of
        Some i \<Rightarrow> Some (Suc i)
      | None \<Rightarrow> if take (length needle) (x # xs) = needle then Some 0 else None)"

definition occurs_at :: "'a list \<Rightarrow> 'a list \<Rightarrow> nat \<Rightarrow> bool" where
  "occurs_at needle s i \<longleftrightarrow> i \<le> length s \<and> take (length needle) (drop i s) = needle"

lemma occurs_at_simps [simp]:
  "occurs_at needle s 0 \<longleftrightarrow> take (length needle) s = needle"
  "occurs_at needle (x # s) (Suc i) \<longleftrightarrow> occurs_at needle s i"
  "\<not> occurs_at needle [] (Suc i)"
  by (auto simp: occurs_at_def)

lemma occurs_at_length: "occurs_at needle s i \<Longrightarrow> i + length needle \<le> length s"
  by (auto simp: occurs_at_def dest: arg_cong [where f = length])

lemma occurs_atD: "occurs_at needle s i \<Longrightarrow> s = take i s @ needle @ drop (i + length needle) s"
  by (metis append_take_drop_id drop_drop occurs_at_def add.commute)

lemma occurs_at_append [simp]: "occurs_at needle (a @ needle @ b) (length a)"
  by (simp add: occurs_at_def)

lemma find_in_Some:
  "find_in needle s = Some i \<longleftrightarrow> occurs_at needle s i \<and> (\<forall>j < i. \<not> occurs_at needle s j)"
proof (induction s arbitrary: i)
  case Nil
  then show ?case by (cases i) (auto simp: occurs_at_def)
next
  case (Cons x s)
  show ?case
  proof (cases i)
    case 0
    then show ?thesis by auto
  next
    case (Suc k)
    then show ?thesis using Cons [of k] by (auto simp: less_Suc_eq_0_disj)
  qed
qed

lemma find_in_None: "find_in needle s = None \<longleftrightarrow> (\<forall>i. \<not> occurs_at needle s i)"
proof (induction s)
  case Nil
  have "occurs_at needle [] 0 \<longleftrightarrow> needle = []" by auto
  then show ?case by (auto simp: occurs_at_def)
next
  case (Cons x s)
  have "(\<forall>i. \<not> occurs_at needle (x # s) i) \<longleftrightarrow>
      \<not> occurs_at needle (x # s) 0 \<and> (\<forall>i. \<not> occurs_at needle s i)"
    by (metis not0_implies_Suc occurs_at_simps(2))
  with Cons show ?case by auto
qed

lemma rfind_in_None: "rfind_in needle s = None \<longleftrightarrow> (\<forall>i. \<not> occurs_at needle s i)"
proof (induction s)
  case Nil
  have "occurs_at needle [] 0 \<longleftrightarrow> needle = []" by auto
  then show ?case by (auto simp: occurs_at_def)
next
  case (Cons x s)
  have "(\<forall>i. \<not> occurs_at needle (x # s) i) \<longleftrightarrow>
      \<not> occurs_at needle (x # s) 0 \<and> (\<forall>i. \<not> occurs_at needle s i)"
    by (metis not0_implies_Suc occurs_at_simps(2))
  with Cons show ?case by (auto split: option.splits)
qed

lemma rfind_in_Some:
  "rfind_in needle s = Some i \<longleftrightarrow> occurs_at needle s i \<and> (\<forall>j > i. \<not> occurs_at needle s j)"
proof (induction s arbitrary: i)
  case Nil
  show ?case by (cases i) (auto simp: occurs_at_def)
next
  case (Cons x s)
  show ?case
  proof (cases "rfind_in needle s")
    case None
    then have no: "\<not> occurs_at needle s j" for j by (simp add: rfind_in_None)
    then have "\<not> occurs_at needle (x # s) (Suc j)" for j by simp
    then have "\<not> occurs_at needle (x # s) j" if "j > 0" for j using that by (cases j) auto
    then show ?thesis using None by (cases i) (auto simp: no)
  next
    case (Some k)
    then have k: "occurs_at needle s k" "\<forall>j > k. \<not> occurs_at needle s j"
      using Cons [of k] by auto
    have "rfind_in needle (x # s) = Some (Suc k)" using Some by simp
    moreover have "occurs_at needle (x # s) i \<and> (\<forall>j > i. \<not> occurs_at needle (x # s) j) \<longleftrightarrow> i = Suc k"
      using k by (metis Suc_lessE Suc_mono linorder_neqE_nat occurs_at_simps(2) old.nat.exhaust zero_less_Suc)
    ultimately show ?thesis by auto
  qed
qed

section \<open>Decimal printing\<close>

definition digit_char :: "nat \<Rightarrow> char" where
  "digit_char d = char_of (48 + d)"

fun show_nat :: "nat \<Rightarrow> string" where
  "show_nat n = (if n < 10 then [digit_char n] else show_nat (n div 10) @ [digit_char (n mod 10)])"

declare show_nat.simps [simp del]

definition to_string :: "int \<Rightarrow> string" where
  "to_string i = (if i < 0 then CHR ''-'' # show_nat (nat (- i)) else show_nat (nat i))"

text \<open>The value of a digit string in a base up to 36, \<open>None\<close> for a character that is no digit.\<close>

definition digit_value :: "nat \<Rightarrow> char \<Rightarrow> nat option" where
  "digit_value base c =
     (let v = (if isdigit c then code c - 48
               else if islower c then code c - 87
               else if isupper c then code c - 55
               else base)
      in if v < base then Some v else None)"

definition digits_value :: "nat \<Rightarrow> string \<Rightarrow> nat" where
  "digits_value base s = foldl (\<lambda>acc c. acc * base + the (digit_value base c)) 0 s"

lemma digit_value_char: "d < 10 \<Longrightarrow> digit_value 10 (digit_char d) = Some d"
  by (simp add: digit_value_def digit_char_def isdigit_def)

lemma isdigit_digit_char [simp]: "d < 10 \<Longrightarrow> isdigit (digit_char d)"
  by (simp add: digit_char_def isdigit_def)

lemma show_nat_digits: "\<forall>c \<in> set (show_nat n). isdigit c"
proof (induction n rule: show_nat.induct)
  case (1 n)
  then show ?case by (subst show_nat.simps) auto
qed

lemma show_nat_not_Nil [simp]: "show_nat n \<noteq> []"
  by (subst show_nat.simps) simp

lemma digits_value_show_nat: "digits_value 10 (show_nat n) = n"
proof (induction n rule: show_nat.induct)
  case (1 n)
  then show ?case
    by (subst show_nat.simps) (auto simp: digits_value_def digit_value_char)
qed

lemma show_nat_inject: "show_nat m = show_nat n \<longleftrightarrow> m = n"
  by (metis digits_value_show_nat)


section \<open>strtoul\<close>

text \<open>The sign and digits that \<open>strtol\<close> and its kin read: optional white space, an optional sign
  and, for base 16, an optional \<open>0x\<close> that is taken only before a digit. The result is the sign, the
  digits and the rest of the string.\<close>

definition is_digit_in :: "nat \<Rightarrow> char \<Rightarrow> bool" where
  "is_digit_in base c \<longleftrightarrow> digit_value base c \<noteq> None"

definition split_sign :: "string \<Rightarrow> bool \<times> string" where
  "split_sign s = (case s of
      [] \<Rightarrow> (False, [])
    | c # cs \<Rightarrow> if c = CHR ''-'' then (True, cs) else if c = CHR ''+'' then (False, cs) else (False, s))"

definition split_hex_prefix :: "string \<Rightarrow> string" where
  "split_hex_prefix s = (case s of
      c0 # x # d # cs \<Rightarrow>
        if c0 = CHR ''0'' \<and> (x = CHR ''x'' \<or> x = CHR ''X'') \<and> is_digit_in 16 d then d # cs else s
    | _ \<Rightarrow> s)"

definition scan_int :: "nat \<Rightarrow> string \<Rightarrow> bool \<times> string \<times> string" where
  "scan_int base s =
     (let (neg, s1) = split_sign (dropWhile isspace s);
          s2 = (if base = 16 then split_hex_prefix s1 else s1)
      in (neg, takeWhile (is_digit_in base) s2, dropWhile (is_digit_in base) s2))"

text \<open>\<open>std::stoul(s, nullptr, base)\<close>: \<open>None\<close> is \<open>invalid_argument\<close> or \<open>out_of_range\<close>; a negative
  number is negated in the 64-bit unsigned type.\<close>

definition stoul :: "nat \<Rightarrow> string \<Rightarrow> nat option" where
  "stoul base s =
     (let (neg, ds, rest) = scan_int base s; v = digits_value base ds
      in if ds = [] \<or> v \<ge> 2 ^ 64 then None
         else Some (if neg then (2 ^ 64 - v) mod 2 ^ 64 else v))"

section \<open>stoi\<close>

text \<open>\<open>std::stoi\<close> and \<open>std::stoll\<close>: \<open>None\<close> is the exception.\<close>

definition sto_signed :: "nat \<Rightarrow> string \<Rightarrow> int option" where
  "sto_signed bits s =
     (let (neg, ds, rest) = scan_int 10 s; v = int (digits_value 10 ds); x = (if neg then - v else v)
      in if ds = [] \<or> x < - (2 ^ (bits - 1)) \<or> x \<ge> 2 ^ (bits - 1) then None else Some x)"

lemma digit_plain: "isdigit c \<Longrightarrow> \<not> isspace c \<and> c \<noteq> CHR ''-'' \<and> c \<noteq> CHR ''+''"
  by (auto simp: isdigit_def isspace_def)

lemma is_digit_in_10: "is_digit_in 10 c \<longleftrightarrow> isdigit c"
  by (auto simp: is_digit_in_def digit_value_def isdigit_def islower_def isupper_def Let_def)

lemma show_nat_all: "list_all isdigit (show_nat n)"
  using show_nat_digits by (simp add: list_all_iff)

lemma show_nat_takeWhile:
  "takeWhile (is_digit_in 10) (show_nat n) = show_nat n" "dropWhile (is_digit_in 10) (show_nat n) = []"
  using show_nat_digits [of n] by (simp_all add: is_digit_in_10)

lemma to_string_chars:
  "c \<in> set (to_string i) \<Longrightarrow> isdigit c \<or> c = CHR ''-''"
  using show_nat_digits by (auto simp: to_string_def split: if_splits)

lemma to_string_split:
  "split_sign (dropWhile isspace (to_string i)) = (i < 0, show_nat (nat \<bar>i\<bar>))"
proof -
  obtain d ds where sn: "show_nat (nat \<bar>i\<bar>) = d # ds" by (cases "show_nat (nat \<bar>i\<bar>)") simp_all
  have "isdigit d" using show_nat_digits [of "nat \<bar>i\<bar>"] sn by simp
  note d = digit_plain [OF this]
  show ?thesis
  proof (cases "i < 0")
    case True
    then show ?thesis by (simp add: to_string_def split_sign_def isspace_def)
  next
    case False
    then have "to_string i = d # ds" using sn by (simp add: to_string_def)
    then show ?thesis using False d sn by (simp add: split_sign_def)
  qed
qed

lemma scan_int_to_string: "scan_int 10 (to_string i) = (i < 0, show_nat (nat \<bar>i\<bar>), [])"
  by (simp add: scan_int_def to_string_split show_nat_takeWhile)

lemma sto_signed_to_string:
  assumes "- (2 ^ (bits - 1)) \<le> i" "i < 2 ^ (bits - 1)"
  shows "sto_signed bits (to_string i) = Some i"
  using assms by (simp add: sto_signed_def scan_int_to_string digits_value_show_nat Let_def)

end
