(* ===== verification/Weekly_Schedule.thy ===== *)
theory Weekly_Schedule
  imports Prelude "HOL-Library.Signed_Division" "HOL-Library.Product_Lexorder"
begin

text \<open>
  The weekly scheduler: \<open>include/j2_library/schedule/weekly/schedule_types.hpp\<close>,
  \<open>scheduler.cpp\<close> (\<open>add_range\<close>, \<open>is_active_at_tm\<close>, \<open>is_active_now\<close>) and
  \<open>schedule_normalizer.cpp\<close>. The state of a \<open>scheduler\<close> is its list of ranges; a range is a
  pair of (weekday, hour, minute) points, the end point included.

  A C++ \<open>int\<close> or \<open>long long\<close> is an \<open>int\<close> here: no arithmetic of this component leaves the
  32-bit range for hours and minutes below ten million in absolute value. The C++ operators
  \<open>/\<close> and \<open>%\<close> truncate towards zero and are \<open>sdiv\<close> and \<open>smod\<close>.

  The abstract specification is \<open>covers r t\<close>: the minute \<open>t\<close> of the circular week lies in the
  arc of \<open>r\<close>. The lemmas show that \<open>add_range\<close> implements the union of arcs and keeps the stored
  ranges pairwise separated, that \<open>normalize\<close> keeps the answers of \<open>is_active_at_tm\<close>, and how
  \<open>is_active_at_tm\<close> relates to the arcs.
\<close>

section \<open>Types\<close>

datatype weekday = mon | tue | wed | thu | fri | sat | sun

fun day_index :: "weekday \<Rightarrow> int" where
  "day_index mon = 0"
| "day_index tue = 1"
| "day_index wed = 2"
| "day_index thu = 3"
| "day_index fri = 4"
| "day_index sat = 5"
| "day_index sun = 6"

text \<open>The cast from an integer to the enumeration, used on 0 to 6 only.\<close>

definition day_of_index :: "int \<Rightarrow> weekday" where
  "day_of_index i =
     (if i = 0 then mon else if i = 1 then tue else if i = 2 then wed else if i = 3 then thu
      else if i = 4 then fri else if i = 5 then sat else sun)"

record time_hm =
  hour :: int
  minute :: int

record weekly_range =
  start_day :: weekday
  start_time :: time_hm
  end_day :: weekday
  end_time :: time_hm

type_synonym weekly_ranges = "weekly_range list"

lemma day_index_bounds: "0 \<le> day_index d" "day_index d \<le> 6"
  by (cases d; simp)+

lemma day_of_index_inverse [simp]: "day_of_index (day_index d) = d"
  by (cases d) (simp_all add: day_of_index_def)

lemma day_index_of_index [simp]: "0 \<le> i \<Longrightarrow> i \<le> 6 \<Longrightarrow> day_index (day_of_index i) = i"
  by (auto simp: day_of_index_def)

lemma day_index_inject [simp]: "day_index a = day_index b \<longleftrightarrow> a = b"
  by (metis day_of_index_inverse)

section \<open>The operations of scheduler.cpp\<close>

abbreviation week_minutes :: int where
  "week_minutes \<equiv> 10080"

definition to_pair :: "weekly_range \<Rightarrow> int \<times> int" where
  "to_pair x =
     (let s = day_index (start_day x) * 1440 + hour (start_time x) * 60 + minute (start_time x);
          e = day_index (end_day x) * 1440 + hour (end_time x) * 60 + minute (end_time x)
      in if e < s then (s, e + week_minutes) else (s, e))"

text \<open>The inner loop over \<open>shift\<close>: the first shift whose copy of the old range overlaps or is
  adjacent to the accumulated one extends it; then the loop breaks.\<close>

fun merge_shifts :: "int list \<Rightarrow> int \<Rightarrow> int \<Rightarrow> int \<Rightarrow> int \<Rightarrow> (int \<times> int) option" where
  "merge_shifts [] es0 ee0 new_s new_e = None"
| "merge_shifts (shift # shifts) es0 ee0 new_s new_e =
     (let shiftv = shift * week_minutes; es = es0 + shiftv; ee = ee0 + shiftv
      in if es \<le> new_e + 1 \<and> ee \<ge> new_s - 1 then Some (min new_s es, max new_e ee)
         else merge_shifts shifts es0 ee0 new_s new_e)"

definition try_merge :: "weekly_range \<Rightarrow> int \<Rightarrow> int \<Rightarrow> (int \<times> int) option" where
  "try_merge x new_s new_e =
     (let (es0, ee0) = to_pair x in merge_shifts [-1, 0, 1] es0 ee0 new_s new_e)"

text \<open>The first loop over the stored ranges; the flag of an element is \<open>removed[i]\<close>.\<close>

fun first_pass :: "weekly_ranges \<Rightarrow> int \<Rightarrow> int \<Rightarrow> (weekly_range \<times> bool) list \<times> int \<times> int" where
  "first_pass [] new_s new_e = ([], new_s, new_e)"
| "first_pass (x # xs) new_s new_e =
     (case try_merge x new_s new_e of
        Some (s, e) \<Rightarrow> (let (ys, s', e') = first_pass xs s e in ((x, True) # ys, s', e'))
      | None \<Rightarrow> (let (ys, s', e') = first_pass xs new_s new_e in ((x, False) # ys, s', e')))"

text \<open>One round of the \<open>while (changed)\<close> loop, which skips removed elements.\<close>

fun merge_pass :: "(weekly_range \<times> bool) list \<Rightarrow> int \<Rightarrow> int \<Rightarrow> bool
    \<Rightarrow> (weekly_range \<times> bool) list \<times> int \<times> int \<times> bool" where
  "merge_pass [] new_s new_e changed = ([], new_s, new_e, changed)"
| "merge_pass ((x, removed) # xs) new_s new_e changed =
     (if removed
      then (let (ys, s', e', c') = merge_pass xs new_s new_e changed in ((x, True) # ys, s', e', c'))
      else case try_merge x new_s new_e of
        Some (s, e) \<Rightarrow> (let (ys, s', e', c') = merge_pass xs s e True in ((x, True) # ys, s', e', c'))
      | None \<Rightarrow>
          (let (ys, s', e', c') = merge_pass xs new_s new_e changed in ((x, False) # ys, s', e', c')))"

abbreviation kept_count :: "(weekly_range \<times> bool) list \<Rightarrow> nat" where
  "kept_count xs \<equiv> length (filter (\<lambda>p. \<not> snd p) xs)"

lemma merge_pass_kept:
  "merge_pass xs s e c = (ys, s', e', c') \<Longrightarrow>
     kept_count ys \<le> kept_count xs \<and> (c' \<and> \<not> c \<longrightarrow> kept_count ys < kept_count xs)"
proof (induction xs s e c arbitrary: ys s' e' c' rule: merge_pass.induct)
  case (2 x removed xs new_s new_e changed)
  then show ?case
    by (fastforce split: if_splits option.splits prod.splits)
qed simp

function merge_loop :: "(weekly_range \<times> bool) list \<Rightarrow> int \<Rightarrow> int
    \<Rightarrow> (weekly_range \<times> bool) list \<times> int \<times> int" where
  "merge_loop xs new_s new_e =
     (let (ys, s, e, changed) = merge_pass xs new_s new_e False
      in if changed then merge_loop ys s e else (ys, s, e))"
  by pat_completeness auto
termination
  by (relation "measure (\<lambda>(xs, s, e). kept_count xs)")
    (auto dest!: sym [of "(_, _, _, True)"] sym [of _ "merge_pass _ _ _ _"] merge_pass_kept)

declare merge_loop.simps [simp del]

definition merged_range :: "int \<Rightarrow> int \<Rightarrow> weekly_range" where
  "merged_range new_s new_e =
     (let span = new_e - new_s in
      if span + 1 \<ge> week_minutes
      then \<lparr>start_day = mon, start_time = \<lparr>hour = 0, minute = 0\<rparr>,
            end_day = sun, end_time = \<lparr>hour = 23, minute = 59\<rparr>\<rparr>
      else let s_mod = ((new_s smod week_minutes) + week_minutes) smod week_minutes;
               e_mod = ((new_e smod week_minutes) + week_minutes) smod week_minutes;
               ms = s_mod smod 1440;
               me = e_mod smod 1440
           in \<lparr>start_day = day_of_index (s_mod sdiv 1440),
               start_time = \<lparr>hour = ms sdiv 60, minute = ms smod 60\<rparr>,
               end_day = day_of_index (e_mod sdiv 1440),
               end_time = \<lparr>hour = me sdiv 60, minute = me smod 60\<rparr>\<rparr>)"

definition add_range :: "weekly_ranges \<Rightarrow> weekly_range \<Rightarrow> weekly_ranges" where
  "add_range ranges r =
     (let (new_s, new_e) = to_pair r;
          (xs, s1, e1) = first_pass ranges new_s new_e;
          (ys, s2, e2) = merge_loop xs s1 e1
      in map fst (filter (\<lambda>p. \<not> snd p) ys) @ [merged_range s2 e2])"

text \<open>The fields of \<open>std::tm\<close> that the scheduler reads; \<open>tm_wday\<close> counts from Sunday.\<close>

record tm_fields =
  tm_wday :: int
  tm_hour :: int
  tm_min :: int

definition range_active :: "int \<Rightarrow> int \<Rightarrow> weekly_range \<Rightarrow> bool" where
  "range_active now_day now_min r =
     (let sd = day_index (start_day r);
          ed = day_index (end_day r);
          sm = hour (start_time r) * 60 + minute (start_time r);
          em = hour (end_time r) * 60 + minute (end_time r);
          day_match = (sd \<le> ed \<and> now_day \<ge> sd \<and> now_day \<le> ed) \<or>
                      (sd > ed \<and> (now_day \<ge> sd \<or> now_day \<le> ed))
      in if \<not> day_match then False
         else if sd = ed then now_min \<ge> sm \<and> now_min \<le> em
         else if now_day = sd then now_min \<ge> sm
         else if now_day = ed then now_min \<le> em
         else True)"

definition is_active_at_tm :: "weekly_ranges \<Rightarrow> tm_fields \<Rightarrow> bool" where
  "is_active_at_tm ranges tm =
     (let now_day = (tm_wday tm + 6) smod 7;
          now_min = tm_hour tm * 60 + tm_min tm
      in list_ex (range_active now_day now_min) ranges)"


section \<open>The specification: arcs of the circular week\<close>

definition in_arc :: "int \<times> int \<Rightarrow> int \<Rightarrow> bool" where
  "in_arc p t \<longleftrightarrow> (t - fst p) mod week_minutes \<le> snd p - fst p"

definition covers :: "weekly_range \<Rightarrow> int \<Rightarrow> bool" where
  "covers r t \<longleftrightarrow> in_arc (to_pair r) t"

definition covered :: "weekly_ranges \<Rightarrow> int \<Rightarrow> bool" where
  "covered rs t \<longleftrightarrow> list_ex (\<lambda>r. covers r t) rs"

definition valid_time :: "time_hm \<Rightarrow> bool" where
  "valid_time x \<longleftrightarrow> 0 \<le> hour x \<and> hour x < 24 \<and> 0 \<le> minute x \<and> minute x < 60"

definition valid_range :: "weekly_range \<Rightarrow> bool" where
  "valid_range r \<longleftrightarrow> valid_time (start_time r) \<and> valid_time (end_time r)"

text \<open>Two arcs touch when a copy of one overlaps the other or is adjacent to it.\<close>

definition touching :: "int \<times> int \<Rightarrow> int \<times> int \<Rightarrow> bool" where
  "touching p q \<longleftrightarrow>
     (\<exists>k. fst q + k * week_minutes \<le> snd p + 1 \<and> snd q + k * week_minutes \<ge> fst p - 1)"

lemma in_arc_iff:
  assumes "s \<le> e"
  shows "in_arc (s, e) t \<longleftrightarrow> (\<exists>k. s \<le> t + k * week_minutes \<and> t + k * week_minutes \<le> e)"
proof
  assume a: "in_arc (s, e) t"
  let ?k = "- ((t - s) div week_minutes)"
  have "t + ?k * week_minutes = s + (t - s) mod week_minutes"
    using div_mult_mod_eq [of "t - s" week_minutes] by linarith
  with a show "\<exists>k. s \<le> t + k * week_minutes \<and> t + k * week_minutes \<le> e"
    by (intro exI [of _ ?k]) (simp add: in_arc_def)
next
  assume "\<exists>k. s \<le> t + k * week_minutes \<and> t + k * week_minutes \<le> e"
  then obtain k where k: "s \<le> t + k * week_minutes" "t + k * week_minutes \<le> e" by blast
  have "(t - s) mod week_minutes = (t + k * week_minutes - s) mod week_minutes"
    by (metis add_diff_eq diff_add_eq mod_mult_self2 mult.commute)
  also have "\<dots> \<le> t + k * week_minutes - s"
    using k(1) by (simp add: zmod_le_nonneg_dividend)
  finally show "in_arc (s, e) t" using k(2) by (simp add: in_arc_def)
qed

lemma in_arc_shift: "in_arc (s + k * week_minutes, e + k * week_minutes) t \<longleftrightarrow> in_arc (s, e) t"
proof -
  have "(t - (s + k * week_minutes)) mod week_minutes = (t - s) mod week_minutes"
    by (metis diff_diff_eq mod_mult_self3 uminus_add_conv_diff mult_minus_left diff_conv_add_uminus mod_mult_self1)
  then show ?thesis by (simp add: in_arc_def)
qed

lemma in_arc_union:
  assumes "s \<le> e" "s' \<le> e'" "s' \<le> e + 1" "e' \<ge> s - 1"
  shows "in_arc (min s s', max e e') t \<longleftrightarrow> in_arc (s, e) t \<or> in_arc (s', e') t"
proof -
  have "x \<le> e \<and> s \<le> x \<or> x \<le> e' \<and> s' \<le> x \<longleftrightarrow> min s s' \<le> x \<and> x \<le> max e e'" for x
    using assms by auto
  then show ?thesis
    using assms by (auto simp: in_arc_iff)
qed

lemma merge_shifts_Some:
  assumes "merge_shifts shs es ee s e = Some (s', e')" "s \<le> e" "es \<le> ee"
  shows "s' \<le> s \<and> e \<le> e' \<and> (in_arc (s', e') t \<longleftrightarrow> in_arc (s, e) t \<or> in_arc (es, ee) t)"
  using assms
proof (induction shs)
  case (Cons sh shs)
  show ?case
  proof (cases "es + sh * week_minutes \<le> e + 1 \<and> ee + sh * week_minutes \<ge> s - 1")
    case True
    then have "in_arc (s', e') t \<longleftrightarrow> in_arc (s, e) t \<or> in_arc (es, ee) t"
      using Cons.prems in_arc_union [of s e "es + sh * week_minutes" "ee + sh * week_minutes" t]
        in_arc_shift [of es sh ee t] by (auto simp: Let_def)
    with True show ?thesis using Cons.prems by (auto simp: Let_def)
  next
    case False
    then show ?thesis using Cons by (auto simp: Let_def split: if_splits)
  qed
qed simp

lemma to_pair_le: "valid_range r \<Longrightarrow> fst (to_pair r) \<le> snd (to_pair r)"
  using day_index_bounds [of "start_day r"] day_index_bounds [of "end_day r"]
  by (auto simp: to_pair_def valid_range_def valid_time_def Let_def)

lemma to_pair_bounds:
  assumes "valid_range r"
  shows "0 \<le> fst (to_pair r)" "fst (to_pair r) < week_minutes"
    "snd (to_pair r) < fst (to_pair r) + week_minutes"
  using assms day_index_bounds [of "start_day r"] day_index_bounds [of "end_day r"]
  by (auto simp: to_pair_def valid_range_def valid_time_def Let_def)

lemma try_merge_Some:
  assumes "try_merge r s e = Some (s', e')" "s \<le> e" "valid_range r"
  shows "s' \<le> s" "e \<le> e'" "in_arc (s', e') t \<longleftrightarrow> in_arc (s, e) t \<or> covers r t"
  using assms merge_shifts_Some [of "[-1,0,1]" "fst (to_pair r)" "snd (to_pair r)" s e s' e' t]
    to_pair_le [of r]
  by (auto simp: try_merge_def covers_def split: prod.splits simp del: merge_shifts.simps)

lemma try_merge_None:
  assumes none: "try_merge r s e = None" and v: "valid_range r" and s: "s < week_minutes" and e: "0 \<le> e"
  shows "\<not> touching (s, e) (to_pair r)"
proof
  obtain es ee where p: "to_pair r = (es, ee)" by (cases "to_pair r")
  have b: "0 \<le> es" "es < week_minutes" "es \<le> ee"
    using to_pair_bounds [OF v] to_pair_le [OF v] p by auto
  have no: "\<not> (es + k * week_minutes \<le> e + 1 \<and> ee + k * week_minutes \<ge> s - 1)"
    if "k = -1 \<or> k = 0 \<or> k = 1" for k
    using none that unfolding try_merge_def p by (auto simp: Let_def split: if_splits)
  assume "touching (s, e) (to_pair r)"
  then obtain k where k: "es + k * week_minutes \<le> e + 1" "ee + k * week_minutes \<ge> s - 1"
    by (auto simp: touching_def p)
  have "k \<ge> 2 \<or> k \<le> -2" using no [of k] k by force
  then show False
  proof
    assume "k \<ge> 2"
    then show False using no [of 1] k b s by simp
  next
    assume "k \<le> -2"
    then show False using no [of "-1"] k b e by simp
  qed
qed


section \<open>Coverage of a flagged list\<close>

definition kept_covers :: "(weekly_range \<times> bool) list \<Rightarrow> int \<Rightarrow> bool" where
  "kept_covers xs t \<longleftrightarrow> (\<exists>(r, removed) \<in> set xs. \<not> removed \<and> covers r t)"

lemma kept_covers_simps [simp]:
  "\<not> kept_covers [] t"
  "kept_covers ((r, f) # xs) t \<longleftrightarrow> (\<not> f \<and> covers r t) \<or> kept_covers xs t"
  by (auto simp: kept_covers_def)

lemma first_pass_is_merge_pass:
  "\<exists>c'. merge_pass (map (\<lambda>x. (x, False)) xs) s e c =
     (fst (first_pass xs s e), fst (snd (first_pass xs s e)), snd (snd (first_pass xs s e)), c')"
proof (induction xs arbitrary: s e c)
  case (Cons x xs)
  show ?case
  proof (cases "try_merge x s e")
    case None
    obtain c' where "merge_pass (map (\<lambda>x. (x, False)) xs) s e c =
        (fst (first_pass xs s e), fst (snd (first_pass xs s e)), snd (snd (first_pass xs s e)), c')"
      using Cons by blast
    with None show ?thesis by (simp add: case_prod_unfold Let_def)
  next
    case (Some p)
    obtain s1 e1 where p: "p = (s1, e1)" by (cases p)
    obtain c' where "merge_pass (map (\<lambda>x. (x, False)) xs) s1 e1 True =
        (fst (first_pass xs s1 e1), fst (snd (first_pass xs s1 e1)),
         snd (snd (first_pass xs s1 e1)), c')"
      using Cons by blast
    with Some p show ?thesis by (simp add: case_prod_unfold Let_def)
  qed
qed simp

lemma merge_pass_props:
  assumes "merge_pass xs s e c = (ys, s', e', c')" "s \<le> e" "\<forall>r \<in> fst ` set xs. valid_range r"
  shows "map fst ys = map fst xs \<and> s' \<le> s \<and> e \<le> e' \<and>
    (in_arc (s', e') t \<or> kept_covers ys t \<longleftrightarrow> in_arc (s, e) t \<or> kept_covers xs t)"
  using assms
proof (induction xs arbitrary: s e c ys s' e' c')
  case (Cons y xs)
  obtain x f where y: "y = (x, f)" by (cases y)
  show ?case
  proof (cases "f \<or> try_merge x s e = None")
    case True
    obtain zs s2 e2 c2 where r: "merge_pass xs s e c = (zs, s2, e2, c2)"
      by (cases "merge_pass xs s e c") auto
    with True Cons.prems(1) have "ys = (x, f) # zs" "s' = s2" "e' = e2"
      by (cases f; simp add: y)+
    with Cons.IH [OF r] Cons.prems(2,3) show ?thesis by (auto simp: y)
  next
    case False
    then obtain s1 e1 where t: "\<not> f" "try_merge x s e = Some (s1, e1)" by auto
    have m: "s1 \<le> s" "e \<le> e1" "in_arc (s1, e1) t \<longleftrightarrow> in_arc (s, e) t \<or> covers x t"
      using try_merge_Some [OF t(2)] Cons.prems(2,3) by (auto simp: y)
    obtain zs s2 e2 c2 where r: "merge_pass xs s1 e1 True = (zs, s2, e2, c2)"
      by (cases "merge_pass xs s1 e1 True") auto
    with t Cons.prems(1) have ys: "ys = (x, True) # zs" "s' = s2" "e' = e2" by (auto simp: y)
    have "map fst zs = map fst xs \<and> s2 \<le> s1 \<and> e1 \<le> e2 \<and>
      (in_arc (s2, e2) t \<or> kept_covers zs t \<longleftrightarrow> in_arc (s1, e1) t \<or> kept_covers xs t)"
      using Cons.IH [OF r] m Cons.prems(2,3) by auto
    with ys m t show ?thesis by (auto simp: y)
  qed
qed simp

lemma merge_pass_changed: "merge_pass xs s e True = (ys, s', e', c') \<Longrightarrow> c'"
proof (induction xs arbitrary: s e ys s' e')
  case (Cons y xs)
  obtain x f where y: "y = (x, f)" by (cases y)
  from Cons show ?case
    by (cases f; cases "try_merge x s e") (auto simp: y Let_def split: prod.splits)
qed simp

lemma merge_pass_unchanged:
  assumes "merge_pass xs s e c = (ys, s', e', False)"
  shows "ys = xs \<and> s' = s \<and> e' = e \<and> (\<forall>r. (r, False) \<in> set xs \<longrightarrow> try_merge r s e = None)"
  using assms
proof (induction xs arbitrary: ys s' e')
  case (Cons y xs)
  obtain x f where y: "y = (x, f)" by (cases y)
  show ?case
  proof (cases "try_merge x s e")
    case None
    with Cons show ?thesis by (cases f) (auto simp: y Let_def split: prod.splits)
  next
    case (Some p)
    with Cons show ?thesis
      by (cases f; cases p) (auto simp: y Let_def split: prod.splits dest!: merge_pass_changed)
  qed
qed simp

lemma merge_loop_props:
  assumes "merge_loop xs s e = (ys, s', e')" "s \<le> e" "\<forall>r \<in> fst ` set xs. valid_range r"
  shows "map fst ys = map fst xs \<and> s' \<le> s \<and> e \<le> e' \<and>
    (in_arc (s', e') t \<or> kept_covers ys t \<longleftrightarrow> in_arc (s, e) t \<or> kept_covers xs t) \<and>
    (\<forall>r. (r, False) \<in> set ys \<longrightarrow> try_merge r s' e' = None)"
  using assms
proof (induction xs s e arbitrary: ys s' e' rule: merge_loop.induct)
  case (1 xs s e)
  obtain zs s1 e1 c where r: "merge_pass xs s e False = (zs, s1, e1, c)"
    by (cases "merge_pass xs s e False") auto
  note p = merge_pass_props [OF r 1(3,4), of t]
  show ?case
  proof (cases c)
    case True
    with r 1(2) have l: "merge_loop zs s1 e1 = (ys, s', e')"
      by (simp add: merge_loop.simps [of xs s e])
    have v: "\<forall>r \<in> fst ` set zs. valid_range r"
      using p 1(4) by (metis list.set_map)
    show ?thesis
      using 1(1) [OF r [symmetric] refl refl refl True l _ v] p 1(3) by auto
  next
    case False
    with r 1(2) have "ys = zs" "s' = s1" "e' = e1"
      by (simp_all add: merge_loop.simps [of xs s e])
    with False p merge_pass_unchanged [of xs s e False zs s1 e1] r show ?thesis by auto
  qed
qed


section \<open>The merged range\<close>

lemma smod_pos [simp]: "0 \<le> a \<Longrightarrow> 0 < b \<Longrightarrow> a smod b = a mod b" for a b :: int
  by (simp add: signed_modulo_int_def sgn_if)

lemma sdiv_pos [simp]: "0 \<le> a \<Longrightarrow> 0 < b \<Longrightarrow> a sdiv b = a div b" for a b :: int
  by (simp add: signed_divide_int_def sgn_if)

lemma smod_neg: "a < 0 \<Longrightarrow> 0 < b \<Longrightarrow> a smod b = - (- a mod b)" for a b :: int
  by (simp add: signed_modulo_int_def sgn_if)

lemma smod_week: "((a smod week_minutes) + week_minutes) smod week_minutes = a mod week_minutes"
  for a :: int
proof (cases "0 \<le> a")
  case True
  then show ?thesis by simp
next
  case False
  have "0 \<le> - (- a mod week_minutes) + week_minutes"
    using pos_mod_bound [of week_minutes "- a"] by linarith
  with False have "((a smod week_minutes) + week_minutes) smod week_minutes
      = (- (- a mod week_minutes)) mod week_minutes"
    by (simp add: smod_neg)
  then show ?thesis by (simp add: mod_minus_eq)
qed

lemma mod_below_twice:
  "0 \<le> x \<Longrightarrow> x < 2 * w \<Longrightarrow> x mod w = (if x < w then x else x - w)" for x w :: int
proof -
  assume x: "0 \<le> x" "x < 2 * w"
  show ?thesis
  proof (cases "x < w")
    case False
    then have "(x - w) mod w = x - w" using x by (intro mod_pos_pos_trivial) auto
    then show ?thesis using False by simp
  qed (simp add: x mod_pos_pos_trivial)
qed

text \<open>Splitting a minute of the week into day, hour and minute loses nothing.\<close>

lemma week_minute_split:
  assumes "0 \<le> m" "m < week_minutes"
  shows "day_index (day_of_index (m div 1440)) * 1440 + (m mod 1440 div 60) * 60 + m mod 1440 mod 60 = m"
proof -
  have "0 \<le> m div 1440" "m div 1440 \<le> 6" using assms by auto
  then have "day_index (day_of_index (m div 1440)) = m div 1440" by simp
  then show ?thesis
    using div_mult_mod_eq [of m 1440] div_mult_mod_eq [of "m mod 1440" 60] by linarith
qed

lemma to_pair_merged:
  assumes "s \<le> e"
  shows "to_pair (merged_range s e) =
    (if e - s + 1 \<ge> week_minutes then (0, week_minutes - 1)
     else (s mod week_minutes, s mod week_minutes + (e - s)))"
proof (cases "e - s + 1 \<ge> week_minutes")
  case True
  then show ?thesis by (simp add: merged_range_def to_pair_def)
next
  case False
  let ?s = "s mod week_minutes" and ?e = "e mod week_minutes"
  have b: "0 \<le> ?s" "?s < week_minutes" "0 \<le> ?e" "?e < week_minutes" by auto
  have "to_pair (merged_range s e) = (if ?e < ?s then (?s, ?e + week_minutes) else (?s, ?e))"
    using False week_minute_split [OF b(1,2)] week_minute_split [OF b(3,4)]
    by (simp add: merged_range_def to_pair_def smod_week Let_def)
  moreover have "(if ?e < ?s then ?e + week_minutes else ?e) = ?s + (e - s)"
  proof -
    have "?e = (?s + (e - s)) mod week_minutes" by (simp add: mod_add_left_eq)
    moreover have "?s + (e - s) < 2 * week_minutes - 1" "0 \<le> ?s + (e - s)"
      using b False assms by auto
    ultimately have "?e = (if ?s + (e - s) < week_minutes then ?s + (e - s)
        else ?s + (e - s) - week_minutes)"
      by (simp add: mod_below_twice)
    then show ?thesis using b False assms by (auto split: if_splits)
  qed
  ultimately show ?thesis using False by auto
qed


lemma valid_merged: "valid_range (merged_range s e)"
proof -
  have "0 \<le> m mod 1440 div 60 \<and> m mod 1440 div 60 < 24 \<and> 0 \<le> m mod 1440 mod 60 \<and> m mod 1440 mod 60 < 60"
    for m :: int by auto
  then show ?thesis
    by (simp add: merged_range_def valid_range_def valid_time_def smod_week Let_def)
qed

lemma covers_merged:
  assumes "s \<le> e"
  shows "covers (merged_range s e) t \<longleftrightarrow> in_arc (s, e) t"
proof (cases "e - s + 1 \<ge> week_minutes")
  case True
  have "(t - s) mod week_minutes < week_minutes" "t mod week_minutes < week_minutes" by auto
  with True have "in_arc (s, e) t" "in_arc (0, week_minutes - 1) t"
    unfolding in_arc_def by auto
  then show ?thesis using True assms by (simp add: covers_def to_pair_merged)
next
  case False
  have "(t - s mod week_minutes) mod week_minutes = (t - s) mod week_minutes"
    by (simp add: mod_diff_right_eq)
  then show ?thesis using False assms by (simp add: covers_def to_pair_merged in_arc_def)
qed

lemma touching_mod:
  "touching (s mod week_minutes, s mod week_minutes + (e - s)) q \<longleftrightarrow> touching (s, e) q"
proof -
  define d where "d = s div week_minutes"
  have s: "s mod week_minutes = s - d * week_minutes"
    unfolding d_def by (simp add: minus_div_mult_eq_mod)
  have "(\<exists>k. P (k + d)) \<longleftrightarrow> (\<exists>k. P k)" for P :: "int \<Rightarrow> bool"
    by (metis diff_add_cancel)
  from this [of "\<lambda>k. fst q + k * week_minutes \<le> e + 1 \<and> snd q + k * week_minutes \<ge> s - 1"]
  show ?thesis
    unfolding touching_def s by (simp add: algebra_simps)
qed

lemma touching_full:
  assumes "e - s + 1 \<ge> week_minutes" "fst q \<le> snd q"
  shows "touching (s, e) q"
proof -
  let ?k = "- ((fst q - s) div week_minutes)"
  have "fst q + ?k * week_minutes = s + (fst q - s) mod week_minutes"
    using div_mult_mod_eq [of "fst q - s" week_minutes] by linarith
  moreover have "0 \<le> (fst q - s) mod week_minutes" "(fst q - s) mod week_minutes < week_minutes"
    by auto
  ultimately show ?thesis
    using assms unfolding touching_def fst_conv snd_conv
    by (intro exI [of _ ?k] conjI) linarith+
qed

section \<open>Correctness of add_range\<close>

definition separated :: "weekly_ranges \<Rightarrow> bool" where
  "separated rs \<longleftrightarrow> sorted_wrt (\<lambda>a b. \<not> touching (to_pair a) (to_pair b)) rs"

lemma touching_sym: "touching p q \<longleftrightarrow> touching q p"
proof -
  have "touching q p" if "touching p q" for p q
  proof -
    from that obtain k where "fst q + k * week_minutes \<le> snd p + 1" "snd q + k * week_minutes \<ge> fst p - 1"
      by (auto simp: touching_def)
    then show ?thesis unfolding touching_def by (intro exI [of _ "- k"]) auto
  qed
  then show ?thesis by blast
qed

text \<open>What the two loops hand to the last part of \<open>add_range\<close>.\<close>

lemma add_range_loops:
  assumes "valid_range r" "\<forall>x \<in> set rs. valid_range x"
  obtains ys s e where
    "add_range rs r = map fst (filter (\<lambda>p. \<not> snd p) ys) @ [merged_range s e]"
    "map fst ys = rs" "s \<le> e"
    "\<And>t. in_arc (s, e) t \<or> kept_covers ys t \<longleftrightarrow> covers r t \<or> covered rs t"
    "\<And>x. (x, False) \<in> set ys \<Longrightarrow> \<not> touching (s, e) (to_pair x)"
proof -
  obtain s0 e0 where p: "to_pair r = (s0, e0)" by (cases "to_pair r")
  have b: "s0 \<le> e0" "s0 < week_minutes" "0 \<le> e0"
    using to_pair_le [OF assms(1)] to_pair_bounds [OF assms(1)] p by auto
  obtain xs s1 e1 where f: "first_pass rs s0 e0 = (xs, s1, e1)" by (cases "first_pass rs s0 e0") auto
  obtain c where m: "merge_pass (map (\<lambda>x. (x, False)) rs) s0 e0 False = (xs, s1, e1, c)"
    using first_pass_is_merge_pass [of rs s0 e0 False] f by auto
  obtain ys s e where l: "merge_loop xs s1 e1 = (ys, s, e)" by (cases "merge_loop xs s1 e1") auto
  have k: "kept_covers (map (\<lambda>x. (x, False)) rs) t \<longleftrightarrow> covered rs t" for t
    by (auto simp: kept_covers_def covered_def list_ex_iff)
  have 1: "map fst xs = rs \<and> s1 \<le> s0 \<and> e0 \<le> e1 \<and>
      (in_arc (s1, e1) t \<or> kept_covers xs t \<longleftrightarrow> in_arc (s0, e0) t \<or> covered rs t)" for t
    using merge_pass_props [OF m b(1), of t] assms(2) by (auto simp: k comp_def)
  then have v: "\<forall>x \<in> fst ` set xs. valid_range x" using assms(2) by (metis list.set_map)
  have le1: "s1 \<le> e1" using 1 [of 0] b by linarith
  have 2: "map fst ys = map fst xs \<and> s \<le> s1 \<and> e1 \<le> e \<and>
    (in_arc (s, e) t \<or> kept_covers ys t \<longleftrightarrow> in_arc (s1, e1) t \<or> kept_covers xs t) \<and>
    (\<forall>r. (r, False) \<in> set ys \<longrightarrow> try_merge r s e = None)" for t
    by (rule merge_loop_props [OF l le1 v])
  show thesis
  proof (rule that [of ys s e])
    show "add_range rs r = map fst (filter (\<lambda>p. \<not> snd p) ys) @ [merged_range s e]"
      by (simp add: add_range_def p f l)
    show "map fst ys = rs" using 1 [of 0] 2 [of 0] by simp
    show "s \<le> e" using 1 [of 0] 2 [of 0] b by linarith
    show "in_arc (s, e) t \<or> kept_covers ys t \<longleftrightarrow> covers r t \<or> covered rs t" for t
      using 1 [of t] 2 [of t] by (simp add: covers_def p)
    fix x assume x: "(x, False) \<in> set ys"
    then have "valid_range x" using \<open>map fst ys = rs\<close> assms(2) by force
    then show "\<not> touching (s, e) (to_pair x)"
      using 1 [of 0] 2 [of 0] b x by (intro try_merge_None) auto
  qed
qed

lemma kept_covers_filter:
  "covered (map fst (filter (\<lambda>p. \<not> snd p) ys)) t \<longleftrightarrow> kept_covers ys t"
  by (auto simp: covered_def kept_covers_def list_ex_iff)

lemma covered_append [simp]: "covered (xs @ ys) t \<longleftrightarrow> covered xs t \<or> covered ys t"
  by (simp add: covered_def)

lemma covered_single [simp]: "covered [r] t \<longleftrightarrow> covers r t"
  by (simp add: covered_def)

lemma add_range_covered:
  assumes "valid_range r" "\<forall>x \<in> set rs. valid_range x"
  shows "covered (add_range rs r) t \<longleftrightarrow> covered rs t \<or> covers r t"
proof -
  obtain ys s e where *: "add_range rs r = map fst (filter (\<lambda>p. \<not> snd p) ys) @ [merged_range s e]"
    "map fst ys = rs" "s \<le> e"
    "\<And>t. in_arc (s, e) t \<or> kept_covers ys t \<longleftrightarrow> covers r t \<or> covered rs t"
    "\<And>x. (x, False) \<in> set ys \<Longrightarrow> \<not> touching (s, e) (to_pair x)"
    by (rule add_range_loops [OF assms]) (rule that)
  from *(4) [of t] show ?thesis by (simp add: *(1) kept_covers_filter covers_merged [OF *(3)]) blast
qed

lemma add_range_keeps_separated:
  assumes "valid_range r" "\<forall>x \<in> set rs. valid_range x" "separated rs"
  shows "separated (add_range rs r) \<and> (\<forall>x \<in> set (add_range rs r). valid_range x)"
proof -
  obtain ys s e where *: "add_range rs r = map fst (filter (\<lambda>p. \<not> snd p) ys) @ [merged_range s e]"
    "map fst ys = rs" "s \<le> e"
    "\<And>t. in_arc (s, e) t \<or> kept_covers ys t \<longleftrightarrow> covers r t \<or> covered rs t"
    "\<And>x. (x, False) \<in> set ys \<Longrightarrow> \<not> touching (s, e) (to_pair x)"
    by (rule add_range_loops [OF assms(1,2)]) (rule that)
  have "sorted_wrt (\<lambda>a b. \<not> touching (to_pair (fst a)) (to_pair (fst b))) ys"
    using assms(3) unfolding separated_def *(2) [symmetric] by (simp add: sorted_wrt_map)
  then have 1: "separated (map fst (filter (\<lambda>p. \<not> snd p) ys))"
    by (simp add: separated_def sorted_wrt_map sorted_wrt_filter)
  have v: "valid_range x" if "(x, f) \<in> set ys" for x f
    using that *(2) assms(2) by force
  have 2: "\<not> touching (to_pair x) (to_pair (merged_range s e))" if "(x, False) \<in> set ys" for x
  proof (cases "e - s + 1 \<ge> week_minutes")
    case True
    with *(5) [OF that] touching_full [OF True] to_pair_le [OF v [OF that]] show ?thesis by blast
  next
    case False
    with *(5) [OF that] show ?thesis
      by (subst touching_sym) (simp add: to_pair_merged *(3) touching_mod)
  qed
  show ?thesis
    using 1 2 v by (auto simp: *(1) separated_def sorted_wrt_append valid_merged)
qed

text \<open>C1: after \<open>add_range\<close> the stored ranges cover exactly the minutes of the week that they
  covered before together with those of the new range: merging, the shifts by a week, the wrap over
  Sunday night and the full-week case neither lose nor add a minute.\<close>

theorem add_range_coverage:
  assumes "valid_range r" "\<forall>x \<in> set rs. valid_range x"
  shows "covered (add_range rs r) t \<longleftrightarrow> covered rs t \<or> covers r t"
  by (rule add_range_covered [OF assms])

abbreviation late_sunday :: weekly_range where
  "late_sunday \<equiv> \<lparr>start_day = sun, start_time = \<lparr>hour = 22, minute = 0\<rparr>,
                  end_day = mon, end_time = \<lparr>hour = 2, minute = 0\<rparr>\<rparr>"

abbreviation monday_morning :: weekly_range where
  "monday_morning \<equiv> \<lparr>start_day = mon, start_time = \<lparr>hour = 2, minute = 1\<rparr>,
                      end_day = mon, end_time = \<lparr>hour = 9, minute = 0\<rparr>\<rparr>"

theorem add_range_coverage_witness:
  "covered (add_range [late_sunday] monday_morning) 300 \<longleftrightarrow>
   covered [late_sunday] 300 \<or> covers monday_morning 300"
  by (rule add_range_coverage) (simp_all add: valid_range_def valid_time_def)

text \<open>C2: \<open>add_range\<close> keeps the invariant of the scheduler: all stored ranges are valid clock times
  and no two of them overlap or are adjacent, also not across the end of the week, so the
  \<open>while (changed)\<close> loop has merged everything there is to merge.\<close>

theorem add_range_separated:
  assumes "valid_range r" "\<forall>x \<in> set rs. valid_range x" "separated rs"
  shows "separated (add_range rs r) \<and> (\<forall>x \<in> set (add_range rs r). valid_range x)"
  by (rule add_range_keeps_separated [OF assms])

theorem add_range_separated_witness:
  "separated (add_range [late_sunday] monday_morning) \<and>
   list_all valid_range (add_range [late_sunday] monday_morning)"
  unfolding list_all_iff
  by (rule add_range_separated) (simp_all add: valid_range_def valid_time_def separated_def)

section \<open>is_active_at_tm and the arcs\<close>

text \<open>A range that starts and ends on one weekday but ends earlier in the day than it starts:
  \<open>to_pair\<close> reads it as almost a whole week, \<open>is_active_at_tm\<close> as empty.\<close>

definition wraps_day :: "weekly_range \<Rightarrow> bool" where
  "wraps_day r \<longleftrightarrow> start_day r = end_day r \<and>
     hour (end_time r) * 60 + minute (end_time r) < hour (start_time r) * 60 + minute (start_time r)"

definition week_tm :: "tm_fields \<Rightarrow> bool" where
  "week_tm tm \<longleftrightarrow> 0 \<le> tm_wday tm \<and> tm_wday tm \<le> 6 \<and> 0 \<le> tm_hour tm \<and> tm_hour tm < 24 \<and>
     0 \<le> tm_min tm \<and> tm_min tm < 60"

definition week_minute :: "tm_fields \<Rightarrow> int" where
  "week_minute tm = ((tm_wday tm + 6) mod 7) * 1440 + tm_hour tm * 60 + tm_min tm"

lemma in_arc_near:
  assumes "0 \<le> s" "s < week_minutes" "0 \<le> t" "t < week_minutes"
  shows "in_arc (s, e) t \<longleftrightarrow> (if s \<le> t then t \<le> e else t + week_minutes \<le> e)"
proof -
  have "(t - s) mod week_minutes = (if s \<le> t then t - s else t - s + week_minutes)"
  proof (cases "s \<le> t")
    case True
    then show ?thesis using assms by (simp add: mod_pos_pos_trivial)
  next
    case False
    then have "(t - s + week_minutes) mod week_minutes = t - s + week_minutes"
      using assms by (intro mod_pos_pos_trivial) auto
    then show ?thesis using False by simp
  qed
  then show ?thesis by (auto simp: in_arc_def)
qed

lemma range_active_iff_covers:
  assumes "valid_range r" "\<not> wraps_day r" "0 \<le> d" "d \<le> 6" "0 \<le> m" "m < 1440"
  shows "range_active d m r \<longleftrightarrow> covers r (d * 1440 + m)"
proof -
  define sd ed where "sd = day_index (start_day r)" and "ed = day_index (end_day r)"
  define sm em where "sm = hour (start_time r) * 60 + minute (start_time r)"
    and "em = hour (end_time r) * 60 + minute (end_time r)"
  have b: "0 \<le> sd" "sd \<le> 6" "0 \<le> ed" "ed \<le> 6" "0 \<le> sm" "sm < 1440" "0 \<le> em" "em < 1440"
    using assms(1) day_index_bounds unfolding sd_def ed_def sm_def em_def valid_range_def valid_time_def
    by auto
  have nw: "\<not> (sd = ed \<and> em < sm)"
    using assms(2) by (auto simp: wraps_day_def sd_def ed_def sm_def em_def)
  define s e t where "s = sd * 1440 + sm" and "e = ed * 1440 + em" and "t = d * 1440 + m"
  have p: "to_pair r = (if e < s then (s, e + week_minutes) else (s, e))"
    by (simp add: to_pair_def s_def e_def sd_def ed_def sm_def em_def add.assoc Let_def)
  have c: "covers r t \<longleftrightarrow> (if e < s then s \<le> t \<or> t \<le> e else s \<le> t \<and> t \<le> e)"
    using b assms(3-6) unfolding covers_def p
    by (simp add: in_arc_near s_def e_def t_def)
  have a: "range_active d m r \<longleftrightarrow> (if \<not> ((sd \<le> ed \<and> sd \<le> d \<and> d \<le> ed) \<or> (ed < sd \<and> (sd \<le> d \<or> d \<le> ed)))
      then False else if sd = ed then sm \<le> m \<and> m \<le> em else if d = sd then sm \<le> m
      else if d = ed then m \<le> em else True)"
    by (simp add: range_active_def sd_def ed_def sm_def em_def Let_def)
  have lt: "x * 1440 + a < y * 1440 + b \<longleftrightarrow> x < y \<or> x = y \<and> a < b"
    if "0 \<le> a" "a < 1440" "0 \<le> b" "b < 1440" for x y a b :: int
    using that by auto
  have le: "x * 1440 + a \<le> y * 1440 + b \<longleftrightarrow> x < y \<or> x = y \<and> a \<le> b"
    if "0 \<le> a" "a < 1440" "0 \<le> b" "b < 1440" for x y a b :: int
    using that by auto
  have "covers r t \<longleftrightarrow> (if ed < sd \<or> ed = sd \<and> em < sm
      then (sd < d \<or> sd = d \<and> sm \<le> m) \<or> (d < ed \<or> d = ed \<and> m \<le> em)
      else (sd < d \<or> sd = d \<and> sm \<le> m) \<and> (d < ed \<or> d = ed \<and> m \<le> em))"
    unfolding c unfolding s_def e_def t_def using b assms(5,6) by (simp only: lt le)
  then show ?thesis
    unfolding a t_def [symmetric] using nw by auto
qed

lemma valid_tm_day:
  assumes "week_tm tm"
  shows "(tm_wday tm + 6) smod 7 = (tm_wday tm + 6) mod 7"
    "0 \<le> tm_hour tm * 60 + tm_min tm" "tm_hour tm * 60 + tm_min tm < 1440"
  using assms by (auto simp: week_tm_def)

lemma is_active_iff_covered:
  assumes "week_tm tm" "\<forall>r \<in> set rs. valid_range r \<and> \<not> wraps_day r"
  shows "is_active_at_tm rs tm \<longleftrightarrow> covered rs (week_minute tm)"
proof -
  have "(tm_wday tm + 6) mod 7 \<le> 6"
    using pos_mod_bound [of 7 "tm_wday tm + 6"] by simp
  then have "range_active ((tm_wday tm + 6) mod 7) (tm_hour tm * 60 + tm_min tm) r
      \<longleftrightarrow> covers r (week_minute tm)" if "r \<in> set rs" for r
    using assms valid_tm_day(2,3) [OF assms(1)] that
    by (subst range_active_iff_covers) (auto simp: week_minute_def add.assoc)
  then show ?thesis
    by (auto simp: is_active_at_tm_def covered_def list_ex_iff valid_tm_day(1) [OF assms(1)] Let_def)
qed

text \<open>Where no range starts and ends on one weekday in reverse order, \<open>is_active_at_tm\<close> after
  \<open>add_range\<close> answers true exactly for the times at which the old ranges or the new one were active.\<close>

theorem add_range_active:
  assumes "week_tm tm" "\<forall>x \<in> set (r # rs). valid_range x"
    and "\<forall>x \<in> set (r # rs) \<union> set (add_range rs r). \<not> wraps_day x" "separated rs"
  shows "is_active_at_tm (add_range rs r) tm \<longleftrightarrow> is_active_at_tm rs tm \<or> is_active_at_tm [r] tm"
proof -
  have "\<forall>x \<in> set (add_range rs r). valid_range x"
    using add_range_keeps_separated [of r rs] assms(2,4) by simp
  then show ?thesis
    using assms add_range_covered [of r rs "week_minute tm"]
    by (simp add: is_active_iff_covered)
qed

theorem add_range_active_witness:
  "is_active_at_tm (add_range [late_sunday] monday_morning) \<lparr>tm_wday = 1, tm_hour = 8, tm_min = 0\<rparr> \<longleftrightarrow>
   is_active_at_tm [late_sunday] \<lparr>tm_wday = 1, tm_hour = 8, tm_min = 0\<rparr> \<or>
   is_active_at_tm [monday_morning] \<lparr>tm_wday = 1, tm_hour = 8, tm_min = 0\<rparr>"
proof (rule add_range_active)
  have "add_range [late_sunday] monday_morning =
      [\<lparr>start_day = sun, start_time = \<lparr>hour = 22, minute = 0\<rparr>,
        end_day = mon, end_time = \<lparr>hour = 9, minute = 0\<rparr>\<rparr>]"
    by (simp add: add_range_def to_pair_def try_merge_def merge_loop.simps merged_range_def day_of_index_def)
  then show "\<forall>x \<in> set [monday_morning, late_sunday] \<union> set (add_range [late_sunday] monday_morning). \<not> wraps_day x"
    by (simp add: wraps_day_def)
qed (simp_all add: week_tm_def valid_range_def valid_time_def separated_def)

text \<open>\<open>add_range\<close> can switch a schedule off. A scheduler that is active from Monday 10:00 to
  Sunday 23:59 and is given Monday 0:00 to 9:00 stores the one range Monday 10:00 to Monday 9:00;
  \<open>is_active_at_tm\<close> reads it as empty, so Wednesday noon is no longer active although the stored
  range covers it.\<close>

theorem add_range_deactivates:
  "let weekdays = \<lparr>start_day = mon, start_time = \<lparr>hour = 10, minute = 0\<rparr>,
                   end_day = sun, end_time = \<lparr>hour = 23, minute = 59\<rparr>\<rparr>;
       morning = \<lparr>start_day = mon, start_time = \<lparr>hour = 0, minute = 0\<rparr>,
                  end_day = mon, end_time = \<lparr>hour = 9, minute = 0\<rparr>\<rparr>;
       wednesday_noon = \<lparr>tm_wday = 3, tm_hour = 12, tm_min = 0\<rparr>
   in is_active_at_tm [weekdays] wednesday_noon \<and>
      add_range [weekdays] morning =
        [\<lparr>start_day = mon, start_time = \<lparr>hour = 10, minute = 0\<rparr>,
          end_day = mon, end_time = \<lparr>hour = 9, minute = 0\<rparr>\<rparr>] \<and>
      covered (add_range [weekdays] morning) (week_minute wednesday_noon) \<and>
      \<not> is_active_at_tm (add_range [weekdays] morning) wednesday_noon"
proof -
  have "add_range [\<lparr>start_day = mon, start_time = \<lparr>hour = 10, minute = 0\<rparr>,
                   end_day = sun, end_time = \<lparr>hour = 23, minute = 59\<rparr>\<rparr>]
       \<lparr>start_day = mon, start_time = \<lparr>hour = 0, minute = 0\<rparr>,
                  end_day = mon, end_time = \<lparr>hour = 9, minute = 0\<rparr>\<rparr> = 
         [\<lparr>start_day = mon, start_time = \<lparr>hour = 10, minute = 0\<rparr>,
          end_day = mon, end_time = \<lparr>hour = 9, minute = 0\<rparr>\<rparr>]"
    by (simp add: add_range_def to_pair_def try_merge_def merge_loop.simps merged_range_def day_of_index_def)
  then show ?thesis
    by (simp add: is_active_at_tm_def range_active_def covered_def covers_def to_pair_def in_arc_def
        week_minute_def)
qed

section \<open>schedule_normalizer.cpp\<close>

datatype interval = Interval (iv_day: int) (iv_start: int) (iv_end: int)

text \<open>The comparator handed to \<open>std::sort\<close>; it is total, so the sorted vector is unique.\<close>

definition interval_before :: "interval \<Rightarrow> interval \<Rightarrow> bool" where
  "interval_before a b \<longleftrightarrow>
     (if iv_day a \<noteq> iv_day b then iv_day a < iv_day b
      else if iv_start a \<noteq> iv_start b then iv_start a < iv_start b
      else iv_end a < iv_end b)"

instantiation interval :: linorder
begin

definition less_interval :: "interval \<Rightarrow> interval \<Rightarrow> bool" where
  "less_interval a b \<longleftrightarrow> interval_before a b"

definition less_eq_interval :: "interval \<Rightarrow> interval \<Rightarrow> bool" where
  "less_eq_interval a b \<longleftrightarrow> a < b \<or> a = b"

instance
  by standard
    (auto simp: less_interval_def interval_before_def less_eq_interval_def split: if_splits
      intro!: interval.expand elim: linorder_neqE)

end

definition succ_day :: "weekday \<Rightarrow> weekday" where
  "succ_day d = day_of_index ((day_index d + 1) smod 7)"

text \<open>The days strictly between the two ends of a range; \<open>cur\<close> and \<open>ed\<close> are 0 to 6 in the code.\<close>

function days_between :: "weekday \<Rightarrow> weekday \<Rightarrow> interval list" where
  "days_between cur ed =
     (if cur = ed then [] else Interval (day_index cur) 0 1439 # days_between (succ_day cur) ed)"
  by pat_completeness auto

lemma succ_day_nearer:
  "cur \<noteq> ed \<Longrightarrow> 0 < (day_index ed - day_index cur) mod 7 \<and> (day_index ed - day_index (succ_day cur)) mod 7 < (day_index ed - day_index cur) mod 7"
  by (cases cur; cases ed) (simp_all add: succ_day_def day_of_index_def)

termination days_between
  by (relation "measure (\<lambda>(cur, ed). nat ((day_index ed - day_index cur) mod 7))")
    (auto simp: succ_day_nearer)

declare days_between.simps [simp del]

definition push_intervals_from_range :: "weekly_range \<Rightarrow> interval list \<Rightarrow> interval list" where
  "push_intervals_from_range r out =
     (let sd = day_index (start_day r);
          ed = day_index (end_day r);
          sm = hour (start_time r) * 60 + minute (start_time r);
          em = hour (end_time r) * 60 + minute (end_time r)
      in if sd = ed then out @ [Interval sd sm em]
         else out @ [Interval sd sm 1439] @ days_between (succ_day (start_day r)) (end_day r) @
              [Interval ed 0 em])"

fun merge_intervals :: "interval list \<Rightarrow> interval list \<Rightarrow> interval list" where
  "merge_intervals merged [] = merged"
| "merge_intervals merged (iv # ivs) =
     (if merged = [] \<or> iv_day (last merged) \<noteq> iv_day iv \<or> iv_start iv > iv_end (last merged) + 1
      then merge_intervals (merged @ [iv]) ivs
      else merge_intervals
             (butlast merged @ [Interval (iv_day (last merged)) (iv_start (last merged))
                                  (max (iv_end (last merged)) (iv_end iv))]) ivs)"

definition range_of_interval :: "interval \<Rightarrow> weekly_range" where
  "range_of_interval m =
     \<lparr>start_day = day_of_index (iv_day m),
      start_time = \<lparr>hour = iv_start m sdiv 60, minute = iv_start m smod 60\<rparr>,
      end_day = day_of_index (iv_day m),
      end_time = \<lparr>hour = iv_end m sdiv 60, minute = iv_end m smod 60\<rparr>\<rparr>"

definition normalize :: "weekly_ranges \<Rightarrow> weekly_ranges" where
  "normalize input =
     (let intervals = fold push_intervals_from_range input [];
          merged = merge_intervals [] (sort intervals)
      in map range_of_interval merged)"

subsection \<open>Correctness\<close>

definition hits :: "int \<Rightarrow> int \<Rightarrow> interval \<Rightarrow> bool" where
  "hits d m iv \<longleftrightarrow> iv_day iv = d \<and> iv_start iv \<le> m \<and> m \<le> iv_end iv"

lemma hits_simps [simp]: "hits d m (Interval x s e) \<longleftrightarrow> x = d \<and> s \<le> m \<and> m \<le> e"
  by (simp add: hits_def)

lemma days_between_day:
  "list_ex (hits d m) (days_between cur ed) \<longleftrightarrow>
     0 \<le> m \<and> m \<le> 1439 \<and> d \<in> day_index ` {x. (day_index x - day_index cur) mod 7 < (day_index ed - day_index cur) mod 7}"
proof (induction cur ed rule: days_between.induct)
  case (1 cur ed)
  show ?case
  proof (cases "cur = ed")
    case True
    have "\<not> (day_index x - day_index ed) mod 7 < 0" for x
      by (simp add: not_less)
    with True show ?thesis by (simp add: days_between.simps)
  next
    case False
    have "(day_index x - day_index cur) mod 7 < (day_index ed - day_index cur) mod 7 \<longleftrightarrow>
        x = cur \<or> (day_index x - day_index (succ_day cur)) mod 7 < (day_index ed - day_index (succ_day cur)) mod 7"
      for x
      using False by (cases cur; cases ed; cases x) (simp_all add: succ_day_def day_of_index_def)
    then have "{x. (day_index x - day_index cur) mod 7 < (day_index ed - day_index cur) mod 7} =
       insert cur {x. (day_index x - day_index (succ_day cur)) mod 7 < (day_index ed - day_index (succ_day cur)) mod 7}"
      by auto
    then show ?thesis
      using 1 False by (subst days_between.simps) auto
  qed
qed

lemma push_intervals_hits:
  assumes "0 \<le> m" "m < 1440"
  shows "list_ex (hits (day_index d) m) (push_intervals_from_range r out) \<longleftrightarrow>
    list_ex (hits (day_index d) m) out \<or> range_active (day_index d) m r"
proof (cases "start_day r = end_day r")
  case True
  then show ?thesis by (auto simp: push_intervals_from_range_def range_active_def Let_def)
next
  case False
  have between: "day_index d \<in> day_index ` {x. (day_index x - day_index (succ_day a)) mod 7
        < (day_index b - day_index (succ_day a)) mod 7} \<longleftrightarrow>
      d \<noteq> a \<and> d \<noteq> b \<and> ((day_index a \<le> day_index b \<and> day_index a \<le> day_index d \<and> day_index d \<le> day_index b)
        \<or> (day_index a > day_index b \<and> (day_index a \<le> day_index d \<or> day_index d \<le> day_index b)))"
    if "a \<noteq> b" for a b
  proof -
    have "day_index d \<in> day_index ` A \<longleftrightarrow> d \<in> A" for A by auto
    then show ?thesis
      using that by (cases a; cases b; cases d) (simp_all add: succ_day_def day_of_index_def)
  qed
  show ?thesis
    using False assms
    by (auto simp: push_intervals_from_range_def range_active_def days_between_day between Let_def)
qed

lemma fold_push_hits:
  assumes "0 \<le> m" "m < 1440"
  shows "list_ex (hits (day_index d) m) (fold push_intervals_from_range rs out) \<longleftrightarrow>
    list_ex (hits (day_index d) m) out \<or> list_ex (range_active (day_index d) m) rs"
  by (induction rs arbitrary: out) (auto simp: push_intervals_hits [OF assms])


lemma merge_intervals_hits:
  assumes "sorted ivs"
    and "merged \<noteq> [] \<Longrightarrow> \<forall>iv \<in> set ivs. iv_day (last merged) < iv_day iv \<or>
           iv_day (last merged) = iv_day iv \<and> iv_start (last merged) \<le> iv_start iv"
  shows "list_ex (hits d m) (merge_intervals merged ivs) \<longleftrightarrow>
    list_ex (hits d m) merged \<or> list_ex (hits d m) ivs"
  using assms
proof (induction merged ivs rule: merge_intervals.induct)
  case (2 merged iv ivs)
  have later: "iv_day iv < iv_day x \<or> iv_day iv = iv_day x \<and> iv_start iv \<le> iv_start x"
    if "x \<in> set ivs" for x
  proof -
    have "iv \<le> x" using 2(3) that by simp
    then show ?thesis by (auto simp: less_eq_interval_def less_interval_def interval_before_def split: if_splits)
  qed
  show ?case
  proof (cases "merged = [] \<or> iv_day (last merged) \<noteq> iv_day iv \<or> iv_start iv > iv_end (last merged) + 1")
    case True
    then show ?thesis using 2(1) [OF True] 2(3) later by simp
  next
    case False
    let ?l = "last merged"
    let ?n = "Interval (iv_day ?l) (iv_start ?l) (max (iv_end ?l) (iv_end iv))"
    from False have ne: "merged \<noteq> []" and eq: "iv_day ?l = iv_day iv" "iv_start iv \<le> iv_end ?l + 1"
      by auto
    have le: "iv_start ?l \<le> iv_start iv" using 2(4) [OF ne] eq by auto
    have "list_ex (hits d m) merged \<longleftrightarrow> list_ex (hits d m) (butlast merged) \<or> hits d m ?l"
      by (subst append_butlast_last_id [OF ne, symmetric]) (simp del: append_butlast_last_id)
    moreover have "hits d m ?n \<longleftrightarrow> hits d m ?l \<or> hits d m iv"
      using eq le by (auto simp: hits_def)
    moreover have "list_ex (hits d m) (merge_intervals (butlast merged @ [?n]) ivs) \<longleftrightarrow>
        list_ex (hits d m) (butlast merged @ [?n]) \<or> list_ex (hits d m) ivs"
      using 2(2) [OF False] 2(3,4) ne by auto
    ultimately show ?thesis using False by auto
  qed
qed simp

lemma list_ex_cong_set: "set xs = set ys \<Longrightarrow> list_ex P xs \<longleftrightarrow> list_ex P ys"
  by (simp add: list_ex_iff)

lemma minute_parts: "(x sdiv 60) * 60 + x smod 60 = x" for x :: int
  by (rule sdiv_mult_smod_eq)

lemma range_of_interval_active:
  assumes "0 \<le> iv_day iv" "iv_day iv \<le> 6"
  shows "range_active d m (range_of_interval iv) \<longleftrightarrow> hits d m iv"
  using assms by (auto simp: range_of_interval_def range_active_def hits_def minute_parts Let_def)

lemma days_between_days: "iv \<in> set (days_between cur ed) \<Longrightarrow> 0 \<le> iv_day iv \<and> iv_day iv \<le> 6"
proof (induction cur ed rule: days_between.induct)
  case (1 cur ed)
  then show ?case
    using day_index_bounds by (cases "cur = ed") (auto simp: days_between.simps [of cur ed] days_between.simps [of ed ed])
qed

lemma fold_push_days:
  "\<forall>iv \<in> set out. 0 \<le> iv_day iv \<and> iv_day iv \<le> 6 \<Longrightarrow>
     \<forall>iv \<in> set (fold push_intervals_from_range rs out). 0 \<le> iv_day iv \<and> iv_day iv \<le> 6"
proof (induction rs arbitrary: out)
  case (Cons r rs)
  have "\<forall>iv \<in> set (push_intervals_from_range r out). 0 \<le> iv_day iv \<and> iv_day iv \<le> 6"
    using Cons.prems
    by (auto simp: push_intervals_from_range_def Let_def day_index_bounds dest: days_between_days)
  then show ?case using Cons.IH by simp
qed simp

lemma merge_intervals_days:
  "\<forall>iv \<in> set merged \<union> set ivs. iv_day iv \<in> D \<Longrightarrow> \<forall>iv \<in> set (merge_intervals merged ivs). iv_day iv \<in> D"
proof (induction merged ivs rule: merge_intervals.induct)
  case (2 merged iv ivs)
  then show ?case by (auto dest: in_set_butlastD)
qed simp

text \<open>C4: \<open>normalize\<close> changes the representation only: for every clock time, \<open>is_active_at_tm\<close> gives
  the same answer before and after, for any list of ranges (overlapping, reversed or out of bounds).\<close>

theorem normalize_active:
  assumes "week_tm tm"
  shows "is_active_at_tm (normalize rs) tm \<longleftrightarrow> is_active_at_tm rs tm"
proof -
  let ?d = "(tm_wday tm + 6) mod 7" and ?m = "tm_hour tm * 60 + tm_min tm"
  let ?ivs = "fold push_intervals_from_range rs []"
  let ?mg = "merge_intervals [] (sort ?ivs)"
  note tm = valid_tm_day [OF assms]
  have m: "0 \<le> ?m" "?m < 1440" using tm by auto
  have "0 \<le> ?d" "?d \<le> 6" using pos_mod_bound [of 7 "tm_wday tm + 6"] by auto
  then have d: "day_index (day_of_index ?d) = ?d" by simp
  have days: "\<forall>iv \<in> set ?mg. iv_day iv \<in> {0..6}"
    using fold_push_days [of "[]" rs] by (intro merge_intervals_days) auto
  have "is_active_at_tm (normalize rs) tm \<longleftrightarrow> list_ex (range_active ?d ?m \<circ> range_of_interval) ?mg"
    by (simp add: is_active_at_tm_def normalize_def tm(1) Let_def list_ex_iff)
  also have "\<dots> \<longleftrightarrow> list_ex (hits ?d ?m) ?mg"
    using days by (auto simp: list_ex_iff range_of_interval_active)
  also have "\<dots> \<longleftrightarrow> list_ex (hits ?d ?m) (sort ?ivs)"
    by (subst merge_intervals_hits) auto
  also have "\<dots> \<longleftrightarrow> list_ex (hits ?d ?m) ?ivs"
    by (rule list_ex_cong_set) simp
  also have "\<dots> \<longleftrightarrow> is_active_at_tm rs tm"
    using fold_push_hits [OF m, of "day_of_index ?d" rs "[]"]
    by (simp add: d is_active_at_tm_def tm(1) Let_def)
  finally show ?thesis .
qed

theorem normalize_active_witness:
  "is_active_at_tm (normalize [late_sunday, monday_morning]) \<lparr>tm_wday = 1, tm_hour = 8, tm_min = 0\<rparr> \<longleftrightarrow>
   is_active_at_tm [late_sunday, monday_morning] \<lparr>tm_wday = 1, tm_hour = 8, tm_min = 0\<rparr>"
  by (rule normalize_active) (simp add: week_tm_def)

text \<open>The result is sorted, and two of its intervals on one day have a gap of a minute or more.\<close>

definition gap_before :: "interval \<Rightarrow> interval \<Rightarrow> bool" where
  "gap_before a b \<longleftrightarrow> iv_day a < iv_day b \<or> iv_day a = iv_day b \<and> iv_end a + 1 < iv_start b"

lemma merge_intervals_gaps:
  assumes "sorted ivs" "sorted_wrt gap_before merged"
    and "merged \<noteq> [] \<Longrightarrow> \<forall>iv \<in> set ivs. iv_day (last merged) < iv_day iv \<or>
           iv_day (last merged) = iv_day iv \<and> iv_start (last merged) \<le> iv_start iv"
  shows "sorted_wrt gap_before (merge_intervals merged ivs)"
  using assms
proof (induction merged ivs rule: merge_intervals.induct)
  case (2 merged iv ivs)
  have later: "iv_day iv < iv_day x \<or> iv_day iv = iv_day x \<and> iv_start iv \<le> iv_start x"
    if "x \<in> set ivs" for x
  proof -
    have "iv \<le> x" using 2(3) that by simp
    then show ?thesis by (auto simp: less_eq_interval_def less_interval_def interval_before_def split: if_splits)
  qed
  have split: "sorted_wrt gap_before (butlast merged) \<and> (\<forall>x \<in> set (butlast merged). gap_before x (last merged))"
    if "merged \<noteq> []"
    using 2(4) append_butlast_last_id [OF that]
    by (metis list.set_intros(1) sorted_wrt_append)
  show ?case
  proof (cases "merged = [] \<or> iv_day (last merged) \<noteq> iv_day iv \<or> iv_start iv > iv_end (last merged) + 1")
    case True
    have "sorted_wrt gap_before (merged @ [iv])"
    proof (cases "merged = []")
      case False
      have "gap_before (last merged) iv" using 2(5) [OF False] True False by (auto simp: gap_before_def)
      moreover have "gap_before x iv" if "x \<in> set (butlast merged)" for x
        using split [OF False] that 2(5) [OF False] by (force simp: gap_before_def)
      ultimately have "\<forall>x \<in> set merged. gap_before x iv"
        using append_butlast_last_id [OF False]
        by (metis Un_iff empty_iff list.set(1) set_ConsD set_append)
      then show ?thesis using 2(4) by (simp add: sorted_wrt_append)
    qed simp
    then show ?thesis using 2(1) [OF True] 2(3) later True by simp
  next
    case False
    let ?l = "last merged"
    let ?n = "Interval (iv_day ?l) (iv_start ?l) (max (iv_end ?l) (iv_end iv))"
    from False have ne: "merged \<noteq> []" by auto
    have "sorted_wrt gap_before (butlast merged @ [?n])"
      using split [OF ne] by (simp add: sorted_wrt_append gap_before_def)
    moreover have "\<forall>x \<in> set ivs. iv_day ?n < iv_day x \<or> iv_day ?n = iv_day x \<and> iv_start ?n \<le> iv_start x"
      using 2(5) [OF ne] by simp
    ultimately show ?thesis using 2(2) [OF False] 2(3) False by simp
  qed
qed simp

text \<open>\<open>normalize\<close> returns ranges within one weekday each, sorted by day and time, and two of them
  on the same day are at least one minute apart.\<close>

theorem normalize_gaps:
  "sorted_wrt (\<lambda>a b. day_index (start_day a) < day_index (start_day b) \<or>
      start_day a = start_day b \<and>
      hour (end_time a) * 60 + minute (end_time a) + 1 < hour (start_time b) * 60 + minute (start_time b))
    (normalize rs) \<and> list_all (\<lambda>r. start_day r = end_day r) (normalize rs)"
proof -
  let ?mg = "merge_intervals [] (sort (fold push_intervals_from_range rs []))"
  have g: "sorted_wrt gap_before ?mg" by (intro merge_intervals_gaps) auto
  have days: "\<forall>iv \<in> set ?mg. iv_day iv \<in> {0..6}"
    using fold_push_days [of "[]" rs] by (intro merge_intervals_days) auto
  have "sorted_wrt (\<lambda>a b. gap_before a b \<and> iv_day a \<in> {0..6} \<and> iv_day b \<in> {0..6}) ?mg"
    using g days by (simp add: sorted_wrt_mono_rel [of ?mg gap_before])
  then show ?thesis
    unfolding normalize_def Let_def sorted_wrt_map list_all_iff
    by (auto elim!: sorted_wrt_mono_rel [rotated]
        simp: range_of_interval_def gap_before_def minute_parts)
qed

end
