(* ===== verification/Schedule_Io.thy ===== *)
theory Schedule_Io
  imports Weekly_Schedule Cpp_Std
begin

text \<open>
  The outer layer of the weekly scheduler: the \<open>scheduler\<close> object with its time provider
  (\<open>scheduler.cpp\<close>), the JSON form of a schedule (\<open>schedule_json.cpp\<close>) and its textual dump
  (\<open>schedule_dump.cpp\<close>).

  The JSON values are those of a third-party package; what the code uses of it is the parameter
  \<open>'j json_api\<close>, a record of its constructors and accessors, and \<open>json_laws\<close> is the documented
  behaviour the round trip relies on. The system clock and its conversion to \<open>std::tm\<close> are
  parameters too. An exception is the left side of the sum.

  The lemmas show that \<open>from_json\<close> reads back what \<open>to_json\<close> writes, that loading is all or
  nothing, and that a load covers the old ranges and the loaded ones.
\<close>

section \<open>JSON\<close>

record 'j json_api =
  js_array :: "'j list \<Rightarrow> 'j"
  js_object :: "(string \<times> 'j) list \<Rightarrow> 'j"
  js_int :: "int \<Rightarrow> 'j"
  js_string :: "string \<Rightarrow> 'j"
  elements :: "'j \<Rightarrow> 'j list option"
  is_object :: "'j \<Rightarrow> bool"
  at_key :: "'j \<Rightarrow> string \<Rightarrow> 'j option"
  as_string :: "'j \<Rightarrow> string option"
  is_number_integer :: "'j \<Rightarrow> bool"
  get_int :: "'j \<Rightarrow> int option"

datatype json_error =
    Expected_Array | Expected_Object | Missing_Fields | Invalid_Weekday string
  | Weekday_Out_Of_Range | Weekday_Type | Type_Error

fun day_name :: "weekday \<Rightarrow> string" where
  "day_name mon = ''Mon''"
| "day_name tue = ''Tue''"
| "day_name wed = ''Wed''"
| "day_name thu = ''Thu''"
| "day_name fri = ''Fri''"
| "day_name sat = ''Sat''"
| "day_name sun = ''Sun''"

definition range_to_json :: "'j json_api \<Rightarrow> weekly_range \<Rightarrow> 'j" where
  "range_to_json J r = js_object J
     [(''start_day'', js_string J (day_name (start_day r))),
      (''start_h'', js_int J (hour (start_time r))),
      (''start_m'', js_int J (minute (start_time r))),
      (''end_day'', js_string J (day_name (end_day r))),
      (''end_h'', js_int J (hour (end_time r))),
      (''end_m'', js_int J (minute (end_time r)))]"

definition to_json :: "'j json_api \<Rightarrow> weekly_ranges \<Rightarrow> 'j" where
  "to_json J ranges = js_array J (map (range_to_json J) ranges)"

fun lower_trim3_loop :: "string \<Rightarrow> string \<Rightarrow> string" where
  "lower_trim3_loop t [] = t"
| "lower_trim3_loop t (c # cs) =
     (if \<not> isspace c
      then let t' = t @ [tolower c] in if length t' = 3 then t' else lower_trim3_loop t' cs
      else lower_trim3_loop t cs)"

definition lower_trim3 :: "string \<Rightarrow> string" where
  "lower_trim3 s = lower_trim3_loop [] s"

definition parse_day_value :: "'j json_api \<Rightarrow> 'j \<Rightarrow> json_error + weekday" where
  "parse_day_value J v =
     (case as_string J v of
        Some s \<Rightarrow>
          (let p = lower_trim3 s in
           if p = ''mon'' then Inr mon
           else if p = ''tue'' then Inr tue
           else if p = ''wed'' then Inr wed
           else if p = ''thu'' then Inr thu
           else if p = ''fri'' then Inr fri
           else if p = ''sat'' then Inr sat
           else if p = ''sun'' then Inr sun
           else Inl (Invalid_Weekday s))
      | None \<Rightarrow>
          if is_number_integer J v
          then (case get_int J v of
                  None \<Rightarrow> Inl Type_Error
                | Some i \<Rightarrow> if i < 0 \<or> i > 6 then Inl Weekday_Out_Of_Range else Inr (day_of_index i))
          else Inl Weekday_Type)"

definition bind_sum :: "'e + 'a \<Rightarrow> ('a \<Rightarrow> 'e + 'b) \<Rightarrow> 'e + 'b" where
  "bind_sum x f = (case x of Inl e \<Rightarrow> Inl e | Inr a \<Rightarrow> f a)"

lemma bind_sum_simps [simp]: "bind_sum (Inl e) f = Inl e" "bind_sum (Inr a) f = f a"
  by (simp_all add: bind_sum_def)

text \<open>\<open>at\<close> after \<open>contains\<close>, and \<open>get<int>\<close>, which throws on a value that is no number.\<close>

definition get_field :: "'j json_api \<Rightarrow> 'j \<Rightarrow> string \<Rightarrow> json_error + 'j" where
  "get_field J el k = (case at_key J el k of None \<Rightarrow> Inl Missing_Fields | Some v \<Rightarrow> Inr v)"

definition get_int_field :: "'j json_api \<Rightarrow> 'j \<Rightarrow> string \<Rightarrow> json_error + int" where
  "get_int_field J el k =
     bind_sum (get_field J el k) (\<lambda>v. case get_int J v of None \<Rightarrow> Inl Type_Error | Some i \<Rightarrow> Inr i)"

definition range_from_json :: "'j json_api \<Rightarrow> 'j \<Rightarrow> json_error + weekly_range" where
  "range_from_json J el =
     (if \<not> is_object J el then Inl Expected_Object
      else if list_ex (\<lambda>k. at_key J el k = None)
                [''start_day'', ''start_h'', ''start_m'', ''end_day'', ''end_h'', ''end_m'']
      then Inl Missing_Fields
      else
        bind_sum (bind_sum (get_field J el ''start_day'') (parse_day_value J)) (\<lambda>sd.
        bind_sum (get_int_field J el ''start_h'') (\<lambda>sh.
        bind_sum (get_int_field J el ''start_m'') (\<lambda>sm.
        bind_sum (bind_sum (get_field J el ''end_day'') (parse_day_value J)) (\<lambda>ed.
        bind_sum (get_int_field J el ''end_h'') (\<lambda>eh.
        bind_sum (get_int_field J el ''end_m'') (\<lambda>em.
        Inr \<lparr>start_day = sd, start_time = \<lparr>hour = sh, minute = sm\<rparr>,
             end_day = ed, end_time = \<lparr>hour = eh, minute = em\<rparr>\<rparr>)))))))"

fun ranges_from_json :: "'j json_api \<Rightarrow> 'j list \<Rightarrow> weekly_ranges \<Rightarrow> json_error + weekly_ranges" where
  "ranges_from_json J [] out = Inr out"
| "ranges_from_json J (el # els) out =
     bind_sum (range_from_json J el) (\<lambda>r. ranges_from_json J els (out @ [r]))"

definition from_json :: "'j json_api \<Rightarrow> 'j \<Rightarrow> json_error + weekly_ranges" where
  "from_json J j = (case elements J j of None \<Rightarrow> Inl Expected_Array | Some els \<Rightarrow> ranges_from_json J els [])"

text \<open>What the round trip needs of the package: an accessor returns what the constructor was given,
  a later key does not hide an earlier one, and a string is no number.\<close>

definition int32 :: "int \<Rightarrow> bool" where
  "int32 i \<longleftrightarrow> - (2 ^ 31) \<le> i \<and> i < 2 ^ 31"

definition json_laws :: "'j json_api \<Rightarrow> bool" where
  "json_laws J \<longleftrightarrow>
     (\<forall>els. elements J (js_array J els) = Some els) \<and>
     (\<forall>kvs. is_object J (js_object J kvs)) \<and>
     (\<forall>kvs k. distinct (map fst kvs) \<longrightarrow> at_key J (js_object J kvs) k = map_of kvs k) \<and>
     (\<forall>s. as_string J (js_string J s) = Some s) \<and>
     (\<forall>i. int32 i \<longrightarrow> get_int J (js_int J i) = Some i)"

definition int32_range :: "weekly_range \<Rightarrow> bool" where
  "int32_range r \<longleftrightarrow> int32 (hour (start_time r)) \<and> int32 (minute (start_time r)) \<and>
     int32 (hour (end_time r)) \<and> int32 (minute (end_time r))"

lemma parse_day_name: "json_laws J \<Longrightarrow> parse_day_value J (js_string J (day_name d)) = Inr d"
  by (cases d) (simp_all add: json_laws_def parse_day_value_def lower_trim3_def tolower_def isspace_def
      isupper_def char_of_eq_iff Let_def)

lemma range_from_to_json:
  assumes "json_laws J" "int32_range r"
  shows "range_from_json J (range_to_json J r) = Inr r"
proof -
  have at: "distinct (map fst kvs) \<Longrightarrow> at_key J (js_object J kvs) k = map_of kvs k" for kvs k
    using assms(1) by (simp add: json_laws_def)
  have int: "int32 i \<Longrightarrow> get_int J (js_int J i) = Some i" for i
    using assms(1) by (simp add: json_laws_def)
  have obj: "is_object J (js_object J kvs)" for kvs
    using assms(1) by (simp add: json_laws_def)
  show ?thesis
    using assms(2)
    by (simp add: range_from_json_def range_to_json_def get_field_def get_int_field_def at int obj
        parse_day_name [OF assms(1)] int32_range_def)
qed

lemma ranges_from_to_json:
  "json_laws J \<Longrightarrow> \<forall>r \<in> set rs. int32_range r \<Longrightarrow>
     ranges_from_json J (map (range_to_json J) rs) out = Inr (out @ rs)"
  by (induction rs arbitrary: out) (simp_all add: range_from_to_json)

text \<open>C5: \<open>from_json\<close> reads back exactly the ranges that \<open>to_json\<close> wrote, for every list of ranges
  whose hours and minutes are C++ \<open>int\<close>s, given the documented laws of the JSON package.\<close>

theorem json_roundtrip:
  assumes "json_laws J" "\<forall>r \<in> set rs. int32_range r"
  shows "from_json J (to_json J rs) = Inr rs"
  using assms ranges_from_to_json [OF assms, of "[]"]
  by (simp add: from_json_def to_json_def json_laws_def)

text \<open>A concrete JSON value type, for the witnesses.\<close>

datatype json_value = JArr "json_value list" | JObj "(string \<times> json_value) list" | JInt int | JStr string

definition json_values :: "json_value json_api" where
  "json_values = \<lparr>js_array = JArr, js_object = JObj, js_int = JInt, js_string = JStr,
     elements = (\<lambda>j. case j of JArr els \<Rightarrow> Some els | _ \<Rightarrow> None),
     is_object = (\<lambda>j. case j of JObj _ \<Rightarrow> True | _ \<Rightarrow> False),
     at_key = (\<lambda>j k. case j of JObj kvs \<Rightarrow> map_of kvs k | _ \<Rightarrow> None),
     as_string = (\<lambda>j. case j of JStr s \<Rightarrow> Some s | _ \<Rightarrow> None),
     is_number_integer = (\<lambda>j. case j of JInt _ \<Rightarrow> True | _ \<Rightarrow> False),
     get_int = (\<lambda>j. case j of JInt i \<Rightarrow> Some i | _ \<Rightarrow> None)\<rparr>"

lemma json_values_laws: "json_laws json_values"
  by (simp add: json_laws_def json_values_def)

theorem json_roundtrip_witness:
  "from_json json_values (to_json json_values [late_sunday, monday_morning]) =
     Inr [late_sunday, monday_morning]"
  by (rule json_roundtrip [OF json_values_laws]) (simp add: int32_range_def int32_def)

section \<open>The scheduler object\<close>

datatype time_base = localtime | utc

text \<open>The world \<open>'w\<close> is what a time provider may read (the system clock); \<open>'tp\<close> is a time point.\<close>

record ('w, 'tp) scheduler =
  sched_base :: time_base
  sched_ranges :: weekly_ranges
  sched_now_provider :: "('w \<Rightarrow> 'tp) option"

definition new_scheduler :: "time_base \<Rightarrow> ('w, 'tp) scheduler" where
  "new_scheduler base = \<lparr>sched_base = base, sched_ranges = [], sched_now_provider = None\<rparr>"

definition set_now_provider :: "('w \<Rightarrow> 'tp) \<Rightarrow> ('w, 'tp) scheduler \<Rightarrow> ('w, 'tp) scheduler" where
  "set_now_provider p s = s\<lparr>sched_now_provider := Some p\<rparr>"

definition set_now :: "'tp \<Rightarrow> ('w, 'tp) scheduler \<Rightarrow> ('w, 'tp) scheduler" where
  "set_now tp s = s\<lparr>sched_now_provider := Some (\<lambda>_. tp)\<rparr>"

definition scheduler_add_range :: "weekly_range \<Rightarrow> ('w, 'tp) scheduler \<Rightarrow> ('w, 'tp) scheduler" where
  "scheduler_add_range r s = s\<lparr>sched_ranges := add_range (sched_ranges s) r\<rparr>"

definition load_from_json ::
    "'j json_api \<Rightarrow> 'j \<Rightarrow> ('w, 'tp) scheduler \<Rightarrow> (json_error + unit) \<times> ('w, 'tp) scheduler" where
  "load_from_json J j s =
     (case from_json J j of
        Inl e \<Rightarrow> (Inl e, s)
      | Inr parsed \<Rightarrow> (Inr (), fold scheduler_add_range parsed s))"

definition is_active_now ::
    "('w \<Rightarrow> 'tp) \<Rightarrow> ('tp \<Rightarrow> tm_fields) \<Rightarrow> ('tp \<Rightarrow> tm_fields) \<Rightarrow> 'w \<Rightarrow> ('w, 'tp) scheduler \<Rightarrow> bool" where
  "is_active_now system_now get_utc_tm get_local_tm w s =
     (let tp = (case sched_now_provider s of Some p \<Rightarrow> p w | None \<Rightarrow> system_now w);
          tm = (if sched_base s = utc then get_utc_tm tp else get_local_tm tp)
      in is_active_at_tm (sched_ranges s) tm)"

lemma fold_add_range:
  assumes "\<forall>r \<in> set rs. valid_range r" "separated (sched_ranges s)" "\<forall>r \<in> set (sched_ranges s). valid_range r"
  shows "separated (sched_ranges (fold scheduler_add_range rs s)) \<and>
    (\<forall>r \<in> set (sched_ranges (fold scheduler_add_range rs s)). valid_range r) \<and>
    (covered (sched_ranges (fold scheduler_add_range rs s)) t \<longleftrightarrow> covered (sched_ranges s) t \<or> covered rs t)"
  using assms
proof (induction rs arbitrary: s)
  case (Cons r rs)
  have "separated (sched_ranges (scheduler_add_range r s)) \<and> (\<forall>x \<in> set (sched_ranges (scheduler_add_range r s)). valid_range x)"
    using Cons.prems add_range_keeps_separated [of r "sched_ranges s"] by (simp add: scheduler_add_range_def)
  moreover have "covered (sched_ranges (scheduler_add_range r s)) t \<longleftrightarrow> covered (sched_ranges s) t \<or> covers r t"
    using Cons.prems add_range_covered [of r "sched_ranges s" t] by (simp add: scheduler_add_range_def)
  ultimately show ?case using Cons.IH [of "scheduler_add_range r s"] Cons.prems
    by (auto simp: covered_def)
qed (simp add: covered_def)

text \<open>Loading a schedule from JSON is all or nothing. A document with an error anywhere throws
  and leaves the scheduler as it was; a correct one of valid times keeps the separation invariant and
  adds exactly the minutes of its ranges.\<close>

theorem load_from_json_spec:
  assumes "separated (sched_ranges s)" "\<forall>r \<in> set (sched_ranges s). valid_range r"
  shows "case from_json J j of
      Inl e \<Rightarrow> load_from_json J j s = (Inl e, s)
    | Inr rs \<Rightarrow> (\<forall>r \<in> set rs. valid_range r) \<longrightarrow>
        (\<exists>s'. load_from_json J j s = (Inr (), s') \<and> separated (sched_ranges s') \<and>
           (\<forall>r \<in> set (sched_ranges s'). valid_range r) \<and>
           (\<forall>t. covered (sched_ranges s') t \<longleftrightarrow> covered (sched_ranges s) t \<or> covered rs t))"
  using assms fold_add_range [of _ s]
  by (auto simp: load_from_json_def split: sum.split)

lemma json_values_monday:
  "from_json json_values (to_json json_values [monday_morning]) = Inr [monday_morning]"
  using json_values_laws ranges_from_to_json [of json_values "[monday_morning]" "[]"]
  by (simp add: from_json_def to_json_def json_laws_def int32_range_def int32_def)

theorem load_from_json_spec_witness:
  "\<exists>s'. load_from_json json_values (to_json json_values [monday_morning])
           (new_scheduler utc :: (unit, tm_fields) scheduler) = (Inr (), s') \<and>
     separated (sched_ranges s') \<and> (covered (sched_ranges s') 300 \<longleftrightarrow> covered [monday_morning] 300)"
  using load_from_json_spec [of "new_scheduler utc :: (unit, tm_fields) scheduler" json_values
      "to_json json_values [monday_morning]"]
  by (simp add: new_scheduler_def separated_def json_values_monday valid_range_def valid_time_def
      covered_def) blast

section \<open>schedule_dump.cpp\<close>

definition dump_line :: "weekly_range \<Rightarrow> string" where
  "dump_line r = day_name (start_day r) @ '' '' @
     to_string (hour (start_time r)) @ '':'' @ to_string (minute (start_time r)) @
     '' -> '' @ day_name (end_day r) @ '' '' @
     to_string (hour (end_time r)) @ '':'' @ to_string (minute (end_time r)) @ [char_of (10 :: nat)]"

definition dump_schedule :: "weekly_ranges \<Rightarrow> string" where
  "dump_schedule ranges = concat (map dump_line ranges)"

end
