(* ===== verification/Xml_Parser.thy ===== *)
theory Xml_Parser
  imports Cpp_Std
begin

text \<open>
  The XML parser of \<open>src/xml/xml_parser.cpp\<close>. The members \<open>xml_\<close>, \<open>pos_\<close> and \<open>len_\<close> are represented by
  the input that is left: \<open>pos_\<close> only moves forward, every test of \<open>pos_\<close> against \<open>len_\<close> is one on the
  length of the rest. A step returns \<open>Inl\<close> the exception it throws or \<open>Inr\<close> its result and the new
  rest. The recursion over elements carries fuel; the lemmas show that twice the length of the
  input plus three is always enough, so that the error \<open>Out_of_fuel\<close> never leaves \<open>xml_parse\<close>.
\<close>

section \<open>Nodes\<close>

datatype text_policy = trim_and_discard_empty | preserve | collapse_whitespace_only

record xml_attribute =
  attr_name :: string
  attr_value :: string
  attr_prefix :: string
  attr_ns_uri :: string

datatype xml_node = Node
  (node_name: string) (node_prefix: string) (node_ns_uri: string) (node_text: string)
  (node_attributes: "xml_attribute list") (node_children: "xml_node list")

definition find_child :: "xml_node \<Rightarrow> string \<Rightarrow> xml_node option" where
  "find_child n child_name = List.find (\<lambda>c. node_name c = child_name) (node_children n)"

definition find_attribute :: "xml_node \<Rightarrow> string \<Rightarrow> xml_attribute option" where
  "find_attribute n name = List.find (\<lambda>a. attr_name a = name) (node_attributes n)"

datatype sax_event = Start xml_node | Text string | End xml_node

fun traverse_sax :: "xml_node \<Rightarrow> sax_event list" where
  "traverse_sax (Node name pre uri txt attrs children) =
     [Start (Node name pre uri txt attrs children)] @ (if txt \<noteq> [] then [Text txt] else []) @
     concat (map traverse_sax children) @ [End (Node name pre uri txt attrs children)]"

section \<open>Tokens\<close>

datatype xml_error =
    Unexpected_end | Unexpected_token string | Name_at_end | Bad_name_start | Value_at_end | Value_not_quoted
  | Value_not_closed | Cdata_not_closed | Instruction_not_closed | Comment_not_closed | Tag_not_closed
  | Equals_missing | Element_start_missing | Stray_end_tag | Tag_end_missing | End_tag_end_missing
  | Tag_mismatch string string | Empty_input | Root_missing | Out_of_fuel

type_synonym ('a) parsed = "xml_error + 'a \<times> string"

text \<open>\<open>trim_spaces\<close>: the two index loops.\<close>

function spaces_begin :: "string \<Rightarrow> nat \<Rightarrow> nat" where
  "spaces_begin s i = (if i < length s \<and> isspace (s ! i) then spaces_begin s (i + 1) else i)"
  by pat_completeness auto
termination by (relation "measure (\<lambda>(s, i). length s - i)") auto

declare spaces_begin.simps [simp del]

fun spaces_end :: "string \<Rightarrow> nat \<Rightarrow> nat \<Rightarrow> nat" where
  "spaces_end s b 0 = 0"
| "spaces_end s b (Suc e) = (if Suc e > b \<and> isspace (s ! e) then spaces_end s b e else Suc e)"

definition trim_spaces :: "string \<Rightarrow> string" where
  "trim_spaces s =
     (let b = spaces_begin s 0 in
      if b = length s then [] else let e = spaces_end s b (length s) in take (e - b) (drop b s))"

definition peek_char :: "char \<Rightarrow> string \<Rightarrow> bool" where
  "peek_char c r \<longleftrightarrow> r \<noteq> [] \<and> hd r = c"

definition get_char :: "string \<Rightarrow> char parsed" where
  "get_char r = (if r = [] then Inl Unexpected_end else Inr (hd r, tl r))"

definition skip_whitespace :: "string \<Rightarrow> string" where
  "skip_whitespace r = dropWhile isspace r"

definition xml_starts_with :: "string \<Rightarrow> string \<Rightarrow> bool" where
  "xml_starts_with s r = (if length s > length r then False else take (length s) r = s)"

definition expect :: "string \<Rightarrow> string \<Rightarrow> xml_error + string" where
  "expect s r = (if \<not> xml_starts_with s r then Inl (Unexpected_token s) else Inr (drop (length s) r))"

definition is_name_char :: "char \<Rightarrow> bool" where
  "is_name_char c \<longleftrightarrow> isalnum c \<or> c = CHR ''_'' \<or> c = CHR ''-'' \<or> c = CHR '':'' \<or> c = CHR ''.''"

definition parse_raw_name :: "string \<Rightarrow> string parsed" where
  "parse_raw_name r =
     (if r = [] then Inl Name_at_end
      else if \<not> is_name_char (hd r) then Inl Bad_name_start
      else Inr (hd r # takeWhile is_name_char (tl r), dropWhile is_name_char (tl r)))"

definition split_qname :: "string \<Rightarrow> string \<times> string" where
  "split_qname raw_name =
     (case find_in [CHR '':''] raw_name of
        None \<Rightarrow> ([], raw_name)
      | Some p \<Rightarrow> (take p raw_name, drop (p + 1) raw_name))"

function decode_entities :: "string \<Rightarrow> string" where
  "decode_entities [] = []"
| "decode_entities (c # s) =
     (if c = CHR ''&'' then
        (if take 4 (c # s) = ''&lt;'' then CHR ''<'' # decode_entities (drop 3 s)
         else if take 4 (c # s) = ''&gt;'' then CHR ''>'' # decode_entities (drop 3 s)
         else if take 5 (c # s) = ''&amp;'' then CHR ''&'' # decode_entities (drop 4 s)
         else if take 6 (c # s) = ''&quot;'' then CHR 0x22 # decode_entities (drop 5 s)
         else if take 6 (c # s) = ''&apos;'' then CHR 0x27 # decode_entities (drop 5 s)
         else c # decode_entities s)
      else c # decode_entities s)"
  by pat_completeness auto
termination by (relation "measure length") auto

definition parse_attribute_value :: "string \<Rightarrow> string parsed" where
  "parse_attribute_value r0 =
     (let r = skip_whitespace r0 in
      if r = [] then Inl Value_at_end
      else let quote = hd r in
        if quote \<noteq> CHR 0x22 \<and> quote \<noteq> CHR 0x27 then Inl Value_not_quoted
        else let v = takeWhile (\<lambda>c. c \<noteq> quote) (tl r); r' = dropWhile (\<lambda>c. c \<noteq> quote) (tl r)
          in if r' = [] then Inl Value_not_closed else Inr (decode_entities v, tl r'))"

definition read_text :: "string \<Rightarrow> string \<times> string" where
  "read_text r = (takeWhile (\<lambda>c. c \<noteq> CHR ''<'') r, dropWhile (\<lambda>c. c \<noteq> CHR ''<'') r)"

text \<open>The loops that look for the end of a section: \<open>while (pos_ + k < len_ && !starts_with(token))\<close>.\<close>

function seek :: "nat \<Rightarrow> string \<Rightarrow> string \<Rightarrow> string" where
  "seek k token r = (if k < length r \<and> \<not> xml_starts_with token r then seek k token (tl r) else r)"
  by pat_completeness auto
termination by (relation "measure (\<lambda>(k, t, r). length r)") auto

declare seek.simps [simp del]

definition parse_cdata :: "string \<Rightarrow> string parsed" where
  "parse_cdata r0 =
     (case expect ''<![CDATA['' r0 of
        Inl e \<Rightarrow> Inl e
      | Inr r \<Rightarrow>
          let r' = seek 2 '']]>'' r in
          if length r' \<le> 2 then Inl Cdata_not_closed
          else (case expect '']]>'' r' of
              Inl e \<Rightarrow> Inl e
            | Inr r'' \<Rightarrow> Inr (take (length r - length r') r, r'')))"

definition skip_processing_instruction :: "string \<Rightarrow> xml_error + string" where
  "skip_processing_instruction r0 =
     (case expect ''<?'' r0 of
        Inl e \<Rightarrow> Inl e
      | Inr r \<Rightarrow> let r' = seek 1 ''?>'' r in if length r' \<le> 1 then Inl Instruction_not_closed else expect ''?>'' r')"

definition skip_comment :: "string \<Rightarrow> xml_error + string" where
  "skip_comment r0 =
     (case expect ''<!--'' r0 of
        Inl e \<Rightarrow> Inl e
      | Inr r \<Rightarrow> let r' = seek 2 ''-->'' r in if length r' \<le> 2 then Inl Comment_not_closed else expect ''-->'' r')"

section \<open>Progress of the tokens\<close>

lemma xml_starts_with_iff: "xml_starts_with s r \<longleftrightarrow> (\<exists>t. r = s @ t)"
  by (auto simp: xml_starts_with_def) (metis append_take_drop_id)

lemma expect_Inr: "expect s r = Inr r' \<longleftrightarrow> r = s @ r'"
  by (auto simp: expect_def xml_starts_with_iff)

lemma seek_length: "length (seek k t r) \<le> length r"
proof (induction k t r rule: seek.induct)
  case (1 k t r)
  then show ?case by (subst seek.simps) (auto intro: order_trans)
qed

lemma parse_raw_name_Inr:
  "parse_raw_name r = Inr (nm, r') \<Longrightarrow> r = nm @ r' \<and> nm \<noteq> [] \<and> list_all is_name_char nm"
  by (auto simp: parse_raw_name_def list_all_iff split: if_splits dest: set_takeWhileD)

lemma parse_attribute_value_length: "parse_attribute_value r = Inr (v, r') \<Longrightarrow> length r' < length r"
proof -
  assume a: "parse_attribute_value r = Inr (v, r')"
  let ?r = "skip_whitespace r"
  have "?r \<noteq> []" "r' = tl (dropWhile (\<lambda>c. c \<noteq> hd ?r) (tl ?r))"
    using a by (auto simp: parse_attribute_value_def Let_def split: if_splits)
  moreover have "length (dropWhile (\<lambda>c. c \<noteq> hd ?r) (tl ?r)) \<le> length (tl ?r)" by (rule length_dropWhile_le)
  moreover have "length ?r \<le> length r" by (simp add: length_dropWhile_le skip_whitespace_def)
  ultimately show ?thesis by (cases ?r) auto
qed

lemma skip_whitespace_length: "length (skip_whitespace r) \<le> length r"
  by (simp add: skip_whitespace_def length_dropWhile_le)

lemma skip_processing_instruction_length:
  assumes "skip_processing_instruction r = Inr r'"
  shows "length r' < length r"
proof -
  obtain r1 where "r = ''<?'' @ r1" "seek 1 ''?>'' r1 = ''?>'' @ r'"
    using assms by (auto simp: skip_processing_instruction_def Let_def expect_Inr split: sum.splits if_splits)
  then show ?thesis using seek_length [of 1 "''?>''" r1] by simp
qed

lemma skip_comment_length:
  assumes "skip_comment r = Inr r'"
  shows "length r' < length r"
proof -
  obtain r1 where "r = ''<!--'' @ r1" "seek 2 ''-->'' r1 = ''-->'' @ r'"
    using assms by (auto simp: skip_comment_def Let_def expect_Inr split: sum.splits if_splits)
  then show ?thesis using seek_length [of 2 "''-->''" r1] by simp
qed

lemma parse_cdata_length:
  assumes "parse_cdata r = Inr (v, r')"
  shows "length r' < length r"
proof -
  obtain r1 where "r = ''<![CDATA['' @ r1" "seek 2 '']]>'' r1 = '']]>'' @ r'"
    using assms by (auto simp: parse_cdata_def Let_def expect_Inr split: sum.splits if_splits)
  then show ?thesis using seek_length [of 2 "'']]>''" r1] by simp
qed

section \<open>Prolog and attributes\<close>

function skip_misc :: "string \<Rightarrow> xml_error + string" where
  "skip_misc r0 =
     (let r = skip_whitespace r0 in
      if \<not> peek_char (CHR ''<'') r then Inr r
      else if xml_starts_with ''<?'' r then
        (case skip_processing_instruction r of Inl e \<Rightarrow> Inl e | Inr r' \<Rightarrow> skip_misc r')
      else if xml_starts_with ''<!--'' r then
        (case skip_comment r of Inl e \<Rightarrow> Inl e | Inr r' \<Rightarrow> skip_misc r')
      else Inr r)"
  by pat_completeness auto
termination
proof (relation "measure length")
  fix r0 r r' assume "r = skip_whitespace r0" "skip_processing_instruction r = Inr r'"
  then show "(r', r0) \<in> measure length"
    using skip_processing_instruction_length [of r r'] skip_whitespace_length [of r0] by simp
next
  fix r0 r r' assume "r = skip_whitespace r0" "skip_comment r = Inr r'"
  then show "(r', r0) \<in> measure length"
    using skip_comment_length [of r r'] skip_whitespace_length [of r0] by simp
qed simp

declare skip_misc.simps [simp del]

type_synonym namespaces = "string \<Rightarrow> string option"

text \<open>What one attribute does: a namespace declaration changes the map, any other attribute is
  appended, with its namespace looked up in the map as it is at this point.\<close>

definition add_attribute ::
  "string \<Rightarrow> string \<Rightarrow> xml_attribute list \<times> namespaces \<Rightarrow> xml_attribute list \<times> namespaces" where
  "add_attribute raw_name v st =
     (let (attrs, ns_map) = st in
      if raw_name = ''xmlns'' then (attrs, ns_map([] \<mapsto> v))
      else if take 6 raw_name = ''xmlns:'' then (attrs, ns_map(drop 6 raw_name \<mapsto> v))
      else
        let (pre, local) = split_qname raw_name;
            uri = (if pre \<noteq> [] then (case ns_map pre of Some u \<Rightarrow> u | None \<Rightarrow> []) else [])
        in (attrs @ [\<lparr>attr_name = local, attr_value = v, attr_prefix = pre, attr_ns_uri = uri\<rparr>], ns_map))"

function parse_attributes ::
  "string \<Rightarrow> xml_attribute list \<times> namespaces \<Rightarrow> (xml_attribute list \<times> namespaces) parsed" where
  "parse_attributes r0 st =
     (let r = skip_whitespace r0 in
      if r = [] then Inl Tag_not_closed
      else if hd r = CHR ''/'' \<or> hd r = CHR ''>'' then Inr (st, r)
      else (case parse_raw_name r of
          Inl e \<Rightarrow> Inl e
        | Inr (raw_name, r1) \<Rightarrow>
            let r2 = skip_whitespace r1 in
            if \<not> peek_char (CHR ''='') r2 then Inl Equals_missing
            else (case parse_attribute_value (tl r2) of
                Inl e \<Rightarrow> Inl e
              | Inr (v, r3) \<Rightarrow> parse_attributes r3 (add_attribute raw_name v st))))"
  by pat_completeness auto
termination
proof (relation "measure (\<lambda>(r, st). length r)")
  fix r0 and st :: "xml_attribute list \<times> namespaces" and r x raw_name r1 r2 y v r3
  assume "r = skip_whitespace r0" "parse_raw_name r = Inr x" "(raw_name, r1) = x" "r2 = skip_whitespace r1"
    "parse_attribute_value (tl r2) = Inr y" "(v, r3) = y"
  moreover from this have "length r1 < length r" using parse_raw_name_Inr [of r raw_name r1] by auto
  ultimately have "length r3 < length r0"
    using parse_attribute_value_length [of "tl r2" v r3] skip_whitespace_length [of r0]
      skip_whitespace_length [of r1] by simp
  then show "((r3, add_attribute raw_name v st), r0, st) \<in> measure (\<lambda>(r, st). length r)" by simp
qed simp

declare parse_attributes.simps [simp del]

lemma parse_attributes_length: "parse_attributes r st = Inr (st', r') \<Longrightarrow> length r' \<le> length r \<and> r' \<noteq> []"
proof (induction r st arbitrary: st' r' rule: parse_attributes.induct)
  case (1 r0 st)
  let ?r = "skip_whitespace r0"
  show ?case
  proof (cases "?r = [] \<or> hd ?r = CHR ''/'' \<or> hd ?r = CHR ''>''")
    case True
    then show ?thesis using 1(2) skip_whitespace_length [of r0]
      by (subst (asm) parse_attributes.simps) (auto simp: Let_def split: if_splits)
  next
    case False
    then obtain raw_name r1 v r3 where p: "parse_raw_name ?r = Inr (raw_name, r1)"
      "peek_char (CHR ''='') (skip_whitespace r1)" "parse_attribute_value (tl (skip_whitespace r1)) = Inr (v, r3)"
      "parse_attributes r3 (add_attribute raw_name v st) = Inr (st', r')"
      using 1(2) by (subst (asm) parse_attributes.simps) (auto simp: Let_def split: if_splits sum.splits)
    then have "length r' \<le> length r3 \<and> r' \<noteq> []" using 1(1) False by simp
    moreover have "length r1 < length ?r" using parse_raw_name_Inr [OF p(1)] by auto
    ultimately show ?thesis
      using parse_attribute_value_length [OF p(3)] skip_whitespace_length [of r0] skip_whitespace_length [of r1]
      by simp arith
  qed
qed

section \<open>Text\<close>

definition append_text :: "string \<Rightarrow> string \<Rightarrow> string" where
  "append_text txt s = (if txt \<noteq> [] then txt @ [CHR '' ''] @ s else s)"

definition flush_text_buffer :: "text_policy \<Rightarrow> string \<Rightarrow> string \<Rightarrow> string" where
  "flush_text_buffer policy raw txt =
     (if raw = [] then txt
      else case policy of
        trim_and_discard_empty \<Rightarrow>
          let trimmed = trim_spaces raw in if trimmed = [] then txt else append_text txt (decode_entities trimmed)
      | preserve \<Rightarrow> txt @ decode_entities raw
      | collapse_whitespace_only \<Rightarrow>
          if list_all isspace raw then txt @ [CHR '' '']
          else let trimmed = trim_spaces raw
            in if trimmed = [] then txt else append_text txt (decode_entities trimmed))"

section \<open>Elements\<close>

text \<open>\<open>parse_content\<close> is the loop inside an element: \<open>buf\<close> is the text buffer, \<open>txt\<close> and \<open>children\<close> what
  the node has so far. The end of the input ends the loop without an error.\<close>

fun parse_element :: "nat \<Rightarrow> text_policy \<Rightarrow> namespaces \<Rightarrow> string \<Rightarrow> xml_node parsed"
  and parse_content ::
    "nat \<Rightarrow> text_policy \<Rightarrow> namespaces \<Rightarrow> string \<Rightarrow> string \<Rightarrow> string \<Rightarrow> xml_node list \<Rightarrow> string \<Rightarrow>
     (string \<times> xml_node list) parsed" where
  "parse_element 0 policy ns_map r = Inl Out_of_fuel"
| "parse_element (Suc n) policy ns_map r =
     (if \<not> peek_char (CHR ''<'') r then Inl Element_start_missing
      else if peek_char (CHR ''/'') (tl r) then Inl Stray_end_tag
      else case parse_raw_name (tl r) of
        Inl e \<Rightarrow> Inl e
      | Inr (raw_name, r1) \<Rightarrow>
          (case parse_attributes (skip_whitespace r1) ([], ns_map) of
            Inl e \<Rightarrow> Inl e
          | Inr ((attrs, ns_map'), r2) \<Rightarrow>
              let (pre, local) = split_qname raw_name;
                  uri = (case ns_map' pre of Some u \<Rightarrow> u | None \<Rightarrow> [])
              in if xml_starts_with ''/>'' r2 then
                   (case expect ''/>'' r2 of
                     Inl e \<Rightarrow> Inl e | Inr r3 \<Rightarrow> Inr (Node local pre uri [] attrs [], r3))
                 else if \<not> peek_char (CHR ''>'') r2 then Inl Tag_end_missing
                 else (case parse_content n policy ns_map' local [] [] [] (tl r2) of
                     Inl e \<Rightarrow> Inl e
                   | Inr ((txt, children), r4) \<Rightarrow> Inr (Node local pre uri txt attrs children, r4))))"
| "parse_content 0 policy ns_map name buf txt children r = Inl Out_of_fuel"
| "parse_content (Suc n) policy ns_map name buf txt children r =
     (if r = [] then Inr ((flush_text_buffer policy buf txt, children), r)
      else if peek_char (CHR ''<'') r then
        let txt = flush_text_buffer policy buf txt in
        if xml_starts_with ''</'' r then
          (case parse_raw_name (drop 2 r) of
            Inl e \<Rightarrow> Inl e
          | Inr (end_raw, r1) \<Rightarrow>
              let end_local = snd (split_qname end_raw); r2 = skip_whitespace r1 in
              if \<not> peek_char (CHR ''>'') r2 then Inl End_tag_end_missing
              else if end_local \<noteq> name then Inl (Tag_mismatch name end_local)
              else Inr ((flush_text_buffer policy [] txt, children), tl r2))
        else if xml_starts_with ''<!--'' r then
          (case skip_comment r of
            Inl e \<Rightarrow> Inl e | Inr r' \<Rightarrow> parse_content n policy ns_map name [] txt children r')
        else if xml_starts_with ''<?'' r then
          (case skip_processing_instruction r of
            Inl e \<Rightarrow> Inl e | Inr r' \<Rightarrow> parse_content n policy ns_map name [] txt children r')
        else if xml_starts_with ''<![CDATA['' r then
          (case parse_cdata r of
            Inl e \<Rightarrow> Inl e
          | Inr (cdata, r') \<Rightarrow> parse_content n policy ns_map name [] (append_text txt cdata) children r')
        else
          (case parse_element n policy ns_map r of
            Inl e \<Rightarrow> Inl e
          | Inr (child, r') \<Rightarrow> parse_content n policy ns_map name [] txt (children @ [child]) r')
      else
        let (t, r') = read_text r in parse_content n policy ns_map name (buf @ t) txt children r')"

definition xml_parse :: "text_policy \<Rightarrow> string \<Rightarrow> xml_error + xml_node" where
  "xml_parse policy xml =
     (if xml = [] then Inl Empty_input
      else case skip_misc (skip_whitespace xml) of
        Inl e \<Rightarrow> Inl e
      | Inr r0 \<Rightarrow>
          let r = skip_whitespace r0 in
          if \<not> peek_char (CHR ''<'') r then Inl Root_missing
          else case parse_element (2 * length r + 3) policy (\<lambda>p. None) r of
              Inl e \<Rightarrow> Inl e
            | Inr (root, r') \<Rightarrow> Inr root)"

section \<open>Progress and fuel\<close>

lemma tokens_no_fuel [simp]:
  "expect t r \<noteq> Inl Out_of_fuel" "parse_raw_name r \<noteq> Inl Out_of_fuel"
  "parse_attribute_value r \<noteq> Inl Out_of_fuel" "parse_cdata r \<noteq> Inl Out_of_fuel"
  "skip_processing_instruction r \<noteq> Inl Out_of_fuel" "skip_comment r \<noteq> Inl Out_of_fuel"
proof -
  show e: "expect t r \<noteq> Inl Out_of_fuel" for t r by (simp add: expect_def)
  show "parse_raw_name r \<noteq> Inl Out_of_fuel" by (simp add: parse_raw_name_def)
  show "parse_attribute_value r \<noteq> Inl Out_of_fuel" by (simp add: parse_attribute_value_def Let_def)
  show "parse_cdata r \<noteq> Inl Out_of_fuel" "skip_processing_instruction r \<noteq> Inl Out_of_fuel"
    "skip_comment r \<noteq> Inl Out_of_fuel"
    unfolding parse_cdata_def skip_processing_instruction_def skip_comment_def Let_def
    using e by (auto split: sum.splits)
qed

lemma parse_attributes_no_fuel [simp]: "parse_attributes r st \<noteq> Inl Out_of_fuel"
proof (induction r st rule: parse_attributes.induct)
  case (1 r0 st)
  then show ?case
    by (subst parse_attributes.simps) (auto simp: Let_def split: sum.splits)
qed

lemma skip_misc_no_fuel [simp]: "skip_misc r \<noteq> Inl Out_of_fuel"
proof (induction r rule: skip_misc.induct)
  case (1 r0)
  then show ?case
    by (subst skip_misc.simps) (auto simp: Let_def split: sum.splits)
qed

lemma peek_char_tl: "peek_char c r \<Longrightarrow> length (tl r) < length r"
  by (cases r) (simp_all add: peek_char_def)

lemma element_head_length:
  assumes "peek_char c r" "parse_raw_name (tl r) = Inr (nm, r1)"
    "parse_attributes (skip_whitespace r1) st = Inr (st', r2)"
  shows "length r2 + 2 \<le> length r \<and> r2 \<noteq> []"
  using peek_char_tl [OF assms(1)] parse_raw_name_Inr [OF assms(2)] skip_whitespace_length [of r1]
    parse_attributes_length [OF assms(3)]
  by (cases nm) auto

lemma end_tag_length:
  assumes "xml_starts_with ''</'' r" "parse_raw_name (drop 2 r) = Inr (nm, r1)"
  shows "length (tl (skip_whitespace r1)) < length r"
proof -
  obtain t where "r = ''</'' @ t" using assms(1) by (auto simp: xml_starts_with_iff)
  then show ?thesis using parse_raw_name_Inr [OF assms(2)] skip_whitespace_length [of r1] by auto
qed

lemma read_text_length: "\<not> peek_char (CHR ''<'') r \<Longrightarrow> r \<noteq> [] \<Longrightarrow> length (snd (read_text r)) < length r"
  by (cases r) (auto simp: read_text_def peek_char_def length_dropWhile_le less_Suc_eq_le)

lemma parse_progress:
  "parse_element n policy ns_map r = Inr (nd, r') \<Longrightarrow> length r' < length r"
  "parse_content n policy ns_map name buf tx children r = Inr (x, r') \<Longrightarrow> length r' \<le> length r"
proof (induction n policy ns_map r and n policy ns_map name buf tx children r arbitrary: nd r' and x r'
    rule: parse_element_parse_content.induct)
  case (2 n policy ns_map r)
  then obtain raw_name r1 st r2 where h: "peek_char (CHR ''<'') r" "parse_raw_name (tl r) = Inr (raw_name, r1)"
    "parse_attributes (skip_whitespace r1) ([], ns_map) = Inr (st, r2)"
    by (auto split: if_splits sum.splits)
  note l = element_head_length [OF h]
  show ?case using 2 h l
    by (auto simp: Let_def expect_Inr split: if_splits sum.splits prod.splits) fastforce+
next
  case (4 n policy ns_map name buf tx children r)
  show ?case
  proof (cases "r = []")
    case True
    then show ?thesis using 4(7) by simp
  next
    case ne: False
    show ?thesis
    proof (cases "peek_char (CHR ''<'') r")
      case True
      then show ?thesis
        using 4 ne end_tag_length [of r] skip_comment_length [of r] skip_processing_instruction_length [of r] parse_cdata_length [of r]
        by (auto simp: Let_def split: if_splits sum.splits) fastforce+
    next
      case False
      then show ?thesis using 4(6) [OF ne False] 4(7) ne read_text_length [OF False ne]
        by (fastforce split: prod.splits)
    qed
  qed
qed simp_all

lemma parse_fuel:
  "2 * length r + 1 \<le> n \<Longrightarrow> parse_element n policy ns_map r \<noteq> Inl Out_of_fuel"
  "2 * length r + 2 \<le> n \<Longrightarrow> parse_content n policy ns_map name buf tx children r \<noteq> Inl Out_of_fuel"
proof (induction n policy ns_map r and n policy ns_map name buf tx children r
    rule: parse_element_parse_content.induct)
  case (2 n policy ns_map r)
  have l: "length (tl r2) + 1 < length r" if "peek_char (CHR ''<'') r" "parse_raw_name (tl r) = Inr (nm, r1)"
    "parse_attributes (skip_whitespace r1) ([], ns_map) = Inr (st, r2)" for nm r1 st r2
    using element_head_length [OF that] by (cases r2) auto
  show ?case using 2 l
    by (auto simp: Let_def split: sum.splits prod.splits) fastforce+
next
  case (4 n policy ns_map name buf tx children r)
  show ?case
  proof (cases "r = []")
    case True
    then show ?thesis by simp
  next
    case ne: False
    show ?thesis
    proof (cases "peek_char (CHR ''<'') r")
      case True
      note lt = True
      let ?tx = "flush_text_buffer policy buf tx"
      show ?thesis
      proof (cases "xml_starts_with ''</'' r")
        case True
        then show ?thesis using lt ne by (auto simp: Let_def split: sum.splits)
      next
        case a: False
        show ?thesis
        proof (cases "xml_starts_with ''<!--'' r")
          case True
          then show ?thesis using 4(1) [OF ne lt refl a True] 4(7) skip_comment_length [of r] lt ne a
            by (cases "skip_comment r") auto
        next
          case b: False
          show ?thesis
          proof (cases "xml_starts_with ''<?'' r")
            case True
            then show ?thesis using 4(2) [OF ne lt refl a b True] 4(7) skip_processing_instruction_length [of r] lt ne a b
              by (cases "skip_processing_instruction r") auto
          next
            case c: False
            show ?thesis
            proof (cases "xml_starts_with ''<![CDATA['' r")
              case True
              then show ?thesis using 4(3) [OF ne lt refl a b c True] 4(7) parse_cdata_length [of r] lt ne a b c
                by (cases "parse_cdata r") auto
            next
              case d: False
              then show ?thesis using 4(4,5) [OF ne lt refl a b c d] 4(7) parse_progress(1) [of n policy ns_map r] lt ne a b c
                by (cases "parse_element n policy ns_map r") auto
            qed
          qed
        qed
      qed
    next
      case False
      then show ?thesis using 4(6) [OF ne False] 4(7) ne read_text_length [OF False ne]
        by (fastforce split: prod.splits)
    qed
  qed
qed simp_all

end
