(* ===== verification/Xml_Print.thy ===== *)
theory Xml_Print
  imports Xml_Parser
begin

text \<open>
  The two printers, \<open>serialize_xml\<close> of \<open>src/xml/xml.cpp\<close> and \<open>print_xml_tree\<close> of
  \<open>src/xml/xml_parser.cpp\<close>, as functions to strings. Parsing what \<open>serialize_xml\<close> wrote gives the
  tree back when its nodes have no prefix and their texts no outer white space; the printed tree, in
  which nothing is escaped, has no such property.
\<close>

section \<open>Printers\<close>

abbreviation newline :: char where "newline \<equiv> CHR 0x0A"
abbreviation quot :: char where "quot \<equiv> CHR 0x22"

definition escape_attr_char :: "char \<Rightarrow> string" where
  "escape_attr_char c =
     (if c = CHR ''&'' then ''&amp;'' else if c = CHR ''<'' then ''&lt;'' else if c = CHR ''>'' then ''&gt;''
      else if c = quot then ''&quot;'' else if c = CHR 0x27 then ''&apos;'' else [c])"

definition escape_attr :: "string \<Rightarrow> string" where
  "escape_attr s = concat (map escape_attr_char s)"

definition escape_text_char :: "char \<Rightarrow> string" where
  "escape_text_char c =
     (if c = CHR ''&'' then ''&amp;'' else if c = CHR ''<'' then ''&lt;'' else if c = CHR ''>'' then ''&gt;''
      else [c])"

definition escape_text :: "string \<Rightarrow> string" where
  "escape_text s = concat (map escape_text_char s)"

definition serialize_attribute :: "xml_attribute \<Rightarrow> string" where
  "serialize_attribute a = '' '' @ attr_name a @ ''='' @ [quot] @ escape_attr (attr_value a) @ [quot]"

fun serialize_node :: "xml_node \<Rightarrow> nat \<Rightarrow> string" where
  "serialize_node (Node name pre uri text attrs children) indent =
     replicate indent (CHR '' '') @ ''<'' @ name @ concat (map serialize_attribute attrs) @
     (if children = [] \<and> text = [] then '' />'' @ [newline]
      else ''>'' @ (if text \<noteq> [] then escape_text text else []) @
        (if children \<noteq> []
         then [newline] @ concat (map (\<lambda>c. serialize_node c (indent + 2)) children) @
              replicate indent (CHR '' '')
         else []) @
        ''</'' @ name @ ''>'' @ [newline])"

definition serialize_xml :: "xml_node \<Rightarrow> bool \<Rightarrow> string" where
  "serialize_xml n include_declaration =
     (if include_declaration
      then ''<?xml version='' @ [quot] @ ''1.0'' @ [quot] @ '' encoding='' @ [quot] @ ''UTF-8'' @ [quot] @ ''?>'' @ [newline]
      else []) @ serialize_node n 0"

definition qualified_name :: "string \<Rightarrow> string \<Rightarrow> string" where
  "qualified_name pre name = (if pre \<noteq> [] then pre @ '':'' else []) @ name"

fun print_xml_tree :: "xml_node \<Rightarrow> nat \<Rightarrow> string" where
  "print_xml_tree (Node name pre uri text attrs children) indent =
     (let indent_str = replicate (indent * 2) (CHR '' '') in
      indent_str @ ''<'' @ qualified_name pre name @
      concat (map (\<lambda>a. '' '' @ qualified_name (attr_prefix a) (attr_name a) @ ''='' @ [quot] @ attr_value a @ [quot]) attrs) @
      (if children = [] \<and> text = [] then '' />'' @ [newline]
       else ''>'' @ text @ (if children \<noteq> [] then [newline] else []) @
         concat (map (\<lambda>c. print_xml_tree c (indent + 1)) children) @
         (if children \<noteq> [] then indent_str else []) @
         ''</'' @ qualified_name pre name @ ''>'' @ [newline]))"

text \<open>What \<open>debug_sax_handler\<close> prints for an event.\<close>

definition debug_event :: "sax_event \<Rightarrow> string" where
  "debug_event ev =
     (case ev of
        Start n \<Rightarrow> ''[SAX] START: '' @ qualified_name (node_prefix n) (node_name n) @ [newline]
      | End n \<Rightarrow> ''[SAX] END  : '' @ qualified_name (node_prefix n) (node_name n) @ [newline]
      | Text t \<Rightarrow> (let trimmed = trim_spaces t in
          if trimmed \<noteq> [] then ''[SAX] TEXT : '' @ trimmed @ [newline] else []))"

section \<open>Trimming and entities\<close>

lemma spaces_begin_drop: "drop (spaces_begin s i) s = dropWhile isspace (drop i s)"
proof (induction s i rule: spaces_begin.induct)
  case (1 s i)
  show ?case
  proof (cases "i < length s")
    case True
    then have "drop i s = s ! i # drop (i + 1) s" by (simp add: Cons_nth_drop_Suc)
    then show ?thesis using 1 True by (subst spaces_begin.simps) (simp del: drop_Suc)
  next
    case False
    then show ?thesis by (subst spaces_begin.simps) simp
  qed
qed

lemma spaces_begin_le: "i \<le> length s \<Longrightarrow> i \<le> spaces_begin s i \<and> spaces_begin s i \<le> length s"
proof (induction s i rule: spaces_begin.induct)
  case (1 s i)
  then show ?case by (subst (1 2) spaces_begin.simps) auto
qed

lemma spaces_end_take:
  "b \<le> e \<Longrightarrow> e \<le> length s \<Longrightarrow>
   take (spaces_end s b e - b) (drop b s) = rev (dropWhile isspace (rev (take (e - b) (drop b s))))"
proof (induction s b e rule: spaces_end.induct)
  case (2 s b e)
  show ?case
  proof (cases "b = Suc e")
    case False
    then have "take (Suc e - b) (drop b s) = take (e - b) (drop b s) @ [s ! e]"
      using 2(2,3) by (simp add: Suc_diff_le take_Suc_conv_app_nth)
    then show ?thesis using 2 False by auto
  qed simp
qed simp

lemma trim_spaces_eq: "trim_spaces s = rev (dropWhile isspace (rev (dropWhile isspace s)))"
proof -
  let ?b = "spaces_begin s 0"
  have b: "?b \<le> length s" "drop ?b s = dropWhile isspace s"
    using spaces_begin_le [of 0 s] spaces_begin_drop [of s 0] by simp_all
  have "take (length s - ?b) (drop ?b s) = drop ?b s" by simp
  then show ?thesis using spaces_end_take [OF b(1) order_refl] b
    by (auto simp: trim_spaces_def Let_def)
qed

lemma dropWhile_blank: "list_all isspace w \<Longrightarrow> dropWhile isspace (w @ s) = dropWhile isspace s"
  by (induction w) simp_all

lemma trim_spaces_blank: "list_all isspace s \<Longrightarrow> trim_spaces s = []"
proof -
  assume "list_all isspace s"
  then have d: "dropWhile isspace s = []" using dropWhile_blank [of s "[]"] by simp
  show ?thesis unfolding trim_spaces_eq d by simp
qed

lemma trim_spaces_core:
  assumes "s \<noteq> []" "\<not> isspace (hd s)" "\<not> isspace (last s)" "list_all isspace w"
  shows "trim_spaces (s @ w) = s"
proof -
  have "dropWhile isspace (s @ w) = s @ w" using assms by (cases s) auto
  moreover have "dropWhile isspace (rev w @ rev s) = rev s"
    using assms dropWhile_blank [of "rev w" "rev s"] by (cases s rule: rev_cases) (simp_all add: list_all_iff)
  ultimately show ?thesis by (simp add: trim_spaces_eq)
qed

lemma decode_escape_attr: "decode_entities (escape_attr s) = s"
  by (induction s) (simp_all add: escape_attr_def escape_attr_char_def)

lemma decode_escape_text: "decode_entities (escape_text s) = s"
  by (induction s) (simp_all add: escape_text_def escape_text_char_def)

lemma escape_attr_no_quote: "quot \<notin> set (escape_attr s)"
  by (induction s) (auto simp: escape_attr_def escape_attr_char_def)

lemma escape_text_no_lt: "CHR ''<'' \<notin> set (escape_text s)"
  by (induction s) (auto simp: escape_text_def escape_text_char_def)

lemma escape_text_ends:
  assumes "s \<noteq> []" "\<not> isspace (hd s)" "\<not> isspace (last s)"
  shows "escape_text s \<noteq> []" "\<not> isspace (hd (escape_text s))" "\<not> isspace (last (escape_text s))"
proof -
  obtain a s1 where a: "s = a # s1" using assms(1) by (cases s) auto
  obtain z s2 where z: "s = s2 @ [z]" using assms(1) by (cases s rule: rev_cases) auto
  show "escape_text s \<noteq> []" by (simp add: a escape_text_def escape_text_char_def)
  show "\<not> isspace (hd (escape_text s))" using assms(2)
    by (auto simp: a escape_text_def escape_text_char_def isspace_def)
  show "\<not> isspace (last (escape_text s))" using assms(3)
    by (auto simp: z escape_text_def escape_text_char_def isspace_def)
qed

section \<open>Reading what was printed\<close>

definition valid_name :: "string \<Rightarrow> bool" where
  "valid_name s \<longleftrightarrow> s \<noteq> [] \<and> list_all is_name_char s \<and> CHR '':'' \<notin> set s"

definition printable_attribute :: "xml_attribute \<Rightarrow> bool" where
  "printable_attribute a \<longleftrightarrow> valid_name (attr_name a) \<and> attr_name a \<noteq> ''xmlns'' \<and> attr_prefix a = [] \<and> attr_ns_uri a = []"

fun printable :: "xml_node \<Rightarrow> bool" where
  "printable (Node name pre uri text attrs children) \<longleftrightarrow>
     valid_name name \<and> pre = [] \<and> uri = [] \<and>
     (text = [] \<or> \<not> isspace (hd text) \<and> \<not> isspace (last text)) \<and>
     list_all printable_attribute attrs \<and> list_all printable children"

lemma parse_raw_name_printed:
  assumes "valid_name nm" "\<not> is_name_char c"
  shows "parse_raw_name (nm @ c # r) = Inr (nm, c # r)"
proof -
  obtain a s where nm: "nm = a # s" using assms(1) by (cases nm) (auto simp: valid_name_def)
  have "takeWhile is_name_char (s @ c # r) = s" "dropWhile is_name_char (s @ c # r) = c # r"
    using assms by (auto simp: nm valid_name_def list_all_iff takeWhile_append2 dropWhile_append2)
  then show ?thesis using assms(1) by (simp add: nm parse_raw_name_def valid_name_def)
qed

lemma split_qname_printed: "valid_name nm \<Longrightarrow> split_qname nm = ([], nm)"
proof -
  have "CHR '':'' \<notin> set s \<Longrightarrow> find_in [CHR '':''] s = None" for s by (induction s) auto
  then show "valid_name nm \<Longrightarrow> split_qname nm = ([], nm)" by (simp add: split_qname_def valid_name_def)
qed

lemma name_char_cases:
  "is_name_char c \<Longrightarrow> \<not> isspace c \<and> c \<noteq> CHR ''/'' \<and> c \<noteq> CHR ''>'' \<and> c \<noteq> CHR ''!'' \<and> c \<noteq> CHR ''?'' \<and> c \<noteq> CHR ''<'' \<and> c \<noteq> CHR ''=''"
  by (auto simp: is_name_char_def isalnum_def isdigit_def isupper_def islower_def isspace_def)

lemma not_name_chars [simp]:
  "\<not> is_name_char (CHR ''='')" "\<not> is_name_char (CHR ''>'')" "\<not> is_name_char (CHR '' '')"
  by (simp_all add: is_name_char_def isalnum_def isdigit_def isupper_def islower_def)

lemma not_spaces [simp]:
  "\<not> isspace (CHR ''='')" "\<not> isspace (CHR ''>'')" "isspace (CHR '' '')" "\<not> isspace quot" "\<not> isspace (CHR ''/'')"
  "isspace newline" "\<not> isspace (CHR ''<'')"
  by (simp_all add: isspace_def)

lemma valid_name_hd: "valid_name nm \<Longrightarrow> \<exists>a s. nm = a # s \<and> is_name_char a"
  by (cases nm) (auto simp: valid_name_def)

lemma parse_attribute_value_printed:
  "parse_attribute_value ([quot] @ escape_attr v @ [quot] @ r) = Inr (v, r)"
proof -
  have "takeWhile (\<lambda>c. c \<noteq> quot) (escape_attr v @ quot # r) = escape_attr v"
    "dropWhile (\<lambda>c. c \<noteq> quot) (escape_attr v @ quot # r) = quot # r"
    using escape_attr_no_quote [of v] by (simp_all add: takeWhile_not_in dropWhile_not_in)
  then show ?thesis
    by (simp add: parse_attribute_value_def skip_whitespace_def decode_escape_attr)
qed

lemma parse_attributes_skip: "parse_attributes (skip_whitespace r) st = parse_attributes r st"
  by (subst (1 2) parse_attributes.simps) (simp add: skip_whitespace_def Let_def)

lemma add_attribute_printed:
  "printable_attribute a \<Longrightarrow> add_attribute (attr_name a) (attr_value a) (attrs, ns) = (attrs @ [a], ns)"
proof -
  assume a: "printable_attribute a"
  have "take 6 (attr_name a) \<noteq> ''xmlns:''"
  proof
    assume "take 6 (attr_name a) = ''xmlns:''"
    then have "CHR '':'' \<in> set (attr_name a)" by (metis in_set_takeD list.set_intros)
    then show False using a by (simp add: printable_attribute_def valid_name_def)
  qed
  then show ?thesis using a by (cases a) (simp add: add_attribute_def printable_attribute_def split_qname_printed)
qed

lemma parse_attributes_printed:
  assumes "list_all printable_attribute attrs" "skip_whitespace r = c # r'" "c = CHR ''/'' \<or> c = CHR ''>''"
  shows "parse_attributes (concat (map serialize_attribute attrs) @ r) (acc, ns) = Inr ((acc @ attrs, ns), c # r')"
  using assms(1)
proof (induction attrs arbitrary: acc)
  case Nil
  then show ?case using assms(2,3) by (subst parse_attributes.simps) auto
next
  case (Cons a attrs)
  let ?r = "concat (map serialize_attribute attrs) @ r"
  have a: "printable_attribute a" "valid_name (attr_name a)" using Cons.prems by (simp_all add: printable_attribute_def)
  obtain x s where x: "attr_name a = x # s" "is_name_char x" using valid_name_hd [OF a(2)] by blast
  note nx = name_char_cases [OF x(2)]
  let ?t = "attr_name a @ CHR ''='' # [quot] @ escape_attr (attr_value a) @ [quot] @ ?r"
  have sk: "skip_whitespace (concat (map serialize_attribute (a # attrs)) @ r) = ?t"
    using nx by (simp add: skip_whitespace_def serialize_attribute_def x(1))
  have "parse_attributes (concat (map serialize_attribute (a # attrs)) @ r) (acc, ns) =
      parse_attributes ?r (add_attribute (attr_name a) (attr_value a) (acc, ns))"
    by (subst parse_attributes.simps, unfold Let_def sk)
      (use nx parse_raw_name_printed [OF a(2), of "CHR ''=''"] parse_attribute_value_printed [of "attr_value a" ?r] in
        \<open>simp add: x(1) skip_whitespace_def peek_char_def\<close>)
  then show ?case using Cons by (simp add: add_attribute_printed)
qed

text \<open>A printed node without its indentation and final newline, and the children of a node with the
  white space behind each of them.\<close>

fun core :: "xml_node \<Rightarrow> nat \<Rightarrow> string" where
  "core (Node name pre uri text attrs children) indent =
     ''<'' @ name @ concat (map serialize_attribute attrs) @
     (if children = [] \<and> text = [] then '' />''
      else ''>'' @ (if text \<noteq> [] then escape_text text else []) @
        (if children \<noteq> []
         then [newline] @ concat (map (\<lambda>c. serialize_node c (indent + 2)) children) @ replicate indent (CHR '' '')
         else []) @
        ''</'' @ name @ ''>'')"

lemma serialize_core: "serialize_node n indent = replicate indent (CHR '' '') @ core n indent @ [newline]"
  by (cases n) simp

fun kids :: "nat \<Rightarrow> xml_node list \<Rightarrow> string" where
  "kids i [] = []"
| "kids i (c # cs) = core c (i + 2) @ newline # replicate (if cs = [] then i else i + 2) (CHR '' '') @ kids i cs"

lemma serialize_kids:
  "concat (map (\<lambda>c. serialize_node c (i + 2)) cs) @ replicate i (CHR '' '') =
   replicate (if cs = [] then i else i + 2) (CHR '' '') @ kids i cs"
  by (induction cs) (simp_all add: serialize_core)

definition parses :: "xml_node \<Rightarrow> bool" where
  "parses n \<longleftrightarrow> (\<forall>i k t. 2 * length (core n i @ t) + 1 \<le> k \<longrightarrow>
     parse_element k trim_and_discard_empty (\<lambda>p. None) (core n i @ t) = Inr (n, t))"

lemma core_head:
  assumes "printable n"
  obtains a r where "core n i = CHR ''<'' # a # r" "is_name_char a"
proof (cases n)
  case (Node nm pre uri tx attrs children)
  then obtain a s where "nm = a # s" "is_name_char a" using assms valid_name_hd [of nm] Node by auto
  then show thesis using that Node by simp
qed

lemma flush_white:
  "list_all isspace w \<Longrightarrow> flush_text_buffer trim_and_discard_empty w tx = tx"
  by (simp add: flush_text_buffer_def trim_spaces_blank)

lemma flush_printed:
  assumes "tx \<noteq> []" "\<not> isspace (hd tx)" "\<not> isspace (last tx)" "list_all isspace w"
  shows "flush_text_buffer trim_and_discard_empty (escape_text tx @ w) [] = tx"
  using trim_spaces_core [OF escape_text_ends [OF assms(1-3)] assms(4)] escape_text_ends(1) [OF assms(1-3)]
  by (simp add: flush_text_buffer_def Let_def append_text_def decode_escape_text)

lemma content_read:
  assumes "peek_char (CHR ''<'') s" "CHR ''<'' \<notin> set w" "w \<noteq> []" "2 * length (w @ s) + 2 \<le> k"
  obtains k' where "parse_content k pol ns nm buf tx acc (w @ s) = parse_content k' pol ns nm (buf @ w) tx acc s"
    "2 * length s + 2 \<le> k'"
proof -
  obtain k' where k: "k = Suc k'" using assms(4) by (cases k) auto
  obtain r where s: "s = CHR ''<'' # r" using assms(1) by (cases s) (auto simp: peek_char_def)
  have "read_text (w @ s) = (w, s)"
    using assms(2) by (simp add: read_text_def takeWhile_not_in dropWhile_not_in s)
  moreover have "\<not> peek_char (CHR ''<'') (w @ s)"
    using assms(2,3) by (cases w) (auto simp: peek_char_def)
  ultimately have "parse_content k pol ns nm buf tx acc (w @ s) = parse_content k' pol ns nm (buf @ w) tx acc s"
    using assms(3) by (simp add: k)
  moreover have "2 * length s + 2 \<le> k'" using assms(3,4) by (cases w) (auto simp: k)
  ultimately show thesis by (rule that)
qed

lemma content_end_tag:
  assumes "valid_name nm" "2 * length (''</'' @ nm @ ''>'' @ t) + 2 \<le> k"
  shows "parse_content k pol ns nm buf tx acc (''</'' @ nm @ ''>'' @ t) =
    Inr ((flush_text_buffer pol buf tx, acc), t)"
proof -
  obtain k' where "k = Suc k'" using assms(2) by (cases k) auto
  moreover have "parse_raw_name (nm @ CHR ''>'' # t) = Inr (nm, CHR ''>'' # t)"
    by (rule parse_raw_name_printed [OF assms(1)]) simp
  ultimately show ?thesis
    using split_qname_printed [OF assms(1)]
    by (simp add: peek_char_def xml_starts_with_def skip_whitespace_def flush_text_buffer_def)
qed

lemma content_child:
  assumes "printable c" "parses c" "2 * length (core c i @ t) + 2 \<le> k"
  shows "\<exists>k'. parse_content k trim_and_discard_empty (\<lambda>p. None) nm buf tx acc (core c i @ t) =
      parse_content k' trim_and_discard_empty (\<lambda>p. None) nm [] (flush_text_buffer trim_and_discard_empty buf tx) (acc @ [c]) t \<and>
      2 * length t + 2 \<le> k'"
proof -
  obtain k' where k: "k = Suc k'" using assms(3) by (cases k) auto
  obtain a r where h: "core c i = CHR ''<'' # a # r" "is_name_char a" by (rule core_head [OF assms(1)])
  note a = name_char_cases [OF h(2)]
  have "parse_element k' trim_and_discard_empty (\<lambda>p. None) (core c i @ t) = Inr (c, t)"
    using assms(2,3) unfolding parses_def k by auto
  then have "parse_content k trim_and_discard_empty (\<lambda>p. None) nm buf tx acc (core c i @ t) =
      parse_content k' trim_and_discard_empty (\<lambda>p. None) nm [] (flush_text_buffer trim_and_discard_empty buf tx) (acc @ [c]) t"
    using a by (simp add: k h(1) peek_char_def xml_starts_with_def Let_def)
  moreover have "2 * length t + 2 \<le> k'" using assms(3) h(1) by (simp add: k)
  ultimately show ?thesis by blast
qed

lemma blank_no_lt: "list_all isspace w \<Longrightarrow> CHR ''<'' \<notin> set w"
  by (auto simp: list_all_iff)

lemma content_kids:
  assumes "valid_name nm" "list_all printable cs" "list_all parses cs"
    "list_all isspace w" "2 * length (w @ kids i cs @ ''</'' @ nm @ ''>'' @ t) + 2 \<le> k"
  shows "parse_content k trim_and_discard_empty (\<lambda>p. None) nm [] tx acc (w @ kids i cs @ ''</'' @ nm @ ''>'' @ t) =
    Inr ((tx, acc @ cs), t)"
  using assms(2-5)
proof (induction cs arbitrary: w k acc)
  case Nil
  show ?case
  proof (cases "w = []")
    case True
    then show ?thesis using content_end_tag [OF assms(1), of t k] Nil.prems(4)
      by (simp add: flush_text_buffer_def)
  next
    case False
    have "peek_char (CHR ''<'') (''</'' @ nm @ ''>'' @ t)" by (simp add: peek_char_def)
    moreover have "2 * length (w @ ''</'' @ nm @ ''>'' @ t) + 2 \<le> k" using Nil.prems(4) by simp
    ultimately obtain k' where
      "parse_content k trim_and_discard_empty (\<lambda>p. None) nm [] tx acc (w @ ''</'' @ nm @ ''>'' @ t) =
        parse_content k' trim_and_discard_empty (\<lambda>p. None) nm ([] @ w) tx acc (''</'' @ nm @ ''>'' @ t)"
      "2 * length (''</'' @ nm @ ''>'' @ t) + 2 \<le> k'"
      using content_read blank_no_lt [OF Nil.prems(3)] False by blast
    then show ?thesis using content_end_tag [OF assms(1), of t k'] flush_white [OF Nil.prems(3)] by simp
  qed
next
  case (Cons c cs)
  let ?w = "newline # replicate (if cs = [] then i else i + 2) (CHR '' '')"
  let ?t = "?w @ kids i cs @ ''</'' @ nm @ ''>'' @ t"
  obtain a r where h: "core c (i + 2) = CHR ''<'' # a # r" "is_name_char a"
    using core_head Cons.prems(1) by (metis list.pred_inject(2))
  obtain k1 buf where r1: "parse_content k trim_and_discard_empty (\<lambda>p. None) nm [] tx acc (w @ core c (i + 2) @ ?t) =
      parse_content k1 trim_and_discard_empty (\<lambda>p. None) nm buf tx acc (core c (i + 2) @ ?t)"
    "2 * length (core c (i + 2) @ ?t) + 2 \<le> k1" "list_all isspace buf"
  proof (cases "w = []")
    case True
    then show thesis using that [of k "[]"] Cons.prems(4) by simp
  next
    case False
    have "peek_char (CHR ''<'') (core c (i + 2) @ ?t)" by (simp only: h(1)) (simp add: peek_char_def)
    moreover have "2 * length (w @ core c (i + 2) @ ?t) + 2 \<le> k" using Cons.prems(4) by simp
    ultimately obtain k' where
      "parse_content k trim_and_discard_empty (\<lambda>p. None) nm [] tx acc (w @ core c (i + 2) @ ?t) =
        parse_content k' trim_and_discard_empty (\<lambda>p. None) nm ([] @ w) tx acc (core c (i + 2) @ ?t)"
      "2 * length (core c (i + 2) @ ?t) + 2 \<le> k'"
      using content_read blank_no_lt [OF Cons.prems(3)] False by blast
    then show thesis using that [of k' w] Cons.prems(3) by simp
  qed
  obtain k2 where r2: "parse_content k1 trim_and_discard_empty (\<lambda>p. None) nm buf tx acc (core c (i + 2) @ ?t) =
      parse_content k2 trim_and_discard_empty (\<lambda>p. None) nm [] tx (acc @ [c]) ?t" "2 * length ?t + 2 \<le> k2"
    using content_child [OF _ _ r1(2), of nm buf tx acc] Cons.prems(1,2) flush_white [OF r1(3)] by auto
  have "list_all isspace ?w" by (simp add: list_all_iff)
  then have "parse_content k2 trim_and_discard_empty (\<lambda>p. None) nm [] tx (acc @ [c]) ?t = Inr ((tx, (acc @ [c]) @ cs), t)"
    using Cons.prems r2(2) by (intro Cons.IH) simp_all
  then show ?case using r1(1) r2(1) by simp
qed

lemma content_flush:
  assumes "valid_name nm" "list_all printable cs" "list_all parses cs"
    "flush_text_buffer trim_and_discard_empty buf tx0 = tx" "2 * length (kids i cs @ ''</'' @ nm @ ''>'' @ t) + 2 \<le> k"
  shows "parse_content k trim_and_discard_empty (\<lambda>p. None) nm buf tx0 acc (kids i cs @ ''</'' @ nm @ ''>'' @ t) =
    Inr ((tx, acc @ cs), t)"
proof (cases cs)
  case Nil
  then show ?thesis using content_end_tag [OF assms(1), of t k] assms(4,5) by simp
next
  case (Cons c cs')
  let ?w = "newline # replicate (if cs' = [] then i else i + 2) (CHR '' '')"
  let ?t = "?w @ kids i cs' @ ''</'' @ nm @ ''>'' @ t"
  obtain k2 where r2: "parse_content k trim_and_discard_empty (\<lambda>p. None) nm buf tx0 acc (core c (i + 2) @ ?t) =
      parse_content k2 trim_and_discard_empty (\<lambda>p. None) nm [] tx (acc @ [c]) ?t" "2 * length ?t + 2 \<le> k2"
    using content_child [of c "i + 2" ?t k nm buf tx0 acc] assms(2-5) Cons by auto
  have "list_all isspace ?w" by (simp add: list_all_iff)
  then have "parse_content k2 trim_and_discard_empty (\<lambda>p. None) nm [] tx (acc @ [c]) ?t = Inr ((tx, (acc @ [c]) @ cs'), t)"
    using assms(1-3) Cons r2(2) by (intro content_kids) simp_all
  then show ?thesis using Cons r2(1) by simp
qed

definition inner :: "string \<Rightarrow> xml_node list \<Rightarrow> nat \<Rightarrow> string" where
  "inner tx cs i = (if tx \<noteq> [] then escape_text tx else []) @
     (if cs \<noteq> [] then newline # replicate (i + 2) (CHR '' '') @ kids i cs else [])"

lemma kids_peek:
  assumes "list_all printable cs"
  shows "peek_char (CHR ''<'') (kids i cs @ ''</'' @ s)"
proof (cases cs)
  case (Cons c cs')
  then have "printable c" using assms by simp
  then obtain a r where "core c (i + 2) = CHR ''<'' # a # r" by (rule core_head)
  then show ?thesis unfolding Cons kids.simps by (simp only: append_Cons) (simp add: peek_char_def)
qed (simp add: peek_char_def)

lemma content_inner:
  assumes "valid_name nm" "list_all printable cs" "list_all parses cs" "cs \<noteq> [] \<or> tx \<noteq> []"
    "tx = [] \<or> \<not> isspace (hd tx) \<and> \<not> isspace (last tx)"
    "2 * length (inner tx cs i @ ''</'' @ nm @ ''>'' @ t) + 2 \<le> k"
  shows "parse_content k trim_and_discard_empty (\<lambda>p. None) nm [] [] [] (inner tx cs i @ ''</'' @ nm @ ''>'' @ t) =
    Inr ((tx, cs), t)"
proof -
  define w where "w = (if cs \<noteq> [] then newline # replicate (i + 2) (CHR '' '') else [])"
  define e where "e = (if tx \<noteq> [] then escape_text tx else [])"
  let ?r = "kids i cs @ ''</'' @ nm @ ''>'' @ t"
  have inn: "inner tx cs i @ ''</'' @ nm @ ''>'' @ t = (e @ w) @ ?r" by (simp add: inner_def w_def e_def)
  have w: "list_all isspace w" by (auto simp: w_def list_all_iff)
  have lt: "CHR ''<'' \<notin> set (e @ w)" using escape_text_no_lt [of tx] blank_no_lt [OF w] by (simp add: e_def)
  have ne: "e @ w \<noteq> []" using assms(4,5) escape_text_ends(1) [of tx] by (auto simp: e_def w_def)
  have fl: "flush_text_buffer trim_and_discard_empty (e @ w) [] = tx"
    using flush_printed [of tx w] flush_white [OF w, of "[]"] assms(5) w by (auto simp: e_def)
  have len: "2 * length ((e @ w) @ ?r) + 2 \<le> k" using assms(6) unfolding inn .
  obtain k' where "parse_content k trim_and_discard_empty (\<lambda>p. None) nm [] [] [] ((e @ w) @ ?r) =
      parse_content k' trim_and_discard_empty (\<lambda>p. None) nm ([] @ e @ w) [] [] ?r" "2 * length ?r + 2 \<le> k'"
    using content_read [OF _ lt ne len] kids_peek [OF assms(2)] by blast
  then show ?thesis unfolding inn using content_flush [OF assms(1-3), of "e @ w" "[]" tx i t k' "[]"] fl by simp
qed

lemma core_inner:
  "core (Node nm pre uri tx attrs cs) i = ''<'' @ nm @ concat (map serialize_attribute attrs) @
     (if cs = [] \<and> tx = [] then '' />'' else ''>'' @ inner tx cs i @ ''</'' @ nm @ ''>'')"
  using serialize_kids [of i cs] by (simp add: inner_def)

lemma parses_printable: "printable n \<Longrightarrow> parses n"
proof (induction n)
  case (Node nm pre uri tx attrs cs)
  let ?A = "concat (map serialize_attribute attrs)"
  have p: "valid_name nm" "pre = []" "uri = []" "list_all printable_attribute attrs" "list_all printable cs"
    "tx = [] \<or> \<not> isspace (hd tx) \<and> \<not> isspace (last tx)"
    using Node.prems by simp_all
  have cs: "list_all parses cs" using Node.IH p(5) by (simp add: list_all_iff)
  obtain a s where nm: "nm = a # s" "is_name_char a" using valid_name_hd [OF p(1)] by blast
  note a = name_char_cases [OF nm(2)]
  have name: "parse_raw_name (nm @ ?A @ r) = Inr (nm, ?A @ r)" if r: "\<exists>c r'. r = c # r' \<and> \<not> is_name_char c" for r
  proof -
    obtain c r' where "?A @ r = c # r'" "\<not> is_name_char c"
      using r by (cases attrs) (auto simp: serialize_attribute_def)
    then show ?thesis using parse_raw_name_printed [OF p(1)] by simp
  qed
  show ?case
    unfolding parses_def
  proof (intro allI impI)
    fix i k t assume k: "2 * length (core (Node nm pre uri tx attrs cs) i @ t) + 1 \<le> k"
    then obtain k' where k': "k = Suc k'" by (cases k) auto
    show "parse_element k trim_and_discard_empty (\<lambda>p. None) (core (Node nm pre uri tx attrs cs) i @ t) =
        Inr (Node nm pre uri tx attrs cs, t)"
    proof (cases "cs = [] \<and> tx = []")
      case True
      have "skip_whitespace ('' />'' @ t) = CHR ''/'' # ''>'' @ t" by (simp add: skip_whitespace_def)
      from parse_attributes_printed [OF p(4) this, of "[]" "\<lambda>p. None"]
      have "parse_attributes (?A @ '' />'' @ t) ([], \<lambda>p. None) = Inr ((attrs, \<lambda>p. None), ''/>'' @ t)" by simp
      moreover have cr: "core (Node nm pre uri tx attrs cs) i @ t = CHR ''<'' # nm @ ?A @ '' />'' @ t"
        unfolding core_inner using True by simp
      ultimately show ?thesis
        using True p(2,3) a name [of "'' />'' @ t"] split_qname_printed [OF p(1)]
        unfolding cr k' by (simp add: peek_char_def parse_attributes_skip xml_starts_with_def expect_def nm(1))
    next
      case False
      let ?c = "inner tx cs i @ ''</'' @ nm @ ''>'' @ t"
      have cr: "core (Node nm pre uri tx attrs cs) i @ t = CHR ''<'' # nm @ ?A @ ''>'' @ ?c"
        unfolding core_inner using False by simp
      have len: "2 * length ?c + 2 \<le> k'" using k unfolding cr k' by simp
      have "skip_whitespace (''>'' @ ?c) = CHR ''>'' # ?c" by (simp add: skip_whitespace_def)
      from parse_attributes_printed [OF p(4) this, of "[]" "\<lambda>p. None"]
      have "parse_attributes (?A @ ''>'' @ ?c) ([], \<lambda>p. None) = Inr ((attrs, \<lambda>p. None), ''>'' @ ?c)" by simp
      moreover have "parse_content k' trim_and_discard_empty (\<lambda>p. None) nm [] [] [] ?c = Inr ((tx, cs), t)"
        using False k p(6) len by (intro content_inner [OF p(1,5) cs]) (auto simp: k')
      ultimately show ?thesis
        using p(2,3) a name [of "''>'' @ ?c"] split_qname_printed [OF p(1)]
        unfolding cr k' by (simp add: peek_char_def parse_attributes_skip xml_starts_with_def nm(1))
    qed
  qed
qed

section \<open>The round trip\<close>

lemma skip_misc_element:
  assumes "printable n"
  shows "skip_misc (core n i @ t) = Inr (core n i @ t)" "skip_whitespace (core n i @ t) = core n i @ t"
proof -
  obtain a r where h: "core n i = CHR ''<'' # a # r" "is_name_char a" by (rule core_head [OF assms])
  note a = name_char_cases [OF h(2)]
  show "skip_whitespace (core n i @ t) = core n i @ t" by (simp add: h(1) skip_whitespace_def)
  then show "skip_misc (core n i @ t) = Inr (core n i @ t)"
    using a by (subst skip_misc.simps) (simp add: h(1) peek_char_def xml_starts_with_def Let_def)
qed

lemma skip_declaration:
  "skip_misc (''<?xml version='' @ [quot] @ ''1.0'' @ [quot] @ '' encoding='' @ [quot] @ ''UTF-8'' @ [quot] @ ''?>'' @ [newline] @ r) =
   skip_misc r"
proof -
  have 1: "skip_processing_instruction (''<?xml version='' @ [quot] @ ''1.0'' @ [quot] @ '' encoding='' @ [quot] @
      ''UTF-8'' @ [quot] @ ''?>'' @ [newline] @ r) = Inr ([newline] @ r)"
    by (simp add: skip_processing_instruction_def expect_def xml_starts_with_def seek.simps Let_def)
  have "skip_misc (newline # r) = skip_misc r"
    by (subst (1 2) skip_misc.simps) (simp add: skip_whitespace_def Let_def)
  then show ?thesis using 1
    by (subst skip_misc.simps) (simp add: skip_whitespace_def peek_char_def xml_starts_with_def)
qed

lemma parse_serialize:
  assumes "printable n"
  shows "xml_parse trim_and_discard_empty (serialize_xml n decl) = Inr n"
proof -
  let ?s = "core n 0 @ [newline]"
  have pe: "parse_element (2 * length ?s + 3) trim_and_discard_empty (\<lambda>p. None) ?s = Inr (n, [newline])"
  proof -
    have "2 * length ?s + 1 \<le> 2 * length ?s + 3" by simp
    then show ?thesis using parses_printable [OF assms] unfolding parses_def by blast
  qed
  obtain a r where "core n 0 = CHR ''<'' # a # r" by (rule core_head [OF assms])
  then have pk: "peek_char (CHR ''<'') ?s" "?s \<noteq> []" by (simp_all add: peek_char_def)
  note sk = skip_misc_element [OF assms, of 0 "[newline]"]
  have sm: "skip_misc (skip_whitespace (serialize_xml n decl)) = Inr ?s"
  proof (cases decl)
    case True
    have "skip_whitespace (serialize_xml n True) = serialize_xml n True"
      by (simp add: serialize_xml_def skip_whitespace_def)
    then show ?thesis using skip_declaration [of ?s] sk True by (simp add: serialize_xml_def serialize_core)
  next
    case False
    then show ?thesis using sk by (simp add: serialize_xml_def serialize_core)
  qed
  have "serialize_xml n decl \<noteq> []" using pk(2) by (simp add: serialize_xml_def serialize_core)
  then show ?thesis using sm sk pk pe by (simp add: xml_parse_def Let_def)
qed

text \<open>C16: parsing a serialized tree, with or without the XML declaration, gives the tree back, for every
  tree whose names are names, whose nodes carry no prefix and whose texts have no outer white space;
  attribute values and texts may hold any characters.\<close>

theorem xml_roundtrip:
  assumes "printable n"
  shows "xml_parse trim_and_discard_empty (serialize_xml n decl) = Inr n"
  using assms by (rule parse_serialize)

definition sample_tree :: xml_node where
  "sample_tree = Node ''book'' [] [] ''R & D <1>'' [\<lparr>attr_name = ''id'', attr_value = ''a< '', attr_prefix = [], attr_ns_uri = []\<rparr>]
     [Node ''title'' [] [] ''C++'' [] [], Node ''empty'' [] [] [] [] []]"

lemma sample_printable: "printable sample_tree"
  by (simp add: sample_tree_def valid_name_def is_name_char_def isalnum_def isdigit_def isupper_def islower_def
      printable_attribute_def isspace_def)

theorem xml_roundtrip_witness:
  "xml_parse trim_and_discard_empty (serialize_xml sample_tree True) = Inr sample_tree"
  by (rule xml_roundtrip [OF sample_printable])

text \<open>C17: parsing ends on every input: the recursion never runs out of fuel, whatever the text, and the
  only other outcomes are a tree or one of the exceptions of the source.\<close>

theorem xml_parse_terminates: "xml_parse policy s \<noteq> Inl Out_of_fuel"
proof -
  have "parse_element (2 * length r + 3) policy (\<lambda>p. None) r \<noteq> Inl Out_of_fuel" for r
    by (rule parse_fuel(1)) simp
  then show ?thesis by (auto simp: xml_parse_def Let_def split: sum.splits)
qed

text \<open>An element that is never closed is not an error: the end of the input ends every open element,
  while a wrong end tag is reported.\<close>

theorem xml_unclosed_accepted:
  "xml_parse policy ''<a><b>x'' = Inr (Node ''a'' [] [] [] [] [Node ''b'' [] [] ''x'' [] []]) \<and>
   xml_parse policy ''<a></b>'' = Inl (Tag_mismatch ''a'' ''b'')"
  by (simp add: xml_parse_def skip_misc.simps skip_whitespace_def peek_char_def xml_starts_with_def Let_def
      eval_nat_numeral parse_raw_name_def is_name_char_def isalnum_def isdigit_def isupper_def islower_def
      isspace_def parse_attributes.simps split_qname_def read_text_def)
    (cases policy; simp add: flush_text_buffer_def trim_spaces_eq append_text_def isspace_def)

end
