(* ===== verification/Schedule_Xml.thy ===== *)
theory Schedule_Xml
  imports Schedule_Io Xml_Print
begin

text \<open>
  The XML form of a schedule, \<open>src/schedule/weekly/schedule_xml.cpp\<close>: a tree with one element for each
  range, printed by \<open>serialize_xml\<close>. The library has no reader for it; the theorem reads the printed
  text with the library's own parser, its attribute lookup and \<open>stoi\<close>, and finds the ranges.
\<close>

definition plain_attribute :: "string \<Rightarrow> string \<Rightarrow> xml_attribute" where
  "plain_attribute nm v = \<lparr>attr_name = nm, attr_value = v, attr_prefix = [], attr_ns_uri = []\<rparr>"

definition range_node :: "weekly_range \<Rightarrow> xml_node" where
  "range_node r = Node ''Range'' [] [] []
     [plain_attribute ''start_day'' (day_name (start_day r)),
      plain_attribute ''start_h'' (to_string (hour (start_time r))),
      plain_attribute ''start_m'' (to_string (minute (start_time r))),
      plain_attribute ''end_day'' (day_name (end_day r)),
      plain_attribute ''end_h'' (to_string (hour (end_time r))),
      plain_attribute ''end_m'' (to_string (minute (end_time r)))] []"

definition schedule_tree :: "weekly_ranges \<Rightarrow> xml_node" where
  "schedule_tree ranges = Node ''WeeklySchedule'' [] [] [] [] (map range_node ranges)"

definition to_xml :: "weekly_ranges \<Rightarrow> string" where
  "to_xml ranges = serialize_xml (schedule_tree ranges) True"

section \<open>Reading it\<close>

definition attribute_value :: "xml_node \<Rightarrow> string \<Rightarrow> string option" where
  "attribute_value n nm = map_option attr_value (find_attribute n nm)"

definition read_number :: "xml_node \<Rightarrow> string \<Rightarrow> int option" where
  "read_number n nm = Option.bind (attribute_value n nm) (sto_signed 32)"

definition week_days :: "weekday list" where
  "week_days = [mon, tue, wed, thu, fri, sat, sun]"

definition read_day :: "xml_node \<Rightarrow> string \<Rightarrow> weekday option" where
  "read_day n nm = Option.bind (attribute_value n nm)
     (\<lambda>v. List.find (\<lambda>d. day_name d = v) week_days)"

text \<open>The range that an element denotes.\<close>

definition read_range :: "xml_node \<Rightarrow> weekly_range option" where
  "read_range n =
     Option.bind (read_day n ''start_day'') (\<lambda>sd.
     Option.bind (read_number n ''start_h'') (\<lambda>sh.
     Option.bind (read_number n ''start_m'') (\<lambda>sm.
     Option.bind (read_day n ''end_day'') (\<lambda>ed.
     Option.bind (read_number n ''end_h'') (\<lambda>eh.
     Option.bind (read_number n ''end_m'') (\<lambda>em.
     if node_name n = ''Range''
     then Some \<lparr>start_day = sd, start_time = \<lparr>hour = sh, minute = sm\<rparr>, end_day = ed, end_time = \<lparr>hour = eh, minute = em\<rparr>\<rparr>
     else None))))))"

lemma day_by_name: "List.find (\<lambda>d'. day_name d' = day_name d) week_days = Some d"
  by (cases d) (simp_all add: week_days_def)

lemma range_attributes:
  "attribute_value (range_node r) ''start_day'' = Some (day_name (start_day r))"
  "attribute_value (range_node r) ''start_h'' = Some (to_string (hour (start_time r)))"
  "attribute_value (range_node r) ''start_m'' = Some (to_string (minute (start_time r)))"
  "attribute_value (range_node r) ''end_day'' = Some (day_name (end_day r))"
  "attribute_value (range_node r) ''end_h'' = Some (to_string (hour (end_time r)))"
  "attribute_value (range_node r) ''end_m'' = Some (to_string (minute (end_time r)))"
  by (simp_all add: attribute_value_def find_attribute_def range_node_def plain_attribute_def)

lemma stoi_int32: "int32 i \<Longrightarrow> sto_signed 32 (to_string i) = Some i"
  by (simp add: int32_def sto_signed_to_string)

lemma read_range_node: "int32_range r \<Longrightarrow> read_range (range_node r) = Some r"
  by (simp add: read_range_def read_day_def read_number_def range_attributes day_by_name int32_range_def stoi_int32)
    (simp add: range_node_def)

lemma valid_names:
  "valid_name ''Range''" "valid_name ''WeeklySchedule''" "valid_name ''start_day''" "valid_name ''start_h''"
  "valid_name ''start_m''" "valid_name ''end_day''" "valid_name ''end_h''" "valid_name ''end_m''"
  by (simp_all add: valid_name_def is_name_char_def isalnum_def isdigit_def isupper_def islower_def)

lemma schedule_tree_printable: "printable (schedule_tree ranges)"
  by (simp add: schedule_tree_def range_node_def plain_attribute_def printable_attribute_def valid_names list_all_iff)

text \<open>The XML that \<open>to_xml\<close> writes is well-formed, and its parse tree holds exactly the given ranges
  in their order: each is recovered from the attributes of its element, for all ranges whose hours and
  minutes are C++ \<open>int\<close>s.\<close>

theorem schedule_xml_readable:
  assumes "list_all int32_range ranges"
  shows "xml_parse trim_and_discard_empty (to_xml ranges) = Inr (schedule_tree ranges) \<and>
    those (map read_range (node_children (schedule_tree ranges))) = Some ranges"
proof
  show "xml_parse trim_and_discard_empty (to_xml ranges) = Inr (schedule_tree ranges)"
    unfolding to_xml_def by (rule parse_serialize [OF schedule_tree_printable])
  show "those (map read_range (node_children (schedule_tree ranges))) = Some ranges"
    using assms unfolding schedule_tree_def by (induction ranges) (simp_all add: read_range_node)
qed

definition night_shift :: weekly_range where
  "night_shift = \<lparr>start_day = fri, start_time = \<lparr>hour = 22, minute = 30\<rparr>, end_day = sat, end_time = \<lparr>hour = 6, minute = 0\<rparr>\<rparr>"

theorem schedule_xml_readable_witness:
  "xml_parse trim_and_discard_empty (to_xml [night_shift]) = Inr (schedule_tree [night_shift]) \<and>
   those (map read_range (node_children (schedule_tree [night_shift]))) = Some [night_shift]"
  by (rule schedule_xml_readable) (simp add: night_shift_def int32_range_def int32_def)

end
