(* ===== verification/Cipher.thy ===== *)
theory Cipher
  imports Cpp_Std
begin

text \<open>
  The AES-128 cipher of \<open>crypt/cipher.cpp\<close> and \<open>crypt/cipher_utils.cpp\<close>: key expansion, block
  encryption and decryption, PKCS#7 padding and the hexadecimal transport form. A \<open>uint8_t[16]\<close> is a
  list of 16 words of width 8. An exception of \<open>std::stoul\<close> is \<open>None\<close>.

  The lemmas show that each inverse step undoes its step, that a block survives encryption and
  decryption for any round keys, and that \<open>decrypt\<close> undoes \<open>encrypt\<close> for every key and text.
\<close>

unbundle bit_operations_syntax

section \<open>Tables\<close>

definition sbox :: "uint8 list" where
  "sbox = [
     0x63, 0x7c, 0x77, 0x7b, 0xf2, 0x6b, 0x6f, 0xc5, 0x30, 0x01, 0x67, 0x2b, 0xfe, 0xd7, 0xab, 0x76,
     0xca, 0x82, 0xc9, 0x7d, 0xfa, 0x59, 0x47, 0xf0, 0xad, 0xd4, 0xa2, 0xaf, 0x9c, 0xa4, 0x72, 0xc0,
     0xb7, 0xfd, 0x93, 0x26, 0x36, 0x3f, 0xf7, 0xcc, 0x34, 0xa5, 0xe5, 0xf1, 0x71, 0xd8, 0x31, 0x15,
     0x04, 0xc7, 0x23, 0xc3, 0x18, 0x96, 0x05, 0x9a, 0x07, 0x12, 0x80, 0xe2, 0xeb, 0x27, 0xb2, 0x75,
     0x09, 0x83, 0x2c, 0x1a, 0x1b, 0x6e, 0x5a, 0xa0, 0x52, 0x3b, 0xd6, 0xb3, 0x29, 0xe3, 0x2f, 0x84,
     0x53, 0xd1, 0x00, 0xed, 0x20, 0xfc, 0xb1, 0x5b, 0x6a, 0xcb, 0xbe, 0x39, 0x4a, 0x4c, 0x58, 0xcf,
     0xd0, 0xef, 0xaa, 0xfb, 0x43, 0x4d, 0x33, 0x85, 0x45, 0xf9, 0x02, 0x7f, 0x50, 0x3c, 0x9f, 0xa8,
     0x51, 0xa3, 0x40, 0x8f, 0x92, 0x9d, 0x38, 0xf5, 0xbc, 0xb6, 0xda, 0x21, 0x10, 0xff, 0xf3, 0xd2,
     0xcd, 0x0c, 0x13, 0xec, 0x5f, 0x97, 0x44, 0x17, 0xc4, 0xa7, 0x7e, 0x3d, 0x64, 0x5d, 0x19, 0x73,
     0x60, 0x81, 0x4f, 0xdc, 0x22, 0x2a, 0x90, 0x88, 0x46, 0xee, 0xb8, 0x14, 0xde, 0x5e, 0x0b, 0xdb,
     0xe0, 0x32, 0x3a, 0x0a, 0x49, 0x06, 0x24, 0x5c, 0xc2, 0xd3, 0xac, 0x62, 0x91, 0x95, 0xe4, 0x79,
     0xe7, 0xc8, 0x37, 0x6d, 0x8d, 0xd5, 0x4e, 0xa9, 0x6c, 0x56, 0xf4, 0xea, 0x65, 0x7a, 0xae, 0x08,
     0xba, 0x78, 0x25, 0x2e, 0x1c, 0xa6, 0xb4, 0xc6, 0xe8, 0xdd, 0x74, 0x1f, 0x4b, 0xbd, 0x8b, 0x8a,
     0x70, 0x3e, 0xb5, 0x66, 0x48, 0x03, 0xf6, 0x0e, 0x61, 0x35, 0x57, 0xb9, 0x86, 0xc1, 0x1d, 0x9e,
     0xe1, 0xf8, 0x98, 0x11, 0x69, 0xd9, 0x8e, 0x94, 0x9b, 0x1e, 0x87, 0xe9, 0xce, 0x55, 0x28, 0xdf,
     0x8c, 0xa1, 0x89, 0x0d, 0xbf, 0xe6, 0x42, 0x68, 0x41, 0x99, 0x2d, 0x0f, 0xb0, 0x54, 0xbb, 0x16]"

definition rsbox :: "uint8 list" where
  "rsbox = [
     0x52, 0x09, 0x6a, 0xd5, 0x30, 0x36, 0xa5, 0x38, 0xbf, 0x40, 0xa3, 0x9e, 0x81, 0xf3, 0xd7, 0xfb,
     0x7c, 0xe3, 0x39, 0x82, 0x9b, 0x2f, 0xff, 0x87, 0x34, 0x8e, 0x43, 0x44, 0xc4, 0xde, 0xe9, 0xcb,
     0x54, 0x7b, 0x94, 0x32, 0xa6, 0xc2, 0x23, 0x3d, 0xee, 0x4c, 0x95, 0x0b, 0x42, 0xfa, 0xc3, 0x4e,
     0x08, 0x2e, 0xa1, 0x66, 0x28, 0xd9, 0x24, 0xb2, 0x76, 0x5b, 0xa2, 0x49, 0x6d, 0x8b, 0xd1, 0x25,
     0x72, 0xf8, 0xf6, 0x64, 0x86, 0x68, 0x98, 0x16, 0xd4, 0xa4, 0x5c, 0xcc, 0x5d, 0x65, 0xb6, 0x92,
     0x6c, 0x70, 0x48, 0x50, 0xfd, 0xed, 0xb9, 0xda, 0x5e, 0x15, 0x46, 0x57, 0xa7, 0x8d, 0x9d, 0x84,
     0x90, 0xd8, 0xab, 0x00, 0x8c, 0xbc, 0xd3, 0x0a, 0xf7, 0xe4, 0x58, 0x05, 0xb8, 0xb3, 0x45, 0x06,
     0xd0, 0x2c, 0x1e, 0x8f, 0xca, 0x3f, 0x0f, 0x02, 0xc1, 0xaf, 0xbd, 0x03, 0x01, 0x13, 0x8a, 0x6b,
     0x3a, 0x91, 0x11, 0x41, 0x4f, 0x67, 0xdc, 0xea, 0x97, 0xf2, 0xcf, 0xce, 0xf0, 0xb4, 0xe6, 0x73,
     0x96, 0xac, 0x74, 0x22, 0xe7, 0xad, 0x35, 0x85, 0xe2, 0xf9, 0x37, 0xe8, 0x1c, 0x75, 0xdf, 0x6e,
     0x47, 0xf1, 0x1a, 0x71, 0x1d, 0x29, 0xc5, 0x89, 0x6f, 0xb7, 0x62, 0x0e, 0xaa, 0x18, 0xbe, 0x1b,
     0xfc, 0x56, 0x3e, 0x4b, 0xc6, 0xd2, 0x79, 0x20, 0x9a, 0xdb, 0xc0, 0xfe, 0x78, 0xcd, 0x5a, 0xf4,
     0x1f, 0xdd, 0xa8, 0x33, 0x88, 0x07, 0xc7, 0x31, 0xb1, 0x12, 0x10, 0x59, 0x27, 0x80, 0xec, 0x5f,
     0x60, 0x51, 0x7f, 0xa9, 0x19, 0xb5, 0x4a, 0x0d, 0x2d, 0xe5, 0x7a, 0x9f, 0x93, 0xc9, 0x9c, 0xef,
     0xa0, 0xe0, 0x3b, 0x4d, 0xae, 0x2a, 0xf5, 0xb0, 0xc8, 0xeb, 0xbb, 0x3c, 0x83, 0x53, 0x99, 0x61,
     0x17, 0x2b, 0x04, 0x7e, 0xba, 0x77, 0xd6, 0x26, 0xe1, 0x69, 0x14, 0x63, 0x55, 0x21, 0x0c, 0x7d]"

definition rcon :: "uint8 list" where
  "rcon = [0x00, 0x01, 0x02, 0x04, 0x08, 0x10, 0x20, 0x40, 0x80, 0x1b, 0x36]"


section \<open>The steps of a round\<close>

fun gmix_loop :: "nat \<Rightarrow> uint8 \<Rightarrow> uint8 \<Rightarrow> uint8 \<Rightarrow> uint8" where
  "gmix_loop 0 a b p = p"
| "gmix_loop (Suc n) a b p =
     (let p' = (if b AND 1 \<noteq> 0 then p XOR a else p);
          hi = a AND 0x80;
          a1 = push_bit 1 a;
          a2 = (if hi \<noteq> 0 then a1 XOR 0x1b else a1);
          b' = drop_bit 1 b
      in gmix_loop n a2 b' p')"

definition gmix :: "uint8 \<Rightarrow> uint8 \<Rightarrow> uint8" where
  "gmix a b = gmix_loop 8 a b 0"

definition sub_bytes :: "uint8 list \<Rightarrow> uint8 list" where
  "sub_bytes state = map (\<lambda>b. sbox ! unat b) state"

definition inv_sub_bytes :: "uint8 list \<Rightarrow> uint8 list" where
  "inv_sub_bytes state = map (\<lambda>b. rsbox ! unat b) state"

definition shift_rows :: "uint8 list \<Rightarrow> uint8 list" where
  "shift_rows state =
     [state ! 0, state ! 5, state ! 10, state ! 15,
      state ! 4, state ! 9, state ! 14, state ! 3,
      state ! 8, state ! 13, state ! 2, state ! 7,
      state ! 12, state ! 1, state ! 6, state ! 11]"

definition inv_shift_rows :: "uint8 list \<Rightarrow> uint8 list" where
  "inv_shift_rows state =
     [state ! 0, state ! 13, state ! 10, state ! 7,
      state ! 4, state ! 1, state ! 14, state ! 11,
      state ! 8, state ! 5, state ! 2, state ! 15,
      state ! 12, state ! 9, state ! 6, state ! 3]"

definition mix_columns :: "uint8 list \<Rightarrow> uint8 list" where
  "mix_columns tmp = concat (map (\<lambda>i.
     [gmix (tmp ! (i * 4)) 2 XOR gmix (tmp ! (i * 4 + 1)) 3 XOR tmp ! (i * 4 + 2) XOR tmp ! (i * 4 + 3),
      tmp ! (i * 4) XOR gmix (tmp ! (i * 4 + 1)) 2 XOR gmix (tmp ! (i * 4 + 2)) 3 XOR tmp ! (i * 4 + 3),
      tmp ! (i * 4) XOR tmp ! (i * 4 + 1) XOR gmix (tmp ! (i * 4 + 2)) 2 XOR gmix (tmp ! (i * 4 + 3)) 3,
      gmix (tmp ! (i * 4)) 3 XOR tmp ! (i * 4 + 1) XOR tmp ! (i * 4 + 2) XOR gmix (tmp ! (i * 4 + 3)) 2])
     [0, 1, 2, 3])"

definition inv_mix_columns :: "uint8 list \<Rightarrow> uint8 list" where
  "inv_mix_columns tmp = concat (map (\<lambda>i.
     [gmix (tmp ! (i * 4)) 14 XOR gmix (tmp ! (i * 4 + 1)) 11 XOR gmix (tmp ! (i * 4 + 2)) 13 XOR gmix (tmp ! (i * 4 + 3)) 9,
      gmix (tmp ! (i * 4)) 9 XOR gmix (tmp ! (i * 4 + 1)) 14 XOR gmix (tmp ! (i * 4 + 2)) 11 XOR gmix (tmp ! (i * 4 + 3)) 13,
      gmix (tmp ! (i * 4)) 13 XOR gmix (tmp ! (i * 4 + 1)) 9 XOR gmix (tmp ! (i * 4 + 2)) 14 XOR gmix (tmp ! (i * 4 + 3)) 11,
      gmix (tmp ! (i * 4)) 11 XOR gmix (tmp ! (i * 4 + 1)) 13 XOR gmix (tmp ! (i * 4 + 2)) 9 XOR gmix (tmp ! (i * 4 + 3)) 14])
     [0, 1, 2, 3])"

text \<open>\<open>round_key rk r\<close> is the memory at \<open>&m_round_keys[r * 16]\<close>.\<close>

definition round_key :: "uint8 list \<Rightarrow> nat \<Rightarrow> uint8 list" where
  "round_key rk r = take 16 (drop (r * 16) rk)"

definition add_round_key :: "uint8 list \<Rightarrow> uint8 list \<Rightarrow> uint8 list" where
  "add_round_key state k = map2 (XOR) state k"

section \<open>Key expansion and blocks\<close>

definition key_word :: "uint8 list \<Rightarrow> nat \<Rightarrow> uint8 list" where
  "key_word rk i =
     (let temp = map (\<lambda>j. rk ! ((i - 1) * 4 + j)) [0, 1, 2, 3]
      in if i mod 4 = 0
         then [sbox ! unat (temp ! 1) XOR rcon ! (i div 4), sbox ! unat (temp ! 2),
               sbox ! unat (temp ! 3), sbox ! unat (temp ! 0)]
         else temp)"

definition expand_step :: "nat \<Rightarrow> uint8 list \<Rightarrow> uint8 list" where
  "expand_step i rk =
     (let temp = key_word rk i
      in fold (\<lambda>j rk. rk[i * 4 + j := rk ! ((i - 4) * 4 + j) XOR temp ! j]) [0, 1, 2, 3] rk)"

definition key_expansion :: "uint8 list \<Rightarrow> uint8 list" where
  "key_expansion key =
     (let rk = fold (\<lambda>i rk. rk[i := key ! i]) [0..<16] (replicate 176 0)
      in fold expand_step [4..<44] rk)"

definition encrypt_round :: "uint8 list \<Rightarrow> nat \<Rightarrow> uint8 list \<Rightarrow> uint8 list" where
  "encrypt_round rk r state = add_round_key (mix_columns (shift_rows (sub_bytes state))) (round_key rk r)"

definition encrypt_block :: "uint8 list \<Rightarrow> uint8 list \<Rightarrow> uint8 list" where
  "encrypt_block rk inp =
     (let s0 = add_round_key inp (round_key rk 0);
          s9 = fold (encrypt_round rk) [1..<10] s0
      in add_round_key (shift_rows (sub_bytes s9)) (round_key rk 10))"

definition decrypt_round :: "uint8 list \<Rightarrow> nat \<Rightarrow> uint8 list \<Rightarrow> uint8 list" where
  "decrypt_round rk r state = inv_mix_columns (add_round_key (inv_sub_bytes (inv_shift_rows state)) (round_key rk r))"

definition decrypt_block :: "uint8 list \<Rightarrow> uint8 list \<Rightarrow> uint8 list" where
  "decrypt_block rk inp =
     (let s0 = add_round_key inp (round_key rk 10);
          s9 = fold (decrypt_round rk) (rev [1..<10]) s0
      in add_round_key (inv_sub_bytes (inv_shift_rows s9)) (round_key rk 0))"

section \<open>Inverse steps\<close>

lemma sbox_length [simp]: "length sbox = 256" "length rsbox = 256"
  by (simp_all add: sbox_def rsbox_def)

lemma rsbox_sbox_table: "map (\<lambda>s. rsbox ! unat s) sbox = map of_nat [0..<256]"
  by code_simp

lemma rsbox_sbox: "rsbox ! unat (sbox ! unat b) = b"
proof -
  have b: "unat b < 256" using unsigned_less [of b] by simp
  have "map (\<lambda>s. rsbox ! unat s) sbox ! unat b = map of_nat [0..<256] ! unat b"
    by (simp add: rsbox_sbox_table)
  with b show ?thesis by simp
qed

lemma inv_sub_sub: "inv_sub_bytes (sub_bytes state) = state"
  by (simp add: inv_sub_bytes_def sub_bytes_def rsbox_sbox comp_def)

lemma list16:
  assumes "length xs = 16"
  obtains a b c d e f g h i j k l m n p q where "xs = [a, b, c, d, e, f, g, h, i, j, k, l, m, n, p, q]"
proof -
  have "xs = map ((!) xs) [0..<16]" using map_nth [of xs] assms by simp
  also have "[0..<16] = [0, 1, 2, 3, 4, 5, 6, 7, 8, 9, 10, 11, 12, 13, 14, 15]" by (simp add: upt_rec)
  finally show thesis using that by simp
qed

lemma inv_shift_shift: "length state = 16 \<Longrightarrow> inv_shift_rows (shift_rows state) = state"
  by (erule list16) (simp add: inv_shift_rows_def shift_rows_def)

text \<open>\<open>xtime\<close> is multiplication by \<open>x\<close> in the field of the cipher; it is linear, and \<open>gmix\<close> by a
  constant is a sum of its powers.\<close>

definition xtime :: "uint8 \<Rightarrow> uint8" where
  "xtime a = push_bit 1 a XOR (if bit a 7 then 0x1b else 0)"

lemma xtime_xor: "xtime (a XOR b) = xtime a XOR xtime b"
  by (auto simp: xtime_def bit_xor_iff xor.assoc xor.commute xor.left_commute)

lemma xor_zero_eq: "a XOR 0 = a" for a :: uint8
  by simp

lemma hi_bit: "(a AND 0x80 \<noteq> 0) \<longleftrightarrow> bit a 7" for a :: uint8
  using and_exp_eq_0_iff_not_bit [of a 7] by simp

lemma gmix_loop_Suc:
  "gmix_loop (Suc n) a b p = gmix_loop n (xtime a) (drop_bit 1 b) (if b AND 1 \<noteq> 0 then p XOR a else p)"
  by (cases "bit a 7") (simp_all only: gmix_loop.simps Let_def hi_bit xtime_def if_True if_False xor_zero_eq)

lemma gmix_unroll: "gmix a b = gmix_loop (Suc (Suc (Suc (Suc (Suc (Suc (Suc (Suc 0)))))))) a b 0"
  by (simp add: gmix_def numeral_eq_Suc del: gmix_loop.simps)

lemma gmix_consts:
  "gmix a 2 = xtime a"
  "gmix a 3 = a XOR xtime a"
  "gmix a 9 = a XOR xtime (xtime (xtime a))"
  "gmix a 11 = a XOR xtime a XOR xtime (xtime (xtime a))"
  "gmix a 13 = a XOR xtime (xtime a) XOR xtime (xtime (xtime a))"
  "gmix a 14 = xtime a XOR xtime (xtime a) XOR xtime (xtime (xtime a))"
  by (simp_all add: gmix_unroll gmix_loop_Suc xor.assoc del: gmix_loop.simps(2))

lemma xor_cancel: "a XOR (a XOR b) = b" for a :: uint8
  by (simp add: xor.assoc [symmetric])

lemmas xor_cancel_simps = xtime_xor xor.assoc xor.commute xor.left_commute xor_cancel

lemma inv_mix_column:
  fixes a b c d :: uint8
  defines "x \<equiv> gmix a 2 XOR gmix b 3 XOR c XOR d" and "y \<equiv> a XOR gmix b 2 XOR gmix c 3 XOR d"
    and "z \<equiv> a XOR b XOR gmix c 2 XOR gmix d 3" and "w \<equiv> gmix a 3 XOR b XOR c XOR gmix d 2"
  shows "gmix x 14 XOR gmix y 11 XOR gmix z 13 XOR gmix w 9 = a"
    "gmix x 9 XOR gmix y 14 XOR gmix z 11 XOR gmix w 13 = b"
    "gmix x 13 XOR gmix y 9 XOR gmix z 14 XOR gmix w 11 = c"
    "gmix x 11 XOR gmix y 13 XOR gmix z 9 XOR gmix w 14 = d"
  unfolding x_def y_def z_def w_def gmix_consts
  by (simp_all add: xor_cancel_simps)

lemma inv_mix_mix: "length state = 16 \<Longrightarrow> inv_mix_columns (mix_columns state) = state"
  by (erule list16) (simp add: inv_mix_columns_def mix_columns_def inv_mix_column)

lemma add_round_key_twice:
  "length state = 16 \<Longrightarrow> length k = 16 \<Longrightarrow> add_round_key (add_round_key state k) k = state"
  by (intro nth_equalityI) (auto simp: add_round_key_def xor.assoc)

lemma step_lengths [simp]:
  "length (sub_bytes state) = length state"
  "length (shift_rows state) = 16"
  "length (inv_shift_rows state) = 16"
  "length (mix_columns state) = 16"
  "length (inv_mix_columns state) = 16"
  "length (inv_sub_bytes state) = length state"
  "length (add_round_key state k) = min (length state) (length k)"
  by (simp_all add: sub_bytes_def inv_sub_bytes_def shift_rows_def inv_shift_rows_def mix_columns_def
      inv_mix_columns_def add_round_key_def)

lemma round_key_length [simp]: "r \<le> 10 \<Longrightarrow> length rk = 176 \<Longrightarrow> length (round_key rk r) = 16"
  by (simp add: round_key_def)

section \<open>A block survives encryption and decryption\<close>

text \<open>One encryption round followed by the part of decryption that undoes it; the states between
  decryption rounds are those of encryption before their \<open>mix_columns\<close> and key.\<close>

definition pre_mix :: "uint8 list \<Rightarrow> uint8 list" where
  "pre_mix state = shift_rows (sub_bytes state)"

lemma decrypt_round_pre_mix:
  assumes "length state = 16" "length rk = 176" "1 \<le> r" "r \<le> 10"
  shows "decrypt_round rk r (pre_mix (encrypt_round rk r state)) = pre_mix state"
  using assms
  by (simp add: decrypt_round_def pre_mix_def encrypt_round_def inv_shift_shift inv_sub_sub
      add_round_key_twice inv_mix_mix)

lemma encrypt_rounds_length:
  "length rk = 176 \<Longrightarrow> \<forall>r \<in> set rs. r \<le> 10 \<Longrightarrow> length state = 16 \<Longrightarrow>
     length (fold (encrypt_round rk) rs state) = 16"
  by (induction rs arbitrary: state) (simp_all add: encrypt_round_def)

lemma decrypt_rounds_undo:
  assumes "length rk = 176" "\<forall>r \<in> set rs. 1 \<le> r \<and> r \<le> 10" "length state = 16"
  shows "fold (decrypt_round rk) (rev rs) (pre_mix (fold (encrypt_round rk) rs state)) = pre_mix state"
  using assms
proof (induction rs arbitrary: state)
  case (Cons r rs)
  have "length (encrypt_round rk r state) = 16" using Cons.prems by (simp add: encrypt_round_def)
  then show ?case using Cons by (simp add: decrypt_round_pre_mix)
qed simp

lemma decrypt_encrypt_block:
  assumes "length rk = 176" "length b = 16"
  shows "decrypt_block rk (encrypt_block rk b) = b"
proof -
  let ?s0 = "add_round_key b (round_key rk 0)"
  let ?s9 = "fold (encrypt_round rk) [1..<10] ?s0"
  have s0: "length ?s0 = 16" using assms by simp
  have s9: "length ?s9 = 16" using assms s0 by (intro encrypt_rounds_length) auto
  have "decrypt_block rk (encrypt_block rk b) =
      add_round_key (inv_sub_bytes (inv_shift_rows (fold (decrypt_round rk) (rev [1..<10]) (pre_mix ?s9)))) (round_key rk 0)"
    using assms s9 by (simp add: decrypt_block_def encrypt_block_def add_round_key_twice pre_mix_def Let_def
        del: upt_conv_Cons)
  also have "fold (decrypt_round rk) (rev [1..<10]) (pre_mix ?s9) = pre_mix ?s0"
    using assms s0 by (intro decrypt_rounds_undo) auto
  finally show ?thesis
    using assms by (simp add: pre_mix_def inv_shift_shift inv_sub_sub add_round_key_twice)
qed

section \<open>cipher_utils.cpp\<close>

definition hex_digit :: "nat \<Rightarrow> char" where
  "hex_digit d = (if d < 10 then char_of (48 + d) else char_of (87 + d))"

definition to_hex :: "uint8 list \<Rightarrow> string" where
  "to_hex data = concat (map (\<lambda>b. [hex_digit (unat b div 16), hex_digit (unat b mod 16)]) data)"

fun hex_bytes :: "string \<Rightarrow> uint8 list option" where
  "hex_bytes (a # b # hex) =
     (case stoul 16 [a, b] of
        None \<Rightarrow> None
      | Some v \<Rightarrow> map_option ((#) (word_of_nat v)) (hex_bytes hex))"
| "hex_bytes _ = Some []"

definition from_hex :: "string \<Rightarrow> uint8 list option" where
  "from_hex hex = (if length hex mod 2 \<noteq> 0 then Some [] else hex_bytes hex)"

definition add_padding :: "string \<Rightarrow> nat \<Rightarrow> uint8 list" where
  "add_padding input blockSize =
     (let paddingLen = blockSize - (length input mod blockSize)
      in map byte_of_char input @ replicate paddingLen (word_of_nat paddingLen))"

definition remove_padding :: "uint8 list \<Rightarrow> string" where
  "remove_padding input =
     (if input = [] then []
      else let paddingLen = unat (last input)
      in if paddingLen = 0 \<or> paddingLen > 16 \<or> paddingLen > length input then []
         else if list_ex (\<lambda>i. input ! (length input - 1 - i) \<noteq> last input) [0..<paddingLen] then []
         else map char_of_byte (take (length input - paddingLen) input))"

section \<open>The cipher object\<close>

record cipher =
  m_round_keys :: "uint8 list"
  m_is_key_set :: bool

definition new_cipher :: cipher where
  "new_cipher = \<lparr>m_round_keys = [], m_is_key_set = False\<rparr>"

definition set_key :: "string \<Rightarrow> cipher \<Rightarrow> cipher" where
  "set_key key c =
     (let copyLen = min (length key) 16;
          actualKey = map byte_of_char (take copyLen key) @ replicate (16 - copyLen) 0
      in c\<lparr>m_round_keys := key_expansion actualKey, m_is_key_set := True\<rparr>)"

text \<open>The loop over blocks of 16 bytes.\<close>

fun blocks_map :: "(uint8 list \<Rightarrow> uint8 list) \<Rightarrow> uint8 list \<Rightarrow> uint8 list" where
  "blocks_map f data = (if data = [] then [] else f (take 16 data) @ blocks_map f (drop 16 data))"

declare blocks_map.simps [simp del]

definition encrypt :: "cipher \<Rightarrow> string \<Rightarrow> string" where
  "encrypt c plainText =
     (if \<not> m_is_key_set c then []
      else let data = add_padding plainText 16
      in to_hex (blocks_map (encrypt_block (m_round_keys c)) data))"

definition decrypt :: "cipher \<Rightarrow> string \<Rightarrow> string option" where
  "decrypt c cipherTextHex =
     (if \<not> m_is_key_set c then Some []
      else case from_hex cipherTextHex of
        None \<Rightarrow> None
      | Some data \<Rightarrow>
          if data = [] \<or> length data mod 16 \<noteq> 0 then Some []
          else Some (remove_padding (blocks_map (decrypt_block (m_round_keys c)) data)))"

section \<open>Round trips\<close>

lemma digit_value_hex: "d < 16 \<Longrightarrow> digit_value 16 (hex_digit d) = Some d"
  by (auto simp: digit_value_def hex_digit_def isdigit_def islower_def isupper_def)

lemma hex_digit_code: "d < 16 \<Longrightarrow> code (hex_digit d) = (if d < 10 then 48 + d else 87 + d)"
  by (auto simp: hex_digit_def)

lemma hex_digit_alphabet:
  assumes "d < 16"
  shows "isdigit (hex_digit d) \<or> hex_digit d \<in> set ''abcdef''"
proof -
  have letters: "char_of (97::nat) = CHR ''a''" "char_of (98::nat) = CHR ''b''" "char_of (99::nat) = CHR ''c''"
    "char_of (100::nat) = CHR ''d''" "char_of (101::nat) = CHR ''e''" "char_of (102::nat) = CHR ''f''"
    by (simp_all add: char_eq_code)
  consider "d < 10" | "d = 10" | "d = 11" | "d = 12" | "d = 13" | "d = 14" | "d = 15"
    using assms by linarith
  then show ?thesis by cases (simp_all add: hex_digit_def isdigit_def letters)
qed

lemma hex_digit_plain:
  assumes "d < 16"
  shows "\<not> isspace (hex_digit d)" "hex_digit d \<noteq> CHR ''-''" "hex_digit d \<noteq> CHR ''+''"
  using hex_digit_code [OF assms] by (auto simp: isspace_def split: if_splits)

lemma stoul_hex:
  assumes "a < 16" "b < 16"
  shows "stoul 16 [hex_digit a, hex_digit b] = Some (a * 16 + b)"
proof -
  have "scan_int 16 [hex_digit a, hex_digit b] = (False, [hex_digit a, hex_digit b], [])"
    using assms by (simp add: scan_int_def split_sign_def split_hex_prefix_def hex_digit_plain
        is_digit_in_def digit_value_hex)
  moreover have "digits_value 16 [hex_digit a, hex_digit b] = a * 16 + b"
    using assms by (simp add: digits_value_def digit_value_hex)
  ultimately show ?thesis using assms by (simp add: stoul_def)
qed

lemma hex_bytes_to_hex: "hex_bytes (to_hex data) = Some data"
proof (induction data)
  case Nil
  then show ?case by (simp add: to_hex_def)
next
  case (Cons b data)
  have "unat b < 256" using unsigned_less [of b] by simp
  then have "stoul 16 [hex_digit (unat b div 16), hex_digit (unat b mod 16)] = Some (unat b)"
    by (subst stoul_hex) auto
  with Cons show ?case by (simp add: to_hex_def)
qed

lemma length_to_hex: "length (to_hex data) = 2 * length data"
  by (induction data) (simp_all add: to_hex_def)

lemma from_hex_to_hex: "from_hex (to_hex data) = Some data"
  by (simp add: from_hex_def length_to_hex hex_bytes_to_hex)

lemma remove_add_padding: "remove_padding (add_padding input 16) = input"
proof -
  define n where "n = 16 - length input mod 16"
  let ?p = "add_padding input 16"
  have n: "0 < n" "n \<le> 16" by (auto simp: n_def)
  have p: "?p = map byte_of_char input @ replicate n (word_of_nat n)"
    by (simp add: add_padding_def n_def Let_def)
  have u: "unat (word_of_nat n :: uint8) = n"
    using n by (simp add: unat_of_nat take_bit_nat_def)
  have l: "last ?p = word_of_nat n" using n by (simp add: p last_append)
  have "?p ! (length ?p - 1 - i) = word_of_nat n" if "i < n" for i
  proof -
    have "length ?p - 1 - i = length input + (n - 1 - i)" using that by (simp add: p)
    moreover have "?p ! (length input + (n - 1 - i)) = word_of_nat n"
      using that unfolding p by (simp add: nth_append_right)
    ultimately show ?thesis by metis
  qed
  then have "\<not> list_ex (\<lambda>i. ?p ! (length ?p - 1 - i) \<noteq> last ?p) [0..<n]"
    by (simp add: list_ex_iff l)
  moreover have "?p \<noteq> []" using n by (simp add: p)
  moreover have "take (length ?p - n) ?p = map byte_of_char input" by (simp add: p)
  ultimately show ?thesis
    using n by (simp add: remove_padding_def l u comp_def) (simp add: p)
qed

lemma length_add_padding: "length (add_padding input 16) mod 16 = 0 \<and> add_padding input 16 \<noteq> []"
proof -
  have "length (add_padding input 16) = length input + (16 - length input mod 16)"
    by (simp add: add_padding_def Let_def)
  then show ?thesis
    by (auto simp: mod_eq_0_iff_dvd) presburger+
qed

lemma length_encrypt_block: "length rk = 176 \<Longrightarrow> length b = 16 \<Longrightarrow> length (encrypt_block rk b) = 16"
  by (simp add: encrypt_block_def Let_def)

text \<open>The contract of a cipher on blocks of 16 bytes, and what the loop over the blocks makes of it.\<close>

locale block_cipher =
  fixes enc dec :: "uint8 list \<Rightarrow> uint8 list"
  assumes enc_length: "length b = 16 \<Longrightarrow> length (enc b) = 16"
    and dec_enc: "length b = 16 \<Longrightarrow> dec (enc b) = b"
begin

lemma blocks_inverse:
  assumes "length data mod 16 = 0"
  shows "blocks_map dec (blocks_map enc data) = data \<and> length (blocks_map enc data) = length data"
  using assms
proof (induction "length data" arbitrary: data rule: less_induct)
  case less
  show ?case
  proof (cases "data = []")
    case True
    then show ?thesis by (simp add: blocks_map.simps)
  next
    case False
    then have l: "16 \<le> length data" using less.prems
      by (metis length_0_conv linorder_not_less mod_less)
    have b: "length (enc (take 16 data)) = 16" "dec (enc (take 16 data)) = take 16 data"
      using enc_length dec_enc l by auto
    have IH: "blocks_map dec (blocks_map enc (drop 16 data)) = drop 16 data \<and>
        length (blocks_map enc (drop 16 data)) = length (drop 16 data)"
      using l less.prems False by (intro less.hyps) (auto simp: le_mod_geq)
    have "blocks_map enc data = enc (take 16 data) @ blocks_map enc (drop 16 data)"
      using False by (simp add: blocks_map.simps)
    moreover have "blocks_map dec (enc (take 16 data) @ blocks_map enc (drop 16 data)) =
        dec (enc (take 16 data)) @ blocks_map dec (blocks_map enc (drop 16 data))"
      by (subst blocks_map.simps) (use b in auto)
    ultimately show ?thesis using IH b l by simp
  qed
qed

lemma blocks_nonempty: "length data mod 16 = 0 \<Longrightarrow> data \<noteq> [] \<Longrightarrow> blocks_map enc data \<noteq> []"
  using blocks_inverse [of data] by fastforce

end

lemma expand_step_length [simp]: "length (expand_step i rk) = length rk"
  by (simp add: expand_step_def Let_def)

lemma key_expansion_length [simp]: "length (key_expansion key) = 176"
proof -
  have "length (fold (\<lambda>i rk. rk[i := f i]) xs (rk :: uint8 list)) = length rk" for f xs rk
    by (induction xs arbitrary: rk) simp_all
  moreover have "length (fold expand_step xs rk) = length rk" for xs rk
    by (induction xs arbitrary: rk) simp_all
  ultimately show ?thesis by (simp add: key_expansion_def Let_def)
qed

interpretation aes: block_cipher "encrypt_block (m_round_keys (set_key key c))"
    "decrypt_block (m_round_keys (set_key key c))" for key c
proof
  have rk: "length (m_round_keys (set_key key c)) = 176" by (simp add: set_key_def Let_def)
  fix b :: "uint8 list"
  assume "length b = 16"
  with rk show "length (encrypt_block (m_round_keys (set_key key c)) b) = 16"
    and "decrypt_block (m_round_keys (set_key key c)) (encrypt_block (m_round_keys (set_key key c)) b) = b"
    by (simp_all add: length_encrypt_block decrypt_encrypt_block)
qed

interpretation hex: codec "\<lambda>_. True" to_hex from_hex
  by unfold_locales (rule from_hex_to_hex)

interpretation padding: codec "\<lambda>_. True" "\<lambda>input. add_padding input 16" "\<lambda>data. Some (remove_padding data)"
  by unfold_locales (simp add: remove_add_padding)

text \<open>C3: a cipher whose key is set (to any string) decrypts what it has encrypted to the text it was
  given, whatever bytes the text holds.\<close>

theorem decrypt_encrypt: "decrypt (set_key key c) (encrypt (set_key key c) plainText) = Some plainText"
proof -
  have k: "m_is_key_set (set_key key c)" by (simp add: set_key_def Let_def)
  note pad = length_add_padding [of plainText, THEN conjunct1] length_add_padding [of plainText, THEN conjunct2]
  note block = aes.blocks_inverse [OF pad(1), of key c] aes.blocks_nonempty [OF pad, of key c]
  from k pad block show ?thesis
    by (simp add: decrypt_def encrypt_def hex.decode_encode Let_def remove_add_padding)
qed

text \<open>The ciphertext of a text is twice as long as the text rounded up past the next multiple of
  16 and consists of lower-case hexadecimal digits; without a key both directions give the empty string.\<close>

theorem encrypt_shape:
  "length (encrypt (set_key key c) plainText) = 32 * (length plainText div 16 + 1) \<and>
   list_all (\<lambda>ch. isdigit ch \<or> ch \<in> set ''abcdef'') (encrypt (set_key key c) plainText) \<and>
   encrypt new_cipher plainText = [] \<and> decrypt new_cipher plainText = Some []"
proof -
  have "length (add_padding plainText 16) = 16 * (length plainText div 16 + 1)"
    by (simp add: add_padding_def Let_def) presburger
  moreover have "\<forall>ch \<in> set (to_hex data). isdigit ch \<or> ch \<in> set ''abcdef''" for data
  proof -
    have "unat b < 256" for b :: uint8 using unsigned_less [of b] by simp
    then have "unat b div 16 < 16 \<and> unat b mod 16 < 16" for b :: uint8
      by (simp add: less_mult_imp_div_less)
    then show ?thesis using hex_digit_alphabet by (auto simp: to_hex_def)
  qed
  ultimately show ?thesis
    using aes.blocks_inverse [OF length_add_padding [of plainText, THEN conjunct1], of key c]
    by (auto simp: encrypt_def decrypt_def new_cipher_def length_to_hex Let_def set_key_def list_all_iff)
qed

text \<open>\<open>remove_padding\<close> strips nothing but well-formed padding: whatever it returns, the input
  was that text followed by \<open>n\<close> bytes of value \<open>n\<close>, with \<open>n\<close> between 1 and 16.\<close>

theorem remove_padding_sound:
  assumes "remove_padding input \<noteq> []"
  shows "\<exists>n. 0 < n \<and> n \<le> 16 \<and>
    input = map byte_of_char (remove_padding input) @ replicate n (word_of_nat n)"
proof -
  define n where "n = unat (last input)"
  from assms have ne: "input \<noteq> []" by (auto simp: remove_padding_def)
  from assms have n: "0 < n" "n \<le> 16" "n \<le> length input"
    and tail: "\<forall>i < n. input ! (length input - 1 - i) = last input"
    and out: "remove_padding input = map char_of_byte (take (length input - n) input)"
    by (auto simp: remove_padding_def n_def Let_def list_ex_iff split: if_splits)
  have "drop (length input - n) input = replicate n (word_of_nat n)"
  proof (rule nth_equalityI)
    fix i assume "i < length (drop (length input - n) input)"
    then have i: "i < n" using n by simp
    have "length input - n + i = length input - 1 - (n - 1 - i)" using i n by simp
    then have "input ! (length input - n + i) = last input"
      using tail i by (metis diff_less_Suc diff_Suc_eq_diff_pred less_imp_diff_less diff_less zero_less_one n(1) Suc_pred' less_Suc_eq_le diff_le_self le_imp_less_Suc)
    then show "drop (length input - n) input ! i = replicate n (word_of_nat n) ! i"
      using i n by (simp add: n_def)
  qed (use n in simp)
  then have "input = take (length input - n) input @ replicate n (word_of_nat n)"
    by (metis append_take_drop_id)
  with n out show ?thesis by (intro exI [of _ n]) (simp add: comp_def)
qed

theorem remove_padding_sound_witness:
  "\<exists>n. 0 < n \<and> n \<le> 16 \<and>
     [0x68, 0x69, 2, 2] = map byte_of_char (remove_padding [0x68, 0x69, 2, 2]) @ replicate n (word_of_nat n)"
  by (rule remove_padding_sound) (simp add: remove_padding_def upt_rec)

end
