(* ===== verification/Str_Loops.thy ===== *)
theory Str_Loops
  imports Cpp_Std
begin

text \<open>
  The two loops that the string components share: replacing every occurrence of a token from left
  to right (\<open>string_basic.cpp\<close>, \<open>u8string.cpp\<close>, \<open>mutex_string.cpp\<close>), and cutting a string at
  every occurrence of a delimiter. Both work on any alphabet and on positions, as the code does.
  \<open>split_on\<close> is their specification, by recursion on the rest of the string; \<open>join\<close> is its inverse.
\<close>

section \<open>The loops\<close>

lemma find_from_bounds:
  assumes "find_from s d pos = Some i"
  shows "pos \<le> i" "i + length d \<le> length s"
proof -
  from assms obtain k where k: "pos \<le> length s" "find_in d (drop pos s) = Some k" "i = pos + k"
    by (auto simp: find_from_def split: if_splits)
  then have "occurs_at d (drop pos s) k" by (simp add: find_in_Some)
  from occurs_at_length [OF this] k show "pos \<le> i" "i + length d \<le> length s" by auto
qed

lemma find_from_less:
  assumes "find_from s d pos = Some i" "d \<noteq> []"
  shows "min (length s) i + (length s - (i + length d)) - i < length s - pos"
    "Suc (length s) - (i + length d) < Suc (length s) - pos"
  using find_from_bounds [OF assms(1)] assms(2) by (cases d; auto)+

text \<open>\<open>while ((pos = text.find(token, pos)) != npos) { text.replace(...); pos += ...; }\<close>; the callers
  return before the loop when the token is empty.\<close>

function replace_loop :: "'a list \<Rightarrow> 'a list \<Rightarrow> 'a list \<Rightarrow> nat \<Rightarrow> 'a list" where
  "replace_loop find_token replace_token text pos =
     (if find_token = [] then text
      else case find_from text find_token pos of
        None \<Rightarrow> text
      | Some i \<Rightarrow>
          replace_loop find_token replace_token
            (take i text @ replace_token @ drop (i + length find_token) text)
            (i + length replace_token))"
  by pat_completeness auto
termination
  by (relation "measure (\<lambda>(ft, rt, text, pos). length text - pos)")
    (auto simp: find_from_less)

declare replace_loop.simps [simp del]

text \<open>The parts between the occurrences of a delimiter; \<open>keep\<close> says whether an empty part stays.\<close>

function split_loop :: "'a list \<Rightarrow> bool \<Rightarrow> 'a list \<Rightarrow> nat \<Rightarrow> 'a list list \<Rightarrow> 'a list list" where
  "split_loop delim keep s pos parts =
     (if delim = [] then parts
      else case find_from s delim pos of
        Some i \<Rightarrow>
          split_loop delim keep s (i + length delim)
            (if keep \<or> i > pos then parts @ [take (i - pos) (drop pos s)] else parts)
      | None \<Rightarrow> if keep \<or> pos < length s then parts @ [drop pos s] else parts)"
  by pat_completeness auto
termination
  by (relation "measure (\<lambda>(d, k, s, pos, parts). Suc (length s) - pos)")
    (auto simp: find_from_less)

declare split_loop.simps [simp del]

fun join :: "'a list list \<Rightarrow> 'a list \<Rightarrow> 'a list" where
  "join [] delimiter = []"
| "join [t] delimiter = t"
| "join (t # ts) delimiter = t @ delimiter @ join ts delimiter"

section \<open>The specification\<close>

function split_on :: "'a list \<Rightarrow> 'a list \<Rightarrow> 'a list list" where
  "split_on d s =
     (if d = [] then [s]
      else case find_in d s of
        None \<Rightarrow> [s]
      | Some i \<Rightarrow> take i s # split_on d (drop (i + length d) s))"
  by pat_completeness auto

lemma find_in_bound: "find_in d s = Some i \<Longrightarrow> i + length d \<le> length s"
  by (auto simp: find_in_Some dest: occurs_at_length)

lemma find_in_less:
  "find_in d s = Some i \<Longrightarrow> d \<noteq> [] \<Longrightarrow> length s - (i + length d) < length s"
  using find_in_bound [of d s i] by (cases d) auto

termination split_on
  by (relation "measure (\<lambda>(d, s). length s)") (auto simp: find_in_less)

declare split_on.simps [simp del]

lemma split_on_None: "find_in d s = None \<Longrightarrow> split_on d s = [s]"
  by (subst split_on.simps) simp

lemma split_on_Some:
  "d \<noteq> [] \<Longrightarrow> find_in d s = Some i \<Longrightarrow> split_on d s = take i s # split_on d (drop (i + length d) s)"
  by (subst split_on.simps) simp

lemma split_on_not_Nil [simp]: "split_on d s \<noteq> []"
  by (subst split_on.simps) (simp split: option.split)

lemma join_Cons: "ts \<noteq> [] \<Longrightarrow> join (t # ts) d = t @ d @ join ts d"
  by (cases ts) simp_all

lemma find_in_split: "find_in d s = Some i \<Longrightarrow> s = take i s @ d @ drop (i + length d) s"
  by (auto simp: find_in_Some dest: occurs_atD)

lemma join_split_on: "join (split_on d s) d = s"
proof (induction d s rule: split_on.induct)
  case (1 d s)
  show ?case
  proof (cases "d = [] \<or> find_in d s = None")
    case True
    then show ?thesis by (subst split_on.simps) auto
  next
    case False
    then obtain i where i: "find_in d s = Some i" "d \<noteq> []" by auto
    then show ?thesis using 1 [of i] find_in_split [OF i(1)] by (simp add: split_on_Some join_Cons)
  qed
qed

lemma split_on_free: "d \<noteq> [] \<Longrightarrow> p \<in> set (split_on d s) \<Longrightarrow> find_in d p = None"
proof (induction d s rule: split_on.induct)
  case (1 d s)
  show ?case
  proof (cases "find_in d s")
    case None
    then show ?thesis using 1(3) by (simp add: split_on_None)
  next
    case (Some i)
    have "find_in d (take i s) = None"
    proof (rule ccontr)
      assume "find_in d (take i s) \<noteq> None"
      then obtain k where k: "find_in d (take i s) = Some k" by auto
      have i: "occurs_at d s i" "\<forall>j < i. \<not> occurs_at d s j" using Some by (simp_all add: find_in_Some)
      have "k + length d \<le> i" using find_in_bound [OF k] occurs_at_length [OF i(1)] by simp
      moreover have "occurs_at d (take i s) k" using k by (simp add: find_in_Some)
      ultimately have "occurs_at d s k"
        using occurs_at_length [OF i(1)] \<open>k + length d \<le> i\<close>
        by (simp add: occurs_at_def drop_take min.absorb1)
      moreover have "k < i" using \<open>k + length d \<le> i\<close> 1(2) by (cases d) auto
      ultimately show False using i(2) by blast
    qed
    then show ?thesis using 1 Some by (auto simp: split_on_Some)
  qed
qed

text \<open>The loops compute the specification.\<close>

lemma replace_loop_spec:
  assumes "d \<noteq> []" "pos \<le> length s"
  shows "replace_loop d r s pos = take pos s @ join (split_on d (drop pos s)) r"
  using assms
proof (induction d r s pos rule: replace_loop.induct)
  case (1 d r s pos)
  show ?case
  proof (cases "find_in d (drop pos s)")
    case None
    then have "find_from s d pos = None" using 1 by (simp add: find_from_def)
    then show ?thesis using None 1 by (subst replace_loop.simps) (simp add: split_on_None)
  next
    case (Some k)
    have b: "pos + k + length d \<le> length s" using find_in_bound [OF Some] 1 by simp
    have f: "find_from s d pos = Some (pos + k)" using Some 1 by (simp add: find_from_def)
    let ?t = "take (pos + k) s @ r @ drop (pos + k + length d) s"
    have "replace_loop d r ?t (pos + k + length r) =
        take (pos + k + length r) ?t @ join (split_on d (drop (pos + k + length r) ?t)) r"
      using 1(1) [OF 1(2) f] 1(2) b by simp
    also have "take (pos + k + length r) ?t = take (pos + k) s @ r" using b by simp
    also have "drop (pos + k + length r) ?t = drop (pos + k + length d) s" using b by simp
    finally have "replace_loop d r s pos =
        (take (pos + k) s @ r) @ join (split_on d (drop (pos + k + length d) s)) r"
      using f 1(2) by (subst replace_loop.simps) simp
    also have "take (pos + k) s = take pos s @ take k (drop pos s)" by (rule take_add)
    finally show ?thesis
      using Some 1(2) by (simp add: split_on_Some join_Cons add.commute add.left_commute)
  qed
qed

lemma split_loop_spec:
  assumes "d \<noteq> []" "pos \<le> length s"
  shows "split_loop d keep s pos parts = parts @ filter (\<lambda>p. keep \<or> p \<noteq> []) (split_on d (drop pos s))"
  using assms
proof (induction d keep s pos parts rule: split_loop.induct)
  case (1 d keep s pos parts)
  show ?case
  proof (cases "find_in d (drop pos s)")
    case None
    then have "find_from s d pos = None" using 1 by (simp add: find_from_def)
    then show ?thesis using None 1 by (subst split_loop.simps) (auto simp: split_on_None)
  next
    case (Some k)
    have b: "pos + k + length d \<le> length s" using find_in_bound [OF Some] 1 by simp
    have f: "find_from s d pos = Some (pos + k)" using Some 1 by (simp add: find_from_def)
    have e: "take k (drop pos s) = [] \<longleftrightarrow> k = 0" using b 1(2) by (cases d) auto
    have IH: "split_loop d keep s (pos + k + length d)
        (if keep \<or> pos + k > pos then parts @ [take (pos + k - pos) (drop pos s)] else parts) =
      (if keep \<or> pos + k > pos then parts @ [take (pos + k - pos) (drop pos s)] else parts) @
      filter (\<lambda>p. keep \<or> p \<noteq> []) (split_on d (drop (pos + k + length d) s))"
      using 1(1) [OF 1(2) f] 1(2) b by simp
    have "split_loop d keep s pos parts = split_loop d keep s (pos + k + length d)
        (if keep \<or> pos + k > pos then parts @ [take (pos + k - pos) (drop pos s)] else parts)"
      using f 1(2) by (subst split_loop.simps) simp
    moreover have "split_on d (drop pos s) = take k (drop pos s) # split_on d (drop (pos + k + length d) s)"
      using Some 1(2) by (simp add: split_on_Some add.commute add.left_commute)
    ultimately show ?thesis using IH e by simp
  qed
qed

section \<open>A delimiter of one character\<close>

lemma find_in_single: "find_in [c] s = (if c \<in> set s then Some (length (takeWhile (\<lambda>x. x \<noteq> c) s)) else None)"
  by (induction s) auto

lemma split_on_single_append: "c \<notin> set p \<Longrightarrow> split_on [c] (p @ c # s) = p # split_on [c] s"
  by (subst split_on_Some [where i = "length p"]) (simp_all add: find_in_single takeWhile_not_in)

definition parts_of :: "'a \<Rightarrow> 'a list list \<Rightarrow> bool" where
  "parts_of c ps \<longleftrightarrow> ps \<noteq> [] \<and> list_all (\<lambda>p. c \<notin> set p) ps"

lemma split_on_join: "parts_of c ps \<Longrightarrow> split_on [c] (join ps [c]) = ps"
proof (induction ps)
  case (Cons p ps)
  then show ?case
    by (cases ps) (auto simp: parts_of_def split_on_None find_in_single split_on_single_append)
qed (simp add: parts_of_def)

interpretation joined: codec "parts_of c" "\<lambda>ps. join ps [c]" "\<lambda>s. Some (split_on [c] s)" for c
  by unfold_locales (simp add: split_on_join)

end
