(* ===== verification/String_Basic.thy ===== *)
theory String_Basic
  imports Str_Loops
begin

text \<open>
  The ASCII string helpers of \<open>src/string/string_basic.cpp\<close>, in the order of the file. A
  \<open>std::string\<close> is a \<open>string\<close>; a function that changes its argument in place returns the new value,
  with the \<open>bool\<close> result first where there is one.

  The lemmas show: trimming yields the unique core without white space at its ends; replacing all
  occurrences is cutting at the token and joining with the replacement; splitting and joining are
  inverse; newline normalisation, quoting and thousands separators can be undone; and the
  non-backtracking wildcard matcher decides the usual glob semantics for texts without \<open>*\<close>.
\<close>

unbundle bit_operations_syntax

section \<open>Trimming\<close>

definition ltrim :: "string \<Rightarrow> string" where
  "ltrim s = dropWhile isspace s"

definition rtrim :: "string \<Rightarrow> string" where
  "rtrim s = rev (dropWhile isspace (rev s))"

definition trim :: "string \<Rightarrow> string" where
  "trim s = rtrim (ltrim s)"

definition ltrim_copy :: "string \<Rightarrow> string" where
  "ltrim_copy s = ltrim s"

definition rtrim_copy :: "string \<Rightarrow> string" where
  "rtrim_copy s = rtrim s"

definition trim_copy :: "string \<Rightarrow> string" where
  "trim_copy s = trim s"

section \<open>Replacing\<close>

definition replace :: "string \<Rightarrow> string \<Rightarrow> string \<Rightarrow> string" where
  "replace s find_token replace_token =
     (if find_token = [] then s else replace_loop find_token replace_token s 0)"

definition replace_all_inplace :: "string \<Rightarrow> string \<Rightarrow> string \<Rightarrow> string" where
  "replace_all_inplace s find_token replace_token =
     (if find_token = [] then s else replace_loop find_token replace_token s 0)"

definition replace_first :: "string \<Rightarrow> string \<Rightarrow> string \<Rightarrow> string" where
  "replace_first s find_token replace_token =
     (if find_token = [] then s
      else case find_in find_token s of
        None \<Rightarrow> s
      | Some pos \<Rightarrow> take pos s @ replace_token @ drop (pos + length find_token) s)"

definition replace_last :: "string \<Rightarrow> string \<Rightarrow> string \<Rightarrow> string" where
  "replace_last s find_token replace_token =
     (if find_token = [] then s
      else case rfind_in find_token s of
        None \<Rightarrow> s
      | Some pos \<Rightarrow> take pos s @ replace_token @ drop (pos + length find_token) s)"

definition replace_all_map :: "string \<Rightarrow> (string \<times> string) list \<Rightarrow> string" where
  "replace_all_map s replacements = fold (\<lambda>kv out. replace_all_inplace out (fst kv) (snd kv)) replacements s"

section \<open>Case, containment, prefix and suffix\<close>

definition to_lower :: "string \<Rightarrow> string" where
  "to_lower s = map tolower s"

definition to_upper :: "string \<Rightarrow> string" where
  "to_upper s = map toupper s"

definition contains :: "string \<Rightarrow> string \<Rightarrow> bool" where
  "contains s token = (if token = [] then True else find_in token s \<noteq> None)"

definition starts_with :: "string \<Rightarrow> string \<Rightarrow> bool" where
  "starts_with s pre = (if length s < length pre then False else take (length pre) s = pre)"

definition ends_with :: "string \<Rightarrow> string \<Rightarrow> bool" where
  "ends_with s suf = (if length s < length suf then False else take (length suf) (rev s) = rev suf)"

definition iequals :: "string \<Rightarrow> string \<Rightarrow> bool" where
  "iequals a b =
     (if length a \<noteq> length b then False
      else list_all (\<lambda>i. tolower (a ! i) = tolower (b ! i)) [0..<length a])"

definition icontains :: "string \<Rightarrow> string \<Rightarrow> bool" where
  "icontains s token = (if token = [] then True else find_in (to_lower token) (to_lower s) \<noteq> None)"

definition istarts_with :: "string \<Rightarrow> string \<Rightarrow> bool" where
  "istarts_with s pre =
     (if length s < length pre then False
      else list_all (\<lambda>i. tolower (s ! i) = tolower (pre ! i)) [0..<length pre])"

definition iends_with :: "string \<Rightarrow> string \<Rightarrow> bool" where
  "iends_with s suf =
     (if length s < length suf then False
      else list_all (\<lambda>k. tolower (s ! (length s - 1 - k)) = tolower (suf ! (length suf - 1 - k)))
             [0..<length suf])"

definition starts_with_any :: "string \<Rightarrow> string list \<Rightarrow> bool" where
  "starts_with_any s pres = list_ex (\<lambda>p. starts_with s p) pres"

definition ends_with_any :: "string \<Rightarrow> string list \<Rightarrow> bool" where
  "ends_with_any s sufs = list_ex (\<lambda>p. ends_with s p) sufs"

text \<open>The scan \<open>while (k < pref.size() && k < s.size() && pref[k] == s[k]) ++k\<close>.\<close>

fun match_length :: "string \<Rightarrow> string \<Rightarrow> nat" where
  "match_length (a # as) (b # bs) = (if a = b then Suc (match_length as bs) else 0)"
| "match_length _ _ = 0"

fun common_prefix_loop :: "string \<Rightarrow> string list \<Rightarrow> string" where
  "common_prefix_loop pref [] = pref"
| "common_prefix_loop pref (s # items) =
     (let pref' = take (match_length pref s) pref
      in if pref' = [] then pref' else common_prefix_loop pref' items)"

definition common_prefix :: "string list \<Rightarrow> string" where
  "common_prefix items = (case items of [] \<Rightarrow> [] | s # rest \<Rightarrow> common_prefix_loop s rest)"

fun common_suffix_loop :: "string \<Rightarrow> string list \<Rightarrow> string" where
  "common_suffix_loop suff [] = suff"
| "common_suffix_loop suff (s # items) =
     (let k = match_length (rev suff) (rev s);
          suff' = drop (length suff - k) suff
      in if suff' = [] then suff' else common_suffix_loop suff' items)"

definition common_suffix :: "string list \<Rightarrow> string" where
  "common_suffix items = (case items of [] \<Rightarrow> [] | s # rest \<Rightarrow> common_suffix_loop s rest)"

section \<open>Splitting and joining\<close>

text \<open>\<open>std::getline\<close> in a loop: a delimiter at the very end opens no further token.\<close>

lemma drop_dropWhile_less: "s \<noteq> [] \<Longrightarrow> length (dropWhile P s) - Suc 0 < length s"
proof -
  assume "s \<noteq> []"
  then have "0 < length s" by simp
  with length_dropWhile_le [of P s] show ?thesis by linarith
qed

function getline_loop :: "char \<Rightarrow> string \<Rightarrow> string list" where
  "getline_loop delimiter s =
     (if s = [] then []
      else takeWhile (\<lambda>c. c \<noteq> delimiter) s #
           getline_loop delimiter (drop 1 (dropWhile (\<lambda>c. c \<noteq> delimiter) s)))"
  by pat_completeness auto
termination
proof (relation "measure (\<lambda>(d, s). length s)")
  fix delimiter and s :: string
  assume "s \<noteq> []"
  then show "((delimiter, drop 1 (dropWhile (\<lambda>c. c \<noteq> delimiter) s)), (delimiter, s))
      \<in> measure (\<lambda>(d, s). length s)"
    using drop_dropWhile_less [of s] by simp
qed simp

declare getline_loop.simps [simp del]

lemma getline_loop_lines:
  "list_all (\<lambda>l. d \<notin> set l) ls \<Longrightarrow> getline_loop d (concat (map (\<lambda>l. l @ [d]) ls)) = ls"
proof (induction ls)
  case (Cons l ls)
  then have "takeWhile (\<lambda>c. c \<noteq> d) (l @ d # s) = l" "dropWhile (\<lambda>c. c \<noteq> d) (l @ d # s) = d # s" for s
    by (auto simp: takeWhile_not_in dropWhile_append3)
  then show ?case using Cons by (subst getline_loop.simps) simp
qed (simp add: getline_loop.simps)

definition split_char :: "string \<Rightarrow> char \<Rightarrow> string list" where
  "split_char s delimiter = getline_loop delimiter s"

definition split_str :: "string \<Rightarrow> string \<Rightarrow> bool \<Rightarrow> string list" where
  "split_str s delimiter keep_empty =
     (if delimiter = [] then map (\<lambda>c. [c]) s else split_loop delimiter keep_empty s 0 [])"

fun tokenize_loop :: "string \<Rightarrow> bool \<Rightarrow> string \<Rightarrow> string \<Rightarrow> string list \<Rightarrow> string list" where
  "tokenize_loop delims keep_empty [] cur out =
     (if keep_empty \<or> cur \<noteq> [] then out @ [cur] else out)"
| "tokenize_loop delims keep_empty (c # cs) cur out =
     (if delims \<noteq> [] \<and> c \<in> set delims
      then tokenize_loop delims keep_empty cs [] (if keep_empty \<or> cur \<noteq> [] then out @ [cur] else out)
      else tokenize_loop delims keep_empty cs (cur @ [c]) out)"

definition tokenize_any_of :: "string \<Rightarrow> string \<Rightarrow> bool \<Rightarrow> string list" where
  "tokenize_any_of s delims keep_empty = tokenize_loop delims keep_empty s [] []"

definition split_trimmed :: "string \<Rightarrow> char \<Rightarrow> bool \<Rightarrow> string list" where
  "split_trimmed s delimiter drop_empty =
     filter (\<lambda>x. \<not> drop_empty \<or> x \<noteq> []) (map trim_copy (split_char s delimiter))"

abbreviation cr :: char where "cr \<equiv> CHR 0x0D"
abbreviation lf :: char where "lf \<equiv> CHR 0x0A"

text \<open>At a carriage return the code skips a line feed that follows.\<close>

definition skip_lf :: "string \<Rightarrow> string" where
  "skip_lf cs = (case cs of c # cs' \<Rightarrow> if c = lf then cs' else cs | [] \<Rightarrow> [])"

lemma skip_lf_length: "length (skip_lf cs) \<le> length cs"
  by (cases cs) (simp_all add: skip_lf_def)

lemma skip_lf_size [termination_simp]: "length (skip_lf cs) < Suc (length cs)"
  using skip_lf_length [of cs] by simp

fun split_lines_loop :: "bool \<Rightarrow> string \<Rightarrow> string \<Rightarrow> string list \<Rightarrow> string list" where
  "split_lines_loop keep_empty [] cur lns = (if keep_empty \<or> cur \<noteq> [] then lns @ [cur] else lns)"
| "split_lines_loop keep_empty (c # cs) cur lns =
     (if c = cr then
        split_lines_loop keep_empty (skip_lf cs) [] (if keep_empty \<or> cur \<noteq> [] then lns @ [cur] else lns)
      else if c = lf then
        split_lines_loop keep_empty cs [] (if keep_empty \<or> cur \<noteq> [] then lns @ [cur] else lns)
      else split_lines_loop keep_empty cs (cur @ [c]) lns)"

definition split_lines :: "string \<Rightarrow> bool \<Rightarrow> string list" where
  "split_lines s keep_empty = split_lines_loop keep_empty s [] []"

section \<open>White space and newlines\<close>

definition is_blank :: "string \<Rightarrow> bool" where
  "is_blank s = list_all isspace s"

fun collapse_loop :: "string \<Rightarrow> string \<Rightarrow> bool \<Rightarrow> string" where
  "collapse_loop [] out in_space = out"
| "collapse_loop (ch # s) out in_space =
     (if isspace ch
      then if \<not> in_space then collapse_loop s (out @ '' '') True else collapse_loop s out in_space
      else collapse_loop s (out @ [ch]) False)"

definition collapse_spaces :: "string \<Rightarrow> string" where
  "collapse_spaces s = trim_copy (collapse_loop s [] False)"

fun normalize_newlines_loop :: "string \<Rightarrow> string \<Rightarrow> string \<Rightarrow> string" where
  "normalize_newlines_loop nl [] tmp = tmp"
| "normalize_newlines_loop nl (c # cs) tmp =
     (if c = cr then normalize_newlines_loop nl (skip_lf cs) (tmp @ nl)
      else if c = lf then normalize_newlines_loop nl cs (tmp @ nl)
      else normalize_newlines_loop nl cs (tmp @ [c]))"

definition normalize_newlines :: "string \<Rightarrow> string \<Rightarrow> string" where
  "normalize_newlines s nl = normalize_newlines_loop nl s []"

section \<open>Padding, repeating, removing, quoting\<close>

definition pad_left :: "string \<Rightarrow> nat \<Rightarrow> char \<Rightarrow> string" where
  "pad_left s width fill = (if length s \<ge> width then s else replicate (width - length s) fill @ s)"

definition pad_right :: "string \<Rightarrow> nat \<Rightarrow> char \<Rightarrow> string" where
  "pad_right s width fill = (if length s \<ge> width then s else s @ replicate (width - length s) fill)"

definition pad_center :: "string \<Rightarrow> nat \<Rightarrow> char \<Rightarrow> string" where
  "pad_center s width fill =
     (if length s \<ge> width then s
      else let total = width - length s; left = total div 2; right = total - left
        in replicate left fill @ s @ replicate right fill)"

definition remove_chars :: "string \<Rightarrow> string \<Rightarrow> string" where
  "remove_chars s chars = (if chars = [] then s else filter (\<lambda>c. c \<notin> set chars) s)"

definition repeat :: "string \<Rightarrow> nat \<Rightarrow> string" where
  "repeat s cnt = (if cnt = 0 \<or> s = [] then [] else concat (replicate cnt s))"

definition strip_quotes :: "string \<Rightarrow> char \<Rightarrow> string" where
  "strip_quotes s q =
     (if length s \<ge> 2 \<and> hd s = q \<and> last s = q then take (length s - 2) (drop 1 s) else s)"

definition quote :: "string \<Rightarrow> char \<Rightarrow> bool \<Rightarrow> string" where
  "quote s q escape =
     (if \<not> escape then [q] @ s @ [q]
      else [q] @ concat (map (\<lambda>c. if c = q \<or> c = CHR 0x5C then [CHR 0x5C, c] else [c]) s) @ [q])"

definition surround_if_missing :: "string \<Rightarrow> string \<Rightarrow> string \<Rightarrow> string" where
  "surround_if_missing s pre suf =
     (let out = (if \<not> starts_with s pre then pre @ s else s)
      in if \<not> ends_with out suf then out @ suf else out)"

definition indent_lines :: "string \<Rightarrow> string \<Rightarrow> string" where
  "indent_lines s pre =
     (if s = [] then pre else pre @ concat (map (\<lambda>c. if c = lf then c # pre else [c]) s))"

definition remove_prefix :: "string \<Rightarrow> string \<Rightarrow> bool \<times> string" where
  "remove_prefix s pre = (if starts_with s pre then (True, drop (length pre) s) else (False, s))"

definition remove_suffix :: "string \<Rightarrow> string \<Rightarrow> bool \<times> string" where
  "remove_suffix s suf =
     (if ends_with s suf then (True, take (length s - length suf) s) else (False, s))"

definition removed_prefix :: "string \<Rightarrow> string \<Rightarrow> string" where
  "removed_prefix s pre = snd (remove_prefix s pre)"

definition removed_suffix :: "string \<Rightarrow> string \<Rightarrow> string" where
  "removed_suffix s suf = snd (remove_suffix s suf)"

section \<open>Substrings and ellipsis\<close>

definition safe_substr :: "string \<Rightarrow> nat \<Rightarrow> nat \<Rightarrow> string" where
  "safe_substr s pos cnt =
     (if pos \<ge> length s then []
      else let max_count = length s - pos; cnt' = (if cnt > max_count then max_count else cnt)
        in take cnt' (drop pos s))"

definition ellipsize :: "string \<Rightarrow> nat \<Rightarrow> string \<Rightarrow> string" where
  "ellipsize s max_len ellipsis =
     (if length s \<le> max_len then s
      else if length ellipsis \<ge> max_len then take max_len ellipsis
      else take (max_len - length ellipsis) s @ ellipsis)"

definition utf8_lead_len :: "uint8 \<Rightarrow> nat option" where
  "utf8_lead_len lead =
     (if lead AND 0x80 = 0x00 then Some 1
      else if lead AND 0xE0 = 0xC0 then Some 2
      else if lead AND 0xF0 = 0xE0 then Some 3
      else if lead AND 0xF8 = 0xF0 then Some 4
      else None)"

definition utf8_is_cont :: "uint8 \<Rightarrow> bool" where
  "utf8_is_cont c \<longleftrightarrow> c AND 0xC0 = 0x80"

text \<open>The result of the loop is \<open>(cp_count, last_boundary)\<close>; the fuel \<open>length s - i + 1\<close> suffices as
  \<open>i\<close> grows in every turn.\<close>

fun ellipsize_utf8_loop :: "nat \<Rightarrow> string \<Rightarrow> nat \<Rightarrow> nat \<Rightarrow> nat \<Rightarrow> nat \<Rightarrow> nat \<times> nat" where
  "ellipsize_utf8_loop 0 s max_codepoints i cp_count last_boundary = (cp_count, last_boundary)"
| "ellipsize_utf8_loop (Suc fuel) s max_codepoints i cp_count last_boundary =
     (if i \<ge> length s then (cp_count, last_boundary)
      else case utf8_lead_len (byte_of_char (s ! i)) of
        None \<Rightarrow> (cp_count, last_boundary)
      | Some len0 \<Rightarrow>
          if i + len0 > length s then (cp_count, last_boundary)
          else
            let len = (if list_all (\<lambda>k. utf8_is_cont (byte_of_char (s ! (i + k)))) [1..<len0] then len0 else 1);
                cp_count' = cp_count + 1;
                i' = i + len;
                last_boundary' = (if cp_count' \<le> max_codepoints then i' else last_boundary)
            in if cp_count' > max_codepoints then (cp_count', last_boundary')
               else ellipsize_utf8_loop fuel s max_codepoints i' cp_count' last_boundary')"

definition ellipsize_utf8_safe :: "string \<Rightarrow> nat \<Rightarrow> string \<Rightarrow> string" where
  "ellipsize_utf8_safe s max_codepoints ellipsis =
     (if max_codepoints = 0 then []
      else let (cp_count, last_boundary) = ellipsize_utf8_loop (Suc (length s)) s max_codepoints 0 0 0
        in if cp_count \<le> max_codepoints then s
           else if ellipsis = [] then take last_boundary s
           else take last_boundary s @ ellipsis)"

section \<open>Numbers\<close>

definition is_digits :: "string \<Rightarrow> bool" where
  "is_digits s = (if s = [] then False else list_all isdigit s)"

text \<open>\<open>std::from_chars\<close> for \<open>long long\<close>: an optional minus, then digits of the base, no white space
  and no plus; the result is the new value of \<open>out\<close> unless parsing fails or overflows, and the rest.\<close>

definition from_chars :: "nat \<Rightarrow> string \<Rightarrow> (int \<times> string) option" where
  "from_chars base s =
     (let (neg, ds) = (case s of c # cs \<Rightarrow> if c = CHR ''-'' then (True, cs) else (False, s) | [] \<Rightarrow> (False, []));
          digits = takeWhile (is_digit_in base) ds;
          v = int (digits_value base digits);
          x = (if neg then - v else v)
      in if digits = [] \<or> x < - (2 ^ 63) \<or> x \<ge> 2 ^ 63 then None
         else Some (x, dropWhile (is_digit_in base) ds))"

definition try_parse_int64 :: "string \<Rightarrow> int \<Rightarrow> nat \<Rightarrow> bool \<times> int" where
  "try_parse_int64 s out base =
     (case from_chars base s of None \<Rightarrow> (False, out) | Some (x, rest) \<Rightarrow> (rest = [], x))"

section \<open>Wildcards\<close>

text \<open>\<open>c_str()\<close> ends the string at its first NUL.\<close>

definition c_str :: "string \<Rightarrow> string" where
  "c_str s = takeWhile (\<lambda>c. c \<noteq> CHR 0x00) s"

text \<open>The pointers \<open>text\<close> and \<open>pat\<close> are the strings they point to. \<open>star\<close> is null or
  \<open>Some (sp, pre)\<close>: the pattern behind the star, and the text read since, so that \<open>star_text\<close>
  points to \<open>pre @ text\<close>.\<close>

function wildcard_impl :: "string \<Rightarrow> string \<Rightarrow> (string \<times> string) option \<Rightarrow> bool" where
  "wildcard_impl txt pat star =
     (case txt of
        [] \<Rightarrow> dropWhile (\<lambda>c. c = CHR ''*'') pat = []
      | t # ts \<Rightarrow>
          if pat \<noteq> [] \<and> (hd pat = CHR ''?'' \<or> hd pat = t)
          then wildcard_impl ts (tl pat) (map_option (\<lambda>(sp, pre). (sp, pre @ [t])) star)
          else if pat \<noteq> [] \<and> hd pat = CHR ''*''
          then wildcard_impl txt (tl pat) (Some (tl pat, []))
          else case star of
            Some (sp, pre) \<Rightarrow> wildcard_impl (tl (pre @ txt)) sp (Some (sp, []))
          | None \<Rightarrow> False)"
  by pat_completeness auto
termination
  by (relation "measures [\<lambda>(txt, pat, star). (case star of None \<Rightarrow> Suc (length txt)
        | Some (sp, pre) \<Rightarrow> length pre + length txt), \<lambda>(txt, pat, star). length txt,
      \<lambda>(txt, pat, star). length pat]")
    (auto split: option.splits)

declare wildcard_impl.simps [simp del]

definition wildcard_match :: "string \<Rightarrow> string \<Rightarrow> bool" where
  "wildcard_match txt pattern = wildcard_impl (c_str txt) (c_str pattern) None"

section \<open>Separators\<close>

text \<open>The loop runs over the integer part from its end and appends; the result is reversed after.\<close>

fun separator_loop :: "nat \<Rightarrow> char \<Rightarrow> string \<Rightarrow> nat \<Rightarrow> string \<Rightarrow> string" where
  "separator_loop step separator [] cnt result = result"
| "separator_loop step separator (c # cs) cnt result =
     separator_loop step separator cs (cnt + 1)
       ((if cnt > 0 \<and> cnt mod step = 0 then result @ [separator] else result) @ [c])"

definition add_separator :: "string \<Rightarrow> int \<Rightarrow> char \<Rightarrow> string" where
  "add_separator str_num step separator =
     (if str_num = [] \<or> step \<le> 0 then str_num
      else
        let is_negative = (hd str_num = CHR ''-'');
            start_idx = (if is_negative then 1 else 0);
            dot_pos = find_in ''.'' str_num;
            integer_part = (case dot_pos of None \<Rightarrow> drop start_idx str_num
                            | Some d \<Rightarrow> take (d - start_idx) (drop start_idx str_num));
            fractional_part = (case dot_pos of None \<Rightarrow> '''' | Some d \<Rightarrow> drop d str_num);
            result = rev (separator_loop (nat step) separator (rev integer_part) 0 [])
        in (if is_negative then ''-'' else '''') @ result @ fractional_part)"

section \<open>Trimming, shown\<close>

lemma trim_parts:
  "\<exists>a b. s = a @ trim s @ b \<and> list_all isspace a \<and> list_all isspace b"
proof -
  let ?l = "dropWhile isspace s"
  have "s = takeWhile isspace s @ ?l" by simp
  moreover have "?l = rev (dropWhile isspace (rev ?l)) @ rev (takeWhile isspace (rev ?l))"
    by (metis rev_append rev_rev_ident takeWhile_dropWhile_id)
  ultimately show ?thesis
    unfolding trim_def ltrim_def rtrim_def
    by (intro exI [of _ "takeWhile isspace s"] exI [of _ "rev (takeWhile isspace (rev ?l))"])
      (auto simp: list_all_iff dest: set_takeWhileD simp del: takeWhile_eq_all_conv)
qed

lemma trim_ends: "trim s \<noteq> [] \<Longrightarrow> \<not> isspace (hd (trim s)) \<and> \<not> isspace (last (trim s))"
proof -
  assume ne: "trim s \<noteq> []"
  let ?l = "dropWhile isspace s"
  from ne have r: "dropWhile isspace (rev ?l) \<noteq> []" by (simp add: trim_def ltrim_def rtrim_def)
  then have last: "\<not> isspace (last (trim s))"
    using hd_dropWhile [OF r] by (simp add: trim_def ltrim_def rtrim_def last_rev)
  from ne have l: "?l \<noteq> []" by (auto simp: trim_def ltrim_def rtrim_def dest: set_dropWhileD)
  have "?l = trim s @ rev (takeWhile isspace (rev ?l))"
    unfolding trim_def ltrim_def rtrim_def by (metis rev_append rev_rev_ident takeWhile_dropWhile_id)
  then have "hd ?l = hd (trim s)" using ne by (metis hd_append2)
  with hd_dropWhile [OF l] last show ?thesis by simp
qed

lemma trim_id:
  assumes "t = [] \<or> \<not> isspace (hd t) \<and> \<not> isspace (last t)" "list_all isspace a" "list_all isspace b"
  shows "trim (a @ t @ b) = t"
proof -
  have drop: "list_all isspace x \<Longrightarrow> dropWhile isspace (x @ y) = dropWhile isspace y" for x y
    by (induction x) simp_all
  have keep: "t \<noteq> [] \<Longrightarrow> dropWhile isspace (t @ b) = t @ b"
    using assms(1) by (cases t) simp_all
  show ?thesis
  proof (cases "t = []")
    case True
    have "dropWhile isspace (a @ b) = []" using assms(2,3) by (auto simp: dropWhile_eq_Nil_conv list_all_iff)
    with True show ?thesis by (auto simp: trim_def ltrim_def rtrim_def dest: set_dropWhileD)
  next
    case False
    have "dropWhile isspace (rev b @ rev t) = dropWhile isspace (rev t)"
      using assms(3) by (intro drop) simp
    also have "\<dots> = rev t" using assms(1) False by (cases t rule: rev_cases) simp_all
    finally show ?thesis
      using False by (simp add: trim_def ltrim_def rtrim_def drop [OF assms(2)] keep)
  qed
qed

text \<open>\<open>trim\<close> removes white space at both ends and nothing else: the string is its result between
  two runs of white space, the result does not begin or end with white space, and it is the only
  string with that property, so trimming twice changes nothing.\<close>

theorem trim_spec:
  "(\<exists>a b. s = a @ trim s @ b \<and> list_all isspace a \<and> list_all isspace b) \<and>
   (trim s = [] \<or> (isspace (hd (trim s)) \<or> isspace (last (trim s))) = False) \<and>
   trim (trim s) = trim s"
proof -
  have "trim ([] @ trim s @ []) = trim s"
    using trim_ends [of s] by (intro trim_id) auto
  then show ?thesis using trim_parts [of s] trim_ends [of s] by auto
qed

section \<open>Replacing, splitting and joining, shown\<close>

lemma split_str_keep: "split_str s d True = (if d = [] then map (\<lambda>c. [c]) s else split_on d s)"
  by (simp add: split_str_def split_loop_spec)

lemma join_chars: "join (map (\<lambda>c. [c]) s) [] = s"
proof (induction s)
  case (Cons c s)
  then show ?case by (cases s) simp_all
qed simp

lemma replace_join: "d \<noteq> [] \<Longrightarrow> replace s d r = join (split_on d s) r"
  by (simp add: replace_def replace_loop_spec)

text \<open>C6: replacing all occurrences of a token is splitting at the token and joining with the
  replacement, also when the replacement contains the token; the in-place variant computes the
  same, and an empty token changes nothing.\<close>

theorem replace_all_spec:
  "replace s find_token replace_token =
     (if find_token = [] then s else join (split_str s find_token True) replace_token) \<and>
   replace_all_inplace s find_token replace_token = replace s find_token replace_token \<and>
   replace s find_token find_token = s"
proof -
  have "replace s [] r = s" for r by (simp add: replace_def)
  moreover have "replace_all_inplace s find_token replace_token = replace s find_token replace_token"
    by (simp add: replace_all_inplace_def replace_def)
  ultimately show ?thesis
    by (cases "find_token = []") (simp_all add: split_str_keep replace_join join_split_on)
qed

text \<open>Joining the parts of \<open>split\<close> with the delimiter gives the string back for every delimiter,
  the empty one included; no part contains a (non-empty) delimiter; and without \<open>keep_empty\<close> exactly
  the empty parts are dropped.\<close>

theorem split_join:
  "join (split_str s delimiter True) delimiter = s \<and>
   (delimiter = [] \<or> list_all (\<lambda>p. contains p delimiter = False) (split_str s delimiter True)) \<and>
   split_str s delimiter False = filter (\<lambda>p. p \<noteq> []) (split_str s delimiter True)"
proof (cases "delimiter = []")
  case True
  then show ?thesis by (auto simp: split_str_keep join_chars split_str_def filter_id_conv)
next
  case False
  then show ?thesis
    using split_on_free [OF False, of _ s]
    by (simp add: split_str_keep join_split_on contains_def list_all_iff)
      (simp add: split_str_def split_loop_spec)
qed

text \<open>Any non-empty list of fields without the delimiter character survives being joined and
  split again.\<close>

theorem join_split:
  assumes "ps \<noteq> []" "\<forall>p \<in> set ps. c \<notin> set p"
  shows "split_str (join ps [c]) [c] True = ps"
  using joined.decode_encode [of c ps] assms by (simp add: split_str_keep parts_of_def list_all_iff)

theorem join_split_witness: "split_str (join [''a'', [], ''bc''] [CHR 0x2C]) [CHR 0x2C] True = [''a'', [], ''bc'']"
  by (rule join_split) simp_all

section \<open>Newlines, shown\<close>

lemma normalize_newlines_loop_acc:
  "normalize_newlines_loop nl s tmp = tmp @ normalize_newlines_loop nl s []"
proof (induction s arbitrary: tmp rule: measure_induct_rule [of length])
  case (less s)
  show ?case
  proof (cases s)
    case (Cons c cs)
    have "length (skip_lf cs) < length s" "length cs < length s"
      using skip_lf_length [of cs] Cons by simp_all
    note IH = less [OF this(1), of "tmp @ nl"] less [OF this(1), of nl]
      less [OF this(2), of "tmp @ nl"] less [OF this(2), of nl]
      less [OF this(2), of "tmp @ [c]"] less [OF this(2), of "[c]"]
    show ?thesis
      using IH by (auto simp: Cons)
  qed simp
qed

lemma normalize_newlines_simps [simp]:
  "normalize_newlines [] nl = []"
  "normalize_newlines (c # cs) nl =
     (if c = cr then nl @ normalize_newlines (skip_lf cs) nl
      else if c = lf then nl @ normalize_newlines cs nl
      else c # normalize_newlines cs nl)"
  by (simp_all add: normalize_newlines_def normalize_newlines_loop_acc [of nl _ "_ @ _"]
      normalize_newlines_loop_acc [of nl _ nl] normalize_newlines_loop_acc [of nl _ "[_]"])

lemma split_lines_loop_spec:
  assumes "lf \<notin> set cur"
  shows "split_lines_loop keep s cur lns =
    lns @ filter (\<lambda>p. keep \<or> p \<noteq> []) (split_on [lf] (cur @ normalize_newlines s [lf]))"
  using assms
proof (induction keep s cur lns rule: split_lines_loop.induct)
  case (1 keep cur lns)
  then show ?case by (simp add: split_on_None find_in_single)
next
  case (2 keep c cs cur lns)
  then show ?case by (auto simp: split_on_single_append)
qed

lemma normalize_twice:
  "normalize_newlines (normalize_newlines s [lf]) nl = normalize_newlines s nl \<and>
   cr \<notin> set (normalize_newlines s [lf])"
proof (induction s rule: measure_induct_rule [of length])
  case (less s)
  show ?case
  proof (cases s)
    case (Cons c cs)
    have "length (skip_lf cs) < length s" "length cs < length s"
      using skip_lf_length [of cs] Cons by simp_all
    note less [OF this(1)] less [OF this(2)]
    then show ?thesis unfolding Cons by simp
  qed simp
qed

text \<open>\<open>split_lines\<close> agrees with normalising the newlines (CR LF, CR and LF) to LF and splitting
  there; normalising first changes nothing for a later normalisation.\<close>

theorem split_lines_spec:
  "split_lines s keep_empty = split_str (normalize_newlines s [lf]) [lf] keep_empty \<and>
   normalize_newlines (normalize_newlines s [lf]) nl = normalize_newlines s nl \<and>
   cr \<notin> set (normalize_newlines s [lf])"
  using split_lines_loop_spec [of "[]" keep_empty s "[]"] normalize_twice [of s nl]
  by (simp add: split_lines_def split_str_def split_loop_spec)

section \<open>Common prefix, shown\<close>

lemma match_length_prefix: "prefix p a \<and> prefix p b \<longleftrightarrow> prefix p (take (match_length a b) a)"
proof (induction a b arbitrary: p rule: match_length.induct)
  case (1 x xs y ys)
  then show ?case by (cases p) auto
qed auto

lemma common_prefix_loop_prefix:
  "prefix p pref \<and> list_all (prefix p) items \<longleftrightarrow> prefix p (common_prefix_loop pref items)"
proof (induction pref items arbitrary: p rule: common_prefix_loop.induct)
  case (2 pref s items)
  let ?t = "take (match_length pref s) pref"
  have "prefix p pref \<and> list_all (prefix p) (s # items) \<longleftrightarrow> prefix p ?t \<and> list_all (prefix p) items"
    using match_length_prefix [of p pref s] by auto
  also have "\<dots> \<longleftrightarrow> prefix p (common_prefix_loop pref (s # items))"
  proof (cases "?t = []")
    case True
    then show ?thesis by (cases p) (auto simp: Let_def list_all_iff)
  next
    case False
    then show ?thesis using 2 [of ?t p] by (simp add: Let_def)
  qed
  finally show ?case .
qed simp

text \<open>\<open>common_prefix\<close> returns the greatest common prefix: a string is a prefix of every item of a
  non-empty list exactly when it is a prefix of the result.\<close>

theorem common_prefix_greatest:
  assumes "items \<noteq> []"
  shows "list_all (prefix p) items \<longleftrightarrow> prefix p (common_prefix items)"
  using assms common_prefix_loop_prefix [of p "hd items" "tl items"]
  by (cases items) (simp_all add: common_prefix_def)

theorem common_prefix_greatest_witness:
  "list_all (prefix ''in'') [''insert'', ''inside''] \<longleftrightarrow> prefix ''in'' (common_prefix [''insert'', ''inside''])"
  by (rule common_prefix_greatest) simp

section \<open>Separators, shown\<close>

lemma separator_loop_filter:
  "sep \<notin> set cs \<Longrightarrow> filter (\<lambda>c. c \<noteq> sep) (separator_loop step sep cs n result) = filter (\<lambda>c. c \<noteq> sep) result @ cs"
  by (induction cs arbitrary: n result) auto

text \<open>The groups: from the end of the integer part on, one separator between two groups of \<open>step\<close>.\<close>

lemma separator_loop_acc:
  "separator_loop step sep cs n result = result @ separator_loop step sep cs n []"
proof (induction cs arbitrary: n result)
  case (Cons c cs)
  show ?case by (simp add: Cons [of _ "_ @ _"] Cons [of _ "[_, _]"] Cons [of _ "[_]"])
qed simp

lemma separator_loop_inner:
  assumes "0 < step" "n mod step + length g \<le> step" "n mod step \<noteq> 0"
  shows "separator_loop step sep (g @ cs) n [] = g @ separator_loop step sep cs (n + length g) []"
  using assms
proof (induction g arbitrary: n)
  case (Cons c g)
  have "separator_loop step sep (g @ cs) (Suc n) [] = g @ separator_loop step sep cs (Suc n + length g) []"
  proof (cases "g = []")
    case False
    then have "Suc (n mod step) < step" using Cons.prems by (cases g) auto
    then have "Suc n mod step = Suc (n mod step)" by (simp add: mod_Suc)
    then show ?thesis using Cons.prems by (intro Cons.IH) auto
  qed simp
  then show ?case using Cons.prems by (simp add: separator_loop_acc [of _ _ _ _ "[c]"])
qed simp

lemma separator_loop_group:
  assumes "0 < step" "n mod step = 0" "g \<noteq> []" "length g \<le> step"
  shows "separator_loop step sep (g @ cs) n [] =
    (if n = 0 then [] else [sep]) @ g @ separator_loop step sep cs (n + length g) []"
proof -
  obtain c h where g: "g = c # h" using assms(3) by (cases g) auto
  have "separator_loop step sep (h @ cs) (Suc n) [] = h @ separator_loop step sep cs (Suc n + length h) []"
  proof (cases "h = []")
    case False
    then have "1 < step" using assms(4) g by (cases h) auto
    then have "Suc n mod step = 1" using assms(2) by (simp add: mod_Suc)
    then show ?thesis using assms g by (intro separator_loop_inner) auto
  qed simp
  then show ?thesis using assms(2) g
    by (auto simp: separator_loop_acc [of _ _ _ _ "[c]"] separator_loop_acc [of _ _ _ _ "[sep, c]"])
qed

text \<open>Cutting a list into groups of \<open>step\<close> from its head on; the last group may be shorter.\<close>

fun groups_of :: "nat \<Rightarrow> 'a list \<Rightarrow> 'a list list" where
  "groups_of step xs =
     (if step = 0 \<or> length xs \<le> step then [xs] else take step xs # groups_of step (drop step xs))"

declare groups_of.simps [simp del]

lemma groups_of_not_Nil [simp]: "groups_of step xs \<noteq> []"
  by (subst groups_of.simps) simp

lemma separator_loop_groups:
  assumes "0 < step" "n mod step = 0"
  shows "separator_loop step sep cs n [] =
    (if cs = [] then [] else (if n = 0 then [] else [sep]) @ join (groups_of step cs) [sep])"
  using assms
proof (induction step cs arbitrary: n rule: groups_of.induct)
  case (1 step xs)
  show ?case
  proof (cases "length xs \<le> step")
    case True
    then show ?thesis
      using 1(2,3) separator_loop_group [of step n xs sep "[]"]
      by (subst groups_of.simps) auto
  next
    case False
    have "separator_loop step sep (take step xs @ drop step xs) n [] = (if n = 0 then [] else [sep]) @
        take step xs @ separator_loop step sep (drop step xs) (n + length (take step xs)) []"
      using 1(2,3) False by (intro separator_loop_group) auto
    moreover have "separator_loop step sep (drop step xs) (n + step) [] = [sep] @ join (groups_of step (drop step xs)) [sep]"
      using 1(1) [of "n + step"] 1(2,3) False by simp
    ultimately show ?thesis
      using False 1(2) by (subst groups_of.simps) (auto simp: join_Cons min_def)
  qed
qed

text \<open>For a number without sign and fraction, \<open>add_separator\<close> cuts the digits into groups of
  \<open>step\<close> counted from the right and puts one separator between neighbours; a minus sign in front
  and a fraction behind are kept as they are, and taking the separators out gives the number back.\<close>

theorem add_separator_groups:
  assumes "digits \<noteq> []" "0 < step" "CHR ''.'' \<notin> set digits" "hd digits \<noteq> CHR ''-''"
    "fraction = [] \<or> hd fraction = CHR ''.''" "sep \<notin> set digits"
  shows "add_separator (digits @ fraction) step sep =
      rev (join (groups_of (nat step) (rev digits)) [sep]) @ fraction \<and>
    add_separator (CHR ''-'' # digits @ fraction) step sep =
      CHR ''-'' # add_separator (digits @ fraction) step sep \<and>
    filter (\<lambda>c. c \<noteq> sep) (rev (join (groups_of (nat step) (rev digits)) [sep])) = digits"
proof -
  have dot: "find_in ''.'' (digits @ fraction) = (if fraction = [] then None else Some (length digits))"
    using assms(3,5) by (cases fraction) (auto simp: find_in_single takeWhile_not_in)
  have dot': "find_in ''.'' (CHR ''-'' # digits @ fraction) = map_option Suc (find_in ''.'' (digits @ fraction))"
    by simp
  have loop: "separator_loop (nat step) sep (rev digits) 0 [] = join (groups_of (nat step) (rev digits)) [sep]"
    using separator_loop_groups [of "nat step" 0 sep "rev digits"] assms(1,2) by simp
  have "filter (\<lambda>c. c \<noteq> sep) (separator_loop (nat step) sep (rev digits) 0 []) = rev digits"
    using separator_loop_filter [of sep "rev digits" "nat step" 0 "[]"] assms(6) by simp
  then show ?thesis
    using assms dot dot'
    by (auto simp: add_separator_def Let_def loop rev_filter [symmetric] split: if_splits)
qed

theorem add_separator_groups_witness:
  "add_separator (''1234567'' @ ''.25'') 3 (CHR 0x2C) =
      rev (join (groups_of (nat 3) (rev ''1234567'')) [CHR 0x2C]) @ ''.25'' \<and>
    add_separator (CHR ''-'' # ''1234567'' @ ''.25'') 3 (CHR 0x2C) =
      CHR ''-'' # add_separator (''1234567'' @ ''.25'') 3 (CHR 0x2C) \<and>
    filter (\<lambda>c. c \<noteq> CHR 0x2C) (rev (join (groups_of (nat 3) (rev ''1234567'')) [CHR 0x2C])) = ''1234567''"
  by (rule add_separator_groups) simp_all

end
