(* ===== verification/Wildcard.thy ===== *)
theory Wildcard
  imports String_Basic
begin

text \<open>
  The wildcard matcher of \<open>string_basic.cpp\<close> against the usual meaning of a glob pattern, which tries
  every length for each star. The matcher keeps one star only and never returns to an earlier one;
  the proof shows that nothing is lost by that. It also records where the matcher leaves the
  specification: it compares a character of the text with the pattern before it looks for a star.
\<close>

section \<open>Glob patterns\<close>

abbreviation star :: char where "star \<equiv> CHR ''*''"

fun glob :: "string \<Rightarrow> string \<Rightarrow> bool" where
  "glob [] t = (t = [])"
| "glob (p # ps) [] = (p = star \<and> glob ps [])"
| "glob (p # ps) (t # ts) =
     (if p = star then glob ps (t # ts) \<or> glob (p # ps) ts
      else (p = CHR ''?'' \<or> p = t) \<and> glob ps ts)"

lemma glob_star: "glob (star # ps) t \<longleftrightarrow> (\<exists>k \<le> length t. glob ps (drop k t))"
proof (induction t)
  case (Cons x t)
  have "(\<exists>k \<le> length (x # t). glob ps (drop k (x # t))) \<longleftrightarrow>
      glob ps (x # t) \<or> (\<exists>k \<le> length t. glob ps (drop k t))"
    by (metis Suc_le_mono drop0 drop_Suc_Cons length_Cons not0_implies_Suc zero_le)
  with Cons show ?case by simp
qed simp

lemma glob_star_drop: "glob (star # ps) (drop n t) \<Longrightarrow> glob (star # ps) t"
proof -
  assume "glob (star # ps) (drop n t)"
  then obtain k where "k \<le> length t - n" "glob ps (drop (n + k) t)"
    by (auto simp: glob_star add.commute)
  then show ?thesis
    by (cases "n \<le> length t") (auto simp: glob_star intro: exI [of _ "n + k"] exI [of _ "length t"])
qed

lemma glob_Nil: "glob pat [] \<longleftrightarrow> dropWhile (\<lambda>c. c = star) pat = []"
  by (induction pat) auto

text \<open>A part of a pattern without stars consumes as many characters as it has.\<close>

lemma glob_segment:
  "star \<notin> set seg \<Longrightarrow> glob (seg @ q) u \<Longrightarrow> length seg \<le> length u \<and> glob q (drop (length seg) u)"
proof (induction seg arbitrary: u)
  case (Cons p seg)
  then show ?case by (cases u) auto
qed simp

section \<open>The matcher decides the glob\<close>

text \<open>What a state of the loop stands for: the pattern matches the rest of the text, or the pattern
  behind the last star matches the text from a later start.\<close>

definition state_matches :: "string \<Rightarrow> string \<Rightarrow> (string \<times> string) option \<Rightarrow> bool" where
  "state_matches txt pat st \<longleftrightarrow> glob pat txt \<or>
     (case st of None \<Rightarrow> False | Some (sp, pre) \<Rightarrow> pre @ txt \<noteq> [] \<and> glob (star # sp) (tl (pre @ txt)))"

definition state_ok :: "string \<Rightarrow> (string \<times> string) option \<Rightarrow> bool" where
  "state_ok pat st \<longleftrightarrow>
     (case st of None \<Rightarrow> True
      | Some (sp, pre) \<Rightarrow> \<exists>seg. sp = seg @ pat \<and> length seg = length pre \<and> star \<notin> set seg)"

text \<open>The alternatives of an earlier star are covered by a later one.\<close>

lemma later_star_covers:
  assumes "star \<notin> set seg" "length seg = length pre" "glob (star # seg @ star # q) (tl (pre @ u))"
    "pre @ u \<noteq> []"
  shows "glob (star # q) u"
proof -
  from assms(3) obtain k where k: "glob (seg @ star # q) (drop k (tl (pre @ u)))"
    by (auto simp: glob_star [of "seg @ star # q"])
  then have "glob (star # q) (drop (length pre) (drop (Suc k) (pre @ u)))"
    using glob_segment [OF assms(1) k] assms(2) by (simp only: drop_Suc) 
  moreover have "drop (length pre) (drop (Suc k) (pre @ u)) = drop (Suc k) u"
    by (metis drop_drop add.commute append_eq_conv_conj)
  ultimately show ?thesis by (metis glob_star_drop)
qed

lemma wildcard_impl_matches:
  assumes "star \<notin> set u" "state_ok p s" "\<forall>sp pre. s = Some (sp, pre) \<longrightarrow> star \<notin> set pre"
  shows "wildcard_impl u p s \<longleftrightarrow> state_matches u p s"
  using assms
proof (induction u p s rule: wildcard_impl.induct)
  case (1 u p s)
  show ?case
  proof (cases u)
    case Nil
    have "\<not> glob (star # sp) (tl pre)" if s: "s = Some (sp, pre)" and pre: "pre \<noteq> []" and "\<not> glob p []" for sp pre
    proof
      assume "glob (star # sp) (tl pre)"
      then obtain k where k: "glob sp (drop k (tl pre))" by (auto simp: glob_star)
      obtain seg where seg: "sp = seg @ p" "length seg = length pre" "star \<notin> set seg"
        using 1(5) s by (auto simp: state_ok_def)
      then have "length seg \<le> length (drop k (tl pre))" using glob_segment k by metis
      then show False using pre seg(2) by (cases pre) auto
    qed
    then show ?thesis
      by (subst wildcard_impl.simps) (auto simp: Nil state_matches_def glob_Nil split: option.splits)
  next
    case (Cons t ts)
    have t: "t \<noteq> star" "star \<notin> set ts" using 1(4) Cons by auto
    consider (char) "p \<noteq> [] \<and> (hd p = CHR ''?'' \<or> hd p = t)"
      | (star) "p \<noteq> []" "hd p \<noteq> CHR ''?''" "hd p \<noteq> t" "hd p = star"
      | (restart) "p = [] \<or> hd p \<noteq> CHR ''?'' \<and> hd p \<noteq> t \<and> hd p \<noteq> star" by blast
    then show ?thesis
    proof cases
      case char
      let ?s = "map_option (\<lambda>(sp, pre). (sp, pre @ [t])) s"
      obtain c q where p: "p = c # q" using char by (cases p) auto
      have c: "c \<noteq> star" "c = CHR ''?'' \<or> c = t" using char t p by auto
      have ok: "state_ok q ?s"
      proof (cases s)
        case (Some x)
        obtain sp pre where x: "x = (sp, pre)" by fastforce
        obtain seg where "sp = seg @ p" "length seg = length pre" "star \<notin> set seg"
          using 1(5) Some x by (auto simp: state_ok_def)
        then show ?thesis
          using Some x p c by (auto simp: state_ok_def intro!: exI [of _ "seg @ [c]"])
      qed (simp add: state_ok_def)
      have nostar: "\<forall>sp pre. ?s = Some (sp, pre) \<longrightarrow> star \<notin> set pre"
        using 1(6) t by auto
      have "wildcard_impl u p s \<longleftrightarrow> wildcard_impl ts q ?s"
        using char p by (subst wildcard_impl.simps) (simp add: Cons)
      also have "\<dots> \<longleftrightarrow> state_matches ts q ?s"
        using 1(1) [OF Cons char] p t(2) ok nostar by (simp del: map_option_eq_Some)
      also have "\<dots> \<longleftrightarrow> state_matches u p s"
        using c p by (auto simp: state_matches_def Cons split: option.splits)
      finally show ?thesis .
    next
      case star
      obtain q where p: "p = star # q" using star by (cases p) auto
      have old: "glob (star # q) u" if s: "s = Some (sp, pre)" and alt: "glob (star # sp) (tl (pre @ u))" for sp pre
      proof -
        obtain seg where seg: "sp = seg @ star # q" "length seg = length pre" "star \<notin> set seg"
          using 1(5) s p by (auto simp: state_ok_def)
        then show ?thesis using later_star_covers [of seg pre q u] alt Cons by simp
      qed
      have "wildcard_impl u p s \<longleftrightarrow> wildcard_impl u q (Some (q, []))"
        using star p by (subst wildcard_impl.simps) (simp add: Cons)
      also have "\<dots> \<longleftrightarrow> state_matches u q (Some (q, []))"
        using 1(2) [OF Cons] star p 1(4) by (simp add: state_ok_def)
      also have "\<dots> \<longleftrightarrow> glob (star # q) u"
        by (auto simp: state_matches_def Cons)
      also have "\<dots> \<longleftrightarrow> state_matches u p s"
        using old p by (auto simp: state_matches_def split: option.splits)
      finally show ?thesis .
    next
      case restart
      then have no: "\<not> glob p u" by (cases p) (auto simp: Cons)
      have step: "wildcard_impl u p s = (case s of Some (sp, pre) \<Rightarrow> wildcard_impl (tl (pre @ u)) sp (Some (sp, []))
          | None \<Rightarrow> False)"
        using restart by (subst wildcard_impl.simps) (auto simp: Cons split: option.split)
      show ?thesis
      proof (cases s)
        case None
        then show ?thesis using no step by (simp add: state_matches_def)
      next
        case (Some x)
        obtain sp pre where x: "x = (sp, pre)" by fastforce
        let ?v = "tl (pre @ u)"
        have v: "star \<notin> set ?v" using 1(4,6) Some x by (cases pre) (auto simp: Cons)
        have "wildcard_impl ?v sp (Some (sp, [])) \<longleftrightarrow> state_matches ?v sp (Some (sp, []))"
          using 1(3) [OF Cons _ _ Some x [symmetric]] restart v by (auto simp: state_ok_def Cons)
        also have "\<dots> \<longleftrightarrow> glob (star # sp) ?v"
          by (cases ?v) (auto simp: state_matches_def)
        finally show ?thesis using no step Some x by (simp add: state_matches_def Cons)
      qed
    qed
  qed
qed

text \<open>C7: for every text without a star character, the single-pass matcher (one remembered star, no
  recursion) accepts exactly the texts that the glob pattern matches; it always returns. Text and
  pattern end at their first NUL, as C strings.\<close>

theorem wildcard_match_glob:
  assumes "star \<notin> set s"
  shows "wildcard_match s pattern \<longleftrightarrow> glob (c_str pattern) (c_str s)"
proof -
  have "star \<notin> set (c_str s)" using assms by (auto simp: c_str_def dest: set_takeWhileD)
  then show ?thesis
    by (simp add: wildcard_match_def wildcard_impl_matches state_ok_def state_matches_def)
qed

theorem wildcard_match_glob_witness:
  "wildcard_match ''report-2024.txt'' ''rep*-20??.*'' \<longleftrightarrow> glob (c_str ''rep*-20??.*'') (c_str ''report-2024.txt'')"
  by (rule wildcard_match_glob) simp

text \<open>The pattern \<open>*\<close> alone does not match every text. In the text \<open>*a\<close> the first character equals
  the star of the pattern, is consumed as an ordinary character, and the star is lost.\<close>

theorem wildcard_match_star_text:
  "wildcard_match ''*a'' ''*'' = False \<and> glob ''*'' ''*a''"
  by (simp add: wildcard_match_def c_str_def wildcard_impl.simps)

end
