(* ===== verification/Utf8_Codec.thy ===== *)
theory Utf8_Codec
  imports Prelude
begin

text \<open>
  The Unicode conversions of \<open>src/string/u8string.cpp\<close>: the UTF-8 decoder
  \<open>detail::next_code_point\<close>, the encoder \<open>detail::append_utf8\<close>, and the conversions between UTF-8,
  UTF-16 and UTF-32 built on them. A \<open>u8string\<close> is a list of bytes; the decoder's index, an
  in-out parameter in the code, is an argument and part of the result.

  The lemmas show that decoding undoes encoding, that decoding never yields a surrogate or a value
  above 0x10FFFF, and that the UTF-16 and UTF-32 conversions agree.
\<close>

unbundle bit_operations_syntax

type_synonym u8string = "uint8 list"

section \<open>Decoder and encoder\<close>

text \<open>\<open>None\<close> is the result \<open>false\<close>; \<open>Some (out_cp, index)\<close> are the two outputs on \<open>true\<close>.\<close>

definition next_code_point :: "uint8 list \<Rightarrow> nat \<Rightarrow> (char32 \<times> nat) option" where
  "next_code_point data index =
     (if index \<ge> length data then None
      else let b0 = data ! index in
      if b0 AND 0x80 = 0 then Some (ucast b0, index + 1)
      else if b0 AND 0xE0 = 0xC0 then
        (if index + 1 \<ge> length data then Some (0xFFFD, index + 1)
         else let b1 = data ! (index + 1) in
         if b1 AND 0xC0 \<noteq> 0x80 then Some (0xFFFD, index + 1)
         else let cp = push_bit 6 (ucast b0 AND 0x1F) OR (ucast b1 AND 0x3F) :: char32
         in Some (if cp < 0x80 then 0xFFFD else cp, index + 2))
      else if b0 AND 0xF0 = 0xE0 then
        (if index + 2 \<ge> length data then Some (0xFFFD, index + 1)
         else let b1 = data ! (index + 1); b2 = data ! (index + 2) in
         if b1 AND 0xC0 \<noteq> 0x80 \<or> b2 AND 0xC0 \<noteq> 0x80 then Some (0xFFFD, index + 1)
         else let cp = push_bit 12 (ucast b0 AND 0x0F) OR push_bit 6 (ucast b1 AND 0x3F) OR
                       (ucast b2 AND 0x3F) :: char32
         in Some (if cp < 0x800 \<or> (cp \<ge> 0xD800 \<and> cp \<le> 0xDFFF) then 0xFFFD else cp, index + 3))
      else if b0 AND 0xF8 = 0xF0 then
        (if index + 3 \<ge> length data then Some (0xFFFD, index + 1)
         else let b1 = data ! (index + 1); b2 = data ! (index + 2); b3 = data ! (index + 3) in
         if b1 AND 0xC0 \<noteq> 0x80 \<or> b2 AND 0xC0 \<noteq> 0x80 \<or> b3 AND 0xC0 \<noteq> 0x80
         then Some (0xFFFD, index + 1)
         else let cp = push_bit 18 (ucast b0 AND 0x07) OR push_bit 12 (ucast b1 AND 0x3F) OR
                       push_bit 6 (ucast b2 AND 0x3F) OR (ucast b3 AND 0x3F) :: char32
         in Some (if cp < 0x10000 \<or> cp > 0x10FFFF then 0xFFFD else cp, index + 4))
      else Some (0xFFFD, index + 1))"

function append_utf8 :: "char32 \<Rightarrow> u8string \<Rightarrow> u8string" where
  "append_utf8 cp out =
     (if cp \<le> 0x7F then out @ [ucast cp]
      else if cp \<le> 0x7FF then
        out @ [ucast (0xC0 OR drop_bit 6 cp), ucast (0x80 OR (cp AND 0x3F))]
      else if cp \<le> 0xFFFF then
        (let cp = (if cp \<ge> 0xD800 \<and> cp \<le> 0xDFFF then 0xFFFD else cp)
         in out @ [ucast (0xE0 OR drop_bit 12 cp), ucast (0x80 OR (drop_bit 6 cp AND 0x3F)),
                   ucast (0x80 OR (cp AND 0x3F))])
      else if cp \<le> 0x10FFFF then
        out @ [ucast (0xF0 OR drop_bit 18 cp), ucast (0x80 OR (drop_bit 12 cp AND 0x3F)),
               ucast (0x80 OR (drop_bit 6 cp AND 0x3F)), ucast (0x80 OR (cp AND 0x3F))]
      else append_utf8 0xFFFD out)"
  by pat_completeness auto
termination
  by (relation "measure (\<lambda>(cp, out). if cp \<le> 0x10FFFF then 0 else 1)") auto

declare append_utf8.simps [simp del]

lemma next_code_point_None [simp]: "next_code_point data i = None \<longleftrightarrow> length data \<le> i"
  by (simp add: next_code_point_def Let_def)

lemma next_code_point_progress:
  "next_code_point data i = Some (cp, j) \<Longrightarrow> i < j \<and> j \<le> length data \<and> j \<le> i + 4"
  by (auto simp: next_code_point_def Let_def split: if_splits)

section \<open>Conversions\<close>

function to_u32_loop :: "uint8 list \<Rightarrow> nat \<Rightarrow> char32 list \<Rightarrow> char32 list" where
  "to_u32_loop data index out =
     (case next_code_point data index of
        None \<Rightarrow> out
      | Some (cp, index') \<Rightarrow> to_u32_loop data index' (out @ [cp]))"
  by pat_completeness auto
termination
  by (relation "measure (\<lambda>(data, index, out). length data - index)")
    (auto dest!: next_code_point_progress)

declare to_u32_loop.simps [simp del]

definition to_u32string :: "u8string \<Rightarrow> char32 list" where
  "to_u32string s = (if s = [] then [] else to_u32_loop s 0 [])"

definition u8_of_u32string :: "char32 list \<Rightarrow> u8string" where
  "u8_of_u32string s32 = (if s32 = [] then [] else fold append_utf8 s32 [])"

definition push_utf16 :: "char32 \<Rightarrow> char16 list \<Rightarrow> char16 list" where
  "push_utf16 cp r =
     (if cp \<le> 0xFFFF
      then let cp = (if cp \<ge> 0xD800 \<and> cp \<le> 0xDFFF then 0xFFFD else cp) in r @ [ucast cp]
      else let cp = cp - 0x10000;
               high = ucast (0xD800 OR (drop_bit 10 cp AND 0x3FF));
               low = ucast (0xDC00 OR (cp AND 0x3FF))
           in r @ [high, low])"

function to_u16_loop :: "uint8 list \<Rightarrow> nat \<Rightarrow> char16 list \<Rightarrow> char16 list" where
  "to_u16_loop data index r =
     (case next_code_point data index of
        None \<Rightarrow> r
      | Some (cp, index') \<Rightarrow> to_u16_loop data index' (push_utf16 cp r))"
  by pat_completeness auto
termination
  by (relation "measure (\<lambda>(data, index, out). length data - index)")
    (auto dest!: next_code_point_progress)

declare to_u16_loop.simps [simp del]

definition to_u16string :: "u8string \<Rightarrow> char16 list" where
  "to_u16string s = (if s = [] then [] else to_u16_loop s 0 [])"

text \<open>One turn of the loop of \<open>to_u8_string(const std::u16string&)\<close> reads one code unit, or two when
  they are a surrogate pair.\<close>

fun u8_of_u16_loop :: "char16 list \<Rightarrow> u8string \<Rightarrow> u8string" where
  "u8_of_u16_loop [] out = out"
| "u8_of_u16_loop (w1 # ws) out =
     (if w1 \<ge> 0xD800 \<and> w1 \<le> 0xDBFF
      then (case ws of
              [] \<Rightarrow> append_utf8 0xFFFD out
            | w2 # ws' \<Rightarrow>
                if w2 \<ge> 0xDC00 \<and> w2 \<le> 0xDFFF
                then u8_of_u16_loop ws'
                       (append_utf8 (push_bit 10 (ucast w1 - 0xD800) + (ucast w2 - 0xDC00) + 0x10000) out)
                else u8_of_u16_loop ws (append_utf8 0xFFFD out))
      else if w1 \<ge> 0xDC00 \<and> w1 \<le> 0xDFFF then u8_of_u16_loop ws (append_utf8 0xFFFD out)
      else u8_of_u16_loop ws (append_utf8 (ucast w1) out))"

definition u8_of_u16string :: "char16 list \<Rightarrow> u8string" where
  "u8_of_u16string s16 = (if s16 = [] then [] else u8_of_u16_loop s16 [])"

section \<open>Specification\<close>

text \<open>Unicode scalar values; everything else is replaced by U+FFFD.\<close>

definition scalar :: "char32 \<Rightarrow> bool" where
  "scalar cp \<longleftrightarrow> cp < 0xD800 \<or> (0xDFFF < cp \<and> cp \<le> 0x10FFFF)"

definition sanitize :: "char32 \<Rightarrow> char32" where
  "sanitize cp = (if scalar cp then cp else 0xFFFD)"

lemma scalar_sanitize [simp]: "scalar (sanitize cp)"
  by (simp add: sanitize_def scalar_def)

lemma sanitize_scalar [simp]: "scalar cp \<Longrightarrow> sanitize cp = cp"
  by (simp add: sanitize_def)

section \<open>Decoding on suffixes\<close>

lemma next_code_point_drop:
  assumes "i \<le> length data"
  shows "next_code_point data i = map_option (\<lambda>(cp, j). (cp, i + j)) (next_code_point (drop i data) 0)"
  using assms by (auto simp: next_code_point_def Let_def ac_simps)

section \<open>Bit-level facts\<close>

lemma and_masks:
  "x AND 0x1F = take_bit 5 x" "x AND 0x3F = take_bit 6 x" "x AND 0x0F = take_bit 4 x"
  "x AND 0x07 = take_bit 3 x" "x AND 0x3FF = take_bit 10 x"
  for x :: char32
  by (simp_all add: take_bit_eq_mask mask_eq_exp_minus_1)

lemma take_bit_small_iff: "n < 32 \<Longrightarrow> take_bit n x = x \<longleftrightarrow> x < 2 ^ n" for x :: char32
  by (simp add: take_bit_eq_mask mask_eq_iff_w2p word_size)

lemma ucast_byte [simp]: "ucast (ucast x :: uint8) = take_bit 8 (x :: char32)"
  by (simp add: unsigned_ucast_eq)

lemma ucast_byte_less: "ucast b < (0x100 :: char32)" for b :: uint8
proof -
  have "take_bit 8 (ucast b :: char32) = ucast b"
    by (rule bit_eqI) (auto simp: bit_simps dest: bit_imp_le_length)
  then show ?thesis using take_bit_small_iff [of 8 "ucast b :: char32"] by simp
qed

lemma utf8_2_bytes: "push_bit 6 (take_bit 5 x) OR take_bit 6 y < (0x800 :: char32)"
proof -
  have "take_bit 11 (push_bit 6 (take_bit 5 x) OR take_bit 6 y) = push_bit 6 (take_bit 5 x) OR take_bit 6 y"
    by (rule bit_eqI) (auto simp: bit_simps)
  then show ?thesis by (rule take_bit_small_iff [of 11, simplified, THEN iffD1])
qed

lemma utf8_3_bytes: "push_bit 12 (take_bit 4 x) OR push_bit 6 (take_bit 6 y) OR take_bit 6 z < (0x10000 :: char32)"
proof -
  have "take_bit 16 (push_bit 12 (take_bit 4 x) OR push_bit 6 (take_bit 6 y) OR take_bit 6 z) =
      push_bit 12 (take_bit 4 x) OR push_bit 6 (take_bit 6 y) OR take_bit 6 z"
    by (rule bit_eqI) (auto simp: bit_simps)
  then show ?thesis by (rule take_bit_small_iff [of 16, simplified, THEN iffD1])
qed

lemma next_code_point_scalar:
  assumes "next_code_point data i = Some (cp, j)"
  shows "scalar cp"
proof -
  have 1: "ucast b < (0xD800 :: char32)" for b :: uint8
    using ucast_byte_less [of b] by (rule less_trans) simp
  have 2: "push_bit 6 (take_bit 5 x) OR take_bit 6 y < (0xD800 :: char32)" for x y
    using utf8_2_bytes [of x y] by (rule less_trans) simp
  have 3: "push_bit 12 (take_bit 4 x) OR push_bit 6 (take_bit 6 y) OR take_bit 6 z \<le> (0x10FFFF :: char32)" for x y z
    by (rule less_imp_le, rule less_trans [OF utf8_3_bytes]) simp
  have 4: "cp < 0xD800 \<or> 0xDFFF < cp" if "0x10000 \<le> cp" for cp :: char32
    by (rule disjI2, rule less_le_trans [OF _ that]) simp
  show ?thesis
    using assms unfolding next_code_point_def and_masks
    by (auto simp: Let_def scalar_def not_less 1 2 3 4 simp del: not_le split: if_splits)
qed

lemma cp_bits:
  "cp \<le> 0x7F \<Longrightarrow> take_bit 7 cp = cp"
  "cp \<le> 0x7FF \<Longrightarrow> take_bit 11 cp = cp"
  "cp \<le> 0xFFFF \<Longrightarrow> take_bit 16 cp = cp"
  "cp \<le> 0x10FFFF \<Longrightarrow> take_bit 21 cp = cp"
  for cp :: char32
  by (simp_all add: take_bit_small_iff word_le_nat_alt word_less_nat_alt)

lemma recompose_2: "take_bit 11 cp = cp \<Longrightarrow> push_bit 6 (take_bit 5 (drop_bit 6 cp)) OR take_bit 6 cp = cp"
  for cp :: char32
  by (drule sym, erule ssubst, rule bit_eqI) (auto simp: bit_simps)

lemma recompose_3:
  fixes cp :: char32
  assumes "take_bit 16 cp = cp"
  shows "push_bit 12 (take_bit 4 (drop_bit 12 cp)) OR push_bit 6 (take_bit 6 (drop_bit 6 cp)) OR take_bit 6 cp = cp"
proof (rule bit_eqI)
  fix n
  have "bit cp n \<longleftrightarrow> n < 16 \<and> bit cp n" using assms by (metis bit_take_bit_iff)
  then show "bit (push_bit 12 (take_bit 4 (drop_bit 12 cp)) OR push_bit 6 (take_bit 6 (drop_bit 6 cp)) OR take_bit 6 cp) n
      \<longleftrightarrow> bit cp n"
    by (cases "n < 12") (auto simp: bit_simps dest: bit_imp_le_length)
qed

lemma recompose_4:
  fixes cp :: char32
  assumes "take_bit 21 cp = cp"
  shows "push_bit 18 (take_bit 3 (drop_bit 18 cp)) OR push_bit 12 (take_bit 6 (drop_bit 12 cp)) OR
      push_bit 6 (take_bit 6 (drop_bit 6 cp)) OR take_bit 6 cp = cp"
proof (rule bit_eqI)
  fix n
  have "bit cp n \<longleftrightarrow> n < 21 \<and> bit cp n" using assms by (metis bit_take_bit_iff)
  then show "bit (push_bit 18 (take_bit 3 (drop_bit 18 cp)) OR push_bit 12 (take_bit 6 (drop_bit 12 cp)) OR
      push_bit 6 (take_bit 6 (drop_bit 6 cp)) OR take_bit 6 cp) n \<longleftrightarrow> bit cp n"
    by (cases "n < 12"; cases "n < 18") (auto simp: bit_simps dest: bit_imp_le_length)
qed

section \<open>Decoding undoes encoding\<close>

lemma lead_bytes:
  "(ucast (take_bit 7 x) :: uint8) AND 0x80 = 0"
  "(ucast (0xC0 OR take_bit 5 x) :: uint8) AND 0x80 = 0x80"
  "(ucast (0xC0 OR take_bit 5 x) :: uint8) AND 0xE0 = 0xC0"
  "(ucast (0xE0 OR take_bit 4 x) :: uint8) AND 0x80 = 0x80"
  "(ucast (0xE0 OR take_bit 4 x) :: uint8) AND 0xE0 = 0xE0"
  "(ucast (0xE0 OR take_bit 4 x) :: uint8) AND 0xF0 = 0xE0"
  "(ucast (0xF0 OR take_bit 3 x) :: uint8) AND 0x80 = 0x80"
  "(ucast (0xF0 OR take_bit 3 x) :: uint8) AND 0xE0 = 0xE0"
  "(ucast (0xF0 OR take_bit 3 x) :: uint8) AND 0xF0 = 0xF0"
  "(ucast (0xF0 OR take_bit 3 x) :: uint8) AND 0xF8 = 0xF0"
  "(ucast (0x80 OR take_bit 6 x) :: uint8) AND 0xC0 = 0x80"
  for x :: char32
  by (rule byte_eqI; simp add: bit_simps)+

lemma payload_bytes:
  "take_bit 5 (0xC0 OR take_bit 5 x) = take_bit 5 x"
  "take_bit 4 (0xE0 OR take_bit 4 x) = take_bit 4 x"
  "take_bit 3 (0xF0 OR take_bit 3 x) = take_bit 3 x"
  "take_bit 6 (0x80 OR take_bit 6 x) = take_bit 6 x"
  for x :: char32
  by (simp_all add: take_bit_or)

lemma drop_bits:
  "take_bit 11 cp = cp \<Longrightarrow> drop_bit 6 cp = take_bit 5 (drop_bit 6 cp)"
  "take_bit 16 cp = cp \<Longrightarrow> drop_bit 12 cp = take_bit 4 (drop_bit 12 cp)"
  "take_bit 21 cp = cp \<Longrightarrow> drop_bit 18 cp = take_bit 3 (drop_bit 18 cp)"
  for cp :: char32
  by (simp_all add: take_bit_drop_bit)

lemmas word_to_nat = word_le_nat_alt word_less_nat_alt

lemma append_utf8_1: "cp \<le> 0x7F \<Longrightarrow> append_utf8 cp out = out @ [ucast cp]"
  by (simp add: append_utf8.simps)

lemma append_utf8_2:
  "0x7F < cp \<Longrightarrow> cp \<le> 0x7FF \<Longrightarrow>
     append_utf8 cp out = out @ [ucast (0xC0 OR drop_bit 6 cp), ucast (0x80 OR (cp AND 0x3F))]"
  by (simp add: append_utf8.simps)

lemma append_utf8_3:
  assumes "0x7FF < cp" "cp \<le> 0xFFFF" "scalar cp"
  shows "append_utf8 cp out = out @ [ucast (0xE0 OR drop_bit 12 cp),
    ucast (0x80 OR (drop_bit 6 cp AND 0x3F)), ucast (0x80 OR (cp AND 0x3F))]"
proof -
  have "\<not> cp \<le> 0x7F" "\<not> cp \<le> 0x7FF" "\<not> (cp \<ge> 0xD800 \<and> cp \<le> 0xDFFF)"
    using assms by (auto simp: scalar_def word_to_nat)
  then show ?thesis using assms(2) by (auto simp: append_utf8.simps Let_def)
qed

lemma append_utf8_4:
  assumes "0xFFFF < cp" "cp \<le> 0x10FFFF"
  shows "append_utf8 cp out = out @ [ucast (0xF0 OR drop_bit 18 cp),
    ucast (0x80 OR (drop_bit 12 cp AND 0x3F)), ucast (0x80 OR (drop_bit 6 cp AND 0x3F)),
    ucast (0x80 OR (cp AND 0x3F))]"
proof -
  have "\<not> cp \<le> 0x7F" "\<not> cp \<le> 0x7FF" "\<not> cp \<le> 0xFFFF"
    using assms by (auto simp: word_to_nat)
  then show ?thesis using assms(2) by (simp add: append_utf8.simps Let_def)
qed

lemma append_utf8_replacement: "append_utf8 0xFFFD out = out @ [0xEF, 0xBF, 0xBD]"
  by (subst append_utf8.simps) (simp add: Let_def)

lemma append_utf8_bad:
  assumes "\<not> scalar cp"
  shows "append_utf8 cp out = out @ [0xEF, 0xBF, 0xBD]"
proof (cases "cp \<le> 0x10FFFF")
  case True
  then have "\<not> cp \<le> 0x7F" "\<not> cp \<le> 0x7FF" "cp \<le> 0xFFFF" "cp \<ge> 0xD800 \<and> cp \<le> 0xDFFF"
    using assms by (auto simp: scalar_def word_to_nat)
  then show ?thesis by (subst append_utf8.simps) (simp add: Let_def)
next
  case False
  then have "\<not> cp \<le> 0x7F" "\<not> cp \<le> 0x7FF" "\<not> cp \<le> 0xFFFF"
    by (auto simp: word_to_nat)
  with False show ?thesis by (subst append_utf8.simps) (simp add: append_utf8_replacement)
qed

lemma code_point_cases:
  obtains "\<not> scalar cp" | "cp \<le> 0x7F" "scalar cp" | "0x7F < cp" "cp \<le> 0x7FF" "scalar cp"
    | "0x7FF < cp" "cp \<le> 0xFFFF" "scalar cp" | "0xFFFF < cp" "cp \<le> 0x10FFFF" "scalar cp"
proof -
  have "scalar cp \<Longrightarrow> cp \<le> 0x10FFFF" by (auto simp: scalar_def word_to_nat)
  then show thesis using that by (meson not_le)
qed

lemma append_utf8_append: "append_utf8 cp out = out @ append_utf8 cp []"
  by (cases cp rule: code_point_cases)
    (simp_all add: append_utf8_1 append_utf8_2 append_utf8_3 append_utf8_4 append_utf8_bad)

lemma append_utf8_length: "0 < length (append_utf8 cp [])"
  by (cases cp rule: code_point_cases)
    (simp_all add: append_utf8_1 append_utf8_2 append_utf8_3 append_utf8_4 append_utf8_bad)

lemma append_utf8_sanitize: "append_utf8 (sanitize cp) out = append_utf8 cp out"
  by (cases "scalar cp") (simp_all add: append_utf8_bad append_utf8_replacement sanitize_def)

lemma decode_1:
  assumes "cp \<le> 0x7F"
  shows "next_code_point (ucast cp # rest) 0 = Some (cp, 1)"
proof -
  have "take_bit 8 cp = cp"
    using assms by (simp add: take_bit_small_iff word_to_nat)
  then show ?thesis
    using lead_bytes(1) [of cp] cp_bits(1) [OF assms] by (simp add: next_code_point_def)
qed

lemma decode_2:
  assumes "0x7F < cp" "cp \<le> 0x7FF"
  shows "next_code_point (ucast (0xC0 OR drop_bit 6 cp) # ucast (0x80 OR (cp AND 0x3F)) # rest) 0 = Some (cp, 2)"
proof -
  note c = cp_bits(2) [OF assms(2)]
  note d = drop_bits(1) [OF c]
  have "\<not> cp < 0x80" using assms(1) by (simp add: word_to_nat)
  moreover have "push_bit 6 (take_bit 5 (0xC0 OR drop_bit 6 cp)) OR take_bit 6 (0x80 OR take_bit 6 cp) = cp"
    using recompose_2 [OF c] by (subst d) (simp add: payload_bytes)
  moreover note lead_bytes(2,3) [of "drop_bit 6 cp", folded d] lead_bytes(11) [of cp]
  ultimately show ?thesis
    by (simp add: next_code_point_def and_masks Let_def)
qed

lemma decode_3:
  assumes "0x7FF < cp" "cp \<le> 0xFFFF" "scalar cp"
  shows "next_code_point (ucast (0xE0 OR drop_bit 12 cp) # ucast (0x80 OR (drop_bit 6 cp AND 0x3F)) #
    ucast (0x80 OR (cp AND 0x3F)) # rest) 0 = Some (cp, 3)"
proof -
  note c = cp_bits(3) [OF assms(2)]
  note d = drop_bits(2) [OF c]
  have "\<not> cp < 0x800" "\<not> (cp \<ge> 0xD800 \<and> cp \<le> 0xDFFF)"
    using assms by (auto simp: scalar_def word_to_nat)
  moreover have "push_bit 12 (take_bit 4 (0xE0 OR drop_bit 12 cp)) OR
      push_bit 6 (take_bit 6 (0x80 OR take_bit 6 (drop_bit 6 cp))) OR take_bit 6 (0x80 OR take_bit 6 cp) = cp"
    using recompose_3 [OF c] by (subst d) (simp add: payload_bytes)
  moreover note lead_bytes(4-6) [of "drop_bit 12 cp", folded d] lead_bytes(11) [of cp]
    lead_bytes(11) [of "drop_bit 6 cp"]
  ultimately show ?thesis
    by (auto simp: next_code_point_def and_masks Let_def nth_small)
qed

lemma decode_4:
  assumes "0xFFFF < cp" "cp \<le> 0x10FFFF"
  shows "next_code_point (ucast (0xF0 OR drop_bit 18 cp) # ucast (0x80 OR (drop_bit 12 cp AND 0x3F)) #
    ucast (0x80 OR (drop_bit 6 cp AND 0x3F)) # ucast (0x80 OR (cp AND 0x3F)) # rest) 0 = Some (cp, 4)"
proof -
  note c = cp_bits(4) [OF assms(2)]
  note d = drop_bits(3) [OF c]
  have "\<not> cp < 0x10000" "\<not> cp > 0x10FFFF"
    using assms by (auto simp: word_to_nat)
  moreover have "push_bit 18 (take_bit 3 (0xF0 OR drop_bit 18 cp)) OR
      push_bit 12 (take_bit 6 (0x80 OR take_bit 6 (drop_bit 12 cp))) OR
      push_bit 6 (take_bit 6 (0x80 OR take_bit 6 (drop_bit 6 cp))) OR take_bit 6 (0x80 OR take_bit 6 cp) = cp"
    using recompose_4 [OF c] by (subst d) (simp add: payload_bytes)
  moreover note lead_bytes(7-10) [of "drop_bit 18 cp", folded d] lead_bytes(11) [of cp]
    lead_bytes(11) [of "drop_bit 6 cp"] lead_bytes(11) [of "drop_bit 12 cp"]
  ultimately show ?thesis
    by (simp add: next_code_point_def and_masks Let_def nth_small)
qed

text \<open>The decoder reads back what the encoder wrote and stops at its end; a value that is no scalar
  value comes back as U+FFFD.\<close>

lemma next_code_point_append_utf8:
  "next_code_point (append_utf8 cp [] @ rest) 0 = Some (sanitize cp, length (append_utf8 cp []))"
proof (cases cp rule: code_point_cases)
  case 1
  have "next_code_point ([0xEF, 0xBF, 0xBD] @ rest) 0 = Some (0xFFFD, 3)"
    by (simp add: next_code_point_def Let_def nth_small)
  with 1 show ?thesis by (simp add: append_utf8_bad sanitize_def)
next
  case 2
  then show ?thesis using decode_1 by (simp add: append_utf8_1)
next
  case 3
  then show ?thesis using decode_2 by (simp add: append_utf8_2)
next
  case 4
  then show ?thesis using decode_3 by (simp add: append_utf8_3)
next
  case 5
  then show ?thesis using decode_4 by (simp add: append_utf8_4)
qed

section \<open>Scanning a string\<close>

text \<open>All results of the decoder on a string: the code point, where it starts, and its length. The
  loops of the conversions are maps of it.\<close>

function scan :: "uint8 list \<Rightarrow> nat \<Rightarrow> (char32 \<times> nat \<times> nat) list" where
  "scan data i =
     (case next_code_point data i of None \<Rightarrow> [] | Some (cp, j) \<Rightarrow> (cp, i, j - i) # scan data j)"
  by pat_completeness auto
termination
  by (relation "measure (\<lambda>(data, i). length data - i)") (auto dest!: next_code_point_progress)

declare scan.simps [simp del]

lemma scan_end: "length data \<le> i \<Longrightarrow> scan data i = []"
  by (subst scan.simps) (simp add: next_code_point_def)

lemma scan_step: "next_code_point data i = Some (cp, j) \<Longrightarrow> scan data i = (cp, i, j - i) # scan data j"
  by (subst scan.simps) simp

lemma to_u32_loop_scan: "to_u32_loop data i out = out @ map fst (scan data i)"
proof (induction data i out rule: to_u32_loop.induct)
  case (1 data i out)
  then show ?case
    by (subst to_u32_loop.simps) (auto simp: scan_end scan_step split: option.split)
qed

lemma to_u32string_scan: "to_u32string s = map fst (scan s 0)"
  by (simp add: to_u32string_def to_u32_loop_scan scan_end)

lemma push_utf16_append: "push_utf16 cp r = r @ push_utf16 cp []"
  by (simp add: push_utf16_def Let_def)

lemma to_u16_loop_scan: "to_u16_loop data i r = r @ concat (map (\<lambda>x. push_utf16 (fst x) []) (scan data i))"
proof (induction data i r rule: to_u16_loop.induct)
  case (1 data i r)
  then show ?case
    by (subst to_u16_loop.simps)
      (auto simp: scan_end scan_step push_utf16_append [of _ r] split: option.split)
qed

lemma to_u16string_scan: "to_u16string s = concat (map (\<lambda>cp. push_utf16 cp []) (to_u32string s))"
  by (simp add: to_u16string_def to_u16_loop_scan to_u32string_scan scan_end comp_def)

definition shift_scan :: "nat \<Rightarrow> char32 \<times> nat \<times> nat \<Rightarrow> char32 \<times> nat \<times> nat" where
  "shift_scan n = (\<lambda>(cp, i, l). (cp, n + i, l))"

lemma scan_drop: "n \<le> length data \<Longrightarrow> scan data n = map (shift_scan n) (scan (drop n data) 0)"
proof (induction "length data - n" arbitrary: data n rule: less_induct)
  case less
  show ?case
  proof (cases "n = length data")
    case True
    then show ?thesis by (simp add: scan_end)
  next
    case False
    then obtain cp j where s: "next_code_point (drop n data) 0 = Some (cp, j)"
      using less.prems by (cases "next_code_point (drop n data) 0") auto
    then have j: "0 < j" "n + j \<le> length data"
      using next_code_point_progress [OF s] less.prems by auto
    have "next_code_point data n = Some (cp, n + j)"
      using s less.prems by (subst next_code_point_drop) auto
    moreover have "scan data (n + j) = map (shift_scan (n + j)) (scan (drop (n + j) data) 0)"
      using j False less.prems by (intro less.hyps) auto
    moreover have "scan (drop n data) j = map (shift_scan j) (scan (drop j (drop n data)) 0)"
      using j less.prems by (intro less.hyps) auto
    moreover have "shift_scan (n + j) = shift_scan n \<circ> shift_scan j"
      by (auto simp: shift_scan_def)
    ultimately show ?thesis
      using s by (simp add: scan_step shift_scan_def add.commute)
  qed
qed

lemma scan_append:
  "scan (append_utf8 cp [] @ rest) 0 = (sanitize cp, 0, length (append_utf8 cp [])) #
     map (shift_scan (length (append_utf8 cp []))) (scan rest 0)"
  using scan_step [OF next_code_point_append_utf8 [of cp rest]]
  by (simp add: scan_drop [of "length (append_utf8 cp [])"])

lemma map_fst_shift [simp]: "map fst (map (shift_scan n) xs) = map fst xs"
  by (simp add: shift_scan_def case_prod_unfold)

lemma to_u32string_append: "to_u32string (append_utf8 cp [] @ rest) = sanitize cp # to_u32string rest"
  unfolding to_u32string_scan scan_append by (simp del: map_map)

lemma to_u32string_Nil [simp]: "to_u32string [] = []"
  by (simp add: to_u32string_def)

section \<open>Encoding of a list of code points\<close>

definition utf8 :: "char32 list \<Rightarrow> u8string" where
  "utf8 cps = concat (map (\<lambda>cp. append_utf8 cp []) cps)"

lemma utf8_simps [simp]: "utf8 [] = []" "utf8 (cp # cps) = append_utf8 cp [] @ utf8 cps"
  by (simp_all add: utf8_def)

lemma utf8_append [simp]: "utf8 (xs @ ys) = utf8 xs @ utf8 ys"
  by (simp add: utf8_def)

lemma fold_append_utf8: "fold append_utf8 cps out = out @ utf8 cps"
proof (induction cps arbitrary: out)
  case (Cons cp cps)
  then show ?case by (simp add: append_utf8_append [of cp out])
qed simp

lemma u8_of_u32string_utf8: "u8_of_u32string cps = utf8 cps"
  by (simp add: u8_of_u32string_def fold_append_utf8)

lemma to_u32string_utf8: "to_u32string (utf8 cps) = map sanitize cps"
  by (induction cps) (simp_all add: to_u32string_append)

lemma utf8_sanitize: "utf8 (map sanitize cps) = utf8 cps"
  by (induction cps) (simp_all add: append_utf8_sanitize)

section \<open>UTF-16\<close>

lemma or_surrogate:
  "0xD800 OR take_bit 10 x = 0xD800 + take_bit 10 x" "0xDC00 OR take_bit 10 x = 0xDC00 + take_bit 10 x"
  for x :: char32
proof -
  have low: "n < 10 \<Longrightarrow> \<not> bit (0xD800 :: char32) n \<and> \<not> bit (0xDC00 :: char32) n" for n
  proof -
    assume "n < 10"
    then have "n = 0 \<or> n = 1 \<or> n = 2 \<or> n = 3 \<or> n = 4 \<or> n = 5 \<or> n = 6 \<or> n = 7 \<or> n = 8 \<or> n = 9" by auto
    then show ?thesis by auto
  qed
  have "0xD800 AND take_bit 10 x = 0" "0xDC00 AND take_bit 10 x = 0"
    by (rule bit_eqI, use low in \<open>auto simp: bit_simps\<close>)+
  then show "0xD800 OR take_bit 10 x = 0xD800 + take_bit 10 x" "0xDC00 OR take_bit 10 x = 0xDC00 + take_bit 10 x"
    by (simp_all add: disjunctive_add_eq_or)
qed

lemma unat_take_bit_10: "unat (take_bit 10 x) < 1024" for x :: char32
  by (simp add: unsigned_take_bit_eq take_bit_nat_less_exp [of 10, simplified])

lemma unat_ucast16: "unat (ucast x :: char16) = unat x mod 65536" for x :: char32
  by (simp add: unsigned_ucast_eq take_bit_eq_mod)

lemma ucast16_ucast: "unat x < 65536 \<Longrightarrow> ucast (ucast x :: char16) = x" for x :: char32
proof -
  assume "unat x < 65536"
  then have "take_bit 16 x = x" by (simp add: take_bit_small_iff word_to_nat)
  then show ?thesis by (simp add: unsigned_ucast_eq)
qed

lemma surrogate_unit:
  fixes x :: char32
  shows "ucast (ucast (0xD800 + take_bit 10 x) :: char16) = 0xD800 + take_bit 10 x"
    "ucast (ucast (0xDC00 + take_bit 10 x) :: char16) = 0xDC00 + take_bit 10 x"
    "unat (ucast (0xD800 + take_bit 10 x) :: char16) = 0xD800 + unat (take_bit 10 x)"
    "unat (ucast (0xDC00 + take_bit 10 x) :: char16) = 0xDC00 + unat (take_bit 10 x)"
proof -
  have u: "unat (0xD800 + take_bit 10 x) = 0xD800 + unat (take_bit 10 x)"
    "unat (0xDC00 + take_bit 10 x) = 0xDC00 + unat (take_bit 10 x)"
    using unat_take_bit_10 [of x] by (subst unat_plus_simple [THEN iffD1]; simp add: word_le_nat_alt unat_word_ariths)+
  have l: "unat (0xD800 + take_bit 10 x) < 65536" "unat (0xDC00 + take_bit 10 x) < 65536"
    unfolding u using unat_take_bit_10 [of x] by simp_all
  show "unat (ucast (0xD800 + take_bit 10 x) :: char16) = 0xD800 + unat (take_bit 10 x)"
    "unat (ucast (0xDC00 + take_bit 10 x) :: char16) = 0xDC00 + unat (take_bit 10 x)"
    using l unfolding unat_ucast16 by (simp_all only: mod_less u)
  show "ucast (ucast (0xD800 + take_bit 10 x) :: char16) = 0xD800 + take_bit 10 x"
    "ucast (ucast (0xDC00 + take_bit 10 x) :: char16) = 0xDC00 + take_bit 10 x"
    using l by (simp_all only: ucast16_ucast)
qed

text \<open>A code unit below the surrogates or above them, and a surrogate pair, are read back.\<close>

lemma u8_of_u16_loop_push:
  assumes "scalar cp"
  shows "u8_of_u16_loop (push_utf16 cp [] @ ws) out = u8_of_u16_loop ws (append_utf8 cp out)"
proof (cases "cp \<le> 0xFFFF")
  case True
  then have l: "unat cp < 65536" by (simp add: word_to_nat)
  then have u: "unat (ucast cp :: char16) = unat cp" unfolding unat_ucast16 by simp
  have "ucast (ucast cp :: char16) = cp" using l by (rule ucast16_ucast)
  moreover have "\<not> ((ucast cp :: char16) \<ge> 0xD800 \<and> (ucast cp :: char16) \<le> 0xDBFF)"
    "\<not> ((ucast cp :: char16) \<ge> 0xDC00 \<and> (ucast cp :: char16) \<le> 0xDFFF)"
    using assms by (auto simp: word_to_nat u scalar_def)
  moreover have "push_utf16 cp [] = [ucast cp]"
    using True assms by (auto simp: push_utf16_def scalar_def word_to_nat)
  ultimately show ?thesis by auto
next
  case False
  define v where "v = cp - 0x10000"
  have "cp \<le> 0x10FFFF" using assms False by (auto simp: scalar_def word_to_nat)
  then have v: "unat v < 0x100000"
    using False unfolding v_def by (subst unat_sub) (auto simp: word_to_nat)
  then have "take_bit 20 v = v" by (simp add: take_bit_small_iff word_to_nat)
  then have d: "take_bit 10 (drop_bit 10 v) = drop_bit 10 v" by (simp add: take_bit_drop_bit)
  let ?hi = "ucast (0xD800 + take_bit 10 (drop_bit 10 v)) :: char16"
  let ?lo = "ucast (0xDC00 + take_bit 10 v) :: char16"
  have p: "push_utf16 cp [] = [?hi, ?lo]"
    using False by (simp add: push_utf16_def Let_def and_masks or_surrogate v_def)
  have "?hi \<ge> 0xD800 \<and> ?hi \<le> 0xDBFF" "?lo \<ge> 0xDC00 \<and> ?lo \<le> 0xDFFF"
    using unat_take_bit_10 [of "drop_bit 10 v"] unat_take_bit_10 [of v]
    unfolding word_to_nat surrogate_unit by auto
  moreover have "push_bit 10 (ucast ?hi - 0xD800) + (ucast ?lo - 0xDC00) + 0x10000 = cp"
  proof -
    have "push_bit 10 (take_bit 10 (drop_bit 10 v)) + take_bit 10 v = v"
      unfolding d by (rule bits_ident)
    then have "push_bit 10 (ucast ?hi - 0xD800) + (ucast ?lo - 0xDC00) = v"
      unfolding surrogate_unit by simp
    then show ?thesis by (simp add: v_def)
  qed
  ultimately show ?thesis unfolding p by simp
qed

lemma u8_of_u16_loop_units:
  "list_all scalar cps \<Longrightarrow>
     u8_of_u16_loop (concat (map (\<lambda>cp. push_utf16 cp []) cps)) out = out @ utf8 cps"
proof (induction cps arbitrary: out)
  case (Cons cp cps)
  then show ?case by (simp add: u8_of_u16_loop_push append_utf8_append [of cp out])
qed simp

lemma scan_scalar: "list_all scalar (map fst (scan data i))"
proof (induction data i rule: scan.induct)
  case (1 data i)
  then show ?case
    by (cases "next_code_point data i")
      (auto simp: scan_end scan_step dest: next_code_point_scalar)
qed

lemma to_u32string_scalar: "list_all scalar (to_u32string s)"
  by (simp only: to_u32string_scan scan_scalar)

lemma u8_of_u16string_to_u16string: "u8_of_u16string (to_u16string s) = utf8 (to_u32string s)"
proof -
  have "u8_of_u16_loop (to_u16string s) [] = utf8 (to_u32string s)"
    using u8_of_u16_loop_units [OF to_u32string_scalar, of s "[]"] by (simp add: to_u16string_scan)
  then show ?thesis by (cases "to_u16string s = []") (simp_all add: u8_of_u16string_def)
qed

text \<open>Well-formed UTF-8 is the encoding of some scalar values.\<close>

definition well_formed :: "u8string \<Rightarrow> bool" where
  "well_formed s \<longleftrightarrow> utf8 (to_u32string s) = s"

lemma well_formed_utf8: "well_formed (utf8 cps)"
  by (simp add: well_formed_def to_u32string_utf8 utf8_sanitize)

lemma map_sanitize_scalar: "list_all scalar cps \<Longrightarrow> map sanitize cps = cps"
  by (induction cps) simp_all

lemma well_formedE:
  assumes "well_formed s"
  obtains cps where "s = utf8 cps" "list_all scalar cps" "to_u32string s = cps"
  using assms to_u32string_scalar [of s] that by (metis well_formed_def)

section \<open>Encoding undoes decoding\<close>

lemma masked_byte:
  fixes b m n v :: uint8
  assumes "b AND m = v" "m OR n = - 1"
  shows "b = v OR (b AND n)"
proof -
  have "b = b AND (m OR n)" by (simp add: assms(2))
  then show ?thesis by (simp only: assms(1) bit.conj_disj_distrib)
qed

lemma masked_bytes:
  "b AND 0x80 = 0 \<Longrightarrow> b = take_bit 7 b"
  "b AND 0xE0 = 0xC0 \<Longrightarrow> b = 0xC0 OR take_bit 5 b"
  "b AND 0xF0 = 0xE0 \<Longrightarrow> b = 0xE0 OR take_bit 4 b"
  "b AND 0xF8 = 0xF0 \<Longrightarrow> b = 0xF0 OR take_bit 3 b"
  "b AND 0xC0 = 0x80 \<Longrightarrow> b = 0x80 OR take_bit 6 b"
  for b :: uint8
  using masked_byte [where b = b and m = "0x80" and v = "0" and n = "0x7F"] masked_byte [where b = b and m = "0xE0" and v = "0xC0" and n = "0x1F"] masked_byte [where b = b and m = "0xF0" and v = "0xE0" and n = "0x0F"]
    masked_byte [where b = b and m = "0xF8" and v = "0xF0" and n = "0x07"] masked_byte [where b = b and m = "0xC0" and v = "0x80" and n = "0x3F"]
  by (simp_all add: take_bit_eq_mask mask_eq_exp_minus_1)

lemma payload_units:
  "ucast (take_bit 7 (ucast b :: char32)) = take_bit 7 b"
  "ucast (0xC0 OR take_bit 5 (ucast b :: char32)) = 0xC0 OR take_bit 5 b"
  "ucast (0xE0 OR take_bit 4 (ucast b :: char32)) = 0xE0 OR take_bit 4 b"
  "ucast (0xF0 OR take_bit 3 (ucast b :: char32)) = 0xF0 OR take_bit 3 b"
  "ucast (0x80 OR take_bit 6 (ucast b :: char32)) = 0x80 OR take_bit 6 b"
  for b :: uint8
  by (rule byte_eqI; simp add: bit_simps)+

lemma payload_parts:
  fixes w x y z :: char32
  shows "drop_bit 6 (push_bit 6 (take_bit 5 x) OR take_bit 6 y) = take_bit 5 x"
    "take_bit 6 (push_bit 6 x OR take_bit 6 y) = take_bit 6 y"
    "drop_bit 12 (push_bit 12 (take_bit 4 x) OR push_bit 6 (take_bit 6 y) OR take_bit 6 z) = take_bit 4 x"
    "take_bit 6 (drop_bit 6 (push_bit 12 (take_bit 4 x) OR push_bit 6 (take_bit 6 y) OR take_bit 6 z)) = take_bit 6 y"
    "take_bit 6 (push_bit 12 (take_bit 4 x) OR push_bit 6 (take_bit 6 y) OR take_bit 6 z) = take_bit 6 z"
    "drop_bit 18 (push_bit 18 (take_bit 3 w) OR push_bit 12 (take_bit 6 x) OR push_bit 6 (take_bit 6 y) OR take_bit 6 z) = take_bit 3 w"
    "take_bit 6 (drop_bit 12 (push_bit 18 (take_bit 3 w) OR push_bit 12 (take_bit 6 x) OR push_bit 6 (take_bit 6 y) OR take_bit 6 z)) = take_bit 6 x"
    "take_bit 6 (drop_bit 6 (push_bit 18 (take_bit 3 w) OR push_bit 12 (take_bit 6 x) OR push_bit 6 (take_bit 6 y) OR take_bit 6 z)) = take_bit 6 y"
    "take_bit 6 (push_bit 18 (take_bit 3 w) OR push_bit 12 (take_bit 6 x) OR push_bit 6 (take_bit 6 y) OR take_bit 6 z) = take_bit 6 z"
  by (rule bit_eqI; auto simp: bit_simps)+

text \<open>A code point that the decoder does not replace is the one its bytes encode.\<close>

lemma ucast_ucast_byte: "ucast (ucast b :: char32) = b" for b :: uint8
  by (rule byte_eqI) (simp_all add: bit_simps)

lemma encode_2:
  fixes b0 b1 :: uint8
  defines "cp \<equiv> push_bit 6 (take_bit 5 (ucast b0)) OR take_bit 6 (ucast b1) :: char32"
  assumes "b0 AND 0xE0 = 0xC0" "b1 AND 0xC0 = 0x80" "\<not> cp < 0x80"
  shows "append_utf8 cp [] = [b0, b1]"
proof -
  have "0x7F < cp" "cp \<le> 0x7FF"
    using assms(4) utf8_2_bytes [of "ucast b0" "ucast b1"] unfolding cp_def by (simp_all add: word_to_nat)
  then have "append_utf8 cp [] = [ucast (0xC0 OR drop_bit 6 cp), ucast (0x80 OR take_bit 6 cp)]"
    by (simp add: append_utf8_2 and_masks)
  then show ?thesis
    using masked_bytes(2) [OF assms(2)] masked_bytes(5) [OF assms(3)]
    by (simp only: cp_def payload_parts payload_units)
qed

lemma encode_3:
  fixes b0 b1 b2 :: uint8
  defines "cp \<equiv> push_bit 12 (take_bit 4 (ucast b0)) OR push_bit 6 (take_bit 6 (ucast b1)) OR
    take_bit 6 (ucast b2) :: char32"
  assumes "b0 AND 0xF0 = 0xE0" "b1 AND 0xC0 = 0x80" "b2 AND 0xC0 = 0x80"
    "\<not> (cp < 0x800 \<or> (cp \<ge> 0xD800 \<and> cp \<le> 0xDFFF))"
  shows "append_utf8 cp [] = [b0, b1, b2]"
proof -
  have "0x7FF < cp" "cp \<le> 0xFFFF" "scalar cp"
    using assms(5) utf8_3_bytes [of "ucast b0" "ucast b1" "ucast b2"] unfolding cp_def scalar_def
    by (auto simp: word_to_nat)
  then have "append_utf8 cp [] = [ucast (0xE0 OR drop_bit 12 cp), ucast (0x80 OR take_bit 6 (drop_bit 6 cp)),
      ucast (0x80 OR take_bit 6 cp)]"
    by (simp add: append_utf8_3 and_masks)
  then show ?thesis
    using masked_bytes(3) [OF assms(2)] masked_bytes(5) [OF assms(3)] masked_bytes(5) [OF assms(4)]
    by (simp only: cp_def payload_parts payload_units)
qed

lemma encode_4:
  fixes b0 b1 b2 b3 :: uint8
  defines "cp \<equiv> push_bit 18 (take_bit 3 (ucast b0)) OR push_bit 12 (take_bit 6 (ucast b1)) OR
    push_bit 6 (take_bit 6 (ucast b2)) OR take_bit 6 (ucast b3) :: char32"
  assumes "b0 AND 0xF8 = 0xF0" "b1 AND 0xC0 = 0x80" "b2 AND 0xC0 = 0x80" "b3 AND 0xC0 = 0x80"
    "\<not> (cp < 0x10000 \<or> cp > 0x10FFFF)"
  shows "append_utf8 cp [] = [b0, b1, b2, b3]"
proof -
  have "0xFFFF < cp" "cp \<le> 0x10FFFF" using assms(6) by (auto simp: word_to_nat)
  then have "append_utf8 cp [] = [ucast (0xF0 OR drop_bit 18 cp), ucast (0x80 OR take_bit 6 (drop_bit 12 cp)),
      ucast (0x80 OR take_bit 6 (drop_bit 6 cp)), ucast (0x80 OR take_bit 6 cp)]"
    by (simp add: append_utf8_4 and_masks)
  then show ?thesis
    using masked_bytes(4) [OF assms(2)] masked_bytes(5) [OF assms(3)] masked_bytes(5) [OF assms(4)]
      masked_bytes(5) [OF assms(5)]
    by (simp only: cp_def payload_parts payload_units)
qed

lemma take_bytes: "take 1 (a # l) = [a]" "take 2 (a # b # l) = [a, b]" "take 3 (a # b # c # l) = [a, b, c]"
  "take 4 (a # b # c # d # l) = [a, b, c, d]"
  by (simp_all add: numeral_eq_Suc)

lemma next_code_point_sound:
  assumes "next_code_point s 0 = Some (cp, j)" "cp \<noteq> 0xFFFD"
  shows "take j s = append_utf8 cp []"
proof -
  obtain b0 s1 where s: "s = b0 # s1"
    using assms(1) by (cases s) (auto simp: next_code_point_def)
  consider "b0 AND 0x80 = 0" "cp = ucast b0" "j = 1"
    | b1 s2 where "s1 = b1 # s2" "b0 AND 0xE0 = 0xC0" "b1 AND 0xC0 = 0x80" "j = 2"
        "cp = push_bit 6 (take_bit 5 (ucast b0)) OR take_bit 6 (ucast b1)" "\<not> cp < 0x80"
    | b1 b2 s3 where "s1 = b1 # b2 # s3" "b0 AND 0xF0 = 0xE0" "b1 AND 0xC0 = 0x80" "b2 AND 0xC0 = 0x80" "j = 3"
        "cp = push_bit 12 (take_bit 4 (ucast b0)) OR push_bit 6 (take_bit 6 (ucast b1)) OR take_bit 6 (ucast b2)"
        "\<not> (cp < 0x800 \<or> (cp \<ge> 0xD800 \<and> cp \<le> 0xDFFF))"
    | b1 b2 b3 s4 where "s1 = b1 # b2 # b3 # s4" "b0 AND 0xF8 = 0xF0" "b1 AND 0xC0 = 0x80" "b2 AND 0xC0 = 0x80"
        "b3 AND 0xC0 = 0x80" "j = 4"
        "cp = push_bit 18 (take_bit 3 (ucast b0)) OR push_bit 12 (take_bit 6 (ucast b1)) OR
          push_bit 6 (take_bit 6 (ucast b2)) OR take_bit 6 (ucast b3)"
        "\<not> (cp < 0x10000 \<or> cp > 0x10FFFF)"
  proof (cases "b0 AND 0x80 = 0")
    case True
    then show thesis using assms that(1) by (simp add: s next_code_point_def)
  next
    case n1: False
    show thesis
    proof (cases "b0 AND 0xE0 = 0xC0")
      case True
      then show thesis using assms n1 that(2) 
        by (cases s1) (auto simp: s next_code_point_def Let_def and_masks split: if_splits)
    next
      case n2: False
      show thesis
      proof (cases "b0 AND 0xF0 = 0xE0")
        case True
        then show thesis using assms n1 n2 that(3)
          by (cases s1 rule: list.exhaust; cases "tl s1")
            (auto simp: s next_code_point_def Let_def and_masks nth_small split: if_splits)
      next
        case n3: False
        then show thesis using assms n1 n2 that(4)
          by (cases s1 rule: list.exhaust; cases "tl s1"; cases "tl (tl s1)")
            (auto simp: s next_code_point_def Let_def and_masks nth_small split: if_splits)
      qed
    qed
  qed
  then show ?thesis
  proof cases
    case 1
    have c: "take_bit 7 cp = cp" unfolding 1(2) by (subst masked_bytes(1) [OF 1(1)]) (simp add: unsigned_take_bit_eq)
    then have "cp < 0x80" using take_bit_small_iff [of 7 cp] by simp
    then have "append_utf8 cp [] = [ucast cp]" by (simp add: append_utf8_1 word_to_nat)
    then show ?thesis using 1 by (simp add: s ucast_ucast_byte)
  next
    case 2
    then show ?thesis using encode_2 [OF 2(2,3) 2(6) [unfolded 2(5)]] by (simp only: s take_bytes)
  next
    case 3
    then show ?thesis using encode_3 [OF 3(2,3,4) 3(7) [unfolded 3(6)]] by (simp only: s take_bytes)
  next
    case 4
    then show ?thesis using encode_4 [OF 4(2,3,4,5) 4(8) [unfolded 4(7)]] by (simp only: s take_bytes)
  qed
qed

section \<open>What the decoder makes of any bytes\<close>

text \<open>The reading of a byte string: where the encoding of a scalar value begins, that value is read
  and its bytes are consumed; where none begins, one to four bytes are read as U+FFFD.\<close>

inductive decodes :: "u8string \<Rightarrow> char32 list \<Rightarrow> bool" where
  empty: "decodes [] []"
| valid: "scalar cp \<Longrightarrow> decodes rest cps \<Longrightarrow> decodes (append_utf8 cp [] @ rest) (cp # cps)"
| replaced: "p \<noteq> [] \<Longrightarrow> length p \<le> 4 \<Longrightarrow>
    (\<forall>cp r. scalar cp \<longrightarrow> p @ rest \<noteq> append_utf8 cp [] @ r) \<Longrightarrow>
    decodes rest cps \<Longrightarrow> decodes (p @ rest) (0xFFFD # cps)"

lemma append_utf8_length_le: "length (append_utf8 cp []) \<le> 4"
  by (cases cp rule: code_point_cases)
    (simp_all add: append_utf8_1 append_utf8_2 append_utf8_3 append_utf8_4 append_utf8_bad)

lemma decodes_length: "decodes s cps \<Longrightarrow> length cps \<le> length s \<and> length s \<le> 4 * length cps"
proof (induction rule: decodes.induct)
  case (valid cp rest cps)
  then show ?case using append_utf8_length [of cp] append_utf8_length_le [of cp]
    by (simp del: length_greater_0_conv)
next
  case (replaced p rest cps)
  then show ?case by (cases p) auto
qed simp

lemma to_u32string_step:
  "next_code_point s 0 = Some (cp, j) \<Longrightarrow> to_u32string s = cp # to_u32string (drop j s)"
  using next_code_point_progress [of s 0 cp j]
  by (simp add: to_u32string_scan scan_step scan_drop [of j s] del: map_map)

lemma decodes_to_u32string: "decodes s (to_u32string s)"
proof (induction "length s" arbitrary: s rule: less_induct)
  case less
  show ?case
  proof (cases "s = []")
    case True
    then show ?thesis by (simp add: decodes.empty)
  next
    case False
    show ?thesis
    proof (cases "\<exists>cp r. scalar cp \<and> s = append_utf8 cp [] @ r")
      case True
      then obtain cp r where s: "scalar cp" "s = append_utf8 cp [] @ r" by blast
      then have "decodes r (to_u32string r)" using less [of r] append_utf8_length [of cp] by simp
      then show ?thesis using s decodes.valid by (simp add: to_u32string_append)
    next
      case bad: False
      obtain cp j where n: "next_code_point s 0 = Some (cp, j)"
        using False by (cases "next_code_point s 0") auto
      note j = next_code_point_progress [OF n]
      have c: "cp = 0xFFFD"
      proof (rule ccontr)
        assume "cp \<noteq> 0xFFFD"
        then have "s = append_utf8 cp [] @ drop j s"
          using next_code_point_sound [OF n] append_take_drop_id [of j s] by simp
        then show False using bad next_code_point_scalar [OF n] by blast
      qed
      have "decodes (take j s @ drop j s) (0xFFFD # to_u32string (drop j s))"
      proof (rule decodes.replaced)
        show "decodes (drop j s) (to_u32string (drop j s))" using less [of "drop j s"] j by auto
        show "\<forall>cp r. scalar cp \<longrightarrow> take j s @ drop j s \<noteq> append_utf8 cp [] @ r" using bad by simp
      qed (use j in auto)
      then show ?thesis using to_u32string_step [OF n] c by simp
    qed
  qed
qed

section \<open>The conversions as codecs\<close>

interpretation utf32: codec "list_all scalar" u8_of_u32string "\<lambda>s. Some (to_u32string s)"
  by unfold_locales (simp add: u8_of_u32string_utf8 to_u32string_utf8 map_sanitize_scalar)

interpretation utf16: codec well_formed to_u16string "\<lambda>s16. Some (u8_of_u16string s16)"
  by unfold_locales (simp add: u8_of_u16string_to_u16string well_formed_def)

interpretation utf32_via_16: codec_chain "list_all scalar" u8_of_u32string "\<lambda>s. Some (to_u32string s)"
    well_formed to_u16string "\<lambda>s16. Some (u8_of_u16string s16)"
  by unfold_locales (simp add: u8_of_u32string_utf8 well_formed_utf8)

text \<open>C8: converting UTF-32 to UTF-8 and back gives the code points themselves, with surrogates and
  values above 0x10FFFF replaced by U+FFFD; the bytes in between are well-formed, for any input.\<close>

theorem u32_roundtrip:
  "to_u32string (u8_of_u32string s32) = map sanitize s32 \<and> well_formed (u8_of_u32string s32)"
  by (simp add: u8_of_u32string_utf8 to_u32string_utf8 well_formed_utf8)


text \<open>Going through UTF-16 (with surrogate pairs above 0xFFFF) is the same as going through
  UTF-32, for any bytes; on well-formed UTF-8 the way through UTF-16 and back is the identity.\<close>

theorem u16_roundtrip:
  "u8_of_u16string (to_u16string s) = u8_of_u32string (to_u32string s) \<and>
   u8_of_u16string (to_u16string (u8_of_u32string cps)) = u8_of_u32string cps"
  using utf16.decode_encode [OF well_formed_utf8]
  by (simp add: u8_of_u32string_utf8 u8_of_u16string_to_u16string)

end
