(* ===== verification/U8str.thy ===== *)
theory U8str
  imports Utf8_Codec Str_Loops
begin

text \<open>
  The class \<open>u8str\<close> of \<open>src/string/u8string.cpp\<close>: a string object that stores UTF-8 bytes. The
  state is its one field \<open>value_\<close>, so a method is a function on \<open>u8string\<close>; one that modifies the
  object returns the new value. A literal argument (\<open>const char*\<close>) is converted to bytes first and
  is a \<open>u8string\<close> here. \<open>None\<close> is an access outside a vector or string.

  The lemmas show that the index map of a string tiles its bytes, that \<open>left\<close>, \<open>mid\<close> and \<open>right\<close>
  take code points, that reversing twice is the identity on well-formed strings, and when
  \<open>mid\<close> reads outside the map.
\<close>

section \<open>ASCII helpers, search and comparison\<close>

definition is_ascii_space :: "uint8 \<Rightarrow> bool" where
  "is_ascii_space c \<longleftrightarrow> c = 0x20 \<or> c = 0x09 \<or> c = 0x0A \<or> c = 0x0D \<or> c = 0x0C \<or> c = 0x0B"

definition to_lower_ascii :: "uint8 \<Rightarrow> uint8" where
  "to_lower_ascii c = (if c \<ge> 0x41 \<and> c \<le> 0x5A then c + (0x61 - 0x41) else c)"

definition to_u8_string :: "string \<Rightarrow> u8string" where
  "to_u8_string s = map byte_of_char s"

definition to_std_string :: "u8string \<Rightarrow> string" where
  "to_std_string s = map char_of_byte s"

definition u8str_starts_with :: "u8string \<Rightarrow> u8string \<Rightarrow> bool" where
  "u8str_starts_with v pre = (if length pre > length v then False else take (length pre) v = pre)"

definition u8str_ends_with :: "u8string \<Rightarrow> u8string \<Rightarrow> bool" where
  "u8str_ends_with v suf =
     (if length suf > length v then False
      else let offset = length v - length suf in take (length suf) (drop offset v) = suf)"

definition u8str_contains :: "u8string \<Rightarrow> u8string \<Rightarrow> bool" where
  "u8str_contains v needle = (if needle = [] then True else find_in needle v \<noteq> None)"

definition u8str_index_of :: "u8string \<Rightarrow> u8string \<Rightarrow> nat \<Rightarrow> int" where
  "u8str_index_of v needle start =
     (if needle = [] then 0
      else case find_from v needle start of None \<Rightarrow> -1 | Some pos \<Rightarrow> int pos)"

definition u8str_last_index_of :: "u8string \<Rightarrow> u8string \<Rightarrow> int" where
  "u8str_last_index_of v needle =
     (if needle = [] then 0
      else case rfind_in needle v of None \<Rightarrow> -1 | Some pos \<Rightarrow> int pos)"

section \<open>Trimming, splitting, replacing\<close>

fun ltrim_count :: "u8string \<Rightarrow> nat \<Rightarrow> nat" where
  "ltrim_count [] i = i"
| "ltrim_count (c # v) i = (if \<not> is_ascii_space c then i else ltrim_count v (i + 1))"

definition u8str_ltrim :: "u8string \<Rightarrow> u8string" where
  "u8str_ltrim v = drop (ltrim_count v 0) v"

fun rtrim_index :: "u8string \<Rightarrow> nat \<Rightarrow> nat" where
  "rtrim_index v 0 = 0"
| "rtrim_index v (Suc i) = (if \<not> is_ascii_space (v ! i) then Suc i else rtrim_index v i)"

definition u8str_rtrim :: "u8string \<Rightarrow> u8string" where
  "u8str_rtrim v = take (rtrim_index v (length v)) v"

definition u8str_trim :: "u8string \<Rightarrow> u8string" where
  "u8str_trim v = u8str_rtrim (u8str_ltrim v)"

definition u8str_split :: "u8string \<Rightarrow> u8string \<Rightarrow> bool \<Rightarrow> u8string list" where
  "u8str_split v delim skip_empty =
     (if delim = [] then [v] else split_loop delim (\<not> skip_empty) v 0 [])"

definition u8str_replace :: "u8string \<Rightarrow> u8string \<Rightarrow> u8string \<Rightarrow> u8string" where
  "u8str_replace v from to =
     (if from = [] then v
      else case find_in from v of
        None \<Rightarrow> v
      | Some pos \<Rightarrow> take pos v @ to @ drop (pos + length from) v)"

definition u8str_replace_all :: "u8string \<Rightarrow> u8string \<Rightarrow> u8string \<Rightarrow> u8string" where
  "u8str_replace_all v from to = (if from = [] then v else replace_loop from to v 0)"

section \<open>Code points\<close>

function index_map_loop :: "u8string \<Rightarrow> nat \<Rightarrow> (nat \<times> nat) list \<Rightarrow> (nat \<times> nat) list" where
  "index_map_loop s index m =
     (if index < length s
      then case next_code_point s index of
          None \<Rightarrow> m
        | Some (cp, index') \<Rightarrow> index_map_loop s index' (m @ [(index, index' - index)])
      else m)"
  by pat_completeness auto
termination
  by (relation "measure (\<lambda>(s, index, m). length s - index)") (auto dest!: next_code_point_progress)

declare index_map_loop.simps [simp del]

definition utf8_index_map :: "u8string \<Rightarrow> (nat \<times> nat) list" where
  "utf8_index_map s = index_map_loop s 0 []"

definition u8str_left :: "u8string \<Rightarrow> nat \<Rightarrow> u8string" where
  "u8str_left v n =
     (let m = utf8_index_map v in
      if m = [] \<or> n = 0 then []
      else if n \<ge> length m then v
      else let byte_end = fst (m ! (n - 1)) + snd (m ! (n - 1)) in take byte_end v)"

definition u8str_right :: "u8string \<Rightarrow> nat \<Rightarrow> u8string" where
  "u8str_right v n =
     (let m = utf8_index_map v in
      if m = [] \<or> n = 0 then []
      else if n \<ge> length m then v
      else let start_index = length m - n; byte_start = fst (m ! start_index) in drop byte_start v)"

text \<open>\<open>pos + count\<close> is a sum of two \<open>size_t\<close> the caller chooses and wraps around; \<open>end_pos - 1\<close> of
  \<open>end_pos = 0\<close> is outside the map.\<close>

definition u8str_mid :: "u8string \<Rightarrow> nat \<Rightarrow> nat \<Rightarrow> u8string option" where
  "u8str_mid v pos cnt =
     (let m = utf8_index_map v in
      if m = [] \<or> cnt = 0 \<or> pos \<ge> length m then Some []
      else
        let end_pos = sz_add pos cnt;
            end_pos' = (if end_pos > length m then length m else end_pos);
            byte_start = fst (m ! pos)
        in if end_pos' = 0 then None
           else let byte_end = fst (m ! (end_pos' - 1)) + snd (m ! (end_pos' - 1))
             in if byte_end < byte_start then Some (drop byte_start v)
                else Some (take (byte_end - byte_start) (drop byte_start v)))"

definition u8str_substr_utf8 :: "u8string \<Rightarrow> nat \<Rightarrow> nat \<Rightarrow> u8string option" where
  "u8str_substr_utf8 v pos cnt = u8str_mid v pos cnt"

definition u8str_reverse_utf8 :: "u8string \<Rightarrow> u8string" where
  "u8str_reverse_utf8 v =
     (let m = utf8_index_map v in
      if length m \<le> 1 then v
      else concat (map (\<lambda>(start, len). take len (drop start v)) (rev m)))"

definition u8str_pad_left :: "u8string \<Rightarrow> nat \<Rightarrow> uint8 \<Rightarrow> u8string" where
  "u8str_pad_left v total_width fill =
     (let len_cp = length (utf8_index_map v) in
      if len_cp \<ge> total_width then v else replicate (total_width - len_cp) fill @ v)"

definition u8str_pad_right :: "u8string \<Rightarrow> nat \<Rightarrow> uint8 \<Rightarrow> u8string" where
  "u8str_pad_right v total_width fill =
     (let len_cp = length (utf8_index_map v) in
      if len_cp \<ge> total_width then v else v @ replicate (total_width - len_cp) fill)"

section \<open>Prefixes, case, concatenation\<close>

definition u8str_strip_prefix :: "u8string \<Rightarrow> u8string \<Rightarrow> bool \<times> u8string" where
  "u8str_strip_prefix v pre =
     (if \<not> u8str_starts_with v pre then (False, v) else (True, drop (length pre) v))"

definition u8str_strip_suffix :: "u8string \<Rightarrow> u8string \<Rightarrow> bool \<times> u8string" where
  "u8str_strip_suffix v suf =
     (if \<not> u8str_ends_with v suf then (False, v) else (True, take (length v - length suf) v))"

definition u8str_equals_ignore_case_ascii :: "u8string \<Rightarrow> u8string \<Rightarrow> bool" where
  "u8str_equals_ignore_case_ascii v other =
     (if length v \<noteq> length other then False
      else list_all (\<lambda>i. to_lower_ascii (v ! i) = to_lower_ascii (other ! i)) [0..<length v])"

definition u8str_to_lower :: "u8string \<Rightarrow> u8string" where
  "u8str_to_lower v = map (\<lambda>c. if c \<ge> 0x41 \<and> c \<le> 0x5A then c + (0x61 - 0x41) else c) v"

definition u8str_to_upper :: "u8string \<Rightarrow> u8string" where
  "u8str_to_upper v = map (\<lambda>c. if c \<ge> 0x61 \<and> c \<le> 0x7A then c - (0x61 - 0x41) else c) v"

definition u8str_append :: "u8string \<Rightarrow> u8string \<Rightarrow> u8string" where
  "u8str_append v other = v @ other"

section \<open>The index map tiles the bytes\<close>

fun tiles :: "nat \<Rightarrow> (nat \<times> nat) list \<Rightarrow> nat \<Rightarrow> bool" where
  "tiles i [] n \<longleftrightarrow> i = n"
| "tiles i ((start, len) # m) n \<longleftrightarrow> start = i \<and> 0 < len \<and> len \<le> 4 \<and> tiles (i + len) m n"

lemma tiles_append: "tiles i (a @ b) n \<longleftrightarrow> (\<exists>j. tiles i a j \<and> tiles j b n)"
  by (induction a arbitrary: i) auto

lemma tiles_le: "tiles i m n \<Longrightarrow> i \<le> n"
  by (induction m arbitrary: i) fastforce+

lemma tiles_last: "tiles i (m @ [x]) n \<Longrightarrow> n = fst x + snd x"
  by (cases x) (auto simp: tiles_append)

lemma tiles_first: "tiles i (x # m) n \<Longrightarrow> fst x = i"
  by (cases x) auto

definition piece :: "u8string \<Rightarrow> nat \<times> nat \<Rightarrow> u8string" where
  "piece s x = take (snd x) (drop (fst x) s)"

lemma piece_pair: "piece s (i, len) = take len (drop i s)"
  by (simp add: piece_def)

lemma tiles_pieces:
  "tiles i m n \<Longrightarrow> n \<le> length s \<Longrightarrow> concat (map (piece s) m) = take (n - i) (drop i s)"
proof (induction m arbitrary: i)
  case (Cons x m)
  obtain start len where x: "x = (start, len)" by fastforce
  have t: "start = i" "tiles (i + len) m n" using Cons.prems x by auto
  have "concat (map (piece s) m) = take (n - (i + len)) (drop (i + len) s)"
    using Cons t by simp
  moreover have "i + len \<le> n" using tiles_le [OF t(2)] .
  ultimately have "n - i = len + (n - (i + len))" by simp
  then have "take (n - i) (drop i s) = take len (drop i s) @ take (n - (i + len)) (drop (i + len) s)"
    by (metis take_add drop_drop add.commute)
  with \<open>concat (map (piece s) m) = _\<close> show ?case
    using t(1) x by (simp add: piece_pair)
qed simp

lemma index_map_loop_scan: "index_map_loop s i m = m @ map snd (scan s i)"
proof (induction s i m rule: index_map_loop.induct)
  case (1 s i m)
  then show ?case
    by (subst index_map_loop.simps) (auto simp: scan_end scan_step split: option.split)
qed

lemma index_map_scan: "utf8_index_map s = map snd (scan s 0)"
  by (simp add: utf8_index_map_def index_map_loop_scan)

lemma scan_tiles: "i \<le> length s \<Longrightarrow> tiles i (map snd (scan s i)) (length s)"
proof (induction s i rule: scan.induct)
  case (1 s i)
  show ?case
  proof (cases "next_code_point s i")
    case None
    then show ?thesis using 1 by (simp add: scan_end)
  next
    case (Some x)
    obtain cp j where x: "x = (cp, j)" by fastforce
    have "i < j" "j \<le> length s" "j \<le> i + 4" using next_code_point_progress Some x by blast+
    then show ?thesis using 1 Some x by (simp add: scan_step)
  qed
qed

lemma index_map_tiles: "tiles 0 (utf8_index_map s) (length s)"
  using scan_tiles [of 0 s] by (simp add: index_map_scan)

lemma index_map_length: "length (utf8_index_map s) = length (to_u32string s)"
  by (simp add: index_map_scan to_u32string_scan)

text \<open>Where the code point number \<open>n\<close> starts.\<close>

lemma index_map_split:
  assumes "n \<le> length (utf8_index_map s)"
  obtains j where "tiles 0 (take n (utf8_index_map s)) j" "tiles j (drop n (utf8_index_map s)) (length s)"
    "j \<le> length s"
  using index_map_tiles [of s] tiles_append [of 0 "take n (utf8_index_map s)" "drop n (utf8_index_map s)" "length s"]
  by (auto dest: tiles_le)

definition cp_start :: "u8string \<Rightarrow> nat \<Rightarrow> nat" where
  "cp_start s n = sum_list (map snd (take n (utf8_index_map s)))"

lemma tiles_sum: "tiles i m n \<Longrightarrow> n = i + sum_list (map snd m)"
  by (induction m arbitrary: i) fastforce+

lemma cp_start_split:
  assumes "n \<le> length (utf8_index_map s)"
  shows "tiles 0 (take n (utf8_index_map s)) (cp_start s n)"
    "tiles (cp_start s n) (drop n (utf8_index_map s)) (length s)" "cp_start s n \<le> length s"
proof -
  obtain j where j: "tiles 0 (take n (utf8_index_map s)) j" "tiles j (drop n (utf8_index_map s)) (length s)"
    "j \<le> length s" by (rule index_map_split [OF assms]) (rule that)
  have "j = cp_start s n" using tiles_sum [OF j(1)] by (simp add: cp_start_def)
  with j show "tiles 0 (take n (utf8_index_map s)) (cp_start s n)"
    "tiles (cp_start s n) (drop n (utf8_index_map s)) (length s)" "cp_start s n \<le> length s" by simp_all
qed

lemma index_map_start: "n < length (utf8_index_map s) \<Longrightarrow> fst (utf8_index_map s ! n) = cp_start s n"
  using cp_start_split(2) [of n s] by (metis Cons_nth_drop_Suc less_imp_le_nat tiles_first)

lemma index_map_end:
  assumes "0 < n" "n \<le> length (utf8_index_map s)"
  shows "fst (utf8_index_map s ! (n - Suc 0)) + snd (utf8_index_map s ! (n - Suc 0)) = cp_start s n"
proof -
  have "take n (utf8_index_map s) = take (n - Suc 0) (utf8_index_map s) @ [utf8_index_map s ! (n - Suc 0)]"
    using assms by (cases n) (simp_all add: take_Suc_conv_app_nth)
  then show ?thesis using cp_start_split(1) [OF assms(2)] by (metis tiles_last)
qed

lemma cp_start_all: "cp_start s (length (utf8_index_map s)) = length s"
  using cp_start_split(2) [of "length (utf8_index_map s)" s] by simp

lemma cp_start_0 [simp]: "cp_start s 0 = 0"
  by (simp add: cp_start_def)

lemma cp_start_mono:
  assumes "m \<le> n"
  shows "cp_start s m \<le> cp_start s n"
proof -
  obtain k where "n = m + k" using assms by (auto simp: le_iff_add)
  then have "cp_start s n = cp_start s m + sum_list (map snd (take k (drop m (utf8_index_map s))))"
    by (simp add: cp_start_def take_add)
  then show ?thesis by simp
qed

section \<open>Decoding parts of a string\<close>

lemma next_code_point_take:
  assumes "next_code_point s i = Some (cp, i')" "i' \<le> j" "j \<le> length s"
  shows "next_code_point (take j s) i = Some (cp, i')"
proof -
  have l: "length (take j s) = j" using assms(3) by simp
  show ?thesis
    using assms unfolding next_code_point_def Let_def l
    by (simp only: split: if_split_asm) (auto split: if_split)
qed

lemma scan_take:
  assumes "i \<le> j" "scan s i = a @ b" "tiles i (map snd a) j" "j \<le> length s"
  shows "scan (take j s) i = a"
  using assms
proof (induction a arbitrary: i)
  case Nil
  then show ?case by (simp add: scan_end)
next
  case (Cons x a)
  have "i < length s" using Cons.prems(2) scan_end [of s i] by (metis append_Cons list.distinct(1) not_le)
  then obtain cp i' where n: "next_code_point s i = Some (cp, i')"
    by (cases "next_code_point s i") auto
  have x: "x = (cp, i, i' - i)" "scan s i' = a @ b"
    using Cons.prems(2) scan_step [OF n] by auto
  have lt: "i < i'" using next_code_point_progress [OF n] by simp
  then have t: "tiles i' (map snd a) j" using Cons.prems(3) x by simp
  have ij: "i' \<le> j" using tiles_le [OF t] .
  show ?case
    using scan_step [OF next_code_point_take [OF n ij Cons.prems(4)]] x
      Cons.IH [OF ij x(2) t Cons.prems(4)] by simp
qed

lemma to_u32string_take:
  assumes "n \<le> length (to_u32string s)"
  shows "to_u32string (take (cp_start s n) s) = take n (to_u32string s)"
proof -
  have n: "n \<le> length (utf8_index_map s)" using assms by (simp add: index_map_length)
  have "scan (take (cp_start s n) s) 0 = take n (scan s 0)"
    using cp_start_split(1,3) [OF n]
    by (intro scan_take [where b = "drop n (scan s 0)"]) (simp_all add: index_map_scan take_map)
  then show ?thesis by (simp add: to_u32string_scan take_map)
qed

lemma scan_from:
  assumes "i \<le> length s" "scan s i = a @ b" "tiles i (map snd a) j"
  shows "scan s j = b"
  using assms
proof (induction a arbitrary: i)
  case (Cons x a)
  have "i < length s" using Cons.prems(2) scan_end [of s i] by (metis append_Cons list.distinct(1) not_le)
  then obtain cp i' where n: "next_code_point s i = Some (cp, i')"
    by (cases "next_code_point s i") auto
  have x: "x = (cp, i, i' - i)" "scan s i' = a @ b"
    using Cons.prems(2) scan_step [OF n] by auto
  have lt: "i < i'" "i' \<le> length s" using next_code_point_progress [OF n] by simp_all
  show ?case using Cons.IH [OF lt(2) x(2)] Cons.prems(3) x lt by simp
qed simp

lemma to_u32string_drop:
  assumes "n \<le> length (to_u32string s)"
  shows "to_u32string (drop (cp_start s n) s) = drop n (to_u32string s)"
proof -
  have n: "n \<le> length (utf8_index_map s)" using assms by (simp add: index_map_length)
  have "scan s (cp_start s n) = drop n (scan s 0)"
  proof (rule scan_from)
    show "tiles 0 (map snd (take n (scan s 0))) (cp_start s n)"
      using cp_start_split(1) [OF n] by (simp add: index_map_scan take_map)
  qed simp_all
  then have "map fst (scan (drop (cp_start s n) s) 0) = map fst (drop n (scan s 0))"
    using scan_drop [OF cp_start_split(3) [OF n]] by (metis map_fst_shift)
  then show ?thesis by (simp add: to_u32string_scan drop_map)
qed

section \<open>left, right, mid\<close>

lemma index_map_empty: "utf8_index_map s = [] \<longleftrightarrow> s = []"
  using index_map_tiles [of s] by (cases "utf8_index_map s") (auto simp: index_map_scan scan_end dest: tiles_le)

lemma left_spec: "u8str_left s n = take (cp_start s (min n (length (utf8_index_map s)))) s"
  by (cases "n \<ge> length (utf8_index_map s)")
    (auto simp: u8str_left_def Let_def index_map_end cp_start_all index_map_empty min_def)

lemma right_spec: "u8str_right s n = drop (cp_start s (length (utf8_index_map s) - n)) s"
proof (cases "utf8_index_map s = [] \<or> n = 0")
  case True
  then show ?thesis by (auto simp: u8str_right_def Let_def cp_start_all index_map_empty)
next
  case False
  then show ?thesis
    by (cases "n \<ge> length (utf8_index_map s)") (simp_all add: u8str_right_def Let_def index_map_start)
qed

text \<open>\<open>left(n)\<close> and \<open>right(n)\<close> take the first and the last \<open>n\<close> code points, never a part of one,
  for any bytes: their code points are the prefix and the suffix of those of the string, and a
  string is \<open>left(n)\<close> followed by \<open>right\<close> of the rest.\<close>

theorem u8str_left_right:
  "to_u32string (u8str_left s n) = take n (to_u32string s) \<and>
   to_u32string (u8str_right s n) = drop (length (to_u32string s) - n) (to_u32string s) \<and>
   u8str_left s n @ u8str_right s (length (to_u32string s) - n) = s"
proof -
  let ?k = "length (to_u32string s)"
  have "to_u32string (u8str_left s n) = take (min n ?k) (to_u32string s)"
    by (simp only: left_spec index_map_length to_u32string_take min.cobounded2)
  moreover have "to_u32string (u8str_right s n) = drop (?k - n) (to_u32string s)"
    by (simp only: right_spec index_map_length to_u32string_drop diff_le_self)
  moreover have "?k - (?k - n) = min n ?k" by simp
  moreover have "take (min n ?k) (to_u32string s) = take n (to_u32string s)" by (simp add: min_def)
  ultimately show ?thesis by (simp add: left_spec right_spec index_map_length)
qed

text \<open>\<open>mid(pos, count)\<close> takes \<open>count\<close> code points from \<open>pos\<close> on, or as many as there are, as long as
  the sum of the two does not exceed the range of \<open>size_t\<close>.\<close>

theorem u8str_mid_spec:
  assumes "pos + cnt < 2 ^ 64"
  shows "\<exists>r. u8str_mid s pos cnt = Some r \<and> to_u32string r = take cnt (drop pos (to_u32string s))"
proof (cases "utf8_index_map s = [] \<or> cnt = 0 \<or> pos \<ge> length (utf8_index_map s)")
  case True
  then have "take cnt (drop pos (to_u32string s)) = []" by (auto simp: index_map_length [symmetric])
  then show ?thesis using True by (auto simp: u8str_mid_def Let_def)
next
  case False
  let ?e = "min (pos + cnt) (length (utf8_index_map s))"
  let ?t = "take (cp_start s ?e) s"
  have le: "cp_start s pos \<le> cp_start s ?e" using False by (intro cp_start_mono) auto
  have e: "0 < ?e" "?e \<le> length (utf8_index_map s)" using False by auto
  have "u8str_mid s pos cnt = Some (take (cp_start s ?e - cp_start s pos) (drop (cp_start s pos) s))"
    using False assms le index_map_end [OF e] by (auto simp: u8str_mid_def Let_def sz_add_exact index_map_start min_def)
  moreover have "to_u32string (take (cp_start s ?e - cp_start s pos) (drop (cp_start s pos) s)) =
      take (?e - pos) (drop pos (to_u32string s))"
  proof -
    have m: "utf8_index_map ?t = take ?e (utf8_index_map s)"
    proof -
      have "scan ?t 0 = take ?e (scan s 0)"
        using cp_start_split(1,3) [OF e(2)]
        by (intro scan_take [where b = "drop ?e (scan s 0)"]) (simp_all add: index_map_scan take_map)
      then show ?thesis by (simp add: index_map_scan take_map)
    qed
    have "cp_start ?t pos = sum_list (map snd (take pos (utf8_index_map ?t)))" by (rule cp_start_def)
    also have "\<dots> = cp_start s pos" unfolding m using False by (simp add: cp_start_def min_def)
    finally have "cp_start ?t pos = cp_start s pos" .
    moreover have "pos \<le> length (to_u32string ?t)"
      using False by (simp add: index_map_length [symmetric] m)
    ultimately have "to_u32string (drop (cp_start s pos) ?t) = drop pos (to_u32string ?t)"
      using to_u32string_drop [of pos ?t] by simp
    also have "to_u32string ?t = take ?e (to_u32string s)"
      using e(2) by (intro to_u32string_take) (simp add: index_map_length)
    finally show ?thesis by (simp only: drop_take)
  qed
  moreover have "take (?e - pos) (drop pos (to_u32string s)) = take cnt (drop pos (to_u32string s))"
    using False by (auto simp: index_map_length min_def)
  ultimately show ?thesis by simp
qed

theorem u8str_mid_spec_witness:
  "\<exists>r. u8str_mid [0x41, 0xC3, 0xA9, 0x42] 1 2 = Some r \<and>
     to_u32string r = take 2 (drop 1 (to_u32string [0x41, 0xC3, 0xA9, 0x42]))"
  by (rule u8str_mid_spec) simp

text \<open>A count up to the largest \<open>size_t\<close>, the usual way to say "to the end", makes \<open>pos + count\<close>
  wrap around: \<open>mid(1, npos)\<close> on a string of two code points or more reads outside the index map.\<close>

theorem u8str_mid_wraps:
  "length (to_u32string s) < 2 \<or> u8str_mid s 1 (2 ^ 64 - 1) = None"
proof -
  have "sz_add 1 (2 ^ 64 - 1) = 0" by (simp add: sz_add_def)
  then show ?thesis
    by (auto simp: u8str_mid_def Let_def index_map_length [symmetric])
qed

section \<open>Reversing\<close>

lemma pieces_of_utf8:
  "list_all scalar cps \<Longrightarrow> map (piece (utf8 cps)) (utf8_index_map (utf8 cps)) = map (\<lambda>cp. append_utf8 cp []) cps"
proof (induction cps)
  case Nil
  then show ?case by (simp add: index_map_scan scan_end)
next
  case (Cons cp cps)
  let ?h = "append_utf8 cp []"
  have "piece (?h @ utf8 cps) (snd (shift_scan (length ?h) x)) = piece (utf8 cps) (snd x)" for x
    by (cases x) (simp add: shift_scan_def piece_def)
  then show ?case
    using Cons by (simp add: index_map_scan scan_append comp_def) (simp add: piece_def)
qed

lemma u8str_reverse_pieces:
  "u8str_reverse_utf8 v = concat (rev (map (piece v) (utf8_index_map v)))"
proof (cases "length (utf8_index_map v) \<le> 1")
  case True
  then have "rev (map (piece v) (utf8_index_map v)) = map (piece v) (utf8_index_map v)"
    by (cases "utf8_index_map v") auto
  then show ?thesis
    using True tiles_pieces [OF index_map_tiles, of v v] by (simp add: u8str_reverse_utf8_def)
next
  case False
  then show ?thesis
    by (simp add: u8str_reverse_utf8_def Let_def rev_map piece_def [abs_def] case_prod_unfold)
qed

lemma reverse_utf8_encoded: "list_all scalar cps \<Longrightarrow> u8str_reverse_utf8 (utf8 cps) = utf8 (rev cps)"
  unfolding u8str_reverse_pieces by (subst pieces_of_utf8) (simp_all add: utf8_def rev_map)

text \<open>On well-formed UTF-8, \<open>reverse_utf8\<close> reverses the code points, keeps the string
  well-formed and the same length in bytes, and reversing twice gives the string back.\<close>

theorem reverse_utf8_involution:
  assumes "well_formed s"
  shows "to_u32string (u8str_reverse_utf8 s) = rev (to_u32string s) \<and> well_formed (u8str_reverse_utf8 s) \<and>
    u8str_reverse_utf8 (u8str_reverse_utf8 s) = s \<and> length (u8str_reverse_utf8 s) = length s"
proof -
  obtain cps where s: "s = utf8 cps" "list_all scalar cps" by (rule well_formedE [OF assms])
  have r: "list_all scalar (rev cps)" using s(2) by simp
  have "length (utf8 (rev cps)) = length (utf8 cps)"
    by (simp add: utf8_def length_concat rev_map [symmetric] comp_def)
  then show ?thesis
    using s r by (simp add: reverse_utf8_encoded to_u32string_utf8 well_formed_utf8 map_sanitize_scalar)
qed

theorem reverse_utf8_involution_witness:
  "to_u32string (u8str_reverse_utf8 (utf8 [0x41, 0xAC00])) = rev (to_u32string (utf8 [0x41, 0xAC00])) \<and>
   well_formed (u8str_reverse_utf8 (utf8 [0x41, 0xAC00])) \<and>
   u8str_reverse_utf8 (u8str_reverse_utf8 (utf8 [0x41, 0xAC00])) = utf8 [0x41, 0xAC00] \<and>
   length (u8str_reverse_utf8 (utf8 [0x41, 0xAC00])) = length (utf8 [0x41, 0xAC00])"
  by (rule reverse_utf8_involution) (rule well_formed_utf8)

section \<open>Splitting and replacing\<close>

lemma u8str_split_keep: "u8str_split v d False = (if d = [] then [v] else split_on d v)"
  by (simp add: u8str_split_def split_loop_spec)

text \<open>\<open>replace_all\<close> is \<open>split\<close> followed by joining with the replacement, and joining the parts of
  \<open>split\<close> with the delimiter gives the bytes back.\<close>

theorem u8str_replace_all_spec:
  "u8str_replace_all v from to = (if from = [] then v else join (u8str_split v from False) to) \<and>
   join (u8str_split v delim False) delim = v \<and>
   u8str_split v delim True = (if delim = [] then [v] else filter (\<lambda>p. p \<noteq> []) (u8str_split v delim False))"
proof -
  have "join [v] d = v" for d :: u8string by simp
  moreover have "u8str_split v delim True = (if delim = [] then [v] else filter (\<lambda>p. p \<noteq> []) (split_on delim v))"
    by (simp add: u8str_split_def split_loop_spec)
  ultimately show ?thesis
    by (simp add: u8str_split_keep u8str_replace_all_def replace_loop_spec join_split_on)
qed

end
