(* ===== verification/Encoding.thy ===== *)
theory Encoding
  imports Utf8_Codec Cpp_Std
begin

text \<open>
  The conversions of \<open>src/encoding/encoding_function.cpp\<close>: UTF-16 to UTF-32 and back by hand, UTF-8
  through the standard library or the Windows API, and the Korean character sets CP949, ISO-2022-KR,
  JOHAB and MacKorean through the Windows API or iconv. The preprocessor's three builds are the
  values of \<open>platform\<close>; the Windows API and iconv are records of functions, arguments of every
  definition that calls them.

  A conversion returns \<open>bool\<close> and writes an out parameter: it is a function of the input and of the
  old value of that parameter, with the pair of both results. A conversion that may reach the
  \<open>while\<close> loop around iconv has an \<open>option\<close> more, \<open>None\<close> for a loop that does not end.

  The lemmas show that the hand-written conversions are each other's inverse on exactly the
  well-formed strings, that both builds agree on the Unicode conversions, except on a cut-off end, when
  the Windows API keeps its documentation, and that the loop around iconv ends and stays in its buffer.
\<close>

unbundle bit_operations_syntax

section \<open>UTF-16 and UTF-32\<close>

fun utf16_to_utf32_loop :: "char16 list \<Rightarrow> char32 list \<Rightarrow> bool \<times> char32 list" where
  "utf16_to_utf32_loop [] out = (True, out)"
| "utf16_to_utf32_loop (cu # u16) out =
     (if cu \<ge> 0xD800 \<and> cu \<le> 0xDBFF
      then (case u16 of
              [] \<Rightarrow> (False, out)
            | cu2 # rest \<Rightarrow>
                if cu2 < 0xDC00 \<or> cu2 > 0xDFFF then (False, out)
                else let high = ucast (cu - 0xD800) :: char32;
                         low = ucast (cu2 - 0xDC00) :: char32;
                         cp = push_bit 10 high + low + 0x10000
                     in utf16_to_utf32_loop rest (out @ [cp]))
      else if cu \<ge> 0xDC00 \<and> cu \<le> 0xDFFF then (False, out)
      else utf16_to_utf32_loop u16 (out @ [ucast cu]))"

definition utf16_to_utf32_impl :: "char16 list \<Rightarrow> bool \<times> char32 list" where
  "utf16_to_utf32_impl u16 = utf16_to_utf32_loop u16 []"

fun utf32_to_utf16_loop :: "char32 list \<Rightarrow> char16 list \<Rightarrow> bool \<times> char16 list" where
  "utf32_to_utf16_loop [] out = (True, out)"
| "utf32_to_utf16_loop (v # u32) out =
     (if v \<le> 0xFFFF
      then (if v \<ge> 0xD800 \<and> v \<le> 0xDFFF then (False, out)
            else utf32_to_utf16_loop u32 (out @ [ucast v]))
      else if v \<le> 0x10FFFF
      then let v = v - 0x10000;
               high = ucast (0xD800 + (drop_bit 10 v AND 0x3FF));
               low = ucast (0xDC00 + (v AND 0x3FF))
           in utf32_to_utf16_loop u32 (out @ [high, low])
      else (False, out))"

definition utf32_to_utf16_impl :: "char32 list \<Rightarrow> bool \<times> char16 list" where
  "utf32_to_utf16_impl u32 = utf32_to_utf16_loop u32 []"

section \<open>The Windows API\<close>

text \<open>\<open>MultiByteToWideChar\<close> and \<open>WideCharToMultiByte\<close> take the code page, the input, its size and
  the size of the buffer, 0 for a call that only asks for the size; they return the number of units
  and what they wrote.\<close>

record win_api =
  multi_to_wide :: "int \<Rightarrow> u8string \<Rightarrow> int \<Rightarrow> int \<Rightarrow> int \<times> char16 list"
  wide_to_multi :: "int \<Rightarrow> char16 list \<Rightarrow> int \<Rightarrow> int \<Rightarrow> int \<times> u8string"

text \<open>\<open>static_cast<int>(in.size())\<close>, and a buffer of \<open>n\<close> units after a call wrote to it.\<close>

definition int_of_size :: "nat \<Rightarrow> int" where
  "int_of_size n = (int n + 2 ^ 31) mod 2 ^ 32 - 2 ^ 31"

definition filled :: "nat \<Rightarrow> 'a :: zero list \<Rightarrow> 'a list" where
  "filled n written = take n (written @ replicate n 0)"

definition wide_from_multi :: "win_api \<Rightarrow> u8string \<Rightarrow> int \<Rightarrow> bool \<times> char16 list" where
  "wide_from_multi w inp codepage =
     (if inp = [] then (True, [])
      else let needed = fst (multi_to_wide w codepage inp (int_of_size (length inp)) 0)
      in if needed \<le> 0 then (False, [])
         else let (written, wtmp) = multi_to_wide w codepage inp (int_of_size (length inp)) needed
         in if written \<noteq> needed then (False, []) else (True, filled (nat needed) wtmp))"

definition multi_from_wide :: "win_api \<Rightarrow> char16 list \<Rightarrow> int \<Rightarrow> bool \<times> u8string" where
  "multi_from_wide w inp codepage =
     (if inp = [] then (True, [])
      else let needed = fst (wide_to_multi w codepage inp (int_of_size (length inp)) 0)
      in if needed \<le> 0 then (False, [])
         else let (written, buf) = wide_to_multi w codepage inp (int_of_size (length inp)) needed
         in (written = needed, filled (nat needed) buf))"

section \<open>The standard library\<close>

text \<open>\<open>std::wstring_convert\<close> with \<open>codecvt_utf8\<close> and \<open>codecvt_utf8_utf16\<close>, as libstdc++ has
  them; \<open>None\<close> is the \<open>range_error\<close> that it throws when the facet answers \<open>error\<close>, for a sequence that
  no further input can complete. For a sequence that the end of the input cuts off the facet answers
  \<open>partial\<close>, and \<open>wstring_convert\<close> returns what was converted before it. The sequences that are cut
  off are the proper beginnings of the well-formed byte sequences of the Unicode standard.\<close>

fun incomplete :: "u8string \<Rightarrow> bool" where
  "incomplete [a] \<longleftrightarrow> 0xC2 \<le> a \<and> a \<le> 0xF4"
| "incomplete [a, b] \<longleftrightarrow> 0xE0 \<le> a \<and> a \<le> 0xF4 \<and>
     (if a = 0xE0 then 0xA0 else if a = 0xF0 then 0x90 else 0x80) \<le> b \<and>
     b \<le> (if a = 0xED then 0x9F else if a = 0xF4 then 0x8F else 0xBF)"
| "incomplete [a, b, c] \<longleftrightarrow> 0xF0 \<le> a \<and> incomplete [a, b] \<and> 0x80 \<le> c \<and> c \<le> 0xBF"
| "incomplete _ \<longleftrightarrow> False"

function from_bytes_loop :: "u8string \<Rightarrow> char32 list option" where
  "from_bytes_loop s =
     (case next_code_point s 0 of
        None \<Rightarrow> Some []
      | Some (cp, j) \<Rightarrow>
          if take j s = append_utf8 cp [] then map_option (\<lambda>r. cp # r) (from_bytes_loop (drop j s))
          else if incomplete s then Some [] else None)"
  by pat_completeness auto
termination
  by (relation "measure length") (auto dest!: next_code_point_progress)

declare from_bytes_loop.simps [simp del]

definition u16_from_bytes :: "u8string \<Rightarrow> char16 list option" where
  "u16_from_bytes s = map_option (\<lambda>cps. concat (map (\<lambda>cp. push_utf16 cp []) cps)) (from_bytes_loop s)"

definition u32_from_bytes :: "u8string \<Rightarrow> char32 list option" where
  "u32_from_bytes s = from_bytes_loop s"

text \<open>In the other direction a high surrogate at the end of the input is cut off from its pair; every
  other unpaired surrogate is an error, and so are code points that are no scalar values.\<close>

definition ends_high :: "char16 list \<Rightarrow> bool" where
  "ends_high u16 \<longleftrightarrow> u16 \<noteq> [] \<and> 0xD800 \<le> last u16 \<and> last u16 \<le> 0xDBFF"

definition u16_to_bytes :: "char16 list \<Rightarrow> u8string option" where
  "u16_to_bytes u16 =
     (let u = (if ends_high u16 then butlast u16 else u16); s = u8_of_u16string u
      in if to_u16string s = u then Some s else None)"

definition u32_to_bytes :: "char32 list \<Rightarrow> u8string option" where
  "u32_to_bytes u32 = (if list_all scalar u32 then Some (utf8 u32) else None)"

definition u16_from_utf8_codecvt :: "u8string \<Rightarrow> char16 list \<Rightarrow> bool \<times> char16 list" where
  "u16_from_utf8_codecvt inp out =
     (case u16_from_bytes inp of Some r \<Rightarrow> (True, r) | None \<Rightarrow> (False, out))"

definition utf8_from_u16_codecvt :: "char16 list \<Rightarrow> u8string \<Rightarrow> bool \<times> u8string" where
  "utf8_from_u16_codecvt inp out =
     (case u16_to_bytes inp of Some r \<Rightarrow> (True, r) | None \<Rightarrow> (False, out))"

definition u32_from_utf8_codecvt :: "u8string \<Rightarrow> char32 list \<Rightarrow> bool \<times> char32 list" where
  "u32_from_utf8_codecvt inp out =
     (case u32_from_bytes inp of Some r \<Rightarrow> (True, r) | None \<Rightarrow> (False, out))"

definition utf8_from_u32_codecvt :: "char32 list \<Rightarrow> u8string \<Rightarrow> bool \<times> u8string" where
  "utf8_from_u32_codecvt inp out =
     (case u32_to_bytes inp of Some r \<Rightarrow> (True, r) | None \<Rightarrow> (False, out))"

section \<open>iconv\<close>

text \<open>\<open>iconv_open(to, from)\<close>, \<open>None\<close> for its error, and one call of \<open>iconv\<close>: from the state of the
  descriptor, the rest of the input and the room in the buffer to the new state, the new rest, what
  was written, and whether the call did not fail.\<close>

record 'cd iconv_api =
  iconv_open :: "string \<Rightarrow> string \<Rightarrow> 'cd option"
  iconv_call :: "'cd \<Rightarrow> u8string \<Rightarrow> nat \<Rightarrow> 'cd \<times> u8string \<times> u8string \<times> bool"

partial_function (option) iconv_loop ::
    "'cd iconv_api \<Rightarrow> 'cd \<Rightarrow> u8string \<Rightarrow> nat \<Rightarrow> u8string \<Rightarrow> (bool \<times> u8string) option" where
  "iconv_loop api cd inbuf outbytesleft buf =
     (if inbuf = [] then Some (True, buf)
      else case iconv_call api cd inbuf outbytesleft of (cd', rest, written, ok) \<Rightarrow>
        if \<not> ok then Some (False, [])
        else iconv_loop api cd' rest (outbytesleft - length written) (buf @ written))"

definition iconv_convert ::
    "'cd iconv_api \<Rightarrow> string \<Rightarrow> string \<Rightarrow> u8string \<Rightarrow> (bool \<times> u8string) option" where
  "iconv_convert api from_charset to_charset inp =
     (case iconv_open api to_charset from_charset of
        None \<Rightarrow> Some (False, [])
      | Some cd \<Rightarrow> iconv_loop api cd inp (length inp * 6 + 32) [])"

text \<open>\<open>a || b\<close> over conversions: the pairs of names are tried in order.\<close>

fun iconv_first :: "'cd iconv_api \<Rightarrow> (string \<times> string) list \<Rightarrow> u8string \<Rightarrow> (bool \<times> u8string) option" where
  "iconv_first api [] inp = Some (False, [])"
| "iconv_first api ((from_charset, to_charset) # names) inp =
     Option.bind (iconv_convert api from_charset to_charset inp)
       (\<lambda>(ok, out). if ok then Some (True, out) else iconv_first api names inp)"

section \<open>The builds\<close>

datatype 'cd platform = Windows win_api | Posix "'cd iconv_api option"

definition utf8_to_utf16 :: "'cd platform \<Rightarrow> u8string \<Rightarrow> char16 list \<Rightarrow> bool \<times> char16 list" where
  "utf8_to_utf16 p s out =
     (case p of Windows w \<Rightarrow> wide_from_multi w s 65001 | Posix _ \<Rightarrow> u16_from_utf8_codecvt s out)"

definition utf16_to_utf8 :: "'cd platform \<Rightarrow> char16 list \<Rightarrow> u8string \<Rightarrow> bool \<times> u8string" where
  "utf16_to_utf8 p u16 out =
     (case p of Windows w \<Rightarrow> multi_from_wide w u16 65001 | Posix _ \<Rightarrow> utf8_from_u16_codecvt u16 out)"

definition utf16_to_utf32 :: "char16 list \<Rightarrow> char32 list \<Rightarrow> bool \<times> char32 list" where
  "utf16_to_utf32 u16 out = utf16_to_utf32_impl u16"

definition utf32_to_utf16 :: "char32 list \<Rightarrow> char16 list \<Rightarrow> bool \<times> char16 list" where
  "utf32_to_utf16 u32 out = utf32_to_utf16_impl u32"

definition utf8_to_utf32 :: "'cd platform \<Rightarrow> u8string \<Rightarrow> char32 list \<Rightarrow> bool \<times> char32 list" where
  "utf8_to_utf32 p s out =
     (case p of
        Windows w \<Rightarrow>
          (case utf8_to_utf16 p s [] of (ok, u16) \<Rightarrow> if ok then utf16_to_utf32 u16 out else (False, out))
      | Posix _ \<Rightarrow> u32_from_utf8_codecvt s out)"

definition utf32_to_utf8 :: "'cd platform \<Rightarrow> char32 list \<Rightarrow> u8string \<Rightarrow> bool \<times> u8string" where
  "utf32_to_utf8 p u32 out =
     (case p of
        Windows w \<Rightarrow>
          (case utf32_to_utf16 u32 [] of (ok, u16) \<Rightarrow> if ok then utf16_to_utf8 p u16 out else (False, out))
      | Posix _ \<Rightarrow> utf8_from_u32_codecvt u32 out)"

section \<open>The Korean character sets\<close>

text \<open>The functions of the four character sets have the same body, up to the Windows code page and
  the names that iconv is asked for.\<close>

datatype charset = CP949 | ISO2022KR | JOHAB | MacKorean

fun code_page :: "charset \<Rightarrow> int" where
  "code_page CP949 = 949"
| "code_page ISO2022KR = 50225"
| "code_page JOHAB = 1361"
| "code_page MacKorean = 10003"

fun iconv_names :: "charset \<Rightarrow> string list" where
  "iconv_names CP949 = [''CP949'', ''EUC-KR'']"
| "iconv_names ISO2022KR = [''ISO-2022-KR'']"
| "iconv_names JOHAB = [''JOHAB'']"
| "iconv_names MacKorean = [''MacKorean'', ''MAC-KOREAN'']"

text \<open>\<open>if (!f(in, tmp)) return false; return g(tmp, out);\<close>\<close>

definition chained ::
    "(bool \<times> 'a) option \<Rightarrow> 'b \<Rightarrow> ('a \<Rightarrow> (bool \<times> 'b) option) \<Rightarrow> (bool \<times> 'b) option" where
  "chained r out g = Option.bind r (\<lambda>(ok, x). if ok then g x else Some (False, out))"

definition utf8_to_charset :: "charset \<Rightarrow> 'cd platform \<Rightarrow> u8string \<Rightarrow> u8string \<Rightarrow> (bool \<times> u8string) option" where
  "utf8_to_charset cs p s out =
     (case p of
        Windows w \<Rightarrow> chained (Some (utf8_to_utf16 p s [])) out (\<lambda>u16. Some (multi_from_wide w u16 (code_page cs)))
      | Posix (Some api) \<Rightarrow> iconv_first api (map (\<lambda>n. (''UTF-8'', n)) (iconv_names cs)) s
      | Posix None \<Rightarrow> Some (False, out))"

definition charset_to_utf8 :: "charset \<Rightarrow> 'cd platform \<Rightarrow> u8string \<Rightarrow> u8string \<Rightarrow> (bool \<times> u8string) option" where
  "charset_to_utf8 cs p s out =
     (case p of
        Windows w \<Rightarrow> chained (Some (wide_from_multi w s (code_page cs))) out (\<lambda>u16. Some (utf16_to_utf8 p u16 out))
      | Posix (Some api) \<Rightarrow> iconv_first api (map (\<lambda>n. (n, ''UTF-8'')) (iconv_names cs)) s
      | Posix None \<Rightarrow> Some (False, out))"

definition utf16_to_charset :: "charset \<Rightarrow> 'cd platform \<Rightarrow> char16 list \<Rightarrow> u8string \<Rightarrow> (bool \<times> u8string) option" where
  "utf16_to_charset cs p u16 out =
     (case p of
        Windows w \<Rightarrow> Some (multi_from_wide w u16 (code_page cs))
      | Posix (Some api) \<Rightarrow> chained (Some (utf16_to_utf8 p u16 [])) out (\<lambda>s. utf8_to_charset cs p s out)
      | Posix None \<Rightarrow> Some (False, out))"

definition charset_to_utf16 :: "charset \<Rightarrow> 'cd platform \<Rightarrow> u8string \<Rightarrow> char16 list \<Rightarrow> (bool \<times> char16 list) option" where
  "charset_to_utf16 cs p s out =
     (case p of
        Windows w \<Rightarrow> Some (wide_from_multi w s (code_page cs))
      | Posix (Some api) \<Rightarrow> chained (charset_to_utf8 cs p s []) out (\<lambda>u8. Some (utf8_to_utf16 p u8 out))
      | Posix None \<Rightarrow> Some (False, out))"

definition utf8_to_cp949 :: "'cd platform \<Rightarrow> u8string \<Rightarrow> u8string \<Rightarrow> (bool \<times> u8string) option" where
  "utf8_to_cp949 = utf8_to_charset CP949"

definition cp949_to_utf8 :: "'cd platform \<Rightarrow> u8string \<Rightarrow> u8string \<Rightarrow> (bool \<times> u8string) option" where
  "cp949_to_utf8 = charset_to_utf8 CP949"

definition utf16_to_cp949 :: "'cd platform \<Rightarrow> char16 list \<Rightarrow> u8string \<Rightarrow> (bool \<times> u8string) option" where
  "utf16_to_cp949 = utf16_to_charset CP949"

definition cp949_to_utf16 :: "'cd platform \<Rightarrow> u8string \<Rightarrow> char16 list \<Rightarrow> (bool \<times> char16 list) option" where
  "cp949_to_utf16 = charset_to_utf16 CP949"

definition utf8_to_iso2022kr :: "'cd platform \<Rightarrow> u8string \<Rightarrow> u8string \<Rightarrow> (bool \<times> u8string) option" where
  "utf8_to_iso2022kr = utf8_to_charset ISO2022KR"

definition iso2022kr_to_utf8 :: "'cd platform \<Rightarrow> u8string \<Rightarrow> u8string \<Rightarrow> (bool \<times> u8string) option" where
  "iso2022kr_to_utf8 = charset_to_utf8 ISO2022KR"

definition utf16_to_iso2022kr :: "'cd platform \<Rightarrow> char16 list \<Rightarrow> u8string \<Rightarrow> (bool \<times> u8string) option" where
  "utf16_to_iso2022kr = utf16_to_charset ISO2022KR"

definition iso2022kr_to_utf16 :: "'cd platform \<Rightarrow> u8string \<Rightarrow> char16 list \<Rightarrow> (bool \<times> char16 list) option" where
  "iso2022kr_to_utf16 = charset_to_utf16 ISO2022KR"

definition utf8_to_johab :: "'cd platform \<Rightarrow> u8string \<Rightarrow> u8string \<Rightarrow> (bool \<times> u8string) option" where
  "utf8_to_johab = utf8_to_charset JOHAB"

definition johab_to_utf8 :: "'cd platform \<Rightarrow> u8string \<Rightarrow> u8string \<Rightarrow> (bool \<times> u8string) option" where
  "johab_to_utf8 = charset_to_utf8 JOHAB"

definition utf16_to_johab :: "'cd platform \<Rightarrow> char16 list \<Rightarrow> u8string \<Rightarrow> (bool \<times> u8string) option" where
  "utf16_to_johab = utf16_to_charset JOHAB"

definition johab_to_utf16 :: "'cd platform \<Rightarrow> u8string \<Rightarrow> char16 list \<Rightarrow> (bool \<times> char16 list) option" where
  "johab_to_utf16 = charset_to_utf16 JOHAB"

definition utf8_to_mackorean :: "'cd platform \<Rightarrow> u8string \<Rightarrow> u8string \<Rightarrow> (bool \<times> u8string) option" where
  "utf8_to_mackorean = utf8_to_charset MacKorean"

definition mackorean_to_utf8 :: "'cd platform \<Rightarrow> u8string \<Rightarrow> u8string \<Rightarrow> (bool \<times> u8string) option" where
  "mackorean_to_utf8 = charset_to_utf8 MacKorean"

definition utf16_to_mackorean :: "'cd platform \<Rightarrow> char16 list \<Rightarrow> u8string \<Rightarrow> (bool \<times> u8string) option" where
  "utf16_to_mackorean = utf16_to_charset MacKorean"

definition mackorean_to_utf16 :: "'cd platform \<Rightarrow> u8string \<Rightarrow> char16 list \<Rightarrow> (bool \<times> char16 list) option" where
  "mackorean_to_utf16 = charset_to_utf16 MacKorean"

section \<open>The functions that throw\<close>

text \<open>\<open>throw_conv_err\<close> throws a \<open>runtime_error\<close> with the message, the left side of the sum.\<close>

definition or_throw :: "string \<Rightarrow> bool \<times> 'a \<Rightarrow> string + 'a" where
  "or_throw what r = (case r of (ok, out) \<Rightarrow> if ok then Inr out else Inl what)"

definition utf8_to_utf16_or_throw :: "'cd platform \<Rightarrow> u8string \<Rightarrow> string + char16 list" where
  "utf8_to_utf16_or_throw p s = or_throw ''utf8_to_utf16 failed'' (utf8_to_utf16 p s [])"

definition utf16_to_utf8_or_throw :: "'cd platform \<Rightarrow> char16 list \<Rightarrow> string + u8string" where
  "utf16_to_utf8_or_throw p s = or_throw ''utf16_to_utf8 failed'' (utf16_to_utf8 p s [])"

definition utf8_to_utf32_or_throw :: "'cd platform \<Rightarrow> u8string \<Rightarrow> string + char32 list" where
  "utf8_to_utf32_or_throw p s = or_throw ''utf8_to_utf32 failed'' (utf8_to_utf32 p s [])"

definition utf32_to_utf8_or_throw :: "'cd platform \<Rightarrow> char32 list \<Rightarrow> string + u8string" where
  "utf32_to_utf8_or_throw p s = or_throw ''utf32_to_utf8 failed'' (utf32_to_utf8 p s [])"

definition utf16_to_utf32_or_throw :: "char16 list \<Rightarrow> string + char32 list" where
  "utf16_to_utf32_or_throw s = or_throw ''utf16_to_utf32 failed'' (utf16_to_utf32 s [])"

definition utf32_to_utf16_or_throw :: "char32 list \<Rightarrow> string + char16 list" where
  "utf32_to_utf16_or_throw s = or_throw ''utf32_to_utf16 failed'' (utf32_to_utf16 s [])"

definition utf8_to_cp949_or_throw :: "'cd platform \<Rightarrow> u8string \<Rightarrow> (string + u8string) option" where
  "utf8_to_cp949_or_throw p s = map_option (or_throw ''utf8_to_cp949 failed'') (utf8_to_cp949 p s [])"

definition cp949_to_utf8_or_throw :: "'cd platform \<Rightarrow> u8string \<Rightarrow> (string + u8string) option" where
  "cp949_to_utf8_or_throw p s = map_option (or_throw ''cp949_to_utf8 failed'') (cp949_to_utf8 p s [])"

definition utf16_to_cp949_or_throw :: "'cd platform \<Rightarrow> char16 list \<Rightarrow> (string + u8string) option" where
  "utf16_to_cp949_or_throw p s = map_option (or_throw ''utf16_to_cp949 failed'') (utf16_to_cp949 p s [])"

definition cp949_to_utf16_or_throw :: "'cd platform \<Rightarrow> u8string \<Rightarrow> (string + char16 list) option" where
  "cp949_to_utf16_or_throw p s = map_option (or_throw ''cp949_to_utf16 failed'') (cp949_to_utf16 p s [])"

definition utf8_to_iso2022kr_or_throw :: "'cd platform \<Rightarrow> u8string \<Rightarrow> (string + u8string) option" where
  "utf8_to_iso2022kr_or_throw p s = map_option (or_throw ''utf8_to_iso2022kr failed'') (utf8_to_iso2022kr p s [])"

definition iso2022kr_to_utf8_or_throw :: "'cd platform \<Rightarrow> u8string \<Rightarrow> (string + u8string) option" where
  "iso2022kr_to_utf8_or_throw p s = map_option (or_throw ''iso2022kr_to_utf8 failed'') (iso2022kr_to_utf8 p s [])"

definition utf16_to_iso2022kr_or_throw :: "'cd platform \<Rightarrow> char16 list \<Rightarrow> (string + u8string) option" where
  "utf16_to_iso2022kr_or_throw p s = map_option (or_throw ''utf16_to_iso2022kr failed'') (utf16_to_iso2022kr p s [])"

definition iso2022kr_to_utf16_or_throw :: "'cd platform \<Rightarrow> u8string \<Rightarrow> (string + char16 list) option" where
  "iso2022kr_to_utf16_or_throw p s = map_option (or_throw ''iso2022kr_to_utf16 failed'') (iso2022kr_to_utf16 p s [])"

definition utf8_to_johab_or_throw :: "'cd platform \<Rightarrow> u8string \<Rightarrow> (string + u8string) option" where
  "utf8_to_johab_or_throw p s = map_option (or_throw ''utf8_to_johab failed'') (utf8_to_johab p s [])"

definition johab_to_utf8_or_throw :: "'cd platform \<Rightarrow> u8string \<Rightarrow> (string + u8string) option" where
  "johab_to_utf8_or_throw p s = map_option (or_throw ''johab_to_utf8 failed'') (johab_to_utf8 p s [])"

definition utf16_to_johab_or_throw :: "'cd platform \<Rightarrow> char16 list \<Rightarrow> (string + u8string) option" where
  "utf16_to_johab_or_throw p s = map_option (or_throw ''utf16_to_johab failed'') (utf16_to_johab p s [])"

definition johab_to_utf16_or_throw :: "'cd platform \<Rightarrow> u8string \<Rightarrow> (string + char16 list) option" where
  "johab_to_utf16_or_throw p s = map_option (or_throw ''johab_to_utf16 failed'') (johab_to_utf16 p s [])"

definition utf8_to_mackorean_or_throw :: "'cd platform \<Rightarrow> u8string \<Rightarrow> (string + u8string) option" where
  "utf8_to_mackorean_or_throw p s = map_option (or_throw ''utf8_to_mackorean failed'') (utf8_to_mackorean p s [])"

definition mackorean_to_utf8_or_throw :: "'cd platform \<Rightarrow> u8string \<Rightarrow> (string + u8string) option" where
  "mackorean_to_utf8_or_throw p s = map_option (or_throw ''mackorean_to_utf8 failed'') (mackorean_to_utf8 p s [])"

definition utf16_to_mackorean_or_throw :: "'cd platform \<Rightarrow> char16 list \<Rightarrow> (string + u8string) option" where
  "utf16_to_mackorean_or_throw p s = map_option (or_throw ''utf16_to_mackorean failed'') (utf16_to_mackorean p s [])"

definition mackorean_to_utf16_or_throw :: "'cd platform \<Rightarrow> u8string \<Rightarrow> (string + char16 list) option" where
  "mackorean_to_utf16_or_throw p s = map_option (or_throw ''mackorean_to_utf16 failed'') (mackorean_to_utf16 p s [])"

section \<open>UTF-16 and UTF-32 are inverse\<close>

abbreviation units :: "char32 list \<Rightarrow> char16 list" where
  "units cps \<equiv> concat (map (\<lambda>cp. push_utf16 cp []) cps)"

lemma utf32_to_utf16_step:
  "scalar v \<Longrightarrow> utf32_to_utf16_loop (v # u32) out = utf32_to_utf16_loop u32 (out @ push_utf16 v [])"
  "\<not> scalar v \<Longrightarrow> utf32_to_utf16_loop (v # u32) out = (False, out)"
  by (auto simp: push_utf16_def scalar_def Let_def and_masks or_surrogate word_to_nat)

lemma utf32_to_utf16_loop_spec:
  "utf32_to_utf16_loop u32 out = (True, r) \<longleftrightarrow> list_all scalar u32 \<and> r = out @ units u32"
proof (induction u32 arbitrary: out)
  case (Cons v u32)
  then show ?case by (cases "scalar v") (auto simp del: utf32_to_utf16_loop.simps simp: utf32_to_utf16_step)
qed auto

lemma utf32_to_utf16_spec:
  "utf32_to_utf16_impl u32 = (True, u16) \<longleftrightarrow> list_all scalar u32 \<and> u16 = units u32"
  by (simp add: utf32_to_utf16_impl_def utf32_to_utf16_loop_spec)

lemma unat_ucast32: "unat (ucast x :: char32) = unat x" for x :: char16
  using unsigned_less [of x, where 'a = nat] by (simp add: unsigned_ucast_eq take_bit_eq_mod)

lemma unat_push_bit_10: "unat x < 1024 \<Longrightarrow> unat (push_bit 10 x) = unat x * 1024" for x :: char32
  by (subst unsigned_push_bit_eq) (simp add: push_bit_eq_mult take_bit_eq_mod)

lemma pair_value:
  fixes hi lo :: char16
  assumes "0xD800 \<le> hi" "hi \<le> 0xDBFF" "0xDC00 \<le> lo" "lo \<le> 0xDFFF"
  defines "v \<equiv> push_bit 10 (ucast (hi - 0xD800)) + ucast (lo - 0xDC00) :: char32"
  shows "unat v = (unat hi - 0xD800) * 1024 + (unat lo - 0xDC00)" "unat v < 0x100000"
proof -
  have hi: "unat (hi - 0xD800) = unat hi - 0xD800" "unat hi - 0xD800 < 1024"
    using assms(1,2) by (auto simp: unat_sub word_to_nat)
  have lo: "unat (lo - 0xDC00) = unat lo - 0xDC00" "unat lo - 0xDC00 < 1024"
    using assms(3,4) by (auto simp: unat_sub word_to_nat)
  have h: "unat (push_bit 10 (ucast (hi - 0xD800) :: char32)) = (unat hi - 0xD800) * 1024"
    using hi(2) by (subst unat_push_bit_10) (simp_all only: unat_ucast32 hi(1))
  have l: "unat (ucast (lo - 0xDC00) :: char32) = unat lo - 0xDC00"
    by (simp only: unat_ucast32 lo(1))
  show *: "unat v = (unat hi - 0xD800) * 1024 + (unat lo - 0xDC00)"
    unfolding v_def unat_word_ariths h l using hi(2) lo(2) by simp
  show "unat v < 0x100000" unfolding * using hi(2) lo(2) by linarith
qed

lemma pair_read:
  fixes hi lo :: char16
  assumes "0xD800 \<le> hi" "hi \<le> 0xDBFF" "0xDC00 \<le> lo" "lo \<le> 0xDFFF"
  defines "cp \<equiv> push_bit 10 (ucast (hi - 0xD800)) + ucast (lo - 0xDC00) + 0x10000 :: char32"
  shows "scalar cp" "push_utf16 cp [] = [hi, lo]"
proof -
  define v where "v = (push_bit 10 (ucast (hi - 0xD800)) + ucast (lo - 0xDC00) :: char32)"
  note v = pair_value [OF assms(1-4), folded v_def]
  have cp: "unat cp = unat v + 0x10000" unfolding cp_def v_def [symmetric] unat_word_ariths
    using v(2) by simp
  then show "scalar cp" using v(2) by (auto simp: scalar_def word_to_nat)
  have "\<not> cp \<le> 0xFFFF" using cp by (simp add: word_to_nat)
  moreover have "cp - 0x10000 = v" by (simp add: cp_def v_def)
  ultimately have p: "push_utf16 cp [] = [ucast (0xD800 + take_bit 10 (drop_bit 10 v)), ucast (0xDC00 + take_bit 10 v)]"
    by (simp add: push_utf16_def Let_def and_masks or_surrogate)
  have ten: "(2 :: nat) ^ 10 = 1024" by simp
  have b: "unat hi - 0xD800 < 1024" "unat lo - 0xDC00 < 1024" "0xD800 \<le> unat hi" "0xDC00 \<le> unat lo"
    using assms(1-4) by (auto simp: word_to_nat)
  have "unat (take_bit 10 (drop_bit 10 v)) = unat hi - 0xD800"
    using b unfolding unat_take_bit_mod unat_drop_bit_div v(1) ten by simp
  moreover have "unat (take_bit 10 v) = unat lo - 0xDC00"
    unfolding unat_take_bit_mod v(1) ten using b(2) by (simp only: mod_mult_self3 mod_less)
  ultimately show "push_utf16 cp [] = [hi, lo]"
    using b unfolding p by (simp add: word_unat_eq_iff surrogate_unit)
qed

lemma single_read:
  fixes cu :: char16
  assumes "\<not> (0xD800 \<le> cu \<and> cu \<le> 0xDBFF)" "\<not> (0xDC00 \<le> cu \<and> cu \<le> 0xDFFF)"
  shows "scalar (ucast cu)" "push_utf16 (ucast cu) [] = [cu]"
proof -
  note u = unat_ucast32 [of cu]
  have c: "unat cu < 65536" using unsigned_less [of cu, where 'a = nat] by simp
  show "scalar (ucast cu)" using assms c by (auto simp: scalar_def word_to_nat u)
  have "ucast (ucast cu :: char32) = cu" using c by (simp add: word_unat_eq_iff unat_ucast16 u)
  then show "push_utf16 (ucast cu) [] = [cu]"
    using assms c by (auto simp: push_utf16_def Let_def word_to_nat u)
qed

lemma utf16_to_utf32_sound:
  "utf16_to_utf32_loop u16 out = (True, r) \<Longrightarrow> \<exists>u32. r = out @ u32 \<and> list_all scalar u32 \<and> units u32 = u16"
proof (induction u16 out rule: utf16_to_utf32_loop.induct)
  case (2 cu u16 out)
  show ?case
  proof (cases "0xD800 \<le> cu \<and> cu \<le> 0xDBFF")
    case True
    with "2.prems" obtain cu2 rest where u: "u16 = cu2 # rest" "0xDC00 \<le> cu2" "cu2 \<le> 0xDFFF"
      by (auto split: list.splits if_splits)
    define cp where "cp = (push_bit 10 (ucast (cu - 0xD800)) + ucast (cu2 - 0xDC00) + 0x10000 :: char32)"
    note p = pair_read [OF conjunct1 [OF True] conjunct2 [OF True] u(2,3), folded cp_def]
    have n: "\<not> (cu2 < 0xDC00 \<or> 0xDFFF < cu2)" using u(2,3) by auto
    have "utf16_to_utf32_loop rest (out @ [cp]) = (True, r)"
      using "2.prems" True n unfolding u(1) by (simp add: Let_def cp_def)
    then obtain u32 where "r = out @ cp # u32" "list_all scalar u32" "units u32 = rest"
      using "2.IH"(1) [OF True u(1) n refl refl cp_def] by auto
    then show ?thesis using p u(1) by (intro exI [of _ "cp # u32"]) simp
  next
    case False
    then have F: "\<not> (0xDC00 \<le> cu \<and> cu \<le> 0xDFFF)" "utf16_to_utf32_loop u16 (out @ [ucast cu]) = (True, r)"
      using "2.prems" by (auto split: if_splits)
    then obtain u32 where "r = out @ ucast cu # u32" "list_all scalar u32" "units u32 = u16"
      using "2.IH"(2) [OF False F] by auto
    then show ?thesis using single_read [OF False F(1)] by (intro exI [of _ "ucast cu # u32"]) simp
  qed
qed simp


lemma push_utf16_inject:
  assumes "scalar a" "scalar b" "push_utf16 a [] = push_utf16 b []"
  shows "a = b"
proof -
  have "append_utf8 a [] = append_utf8 b []"
    using u8_of_u16_loop_push [OF assms(1), of "[]" "[]"] u8_of_u16_loop_push [OF assms(2), of "[]" "[]"]
      assms(3) by simp
  then have "sanitize a = sanitize b"
    using next_code_point_append_utf8 [of a "[]"] next_code_point_append_utf8 [of b "[]"] by simp
  then show ?thesis using assms by simp
qed

lemma push_utf16_cases:
  assumes "scalar cp"
  obtains cu where "push_utf16 cp [] = [cu]"
      "\<not> (0xD800 \<le> cu \<and> cu \<le> 0xDBFF)" "\<not> (0xDC00 \<le> cu \<and> cu \<le> 0xDFFF)" "ucast cu = cp"
    | hi lo where "push_utf16 cp [] = [hi, lo]" "0xD800 \<le> hi" "hi \<le> 0xDBFF" "0xDC00 \<le> lo" "lo \<le> 0xDFFF"
      "push_bit 10 (ucast (hi - 0xD800)) + ucast (lo - 0xDC00) + 0x10000 = cp"
proof (cases "cp \<le> 0xFFFF")
  case True
  then have l: "unat cp < 65536" by (simp add: word_to_nat)
  then have u: "unat (ucast cp :: char16) = unat cp" unfolding unat_ucast16 by simp
  show thesis
  proof (rule that(1))
    show "push_utf16 cp [] = [ucast cp]" using True assms by (auto simp: push_utf16_def scalar_def word_to_nat)
    show "\<not> (0xD800 \<le> (ucast cp :: char16) \<and> (ucast cp :: char16) \<le> 0xDBFF)"
      "\<not> (0xDC00 \<le> (ucast cp :: char16) \<and> (ucast cp :: char16) \<le> 0xDFFF)"
      using assms by (auto simp: word_to_nat u scalar_def)
    show "ucast (ucast cp :: char16) = cp" using l by (rule ucast16_ucast)
  qed
next
  case False
  define v where "v = cp - 0x10000"
  define hi :: char16 where "hi = ucast (0xD800 + take_bit 10 (drop_bit 10 v))"
  define lo :: char16 where "lo = ucast (0xDC00 + take_bit 10 v)"
  have p: "push_utf16 cp [] = [hi, lo]"
    using False by (simp add: push_utf16_def Let_def and_masks or_surrogate v_def hi_def lo_def)
  have r: "0xD800 \<le> hi" "hi \<le> 0xDBFF" "0xDC00 \<le> lo" "lo \<le> 0xDFFF"
    using unat_take_bit_10 [of "drop_bit 10 v"] unat_take_bit_10 [of v]
    unfolding word_to_nat hi_def lo_def surrogate_unit by auto
  show thesis
    by (rule that(2) [OF p r], rule push_utf16_inject [OF pair_read(1) [OF r] assms])
      (simp only: p pair_read(2) [OF r])
qed

lemma utf16_to_utf32_push:
  assumes "scalar cp"
  shows "utf16_to_utf32_loop (push_utf16 cp [] @ ws) out = utf16_to_utf32_loop ws (out @ [cp])"
  using assms
proof (cases rule: push_utf16_cases)
  case (1 cu)
  then show ?thesis by auto
next
  case (2 hi lo)
  then have "\<not> (lo < 0xDC00 \<or> 0xDFFF < lo)" by auto
  then show ?thesis using 2 by (simp add: Let_def)
qed

lemma utf16_to_utf32_units:
  "list_all scalar u32 \<Longrightarrow> utf16_to_utf32_loop (units u32 @ ws) out = utf16_to_utf32_loop ws (out @ u32)"
  by (induction u32 arbitrary: out) (simp_all add: utf16_to_utf32_push)

lemma utf16_to_utf32_spec:
  "utf16_to_utf32_impl u16 = (True, u32) \<longleftrightarrow> list_all scalar u32 \<and> u16 = units u32"
  unfolding utf16_to_utf32_impl_def
proof
  assume "utf16_to_utf32_loop u16 [] = (True, u32)"
  then show "list_all scalar u32 \<and> u16 = units u32" by (auto dest: utf16_to_utf32_sound)
next
  assume "list_all scalar u32 \<and> u16 = units u32"
  then show "utf16_to_utf32_loop u16 [] = (True, u32)"
    using utf16_to_utf32_units [of u32 "[]" "[]"] by simp
qed

text \<open>C20: the two hand-written conversions are inverse partial functions: a UTF-16 string converts to
  some UTF-32 string exactly when that string converts back to it. Lone surrogates and values above
  0x10FFFF are refused by one side and never produced by the other.\<close>

theorem utf16_utf32_inverse:
  "(utf16_to_utf32_impl u16 = (True, u32)) = (utf32_to_utf16_impl u32 = (True, u16))"
  by (simp add: utf16_to_utf32_spec utf32_to_utf16_spec)

section \<open>The builds agree\<close>

lemma well_formed_utf8_iff: "well_formed s \<longleftrightarrow> (\<exists>cps. list_all scalar cps \<and> s = utf8 cps)"
  using well_formed_utf8 by (metis well_formedE)

lemma to_u16string_utf8: "list_all scalar cps \<Longrightarrow> to_u16string (utf8 cps) = units cps"
  by (simp add: to_u16string_scan to_u32string_utf8 map_sanitize_scalar)

lemma u8_of_u16string_loop: "u8_of_u16string u16 = u8_of_u16_loop u16 []"
  by (simp add: u8_of_u16string_def)

lemma u8_of_u16string_units: "list_all scalar cps \<Longrightarrow> u8_of_u16string (units cps) = utf8 cps"
  using u8_of_u16_loop_units [of cps "[]"] by (simp add: u8_of_u16string_loop)

lemma append_utf8_not_Nil [simp]: "append_utf8 cp [] \<noteq> []"
  using append_utf8_length [of cp] by auto

lemma push_utf16_not_Nil [simp]: "push_utf16 cp [] \<noteq> []"
  by (simp add: push_utf16_def Let_def)

subsection \<open>What the standard library converts\<close>

lemma not_ascii: "0x80 \<le> a \<Longrightarrow> a AND 0x80 \<noteq> 0" for a :: uint8
proof
  assume "0x80 \<le> a" "a AND 0x80 = 0"
  then have "take_bit 7 a = a" using masked_bytes(1) by simp
  then have "unat a < 2 ^ 7" by (metis unsigned_take_bit_eq take_bit_nat_less_exp)
  then show False using \<open>0x80 \<le> a\<close> by (simp add: word_to_nat)
qed

lemma lead_bound:
  "a AND 0xE0 = 0xC0 \<Longrightarrow> a < 0xE0" "a AND 0xF0 = 0xE0 \<Longrightarrow> a < 0xF0" for a :: uint8
proof -
  have d: "unat a div 2 ^ n = unat (drop_bit n a)" for n by (simp only: unat_drop_bit_div)
  show "a < 0xE0" if "a AND 0xE0 = 0xC0"
  proof -
    have "drop_bit 5 a = 6" by (subst masked_bytes(2) [OF that]) (simp add: drop_bit_take_bit)
    then show ?thesis using d [of 5] by (simp add: word_to_nat)
  qed
  show "a < 0xF0" if "a AND 0xF0 = 0xE0"
  proof -
    have "drop_bit 4 a = 14" by (subst masked_bytes(3) [OF that]) (simp add: drop_bit_take_bit)
    then show ?thesis using d [of 4] by (simp add: word_to_nat)
  qed
qed

lemma incomplete_next: "incomplete s \<Longrightarrow> next_code_point s 0 = Some (0xFFFD, 1)"
proof (induction s rule: incomplete.induct)
  case (1 a)
  then have "0x80 \<le> a" by (auto simp: word_to_nat)
  then show ?case by (simp add: next_code_point_def not_ascii)
next
  case (2 a b)
  then have "0x80 \<le> a" "\<not> a < 0xE0" by (auto simp: word_to_nat)
  then show ?case using lead_bound(1) [of a] by (auto simp: next_code_point_def not_ascii)
next
  case (3 a b c)
  then have "0x80 \<le> a" "\<not> a < 0xE0" "\<not> a < 0xF0" by (auto simp: word_to_nat)
  then show ?case using lead_bound [of a] by (auto simp: next_code_point_def not_ascii)
qed simp_all

lemma incomplete_loop:
  assumes "incomplete s"
  shows "from_bytes_loop s = Some []"
proof -
  have "length (take 1 s) \<noteq> length (append_utf8 0xFFFD [])" by (simp add: append_utf8_replacement)
  then have "take 1 s \<noteq> append_utf8 0xFFFD []" by metis
  then show ?thesis
    by (subst from_bytes_loop.simps) (simp only: incomplete_next [OF assms] option.case prod.case if_False if_True assms)
qed

lemma from_bytes_loop_append:
  "list_all scalar cps \<Longrightarrow> from_bytes_loop (utf8 cps @ t) = map_option ((@) cps) (from_bytes_loop t)"
proof (induction cps)
  case Nil
  then show ?case by (simp add: option.map_ident)
next
  case (Cons cp cps)
  have "from_bytes_loop (utf8 (cp # cps) @ t) = map_option (\<lambda>r. cp # r) (from_bytes_loop (utf8 cps @ t))"
    by (subst from_bytes_loop.simps) (use Cons.prems in \<open>simp add: next_code_point_append_utf8\<close>)
  then show ?case using Cons by (simp add: option.map_comp comp_def)
qed

lemma from_bytes_loop_Nil [simp]: "from_bytes_loop [] = Some []"
  by (subst from_bytes_loop.simps) (simp add: next_code_point_def)

lemma from_bytes_utf8: "list_all scalar cps \<Longrightarrow> from_bytes_loop (utf8 cps) = Some cps"
  using from_bytes_loop_append [of cps "[]"] by simp

lemma from_bytes_sound:
  "from_bytes_loop s = Some cps \<Longrightarrow> list_all scalar cps \<and> (s = utf8 cps \<or> (\<exists>t. incomplete t \<and> s = utf8 cps @ t))"
proof (induction s arbitrary: cps rule: from_bytes_loop.induct)
  case (1 s)
  show ?case
  proof (cases "next_code_point s 0")
    case None
    then have "s = []" by simp
    then show ?thesis using "1.prems" by simp
  next
    case (Some x)
    obtain cp j where x: "x = (cp, j)" by fastforce
    note n = Some [unfolded x]
    show ?thesis
    proof (cases "take j s = append_utf8 cp []")
      case True
      then obtain r where r: "from_bytes_loop (drop j s) = Some r" "cps = cp # r"
        using "1.prems" n by (subst (asm) from_bytes_loop.simps) auto
      have "s = append_utf8 cp [] @ drop j s" using True append_take_drop_id [of j s] by simp
      then show ?thesis
        using "1.IH" [OF Some x [symmetric] True r(1)] r(2) next_code_point_scalar [OF n]
        by (metis append.assoc list.pred_inject(2) utf8_simps(2))
    next
      case False
      then have "cps = [] \<and> incomplete s"
        using "1.prems" n by (subst (asm) from_bytes_loop.simps) (auto split: if_splits)
      then show ?thesis by simp
    qed
  qed
qed

text \<open>The inputs whose last sequence is cut off: well-formed before it.\<close>

definition truncated :: "u8string \<Rightarrow> bool" where
  "truncated s \<longleftrightarrow> (\<exists>cps t. list_all scalar cps \<and> incomplete t \<and> s = utf8 cps @ t)"

definition truncated_units :: "char16 list \<Rightarrow> bool" where
  "truncated_units u16 \<longleftrightarrow> (\<exists>cps hi. list_all scalar cps \<and> 0xD800 \<le> hi \<and> hi \<le> 0xDBFF \<and> u16 = units cps @ [hi])"

lemma truncated_not_well_formed: "truncated s \<Longrightarrow> \<not> well_formed s"
proof
  assume "truncated s" "well_formed s"
  then obtain cps t cs where s: "list_all scalar cps" "incomplete t" "s = utf8 cps @ t" "s = utf8 cs" "list_all scalar cs"
    by (auto simp: truncated_def well_formed_utf8_iff)
  then have "Some cps = Some cs"
    using from_bytes_loop_append [of cps t] from_bytes_utf8 [of cs] incomplete_loop [of t] by simp
  then have "t = []" using s by simp
  then show False using s(2) by simp
qed

lemma from_bytes_None: "from_bytes_loop s = None \<longleftrightarrow> \<not> well_formed s \<and> \<not> truncated s"
proof (cases "from_bytes_loop s")
  case None
  have "\<not> well_formed s" using None from_bytes_utf8 by (auto simp: well_formed_utf8_iff)
  moreover have "\<not> truncated s"
    using None from_bytes_loop_append incomplete_loop by (auto simp: truncated_def)
  ultimately show ?thesis using None by simp
next
  case (Some cps)
  then show ?thesis using from_bytes_sound [OF Some] by (auto simp: truncated_def well_formed_utf8_iff)
qed

lemma from_bytes [simp]:
  "list_all scalar cps \<Longrightarrow> u16_from_bytes (utf8 cps) = Some (units cps)"
  "list_all scalar cps \<Longrightarrow> u32_from_bytes (utf8 cps) = Some cps"
  by (simp_all add: u16_from_bytes_def u32_from_bytes_def from_bytes_utf8)

lemma ends_high_snoc [simp]: "ends_high (u @ [hi]) \<longleftrightarrow> 0xD800 \<le> hi \<and> hi \<le> 0xDBFF"
  by (simp add: ends_high_def)

lemma units_not_high: "list_all scalar cps \<Longrightarrow> \<not> ends_high (units cps)"
proof (cases cps rule: rev_cases)
  case (snoc cs cp)
  assume "list_all scalar cps"
  then have "scalar cp" using snoc by simp
  then show ?thesis
  proof (cases rule: push_utf16_cases)
    case (1 cu)
    then show ?thesis using snoc by (simp add: ends_high_def)
  next
    case (2 hi lo)
    then have "\<not> lo \<le> 0xDBFF" by (auto simp: word_to_nat)
    then show ?thesis using snoc 2 by (simp add: ends_high_def)
  qed
qed (simp add: ends_high_def)

definition well_formed_units :: "char16 list \<Rightarrow> bool" where
  "well_formed_units u16 \<longleftrightarrow> to_u16string (u8_of_u16string u16) = u16"

lemma well_formed_units_iff: "well_formed_units u16 \<longleftrightarrow> (\<exists>cps. list_all scalar cps \<and> u16 = units cps)"
proof
  assume "well_formed_units u16"
  then have "u16 = units (to_u32string (u8_of_u16string u16))"
    by (simp add: well_formed_units_def to_u16string_scan)
  then show "\<exists>cps. list_all scalar cps \<and> u16 = units cps" using to_u32string_scalar by blast
qed (auto simp: well_formed_units_def u8_of_u16string_units to_u16string_utf8)

lemma u16_to_bytes_units [simp]: "list_all scalar cps \<Longrightarrow> u16_to_bytes (units cps) = Some (utf8 cps)"
  by (simp add: u16_to_bytes_def units_not_high u8_of_u16string_units to_u16string_utf8)

lemma u16_to_bytes_truncated:
  "list_all scalar cps \<Longrightarrow> 0xD800 \<le> hi \<Longrightarrow> hi \<le> 0xDBFF \<Longrightarrow> u16_to_bytes (units cps @ [hi]) = Some (utf8 cps)"
  by (simp add: u16_to_bytes_def u8_of_u16string_units to_u16string_utf8)

lemma u16_to_bytes_None: "u16_to_bytes u16 = None \<longleftrightarrow> \<not> well_formed_units u16 \<and> \<not> truncated_units u16"
proof -
  have h: "ends_high u16 \<Longrightarrow> \<not> well_formed_units u16" using units_not_high by (auto simp: well_formed_units_iff)
  have t: "truncated_units u16 \<longleftrightarrow> ends_high u16 \<and> well_formed_units (butlast u16)"
  proof
    assume "truncated_units u16"
    then show "ends_high u16 \<and> well_formed_units (butlast u16)"
      unfolding truncated_units_def by (auto simp: well_formed_units_iff)
  next
    assume e: "ends_high u16 \<and> well_formed_units (butlast u16)"
    then have "u16 = butlast u16 @ [last u16]" by (simp add: ends_high_def)
    then show "truncated_units u16"
      using e unfolding truncated_units_def well_formed_units_iff ends_high_def by metis
  qed
  show ?thesis
    by (cases "ends_high u16") (simp_all add: t h u16_to_bytes_def Let_def well_formed_units_def [symmetric])
qed

lemma truncated_units_not_well_formed: "truncated_units u16 \<Longrightarrow> \<not> well_formed_units u16"
  using units_not_high by (fastforce simp: truncated_units_def well_formed_units_iff)

text \<open>What the documentation of the Windows API promises for the code page 65001 with the flags
  \<open>MB_ERR_INVALID_CHARS\<close> and \<open>WC_ERR_INVALID_CHARS\<close>: for the encodings of a list of scalar values
  whose lengths fit in \<open>int\<close>, the length of the other encoding, which is also written when the buffer
  has that length; 0 for a string that is no such encoding.\<close>

definition win_utf8_laws :: "win_api \<Rightarrow> bool" where
  "win_utf8_laws w \<longleftrightarrow>
     (\<forall>cps. list_all scalar cps \<and> cps \<noteq> [] \<and> length (utf8 cps) < 2 ^ 31 \<and> length (units cps) < 2 ^ 31 \<longrightarrow>
        fst (multi_to_wide w 65001 (utf8 cps) (int (length (utf8 cps))) 0) = int (length (units cps)) \<and>
        multi_to_wide w 65001 (utf8 cps) (int (length (utf8 cps))) (int (length (units cps))) =
          (int (length (units cps)), units cps) \<and>
        fst (wide_to_multi w 65001 (units cps) (int (length (units cps))) 0) = int (length (utf8 cps)) \<and>
        wide_to_multi w 65001 (units cps) (int (length (units cps))) (int (length (utf8 cps))) =
          (int (length (utf8 cps)), utf8 cps)) \<and>
     (\<forall>s. (\<nexists>cps. list_all scalar cps \<and> s = utf8 cps) \<longrightarrow>
        fst (multi_to_wide w 65001 s (int (length s)) 0) = 0) \<and>
     (\<forall>u. (\<nexists>cps. list_all scalar cps \<and> u = units cps) \<longrightarrow>
        fst (wide_to_multi w 65001 u (int (length u)) 0) = 0)"

lemma win_lawsD:
  assumes "win_utf8_laws w"
  shows "list_all scalar cps \<Longrightarrow> cps \<noteq> [] \<Longrightarrow> length (utf8 cps) < 2 ^ 31 \<Longrightarrow> length (units cps) < 2 ^ 31 \<Longrightarrow>
      fst (multi_to_wide w 65001 (utf8 cps) (int (length (utf8 cps))) 0) = int (length (units cps)) \<and>
      multi_to_wide w 65001 (utf8 cps) (int (length (utf8 cps))) (int (length (units cps))) =
        (int (length (units cps)), units cps) \<and>
      fst (wide_to_multi w 65001 (units cps) (int (length (units cps))) 0) = int (length (utf8 cps)) \<and>
      wide_to_multi w 65001 (units cps) (int (length (units cps))) (int (length (utf8 cps))) =
        (int (length (utf8 cps)), utf8 cps)"
    "\<not> well_formed s \<Longrightarrow> fst (multi_to_wide w 65001 s (int (length s)) 0) = 0"
    "\<not> well_formed_units u \<Longrightarrow> fst (wide_to_multi w 65001 u (int (length u)) 0) = 0"
  using assms unfolding win_utf8_laws_def well_formed_utf8_iff well_formed_units_iff by blast+

lemma int_of_size_small [simp]: "n < 2 ^ 31 \<Longrightarrow> int_of_size n = int n"
  by (simp add: int_of_size_def)

lemma filled_all [simp]: "filled (length u) u = u"
  by (simp add: filled_def)

lemma encoding_lengths:
  "length (units cps) \<le> length (utf8 cps)" "length (units cps) \<le> 2 * length cps"
  "length (utf8 cps) \<le> 4 * length cps" "length cps \<le> length (units cps)"
proof -
  have *: "length (push_utf16 c []) \<le> length (append_utf8 c [])" for c
  proof (cases "c \<le> 0xFFFF")
    case True
    then have "length (push_utf16 c []) = 1" by (simp add: push_utf16_def Let_def)
    then show ?thesis using append_utf8_length [of c] by linarith
  next
    case False
    then have "length (push_utf16 c []) = 2" "\<not> c \<le> 0x7F" "\<not> c \<le> 0x7FF"
      by (auto simp: push_utf16_def Let_def word_to_nat)
    then show ?thesis using False
      by (cases c rule: code_point_cases) (simp_all add: append_utf8_4 append_utf8_bad)
  qed
  have **: "length (push_utf16 c []) \<le> 2" "1 \<le> length (push_utf16 c [])" for c
    by (simp_all add: push_utf16_def Let_def)
  have "length (units cps) \<le> length (utf8 cps) \<and> length (units cps) \<le> 2 * length cps \<and>
    length (utf8 cps) \<le> 4 * length cps \<and> length cps \<le> length (units cps)"
  proof (induction cps)
    case (Cons c cps)
    then show ?case using * [of c] ** [of c] append_utf8_length_le [of c]
      by (simp del: One_nat_def length_greater_0_conv)
  qed simp
  then show "length (units cps) \<le> length (utf8 cps)" "length (units cps) \<le> 2 * length cps"
    "length (utf8 cps) \<le> 4 * length cps" "length cps \<le> length (units cps)" by simp_all
qed

lemma utf8_to_utf16_windows:
  assumes "win_utf8_laws w" "length s < 2 ^ 31"
  shows "utf8_to_utf16 (Windows w) s out = (if well_formed s then (True, to_u16string s) else (False, []))"
proof (cases "s = []")
  case True
  then show ?thesis using well_formed_utf8 [of "[]"]
    by (simp add: utf8_to_utf16_def wide_from_multi_def to_u16string_def)
next
  case False
  show ?thesis
  proof (cases "well_formed s")
    case True
    then obtain cps where s: "s = utf8 cps" "list_all scalar cps" by (auto simp: well_formed_utf8_iff)
    then have "cps \<noteq> []" "length (units cps) < 2 ^ 31"
      using False assms(2) encoding_lengths(1) [of cps] by auto
    moreover note win_lawsD(1) [OF assms(1) s(2) this(1) assms(2) [unfolded s(1)] this(2)]
    moreover have "units cps \<noteq> []" using \<open>cps \<noteq> []\<close> by (cases cps) auto
    ultimately show ?thesis using True False assms(2) s
      by (simp add: utf8_to_utf16_def wide_from_multi_def Let_def to_u16string_utf8)
  next
    case bad: False
    then show ?thesis using win_lawsD(2) [OF assms(1) bad] False assms(2)
      by (simp add: utf8_to_utf16_def wide_from_multi_def)
  qed
qed

lemma utf16_to_utf8_windows:
  assumes "win_utf8_laws w" "length u < 2 ^ 29"
  shows "utf16_to_utf8 (Windows w) u out = (if well_formed_units u then (True, u8_of_u16string u) else (False, []))"
proof (cases "u = []")
  case True
  then show ?thesis
    by (simp add: utf16_to_utf8_def multi_from_wide_def u8_of_u16string_def well_formed_units_def to_u16string_def)
next
  case False
  have l: "length u < 2 ^ 31" using assms(2) by simp
  show ?thesis
  proof (cases "well_formed_units u")
    case True
    then obtain cps where u: "u = units cps" "list_all scalar cps" by (auto simp: well_formed_units_iff)
    then have "cps \<noteq> []" "length (utf8 cps) < 2 ^ 31"
      using False assms(2) encoding_lengths(3,4) [of cps] by auto
    moreover note win_lawsD(1) [OF assms(1) u(2) this(1,2) l [unfolded u(1)]]
    moreover have "utf8 cps \<noteq> []" using \<open>cps \<noteq> []\<close> by (cases cps) auto
    ultimately show ?thesis using True False l u
      by (simp add: utf16_to_utf8_def multi_from_wide_def Let_def u8_of_u16string_units)
  next
    case bad: False
    then show ?thesis using win_lawsD(3) [OF assms(1) bad] False l
      by (simp add: utf16_to_utf8_def multi_from_wide_def)
  qed
qed

lemma utf8_to_utf32_windows:
  assumes "win_utf8_laws w" "length s < 2 ^ 31"
  shows "utf8_to_utf32 (Windows w) s out = (if well_formed s then (True, to_u32string s) else (False, out))"
proof (cases "well_formed s")
  case True
  then obtain cps where "s = utf8 cps" "list_all scalar cps" by (auto simp: well_formed_utf8_iff)
  then show ?thesis using assms True utf16_to_utf32_spec [of "units cps" cps]
    by (simp add: utf8_to_utf32_def utf8_to_utf16_windows utf16_to_utf32_def to_u16string_utf8
      to_u32string_utf8 map_sanitize_scalar)
next
  case False
  then show ?thesis using assms by (simp add: utf8_to_utf32_def utf8_to_utf16_windows)
qed

lemma utf32_to_utf8_windows:
  assumes "win_utf8_laws w" "length u32 < 2 ^ 28"
  shows "utf32_to_utf8 (Windows w) u32 out = (if list_all scalar u32 then (True, utf8 u32) else (False, out))"
proof (cases "list_all scalar u32")
  case True
  then have "utf32_to_utf16 u32 [] = (True, units u32)"
    using utf32_to_utf16_spec [of u32 "units u32"] by (simp add: utf32_to_utf16_def)
  moreover have "length (units u32) < 2 ^ 29" using encoding_lengths(2) [of u32] assms(2) by simp
  moreover have "well_formed_units (units u32)" using True by (auto simp: well_formed_units_iff)
  ultimately show ?thesis using True assms(1)
    by (simp add: utf32_to_utf8_def utf16_to_utf8_windows u8_of_u16string_units)
next
  case False
  have "\<not> fst (utf32_to_utf16_impl u32)"
    using False utf32_to_utf16_spec [of u32 "snd (utf32_to_utf16_impl u32)"] by (metis prod.collapse)
  then show ?thesis using False
    by (simp add: utf32_to_utf8_def utf32_to_utf16_def case_prod_unfold)
qed

text \<open>The other builds on the same inputs; a cut-off end is dropped without an error.\<close>

lemma posix_well_formed:
  "well_formed s \<Longrightarrow> utf8_to_utf16 (Posix i) s o16 = (True, to_u16string s)"
  "well_formed s \<Longrightarrow> utf8_to_utf32 (Posix i) s o32 = (True, to_u32string s)"
  "well_formed_units u16 \<Longrightarrow> utf16_to_utf8 (Posix i) u16 o8 = (True, u8_of_u16string u16)"
  by (auto simp: utf8_to_utf16_def utf8_to_utf32_def utf16_to_utf8_def u16_from_utf8_codecvt_def
    u32_from_utf8_codecvt_def utf8_from_u16_codecvt_def well_formed_utf8_iff well_formed_units_iff
    to_u16string_utf8 to_u32string_utf8 map_sanitize_scalar u8_of_u16string_units)

lemma posix_refuses:
  "\<not> well_formed s \<Longrightarrow> \<not> truncated s \<Longrightarrow> utf8_to_utf16 (Posix i) s o16 = (False, o16)"
  "\<not> well_formed s \<Longrightarrow> \<not> truncated s \<Longrightarrow> utf8_to_utf32 (Posix i) s o32 = (False, o32)"
  "\<not> well_formed_units u16 \<Longrightarrow> \<not> truncated_units u16 \<Longrightarrow> utf16_to_utf8 (Posix i) u16 o8 = (False, o8)"
proof -
  show "utf8_to_utf16 (Posix i) s o16 = (False, o16)" "utf8_to_utf32 (Posix i) s o32 = (False, o32)"
    if "\<not> well_formed s" "\<not> truncated s"
    using from_bytes_None [of s] that
    by (simp_all add: utf8_to_utf16_def utf8_to_utf32_def u16_from_utf8_codecvt_def u32_from_utf8_codecvt_def
      u16_from_bytes_def u32_from_bytes_def)
  show "utf16_to_utf8 (Posix i) u16 o8 = (False, o8)" if "\<not> well_formed_units u16" "\<not> truncated_units u16"
    using u16_to_bytes_None [of u16] that by (simp add: utf16_to_utf8_def utf8_from_u16_codecvt_def)
qed

lemma truncated_tail_dropped:
  "list_all scalar cps \<Longrightarrow> incomplete t \<Longrightarrow> utf8_to_utf16 (Posix i) (utf8 cps @ t) o16 = (True, units cps)"
  "list_all scalar cps \<Longrightarrow> incomplete t \<Longrightarrow> utf8_to_utf32 (Posix i) (utf8 cps @ t) o32 = (True, cps)"
  "list_all scalar cps \<Longrightarrow> 0xD800 \<le> hi \<Longrightarrow> hi \<le> 0xDBFF \<Longrightarrow>
     utf16_to_utf8 (Posix i) (units cps @ [hi]) o8 = (True, utf8 cps)"
  by (simp_all add: utf8_to_utf16_def utf8_to_utf32_def utf16_to_utf8_def u16_from_utf8_codecvt_def
    u32_from_utf8_codecvt_def utf8_from_u16_codecvt_def u16_from_bytes_def u32_from_bytes_def
    from_bytes_loop_append incomplete_loop u16_to_bytes_truncated)

text \<open>C21: with a Windows API that keeps its documentation, the Unicode conversions of the Windows
  build (through UTF-16 and the hand-written surrogate arithmetic) and of the other builds (the
  standard library) give the same results and throw the same errors on every input, except that on a
  string whose last sequence is cut off by its end the Windows build throws and the other builds
  return the conversion of what comes before. The strings must be short enough for the \<open>int\<close> sizes of
  that API.\<close>

theorem builds_agree:
  assumes "win_utf8_laws w" "length s < 2 ^ 31" "length u16 < 2 ^ 29" "length u32 < 2 ^ 28"
  shows "utf8_to_utf16_or_throw (Windows w) s =
      (if truncated s then Inl ''utf8_to_utf16 failed'' else utf8_to_utf16_or_throw (Posix i) s) \<and>
    utf16_to_utf8_or_throw (Windows w) u16 =
      (if truncated_units u16 then Inl ''utf16_to_utf8 failed'' else utf16_to_utf8_or_throw (Posix i) u16) \<and>
    utf8_to_utf32_or_throw (Windows w) s =
      (if truncated s then Inl ''utf8_to_utf32 failed'' else utf8_to_utf32_or_throw (Posix i) s) \<and>
    utf32_to_utf8_or_throw (Windows w) u32 = utf32_to_utf8_or_throw (Posix i) u32 \<and>
    (\<forall>cps t. list_all scalar cps \<and> incomplete t \<and> s = utf8 cps @ t \<longrightarrow>
       utf8_to_utf16_or_throw (Posix i) s = Inr (units cps) \<and> utf8_to_utf32_or_throw (Posix i) s = Inr cps) \<and>
    (\<forall>cps hi. list_all scalar cps \<and> 0xD800 \<le> hi \<and> hi \<le> 0xDBFF \<and> u16 = units cps @ [hi] \<longrightarrow>
       utf16_to_utf8_or_throw (Posix i) u16 = Inr (utf8 cps))"
proof (intro conjI allI impI)
  note w8 = truncated_not_well_formed [of s] and w16 = truncated_units_not_well_formed [of u16]
  show "utf8_to_utf16_or_throw (Windows w) s =
      (if truncated s then Inl ''utf8_to_utf16 failed'' else utf8_to_utf16_or_throw (Posix i) s)"
    using assms(1,2) w8 by (cases "well_formed s"; cases "truncated s")
      (simp_all add: utf8_to_utf16_or_throw_def utf8_to_utf16_windows or_throw_def posix_well_formed posix_refuses)
  show "utf16_to_utf8_or_throw (Windows w) u16 =
      (if truncated_units u16 then Inl ''utf16_to_utf8 failed'' else utf16_to_utf8_or_throw (Posix i) u16)"
    using assms(1,3) w16 by (cases "well_formed_units u16"; cases "truncated_units u16")
      (simp_all add: utf16_to_utf8_or_throw_def utf16_to_utf8_windows or_throw_def posix_well_formed posix_refuses)
  show "utf8_to_utf32_or_throw (Windows w) s =
      (if truncated s then Inl ''utf8_to_utf32 failed'' else utf8_to_utf32_or_throw (Posix i) s)"
    using assms(1,2) w8 by (cases "well_formed s"; cases "truncated s")
      (simp_all add: utf8_to_utf32_or_throw_def utf8_to_utf32_windows or_throw_def posix_well_formed posix_refuses)
  show "utf32_to_utf8_or_throw (Windows w) u32 = utf32_to_utf8_or_throw (Posix i) u32"
    using assms(1,4) by (simp add: utf32_to_utf8_or_throw_def utf32_to_utf8_windows or_throw_def
      utf32_to_utf8_def [of "Posix i"] utf8_from_u32_codecvt_def u32_to_bytes_def)
qed (auto simp: utf8_to_utf16_or_throw_def utf8_to_utf32_or_throw_def utf16_to_utf8_or_throw_def or_throw_def
  truncated_tail_dropped)

text \<open>An API that keeps the laws.\<close>

definition ideal_win :: win_api where
  "ideal_win = \<lparr>
     multi_to_wide = (\<lambda>_ s _ cap.
       if well_formed s then (int (length (to_u16string s)), if cap = 0 then [] else to_u16string s) else (0, [])),
     wide_to_multi = (\<lambda>_ u _ cap.
       if well_formed_units u then (int (length (u8_of_u16string u)), if cap = 0 then [] else u8_of_u16string u)
       else (0, []))\<rparr>"

lemma ideal_win_laws: "win_utf8_laws ideal_win"
proof -
  have "length (units cps) \<noteq> 0" "length (utf8 cps) \<noteq> 0" if "cps \<noteq> []" for cps
    using that by (cases cps; simp)+
  then show ?thesis
    by (auto simp: win_utf8_laws_def ideal_win_def well_formed_utf8_iff well_formed_units_iff
      to_u16string_utf8 u8_of_u16string_units)
qed

definition plain_posix :: "unit platform" where
  "plain_posix = Posix None"

theorem builds_agree_witness:
  "utf8_to_utf16_or_throw (Windows ideal_win) [0x41, 0xC3] = Inl ''utf8_to_utf16 failed'' \<and>
   utf16_to_utf8_or_throw (Windows ideal_win) [0xD83D, 0xDE00] = utf16_to_utf8_or_throw plain_posix [0xD83D, 0xDE00] \<and>
   utf8_to_utf32_or_throw (Windows ideal_win) [0x41, 0xC3] = Inl ''utf8_to_utf32 failed'' \<and>
   utf32_to_utf8_or_throw (Windows ideal_win) [0x1F600] = utf32_to_utf8_or_throw plain_posix [0x1F600]"
proof -
  have "utf8 [0x41] @ [0xC3] = [0x41, 0xC3]" by (simp add: append_utf8_1)
  then have t: "truncated [0x41, 0xC3]"
    unfolding truncated_def by (intro exI [of _ "[0x41]"] exI [of _ "[0xC3]"]) (simp add: scalar_def)
  have "units [0x1F600] = [0xD83D, 0xDE00]" by (simp add: push_utf16_def Let_def)
  then have "well_formed_units [0xD83D, 0xDE00]"
    unfolding well_formed_units_iff by (intro exI [of _ "[0x1F600]"]) (simp add: scalar_def)
  then have "\<not> truncated_units [0xD83D, 0xDE00]" using truncated_units_not_well_formed by blast
  with t show ?thesis
    using builds_agree [OF ideal_win_laws, of "[0x41, 0xC3]" "[0xD83D, 0xDE00]" "[0x1F600]" "None :: unit iconv_api option"]
    unfolding plain_posix_def by (elim conjE meta_impE) simp_all
qed

section \<open>The loop around iconv\<close>

text \<open>The documentation of iconv: a call that does not fail has consumed some of a non-empty input and
  has written no more than the room it was given.\<close>

definition iconv_laws :: "'cd iconv_api \<Rightarrow> bool" where
  "iconv_laws api \<longleftrightarrow>
     (\<forall>cd inp room cd' rest written. inp \<noteq> [] \<and> iconv_call api cd inp room = (cd', rest, written, True) \<longrightarrow>
        length rest < length inp \<and> length written \<le> room)"

lemma iconv_loop_Nil: "iconv_loop api cd [] room buf = Some (True, buf)"
  by (subst iconv_loop.simps) simp

lemma iconv_loop_call:
  "inp \<noteq> [] \<Longrightarrow> iconv_call api cd inp room = (cd', rest, written, ok) \<Longrightarrow>
   iconv_loop api cd inp room buf =
     (if ok then iconv_loop api cd' rest (room - length written) (buf @ written) else Some (False, []))"
  by (subst iconv_loop.simps) simp

lemma iconv_loop_returns:
  assumes "iconv_laws api"
  shows "\<exists>r. iconv_loop api cd inp room buf = Some r \<and> length (snd r) \<le> length buf + room"
proof (induction "length inp" arbitrary: cd inp room buf rule: less_induct)
  case less
  show ?case
  proof (cases "inp = []")
    case False
    obtain cd' rest written ok where c: "iconv_call api cd inp room = (cd', rest, written, ok)"
      by (metis prod_cases4)
    show ?thesis
    proof (cases ok)
      case True
      then have l: "length rest < length inp" "length written \<le> room"
        using assms [unfolded iconv_laws_def, rule_format, of inp cd room cd' rest written] c False by simp_all
      then show ?thesis
        using less.hyps [OF l(1), of cd' "room - length written" "buf @ written"] True
        by (auto simp: iconv_loop_call [OF False c])
    qed (simp add: iconv_loop_call [OF False c])
  qed (simp add: iconv_loop_Nil)
qed

lemma iconv_convert_returns:
  assumes "iconv_laws api"
  shows "\<exists>r. iconv_convert api a b inp = Some r \<and> length (snd r) \<le> 6 * length inp + 32"
  using iconv_loop_returns [OF assms, of _ inp "length inp * 6 + 32" "[]"]
  by (auto simp: iconv_convert_def mult.commute split: option.split)

lemma iconv_first_returns:
  assumes "iconv_laws api"
  shows "\<exists>r. iconv_first api names inp = Some r \<and> length (snd r) \<le> 6 * length inp + 32"
proof (induction names)
  case (Cons n names)
  obtain a b where n: "n = (a, b)" by fastforce
  then show ?case using iconv_convert_returns [OF assms, of a b inp] Cons by (cases n) auto
qed simp

definition lawful :: "'cd platform \<Rightarrow> bool" where
  "lawful p = (case p of Posix (Some api) \<Rightarrow> iconv_laws api | _ \<Rightarrow> True)"

lemma iconv_first_bound:
  "iconv_laws api \<Longrightarrow>
     case iconv_first api names inp of None \<Rightarrow> False | Some r \<Rightarrow> length (snd r) \<le> 6 * length inp + 32"
  using iconv_first_returns [of api names inp] by auto

lemma iconv_first_total: "iconv_laws api \<Longrightarrow> iconv_first api names inp \<noteq> None"
  using iconv_first_returns [of api names inp] by auto

lemma utf8_to_charset_returns: "lawful p \<Longrightarrow> utf8_to_charset cs p s out \<noteq> None"
proof (cases p)
  case (Posix i)
  assume "lawful p"
  then show ?thesis using Posix iconv_first_total
    by (cases i) (simp_all add: utf8_to_charset_def lawful_def del: not_None_eq)
qed (simp add: utf8_to_charset_def chained_def split: prod.split)

lemma charset_to_utf8_returns: "lawful p \<Longrightarrow> charset_to_utf8 cs p s out \<noteq> None"
proof (cases p)
  case (Posix i)
  assume "lawful p"
  then show ?thesis using Posix iconv_first_total
    by (cases i) (simp_all add: charset_to_utf8_def lawful_def del: not_None_eq)
qed (simp add: charset_to_utf8_def chained_def split: prod.split)

lemma chained_returns: "r \<noteq> None \<Longrightarrow> (\<And>x. g x \<noteq> None) \<Longrightarrow> chained r out g \<noteq> None"
  by (cases r) (auto simp: chained_def)

text \<open>C22: when no call of iconv succeeds without reading, every conversion to and from the Korean
  character sets returns, in every build; with iconv a result in UTF-8 or in the character set stays
  inside the buffer of six bytes for each input byte and 32 more.\<close>

theorem charset_conversions_return:
  assumes "lawful p"
  shows "utf8_to_charset cs p s o8 \<noteq> None \<and> charset_to_utf8 cs p s o8 \<noteq> None \<and>
    utf16_to_charset cs p u16 o8 \<noteq> None \<and> charset_to_utf16 cs p s o16 \<noteq> None \<and>
    (case p of Posix (Some api) \<Rightarrow>
       (case utf8_to_charset cs p s o8 of None \<Rightarrow> False | Some r \<Rightarrow> length (snd r) \<le> 6 * length s + 32) \<and>
       (case charset_to_utf8 cs p s o8 of None \<Rightarrow> False | Some r \<Rightarrow> length (snd r) \<le> 6 * length s + 32)
     | _ \<Rightarrow> True)"
proof (intro conjI)
  have "chained (Some (utf16_to_utf8 p u16 [])) o8 (\<lambda>s. utf8_to_charset cs p s o8) \<noteq> None"
    by (rule chained_returns) (simp_all del: not_None_eq add: utf8_to_charset_returns assms)
  then show "utf16_to_charset cs p u16 o8 \<noteq> None"
    by (cases p) (auto simp add: utf16_to_charset_def simp del: not_None_eq split: option.split)
  have "chained (charset_to_utf8 cs p s []) o16 (\<lambda>x. Some (utf8_to_utf16 p x o16)) \<noteq> None"
    by (rule chained_returns) (simp_all del: not_None_eq add: charset_to_utf8_returns assms)
  then show "charset_to_utf16 cs p s o16 \<noteq> None"
    by (cases p) (auto simp add: charset_to_utf16_def simp del: not_None_eq split: option.split)
  show "case p of Posix (Some api) \<Rightarrow>
       (case utf8_to_charset cs p s o8 of None \<Rightarrow> False | Some r \<Rightarrow> length (snd r) \<le> 6 * length s + 32) \<and>
       (case charset_to_utf8 cs p s o8 of None \<Rightarrow> False | Some r \<Rightarrow> length (snd r) \<le> 6 * length s + 32)
     | _ \<Rightarrow> True"
  proof (cases "\<exists>api. p = Posix (Some api)")
    case True
    then obtain api where p: "p = Posix (Some api)" by blast
    then have "iconv_laws api" using assms by (simp add: lawful_def)
    note b = iconv_first_bound [OF this, where inp = s]
    show ?thesis using p b [of "map (\<lambda>n. (''UTF-8'', n)) (iconv_names cs)"] b [of "map (\<lambda>n. (n, ''UTF-8'')) (iconv_names cs)"]
      by (simp add: utf8_to_charset_def charset_to_utf8_def)
  qed (auto split: platform.split option.split)
qed (use assms utf8_to_charset_returns charset_to_utf8_returns in blast)+

text \<open>An iconv that copies its input, and one that never reads.\<close>

definition copying_iconv :: "unit iconv_api" where
  "copying_iconv = \<lparr>iconv_open = (\<lambda>to from. Some ()),
     iconv_call = (\<lambda>cd inp room. if length inp \<le> room then (cd, [], inp, True) else (cd, inp, [], False))\<rparr>"

lemma copying_iconv_laws: "iconv_laws copying_iconv"
  by (auto simp: iconv_laws_def copying_iconv_def split: if_splits)

theorem charset_conversions_return_witness:
  "utf8_to_charset CP949 (Posix (Some copying_iconv)) [0x41] [] \<noteq> None \<and>
   charset_to_utf8 CP949 (Posix (Some copying_iconv)) [0x41] [] \<noteq> None \<and>
   utf16_to_charset CP949 (Posix (Some copying_iconv)) [0x41] [] \<noteq> None \<and>
   charset_to_utf16 CP949 (Posix (Some copying_iconv)) [0x41] [] \<noteq> None"
  using charset_conversions_return
    [of "Posix (Some copying_iconv)" CP949 "[0x41]" "[]" "[0x41]" "[]"] copying_iconv_laws
  by (simp add: lawful_def)

end
