(* ===== verification/Mutex_String.thy ===== *)
theory Mutex_String
  imports Cpp_Std
begin

text \<open>
  The string behind a mutex of \<open>mutex_string.hpp\<close> and \<open>mutex_string.cpp\<close>. An object is its address;
  the state has the string of every object, the thread that holds its mutex, the thread-local owner
  mark of the debug build, and the scopes (guards and \<open>with_lock\<close> calls) every thread has open.

  Every member function takes the mutex for its whole body, so it is one function on the state:
  \<open>locked body\<close> is the check of the debug build, the lock, the call on the \<open>std::string\<close> and the
  unlock. The string operations behave as the standard says, with \<open>out_of_range\<close> and \<open>length_error\<close>
  for the exceptions and \<open>undefined\<close> where the standard leaves the result undefined. \<open>mx\<close> is the
  \<open>max_size()\<close> of the library. \<open>capacity\<close>, the one function whose result the standard leaves to the
  implementation, is not modelled, nor is the failure of an allocation.
\<close>

section \<open>The operations of std::string\<close>

datatype fault = out_of_range | length_error | undefined_call

datatype ret = R_unit | R_bool bool | R_size nat | R_char char | R_str string | R_int int | R_pos "nat option"

type_synonym body = "string \<Rightarrow> fault + ret \<times> string"

definition reads :: "(string \<Rightarrow> ret) \<Rightarrow> body" where
  "reads f s = Inr (f s, s)"

definition edits :: "nat \<Rightarrow> (string \<Rightarrow> string) \<Rightarrow> body" where
  "edits mx f s = (if length (f s) \<le> mx then Inr (R_unit, f s) else Inl length_error)"

definition within :: "nat \<Rightarrow> body \<Rightarrow> body" where
  "within pos b s = (if pos \<le> length s then b s else Inl out_of_range)"

definition str_replace :: "nat \<Rightarrow> nat \<Rightarrow> string \<Rightarrow> string \<Rightarrow> string" where
  "str_replace pos n r s = take pos s @ r @ drop (pos + n) s"

definition str_substr :: "nat \<Rightarrow> nat \<Rightarrow> string \<Rightarrow> string" where
  "str_substr pos n s = take n (drop pos s)"

text \<open>The sign of \<open>compare\<close>; characters are ordered as \<open>unsigned char\<close>.\<close>

fun str_compare :: "string \<Rightarrow> string \<Rightarrow> int" where
  "str_compare [] [] = 0"
| "str_compare [] (y # ys) = -1"
| "str_compare (x # xs) [] = 1"
| "str_compare (x # xs) (y # ys) =
     (if code x < code y then -1 else if code y < code x then 1 else str_compare xs ys)"

definition str_resize :: "nat \<Rightarrow> char \<Rightarrow> string \<Rightarrow> string" where
  "str_resize n ch s = take n s @ replicate (n - length s) ch"

text \<open>The first index from \<open>pos\<close> on, and the last one up to \<open>pos\<close>, with a property.\<close>

definition first_index :: "(nat \<Rightarrow> bool) \<Rightarrow> nat \<Rightarrow> nat \<Rightarrow> nat option" where
  "first_index P pos n = List.find P [pos..<n]"

definition last_index :: "(nat \<Rightarrow> bool) \<Rightarrow> nat \<Rightarrow> nat \<Rightarrow> nat option" where
  "last_index P pos n = List.find P (rev [0..<min (Suc pos) n])"

definition str_rfind :: "string \<Rightarrow> nat \<Rightarrow> string \<Rightarrow> nat option" where
  "str_rfind needle pos s = last_index (occurs_at needle s) pos (Suc (length s))"

definition first_of :: "(char \<Rightarrow> bool) \<Rightarrow> nat \<Rightarrow> string \<Rightarrow> nat option" where
  "first_of P pos s = first_index (\<lambda>i. P (s ! i)) pos (length s)"

definition last_of :: "(char \<Rightarrow> bool) \<Rightarrow> nat \<Rightarrow> string \<Rightarrow> nat option" where
  "last_of P pos s = last_index (\<lambda>i. P (s ! i)) pos (length s)"

text \<open>A \<open>const char*\<close> argument: \<open>None\<close> is the null pointer, for which the code puts the empty string.\<close>

definition c_arg :: "string option \<Rightarrow> string" where
  "c_arg p = (case p of None \<Rightarrow> [] | Some s \<Rightarrow> s)"

section \<open>Objects, threads and the lock\<close>

datatype scope = Guard nat bool bool | With nat "nat option" | C_Str nat

record ms_world =
  w_debug :: bool
  w_str :: "nat \<Rightarrow> string"
  w_holder :: "nat \<Rightarrow> nat option"
  w_tls :: "nat \<Rightarrow> nat option"
  w_scopes :: "nat \<Rightarrow> scope list"

text \<open>What a call comes to: it returns, it throws after it has released the mutex, it waits for another
  thread, it locks a mutex its own thread holds (undefined behaviour, a deadlock in practice), an
  assertion of the debug build stops the program, or the string operation itself is undefined.\<close>

datatype ms_result = Ms_Returns ret ms_world | Ms_Throws fault ms_world | Ms_Waits | Ms_Self_Lock
  | Ms_Asserts | Ms_Undefined

type_synonym call = "nat \<Rightarrow> nat \<Rightarrow> ms_world \<Rightarrow> ms_result"

definition tls_owner :: "nat \<Rightarrow> ms_world \<Rightarrow> nat option" where
  "tls_owner t w = w_tls w t"

definition set_tls_owner :: "nat \<Rightarrow> nat option \<Rightarrow> ms_world \<Rightarrow> ms_world" where
  "set_tls_owner t self w = w\<lparr>w_tls := (w_tls w)(t := self)\<rparr>"

definition assert_not_reentrant :: "nat \<Rightarrow> nat \<Rightarrow> ms_world \<Rightarrow> bool" where
  "assert_not_reentrant t ob w \<longleftrightarrow> w_debug w \<longrightarrow> tls_owner t w \<noteq> Some ob"

definition locked :: "body \<Rightarrow> call" where
  "locked b t ob w =
     (if \<not> assert_not_reentrant t ob w then Ms_Asserts
      else case w_holder w ob of
          Some h \<Rightarrow> if h = t then Ms_Self_Lock else Ms_Waits
        | None \<Rightarrow> (case b (w_str w ob) of
              Inr (r, s) \<Rightarrow> Ms_Returns r (w\<lparr>w_str := (w_str w)(ob := s)\<rparr>)
            | Inl e \<Rightarrow> if e = undefined_call then Ms_Undefined else Ms_Throws e w))"

section \<open>The member functions\<close>

subsection \<open>Assignment and comparison\<close>

definition ms_assign_string :: "string \<Rightarrow> call" where
  "ms_assign_string rhs = locked (\<lambda>s. Inr (R_unit, rhs))"

definition ms_assign_cstr :: "string option \<Rightarrow> call" where
  "ms_assign_cstr rhs = locked (\<lambda>s. Inr (R_unit, c_arg rhs))"

definition ms_eq_string :: "string \<Rightarrow> call" where
  "ms_eq_string rhs = locked (reads (\<lambda>s. R_bool (s = rhs)))"

definition ms_eq_cstr :: "string option \<Rightarrow> call" where
  "ms_eq_cstr rhs = locked (reads (\<lambda>s. R_bool (s = c_arg rhs)))"

subsection \<open>Size and capacity\<close>

definition ms_size :: call where
  "ms_size = locked (reads (\<lambda>s. R_size (length s)))"

definition ms_length :: call where
  "ms_length = locked (reads (\<lambda>s. R_size (length s)))"

definition ms_empty :: call where
  "ms_empty = locked (reads (\<lambda>s. R_bool (s = [])))"

definition ms_max_size :: "nat \<Rightarrow> call" where
  "ms_max_size mx = locked (reads (\<lambda>s. R_size mx))"

definition ms_reserve :: "nat \<Rightarrow> nat \<Rightarrow> call" where
  "ms_reserve mx n = locked (\<lambda>s. if n \<le> mx then Inr (R_unit, s) else Inl length_error)"

definition ms_shrink_to_fit :: call where
  "ms_shrink_to_fit = locked (\<lambda>s. let tmp = s in Inr (R_unit, tmp))"

subsection \<open>Characters\<close>

definition ms_at :: "nat \<Rightarrow> call" where
  "ms_at pos = locked (\<lambda>s. if pos < length s then Inr (R_char (s ! pos), s) else Inl out_of_range)"

definition ms_index :: "nat \<Rightarrow> call" where
  "ms_index pos = locked (\<lambda>s. if pos < length s then Inr (R_char (s ! pos), s)
     else if pos = length s then Inr (R_char (CHR 0x00), s) else Inl undefined_call)"

definition ms_front :: call where
  "ms_front = locked (\<lambda>s. if s = [] then Inl undefined_call else Inr (R_char (hd s), s))"

definition ms_back :: call where
  "ms_back = locked (\<lambda>s. if s = [] then Inl undefined_call else Inr (R_char (last s), s))"

definition ms_set :: "nat \<Rightarrow> char \<Rightarrow> call" where
  "ms_set pos ch = locked (\<lambda>s. if pos < length s then Inr (R_unit, s[pos := ch]) else Inl out_of_range)"

definition ms_set_front :: "char \<Rightarrow> call" where
  "ms_set_front ch = locked (\<lambda>s. if s = [] then Inl undefined_call else Inr (R_unit, s[0 := ch]))"

definition ms_set_back :: "char \<Rightarrow> call" where
  "ms_set_back ch = locked (\<lambda>s. if s = [] then Inl undefined_call else Inr (R_unit, s[length s - 1 := ch]))"

subsection \<open>Modifiers\<close>

definition ms_clear :: call where
  "ms_clear = locked (\<lambda>s. Inr (R_unit, []))"

definition ms_push_back :: "nat \<Rightarrow> char \<Rightarrow> call" where
  "ms_push_back mx ch = locked (edits mx (\<lambda>s. s @ [ch]))"

definition ms_pop_back :: call where
  "ms_pop_back = locked (\<lambda>s. if s = [] then Inl undefined_call else Inr (R_unit, butlast s))"

definition ms_assign :: "string \<Rightarrow> call" where
  "ms_assign r = locked (\<lambda>s. Inr (R_unit, r))"

definition ms_assign_c :: "string option \<Rightarrow> call" where
  "ms_assign_c r = locked (\<lambda>s. Inr (R_unit, c_arg r))"

definition ms_assign_fill :: "nat \<Rightarrow> nat \<Rightarrow> char \<Rightarrow> call" where
  "ms_assign_fill mx n ch = locked (edits mx (\<lambda>s. replicate n ch))"

definition ms_append :: "nat \<Rightarrow> string \<Rightarrow> call" where
  "ms_append mx r = locked (edits mx (\<lambda>s. s @ r))"

definition ms_append_cstr :: "nat \<Rightarrow> string option \<Rightarrow> call" where
  "ms_append_cstr mx r = locked (edits mx (\<lambda>s. s @ c_arg r))"

definition ms_append_fill :: "nat \<Rightarrow> nat \<Rightarrow> char \<Rightarrow> call" where
  "ms_append_fill mx n ch = locked (edits mx (\<lambda>s. s @ replicate n ch))"

definition ms_plus_string :: "nat \<Rightarrow> string \<Rightarrow> call" where
  "ms_plus_string mx r = locked (edits mx (\<lambda>s. s @ r))"

definition ms_plus_cstr :: "nat \<Rightarrow> string option \<Rightarrow> call" where
  "ms_plus_cstr mx r = locked (edits mx (\<lambda>s. s @ c_arg r))"

definition ms_plus_char :: "nat \<Rightarrow> char \<Rightarrow> call" where
  "ms_plus_char mx ch = locked (edits mx (\<lambda>s. s @ [ch]))"

definition ms_insert :: "nat \<Rightarrow> nat \<Rightarrow> string \<Rightarrow> call" where
  "ms_insert mx pos r = locked (within pos (edits mx (\<lambda>s. take pos s @ r @ drop pos s)))"

definition ms_insert_cstr :: "nat \<Rightarrow> nat \<Rightarrow> string option \<Rightarrow> call" where
  "ms_insert_cstr mx pos r = locked (within pos (edits mx (\<lambda>s. take pos s @ c_arg r @ drop pos s)))"

definition ms_insert_fill :: "nat \<Rightarrow> nat \<Rightarrow> nat \<Rightarrow> char \<Rightarrow> call" where
  "ms_insert_fill mx pos n ch = locked (within pos (edits mx (\<lambda>s. take pos s @ replicate n ch @ drop pos s)))"

definition ms_erase :: "nat \<Rightarrow> nat \<Rightarrow> call" where
  "ms_erase pos n = locked (within pos (\<lambda>s. Inr (R_unit, take pos s @ drop (pos + n) s)))"

definition ms_replace :: "nat \<Rightarrow> nat \<Rightarrow> nat \<Rightarrow> string \<Rightarrow> call" where
  "ms_replace mx pos n r = locked (within pos (edits mx (str_replace pos n r)))"

definition ms_replace_cstr :: "nat \<Rightarrow> nat \<Rightarrow> nat \<Rightarrow> string option \<Rightarrow> call" where
  "ms_replace_cstr mx pos n r = locked (within pos (edits mx (str_replace pos n (c_arg r))))"

definition ms_replace_fill :: "nat \<Rightarrow> nat \<Rightarrow> nat \<Rightarrow> nat \<Rightarrow> char \<Rightarrow> call" where
  "ms_replace_fill mx pos n k ch = locked (within pos (edits mx (str_replace pos n (replicate k ch))))"

definition ms_resize :: "nat \<Rightarrow> nat \<Rightarrow> call" where
  "ms_resize mx n = locked (edits mx (str_resize n (CHR 0x00)))"

definition ms_resize_fill :: "nat \<Rightarrow> nat \<Rightarrow> char \<Rightarrow> call" where
  "ms_resize_fill mx n ch = locked (edits mx (str_resize n ch))"

text \<open>The argument is the outside string; the result carries what it is afterwards.\<close>

definition ms_swap_string :: "string \<Rightarrow> call" where
  "ms_swap_string other_str = locked (\<lambda>s. Inr (R_str s, other_str))"

subsection \<open>Queries\<close>

definition ms_substr :: "nat \<Rightarrow> nat \<Rightarrow> call" where
  "ms_substr pos n = locked (within pos (reads (\<lambda>s. R_str (str_substr pos n s))))"

text \<open>The result stands for the returned length and the characters written to \<open>dest\<close>.\<close>

definition ms_copy :: "nat \<Rightarrow> nat \<Rightarrow> call" where
  "ms_copy n pos = locked (within pos (reads (\<lambda>s. R_str (str_substr pos n s))))"

definition ms_compare :: "string \<Rightarrow> call" where
  "ms_compare r = locked (reads (\<lambda>s. R_int (str_compare s r)))"

definition ms_compare_part :: "nat \<Rightarrow> nat \<Rightarrow> string \<Rightarrow> call" where
  "ms_compare_part pos n r = locked (within pos (reads (\<lambda>s. R_int (str_compare (str_substr pos n s) r))))"

definition ms_find :: "string \<Rightarrow> nat \<Rightarrow> call" where
  "ms_find r pos = locked (reads (\<lambda>s. R_pos (find_from s r pos)))"

definition ms_find_cstr :: "string option \<Rightarrow> nat \<Rightarrow> call" where
  "ms_find_cstr r pos = locked (reads (\<lambda>s. R_pos (find_from s (c_arg r) pos)))"

definition ms_find_char :: "char \<Rightarrow> nat \<Rightarrow> call" where
  "ms_find_char ch pos = locked (reads (\<lambda>s. R_pos (first_of (\<lambda>c. c = ch) pos s)))"

definition ms_rfind :: "string \<Rightarrow> nat \<Rightarrow> call" where
  "ms_rfind r pos = locked (reads (\<lambda>s. R_pos (str_rfind r pos s)))"

definition ms_rfind_cstr :: "string option \<Rightarrow> nat \<Rightarrow> call" where
  "ms_rfind_cstr r pos = locked (reads (\<lambda>s. R_pos (str_rfind (c_arg r) pos s)))"

definition ms_rfind_char :: "char \<Rightarrow> nat \<Rightarrow> call" where
  "ms_rfind_char ch pos = locked (reads (\<lambda>s. R_pos (last_of (\<lambda>c. c = ch) pos s)))"

definition ms_find_first_of :: "string \<Rightarrow> nat \<Rightarrow> call" where
  "ms_find_first_of r pos = locked (reads (\<lambda>s. R_pos (first_of (List.member r) pos s)))"

definition ms_find_first_of_cstr :: "string option \<Rightarrow> nat \<Rightarrow> call" where
  "ms_find_first_of_cstr r pos = locked (reads (\<lambda>s. R_pos (first_of (List.member (c_arg r)) pos s)))"

definition ms_find_first_of_char :: "char \<Rightarrow> nat \<Rightarrow> call" where
  "ms_find_first_of_char ch pos = locked (reads (\<lambda>s. R_pos (first_of (List.member [ch]) pos s)))"

definition ms_find_last_of :: "string \<Rightarrow> nat \<Rightarrow> call" where
  "ms_find_last_of r pos = locked (reads (\<lambda>s. R_pos (last_of (List.member r) pos s)))"

definition ms_find_last_of_cstr :: "string option \<Rightarrow> nat \<Rightarrow> call" where
  "ms_find_last_of_cstr r pos = locked (reads (\<lambda>s. R_pos (last_of (List.member (c_arg r)) pos s)))"

definition ms_find_last_of_char :: "char \<Rightarrow> nat \<Rightarrow> call" where
  "ms_find_last_of_char ch pos = locked (reads (\<lambda>s. R_pos (last_of (List.member [ch]) pos s)))"

definition ms_find_first_not_of :: "string \<Rightarrow> nat \<Rightarrow> call" where
  "ms_find_first_not_of r pos = locked (reads (\<lambda>s. R_pos (first_of (\<lambda>c. \<not> List.member r c) pos s)))"

definition ms_find_first_not_of_cstr :: "string option \<Rightarrow> nat \<Rightarrow> call" where
  "ms_find_first_not_of_cstr r pos =
     locked (reads (\<lambda>s. R_pos (first_of (\<lambda>c. \<not> List.member (c_arg r) c) pos s)))"

definition ms_find_first_not_of_char :: "char \<Rightarrow> nat \<Rightarrow> call" where
  "ms_find_first_not_of_char ch pos =
     locked (reads (\<lambda>s. R_pos (first_of (\<lambda>c. \<not> List.member [ch] c) pos s)))"

definition ms_find_last_not_of :: "string \<Rightarrow> nat \<Rightarrow> call" where
  "ms_find_last_not_of r pos = locked (reads (\<lambda>s. R_pos (last_of (\<lambda>c. \<not> List.member r c) pos s)))"

definition ms_find_last_not_of_cstr :: "string option \<Rightarrow> nat \<Rightarrow> call" where
  "ms_find_last_not_of_cstr r pos =
     locked (reads (\<lambda>s. R_pos (last_of (\<lambda>c. \<not> List.member (c_arg r) c) pos s)))"

definition ms_find_last_not_of_char :: "char \<Rightarrow> nat \<Rightarrow> call" where
  "ms_find_last_not_of_char ch pos =
     locked (reads (\<lambda>s. R_pos (last_of (\<lambda>c. \<not> List.member [ch] c) pos s)))"

definition ms_str :: call where
  "ms_str = locked (reads R_str)"

section \<open>Two objects\<close>

text \<open>Constructors need no lock on the object they make. The copying and moving forms check the new
  object, not the one they read; \<open>moved\<close> is what the library leaves in a string it has moved from.\<close>

definition ms_from_string :: "string \<Rightarrow> nat \<Rightarrow> ms_world \<Rightarrow> ms_world" where
  "ms_from_string s ob w = w\<lparr>w_str := (w_str w)(ob := s)\<rparr>"

definition ms_from_cstr :: "string option \<Rightarrow> nat \<Rightarrow> ms_world \<Rightarrow> ms_world" where
  "ms_from_cstr s ob w = w\<lparr>w_str := (w_str w)(ob := c_arg s)\<rparr>"

definition ms_copy_ctor :: "nat \<Rightarrow> call" where
  "ms_copy_ctor other t ob w =
     (if \<not> assert_not_reentrant t ob w then Ms_Asserts
      else case w_holder w other of
          Some h \<Rightarrow> if h = t then Ms_Self_Lock else Ms_Waits
        | None \<Rightarrow> Ms_Returns R_unit (w\<lparr>w_str := (w_str w)(ob := w_str w other)\<rparr>))"

definition ms_move_ctor :: "(string \<Rightarrow> string) \<Rightarrow> nat \<Rightarrow> call" where
  "ms_move_ctor moved other t ob w =
     (if \<not> assert_not_reentrant t ob w then Ms_Asserts
      else case w_holder w other of
          Some h \<Rightarrow> if h = t then Ms_Self_Lock else Ms_Waits
        | None \<Rightarrow> Ms_Returns R_unit
            (w\<lparr>w_str := (w_str w)(ob := w_str w other, other := moved (w_str w other))\<rparr>))"

text \<open>\<open>std::scoped_lock\<close> on two mutexes takes both or waits with none.\<close>

definition lock_both :: "nat \<Rightarrow> nat \<Rightarrow> nat \<Rightarrow> ms_world \<Rightarrow> ms_world \<Rightarrow> ms_result" where
  "lock_both t a b w w' =
     (if w_holder w a = Some t \<or> w_holder w b = Some t then Ms_Self_Lock
      else if w_holder w a \<noteq> None \<or> w_holder w b \<noteq> None then Ms_Waits
      else Ms_Returns R_unit w')"

definition ms_copy_assign :: "nat \<Rightarrow> call" where
  "ms_copy_assign other t ob w =
     (if ob = other then Ms_Returns R_unit w
      else if \<not> assert_not_reentrant t ob w then Ms_Asserts
      else lock_both t ob other w (w\<lparr>w_str := (w_str w)(ob := w_str w other)\<rparr>))"

definition ms_move_assign :: "(string \<Rightarrow> string) \<Rightarrow> nat \<Rightarrow> call" where
  "ms_move_assign moved other t ob w =
     (if ob = other then Ms_Returns R_unit w
      else if \<not> assert_not_reentrant t ob w then Ms_Asserts
      else lock_both t ob other w
        (w\<lparr>w_str := (w_str w)(ob := w_str w other, other := moved (w_str w other))\<rparr>))"

definition ms_swap :: "nat \<Rightarrow> call" where
  "ms_swap other t ob w =
     (if ob = other then Ms_Returns R_unit w
      else if \<not> assert_not_reentrant t ob w \<or> \<not> assert_not_reentrant t other w then Ms_Asserts
      else let first = min ob other; second = max ob other
           in lock_both t first second w
                (w\<lparr>w_str := (w_str w)(ob := w_str w other, other := w_str w ob)\<rparr>))"

end
