(* ===== verification/Mutex_Guard.thy ===== *)
theory Mutex_Guard
  imports Mutex_String
begin

text \<open>
  The scopes of \<open>mutex_string\<close> (the guard \<open>Locked\<close>, \<open>with_lock\<close>, the guard of \<open>c_str\<close>) and any number
  of threads on any number of objects. Scopes are closed in the reverse order of their opening, as
  objects of automatic storage are; between two steps of a thread any other thread may take steps.

  The reachable states keep every mutex with exactly the scope that took it, and keep the string of a
  held object from all other threads. The assertions of the debug build are then measured against this:
  they change nothing but stop the program, they stop it only for a thread that holds the object, and
  they catch every re-entrant call of a program that opens one scope at a time. With two guards open
  they miss one.
\<close>

section \<open>Scopes\<close>

definition take_mutex :: "nat \<Rightarrow> nat \<Rightarrow> ms_world \<Rightarrow> (ms_world \<Rightarrow> ms_result) \<Rightarrow> ms_result" where
  "take_mutex t ob w k =
     (case w_holder w ob of
        Some h \<Rightarrow> if h = t then Ms_Self_Lock else Ms_Waits
      | None \<Rightarrow> k (w\<lparr>w_holder := (w_holder w)(ob := Some t)\<rparr>))"

definition free_mutex :: "nat \<Rightarrow> ms_world \<Rightarrow> ms_world" where
  "free_mutex ob w = w\<lparr>w_holder := (w_holder w)(ob := None)\<rparr>"

definition set_scopes :: "nat \<Rightarrow> scope list \<Rightarrow> ms_world \<Rightarrow> ms_world" where
  "set_scopes t scs w = w\<lparr>w_scopes := (w_scopes w)(t := scs)\<rparr>"

text \<open>The constructor of a guard: the lock first, the check and the mark in its body.\<close>

definition locked_ctor :: call where
  "locked_ctor t ob w = take_mutex t ob w (\<lambda>w1.
     if \<not> assert_not_reentrant t ob w1 then Ms_Asserts
     else Ms_Returns R_unit (set_scopes t (Guard ob True (w_debug w1) # w_scopes w1 t)
       (if w_debug w1 then set_tls_owner t (Some ob) w1 else w1)))"

text \<open>The destructor forgets the mark, whatever the mark was before; the lock, if it is still held, goes
  with the member \<open>lock_\<close>.\<close>

definition locked_dtor :: "nat \<Rightarrow> ms_world \<Rightarrow> ms_world option" where
  "locked_dtor t w = (case w_scopes w t of
      Guard ob owned marked # scs \<Rightarrow>
        let w1 = (if marked \<and> tls_owner t w = Some ob then set_tls_owner t None w else w)
        in Some (set_scopes t scs (if owned then free_mutex ob w1 else w1))
    | _ \<Rightarrow> None)"

text \<open>\<open>unlock()\<close> on the \<open>i\<close>-th scope from the inside; on a guard that owns nothing \<open>unique_lock\<close>
  throws.\<close>

definition locked_unlock :: "nat \<Rightarrow> nat \<Rightarrow> ms_world \<Rightarrow> ms_world option" where
  "locked_unlock i t w = (case at_idx (w_scopes w t) i of
      Some (Guard ob True marked) \<Rightarrow>
        let hit = (marked \<and> tls_owner t w = Some ob);
            w1 = free_mutex ob w;
            w2 = (if hit then set_tls_owner t None w1 else w1)
        in Some (set_scopes t ((w_scopes w t)[i := Guard ob False (marked \<and> \<not> hit)]) w2)
    | _ \<Rightarrow> None)"

definition owns_lock :: "nat \<Rightarrow> nat \<Rightarrow> ms_world \<Rightarrow> bool option" where
  "owns_lock i t w = (case at_idx (w_scopes w t) i of
      Some (Guard ob owned marked) \<Rightarrow> Some owned | _ \<Rightarrow> None)"

text \<open>\<open>operator->\<close> and \<open>operator*\<close> give the string without a check. Through a guard that was unlocked
  it is a data race when another thread holds the mutex.\<close>

definition guard_access :: "nat \<Rightarrow> body \<Rightarrow> nat \<Rightarrow> ms_world \<Rightarrow> ms_result" where
  "guard_access i b t w = (case at_idx (w_scopes w t) i of
      Some (Guard ob owned marked) \<Rightarrow>
        if \<not> owned \<and> w_holder w ob \<noteq> None \<and> w_holder w ob \<noteq> Some t then Ms_Undefined
        else (case b (w_str w ob) of
                Inr (r, s) \<Rightarrow> Ms_Returns r (w\<lparr>w_str := (w_str w)(ob := s)\<rparr>)
              | Inl e \<Rightarrow> if e = undefined_call then Ms_Undefined else Ms_Throws e w)
    | _ \<Rightarrow> Ms_Undefined)"

definition ms_synchronize :: call where
  "ms_synchronize t ob w = (if \<not> assert_not_reentrant t ob w then Ms_Asserts else locked_ctor t ob w)"

text \<open>\<open>with_lock\<close>: what happens before \<open>f\<close> is called, what \<open>f\<close> does to the string it is given, and what
  happens when it returns or throws.\<close>

definition with_begin :: call where
  "with_begin t ob w =
     (if \<not> assert_not_reentrant t ob w then Ms_Asserts
      else let prev = (if w_debug w then tls_owner t w else None);
               w1 = (if w_debug w then set_tls_owner t (Some ob) w else w)
           in take_mutex t ob w1 (\<lambda>w2. Ms_Returns R_unit (set_scopes t (With ob prev # w_scopes w2 t) w2)))"

definition with_access :: "nat \<Rightarrow> (string \<Rightarrow> string) \<Rightarrow> nat \<Rightarrow> ms_world \<Rightarrow> ms_world option" where
  "with_access i f t w = (case at_idx (w_scopes w t) i of
      Some (With ob prev) \<Rightarrow> Some (w\<lparr>w_str := (w_str w)(ob := f (w_str w ob))\<rparr>)
    | _ \<Rightarrow> None)"

definition with_end :: "nat \<Rightarrow> ms_world \<Rightarrow> ms_world option" where
  "with_end t w = (case w_scopes w t of
      With ob prev # scs \<Rightarrow>
        let w1 = free_mutex ob w
        in Some (set_scopes t scs (if w_debug w then set_tls_owner t prev w1 else w1))
    | _ \<Rightarrow> None)"

text \<open>The guard of \<open>c_str\<close> takes the mutex and sets no mark.\<close>

definition ms_c_str :: call where
  "ms_c_str t ob w =
     (if \<not> assert_not_reentrant t ob w then Ms_Asserts
      else take_mutex t ob w (\<lambda>w1. Ms_Returns R_unit (set_scopes t (C_Str ob # w_scopes w1 t) w1)))"

definition c_str_end :: "nat \<Rightarrow> ms_world \<Rightarrow> ms_world option" where
  "c_str_end t w = (case w_scopes w t of
      C_Str ob # scs \<Rightarrow> Some (set_scopes t scs (free_mutex ob w))
    | _ \<Rightarrow> None)"

section \<open>Threads\<close>

text \<open>The member functions that work on one object.\<close>

inductive member_call :: "nat \<Rightarrow> call \<Rightarrow> bool" for mx where
  "member_call mx (ms_assign_string rhs)"
| "member_call mx (ms_assign_cstr rhs)"
| "member_call mx (ms_eq_string rhs)"
| "member_call mx (ms_eq_cstr rhs)"
| "member_call mx ms_size"
| "member_call mx ms_length"
| "member_call mx ms_empty"
| "member_call mx (ms_max_size mx)"
| "member_call mx (ms_reserve mx n)"
| "member_call mx ms_shrink_to_fit"
| "member_call mx (ms_at pos)"
| "member_call mx (ms_index pos)"
| "member_call mx ms_front"
| "member_call mx ms_back"
| "member_call mx (ms_set pos ch)"
| "member_call mx (ms_set_front ch)"
| "member_call mx (ms_set_back ch)"
| "member_call mx ms_clear"
| "member_call mx (ms_push_back mx ch)"
| "member_call mx ms_pop_back"
| "member_call mx (ms_assign r)"
| "member_call mx (ms_assign_c r)"
| "member_call mx (ms_assign_fill mx n ch)"
| "member_call mx (ms_append mx r)"
| "member_call mx (ms_append_cstr mx r)"
| "member_call mx (ms_append_fill mx n ch)"
| "member_call mx (ms_plus_string mx r)"
| "member_call mx (ms_plus_cstr mx r)"
| "member_call mx (ms_plus_char mx ch)"
| "member_call mx (ms_insert mx pos r)"
| "member_call mx (ms_insert_cstr mx pos r)"
| "member_call mx (ms_insert_fill mx pos n ch)"
| "member_call mx (ms_erase pos n)"
| "member_call mx (ms_replace mx pos n r)"
| "member_call mx (ms_replace_cstr mx pos n r)"
| "member_call mx (ms_replace_fill mx pos n k ch)"
| "member_call mx (ms_resize mx n)"
| "member_call mx (ms_resize_fill mx n ch)"
| "member_call mx (ms_swap_string other_str)"
| "member_call mx (ms_substr pos n)"
| "member_call mx (ms_copy n pos)"
| "member_call mx (ms_compare r)"
| "member_call mx (ms_compare_part pos n r)"
| "member_call mx (ms_find r pos)"
| "member_call mx (ms_find_cstr r pos)"
| "member_call mx (ms_find_char ch pos)"
| "member_call mx (ms_rfind r pos)"
| "member_call mx (ms_rfind_cstr r pos)"
| "member_call mx (ms_rfind_char ch pos)"
| "member_call mx (ms_find_first_of r pos)"
| "member_call mx (ms_find_first_of_cstr r pos)"
| "member_call mx (ms_find_first_of_char ch pos)"
| "member_call mx (ms_find_last_of r pos)"
| "member_call mx (ms_find_last_of_cstr r pos)"
| "member_call mx (ms_find_last_of_char ch pos)"
| "member_call mx (ms_find_first_not_of r pos)"
| "member_call mx (ms_find_first_not_of_cstr r pos)"
| "member_call mx (ms_find_first_not_of_char ch pos)"
| "member_call mx (ms_find_last_not_of r pos)"
| "member_call mx (ms_find_last_not_of_cstr r pos)"
| "member_call mx (ms_find_last_not_of_char ch pos)"
| "member_call mx ms_str"

inductive pair_call :: "(string \<Rightarrow> string) \<Rightarrow> nat \<Rightarrow> call \<Rightarrow> bool" for moved where
  "pair_call moved other (ms_copy_assign other)"
| "pair_call moved other (ms_move_assign moved other)"
| "pair_call moved other (ms_swap other)"

inductive ctor_call :: "(string \<Rightarrow> string) \<Rightarrow> nat \<Rightarrow> call \<Rightarrow> bool" for moved where
  "ctor_call moved other (ms_copy_ctor other)"
| "ctor_call moved other (ms_move_ctor moved other)"

text \<open>How a program uses the scopes: freely; with \<open>unlock()\<close> on the innermost scope only; or one scope
  at a time and no \<open>c_str\<close>, which is protected.\<close>

datatype style = Free | Tidy | Flat

inductive ms_step :: "nat \<Rightarrow> (string \<Rightarrow> string) \<Rightarrow> style \<Rightarrow> nat \<Rightarrow> ms_world \<Rightarrow> ms_world \<Rightarrow> bool"
  for mx moved style t w where
  s_call: "member_call mx m \<Longrightarrow> m t ob w = Ms_Returns r w' \<Longrightarrow> ms_step mx moved style t w w'"
| s_throw: "member_call mx m \<Longrightarrow> m t ob w = Ms_Throws e w' \<Longrightarrow> ms_step mx moved style t w w'"
| s_pair: "pair_call moved other m \<Longrightarrow> m t ob w = Ms_Returns r w' \<Longrightarrow> ms_step mx moved style t w w'"
| s_ctor: "ctor_call moved other m \<Longrightarrow> w_holder w ob = None \<Longrightarrow> m t ob w = Ms_Returns r w' \<Longrightarrow>
    ms_step mx moved style t w w'"
| s_new: "w_holder w ob = None \<Longrightarrow> ms_step mx moved style t w (ms_from_string s ob w)"
| s_new_cstr: "w_holder w ob = None \<Longrightarrow> ms_step mx moved style t w (ms_from_cstr p ob w)"
| s_guard: "style = Flat \<longrightarrow> w_scopes w t = [] \<Longrightarrow> ms_synchronize t ob w = Ms_Returns r w' \<Longrightarrow>
    ms_step mx moved style t w w'"
| s_with: "style = Flat \<longrightarrow> w_scopes w t = [] \<Longrightarrow> with_begin t ob w = Ms_Returns r w' \<Longrightarrow>
    ms_step mx moved style t w w'"
| s_c_str: "style \<noteq> Flat \<Longrightarrow> ms_c_str t ob w = Ms_Returns r w' \<Longrightarrow> ms_step mx moved style t w w'"
| s_unlock: "style = Free \<or> i = 0 \<Longrightarrow> locked_unlock i t w = Some w' \<Longrightarrow> ms_step mx moved style t w w'"
| s_guard_access: "guard_access i b t w = Ms_Returns r w' \<Longrightarrow> ms_step mx moved style t w w'"
| s_guard_throw: "guard_access i b t w = Ms_Throws e w' \<Longrightarrow> ms_step mx moved style t w w'"
| s_with_access: "with_access i f t w = Some w' \<Longrightarrow> ms_step mx moved style t w w'"
| s_guard_end: "locked_dtor t w = Some w' \<Longrightarrow> ms_step mx moved style t w w'"
| s_with_end: "with_end t w = Some w' \<Longrightarrow> ms_step mx moved style t w w'"
| s_c_str_end: "c_str_end t w = Some w' \<Longrightarrow> ms_step mx moved style t w w'"

definition ms_start :: "bool \<Rightarrow> ms_world" where
  "ms_start debug = \<lparr>w_debug = debug, w_str = (\<lambda>ob. []), w_holder = (\<lambda>ob. None),
     w_tls = (\<lambda>t. None), w_scopes = (\<lambda>t. [])\<rparr>"

inductive ms_reachable :: "nat \<Rightarrow> (string \<Rightarrow> string) \<Rightarrow> style \<Rightarrow> ms_world \<Rightarrow> bool" for mx moved style where
  start: "ms_reachable mx moved style (ms_start debug)"
| step: "ms_reachable mx moved style w \<Longrightarrow> ms_step mx moved style t w w' \<Longrightarrow> ms_reachable mx moved style w'"

section \<open>What a step can do\<close>

lemmas string_methods =
  ms_assign_string_def ms_assign_cstr_def ms_eq_string_def ms_eq_cstr_def ms_size_def ms_length_def
  ms_empty_def ms_max_size_def ms_reserve_def ms_shrink_to_fit_def ms_at_def ms_index_def ms_front_def
  ms_back_def ms_set_def ms_set_front_def ms_set_back_def ms_clear_def ms_push_back_def ms_pop_back_def
  ms_assign_def ms_assign_c_def ms_assign_fill_def ms_append_def ms_append_cstr_def ms_append_fill_def
  ms_plus_string_def ms_plus_cstr_def ms_plus_char_def ms_insert_def ms_insert_cstr_def
  ms_insert_fill_def ms_erase_def ms_replace_def ms_replace_cstr_def ms_replace_fill_def ms_resize_def
  ms_resize_fill_def ms_swap_string_def ms_substr_def ms_copy_def ms_compare_def ms_compare_part_def
  ms_find_def ms_find_cstr_def ms_find_char_def ms_rfind_def ms_rfind_cstr_def ms_rfind_char_def
  ms_find_first_of_def ms_find_first_of_cstr_def ms_find_first_of_char_def ms_find_last_of_def
  ms_find_last_of_cstr_def ms_find_last_of_char_def ms_find_first_not_of_def
  ms_find_first_not_of_cstr_def ms_find_first_not_of_char_def ms_find_last_not_of_def
  ms_find_last_not_of_cstr_def ms_find_last_not_of_char_def ms_str_def

lemma member_locked: "member_call mx m \<Longrightarrow> \<exists>b. m = locked b"
  by (induction rule: member_call.induct) (unfold string_methods, blast+)

text \<open>A step either changes strings only, or it opens, unlocks or closes one scope of its thread.\<close>

inductive effect :: "style \<Rightarrow> nat \<Rightarrow> ms_world \<Rightarrow> ms_world \<Rightarrow> bool" for style t w where
  writes: "(\<And>ob. s' ob = w_str w ob \<or> w_holder w ob = None \<or> w_holder w ob = Some t) \<Longrightarrow>
    effect style t w (w\<lparr>w_str := s'\<rparr>)"
| opens: "w_holder w ob = None \<Longrightarrow> style = Flat \<longrightarrow> w_scopes w t = [] \<Longrightarrow>
    sc = Guard ob True (w_debug w) \<or> sc = With ob (if w_debug w then w_tls w t else None) \<Longrightarrow>
    effect style t w (w\<lparr>w_holder := (w_holder w)(ob := Some t), w_scopes := (w_scopes w)(t := sc # w_scopes w t),
      w_tls := (if w_debug w then (w_tls w)(t := Some ob) else w_tls w)\<rparr>)"
| opens_c_str: "w_holder w ob = None \<Longrightarrow> style \<noteq> Flat \<Longrightarrow>
    effect style t w (w\<lparr>w_holder := (w_holder w)(ob := Some t),
      w_scopes := (w_scopes w)(t := C_Str ob # w_scopes w t)\<rparr>)"
| unlocks: "i < length (w_scopes w t) \<Longrightarrow> w_scopes w t ! i = Guard ob True marked \<Longrightarrow> style = Free \<or> i = 0 \<Longrightarrow>
    effect style t w (w\<lparr>w_holder := (w_holder w)(ob := None),
      w_scopes := (w_scopes w)(t := (w_scopes w t)[i := Guard ob False (marked \<and> w_tls w t \<noteq> Some ob)]),
      w_tls := (if marked \<and> w_tls w t = Some ob then (w_tls w)(t := None) else w_tls w)\<rparr>)"
| ends_guard: "w_scopes w t = Guard ob owned marked # scs \<Longrightarrow>
    effect style t w (w\<lparr>w_holder := (if owned then (w_holder w)(ob := None) else w_holder w),
      w_scopes := (w_scopes w)(t := scs),
      w_tls := (if marked \<and> w_tls w t = Some ob then (w_tls w)(t := None) else w_tls w)\<rparr>)"
| ends_with: "w_scopes w t = With ob prev # scs \<Longrightarrow>
    effect style t w (w\<lparr>w_holder := (w_holder w)(ob := None), w_scopes := (w_scopes w)(t := scs),
      w_tls := (if w_debug w then (w_tls w)(t := prev) else w_tls w)\<rparr>)"
| ends_c_str: "w_scopes w t = C_Str ob # scs \<Longrightarrow>
    effect style t w (w\<lparr>w_holder := (w_holder w)(ob := None), w_scopes := (w_scopes w)(t := scs)\<rparr>)"

lemma at_idx_Some: "at_idx xs i = Some x \<longleftrightarrow> i < length xs \<and> xs ! i = x"
  by (auto simp: at_idx_def)

lemma no_effect [simp, intro]: "effect style t w w"
  using effect.writes [of "w_str w" w t style] by simp

lemma write_effect [intro]:
  "w_holder w ob = None \<or> w_holder w ob = Some t \<Longrightarrow> effect style t w (w\<lparr>w_str := (w_str w)(ob := s)\<rparr>)"
  by (rule effect.writes) auto

lemma locked_effect:
  "locked b t ob w = Ms_Returns r w' \<or> locked b t ob w = Ms_Throws e w' \<Longrightarrow> effect style t w w'"
  by (auto simp: locked_def split: if_splits option.splits sum.splits)

lemma pair_effect: "pair_call moved other m \<Longrightarrow> m t ob w = Ms_Returns r w' \<Longrightarrow> effect style t w w'"
  by (induction rule: pair_call.induct)
    (auto simp: ms_copy_assign_def ms_move_assign_def ms_swap_def lock_both_def Let_def min_def max_def
      split: if_splits intro!: effect.writes)

lemma ctor_effect:
  "ctor_call moved other m \<Longrightarrow> w_holder w ob = None \<Longrightarrow> m t ob w = Ms_Returns r w' \<Longrightarrow> effect style t w w'"
  by (induction rule: ctor_call.induct)
    (auto simp: ms_copy_ctor_def ms_move_ctor_def split: if_splits option.splits intro!: effect.writes)

lemmas world_ops = take_mutex_def free_mutex_def set_scopes_def set_tls_owner_def tls_owner_def
  assert_not_reentrant_def

lemma synchronize_Returns:
  "ms_synchronize t ob w = Ms_Returns r w' \<longleftrightarrow> assert_not_reentrant t ob w \<and> w_holder w ob = None \<and> r = R_unit \<and>
     w' = w\<lparr>w_holder := (w_holder w)(ob := Some t),
       w_scopes := (w_scopes w)(t := Guard ob True (w_debug w) # w_scopes w t),
       w_tls := (if w_debug w then (w_tls w)(t := Some ob) else w_tls w)\<rparr>"
  by (auto simp: ms_synchronize_def locked_ctor_def world_ops split: option.splits)

lemma with_begin_Returns:
  "with_begin t ob w = Ms_Returns r w' \<longleftrightarrow> assert_not_reentrant t ob w \<and> w_holder w ob = None \<and> r = R_unit \<and>
     w' = w\<lparr>w_holder := (w_holder w)(ob := Some t),
       w_scopes := (w_scopes w)(t := With ob (if w_debug w then w_tls w t else None) # w_scopes w t),
       w_tls := (if w_debug w then (w_tls w)(t := Some ob) else w_tls w)\<rparr>"
  by (auto simp: with_begin_def Let_def world_ops split: option.splits)

lemma c_str_Returns:
  "ms_c_str t ob w = Ms_Returns r w' \<longleftrightarrow> assert_not_reentrant t ob w \<and> w_holder w ob = None \<and> r = R_unit \<and>
     w' = w\<lparr>w_holder := (w_holder w)(ob := Some t), w_scopes := (w_scopes w)(t := C_Str ob # w_scopes w t)\<rparr>"
  by (auto simp: ms_c_str_def world_ops split: option.splits)

lemma opening_effect:
  "style = Flat \<longrightarrow> w_scopes w t = [] \<Longrightarrow> ms_synchronize t ob w = Ms_Returns r w' \<Longrightarrow> effect style t w w'"
  "style = Flat \<longrightarrow> w_scopes w t = [] \<Longrightarrow> with_begin t ob w = Ms_Returns r w' \<Longrightarrow> effect style t w w'"
  "style \<noteq> Flat \<Longrightarrow> ms_c_str t ob w = Ms_Returns r w' \<Longrightarrow> effect style t w w'"
  unfolding synchronize_Returns with_begin_Returns c_str_Returns
  by (metis effect.opens, metis effect.opens, metis effect.opens_c_str)

lemma unlock_Some:
  assumes "locked_unlock i t w = Some w'"
  obtains ob marked where "i < length (w_scopes w t)" "w_scopes w t ! i = Guard ob True marked"
    "w' = w\<lparr>w_holder := (w_holder w)(ob := None),
       w_scopes := (w_scopes w)(t := (w_scopes w t)[i := Guard ob False (marked \<and> w_tls w t \<noteq> Some ob)]),
       w_tls := (if marked \<and> w_tls w t = Some ob then (w_tls w)(t := None) else w_tls w)\<rparr>"
proof -
  obtain ob marked where sc: "i < length (w_scopes w t)" "w_scopes w t ! i = Guard ob True marked"
    using assms by (auto simp: locked_unlock_def at_idx_Some split: option.splits scope.splits bool.splits)
  show thesis
    by (rule that [OF sc]) (use assms sc in \<open>auto simp: locked_unlock_def world_ops at_idx_def Let_def\<close>)
qed

lemma dtor_Some:
  assumes "locked_dtor t w = Some w'"
  obtains ob owned marked scs where "w_scopes w t = Guard ob owned marked # scs"
    "w' = w\<lparr>w_holder := (if owned then (w_holder w)(ob := None) else w_holder w),
      w_scopes := (w_scopes w)(t := scs),
      w_tls := (if marked \<and> w_tls w t = Some ob then (w_tls w)(t := None) else w_tls w)\<rparr>"
proof -
  obtain ob owned marked scs where sc: "w_scopes w t = Guard ob owned marked # scs"
    using assms by (auto simp: locked_dtor_def split: list.splits scope.splits)
  show thesis by (rule that [OF sc]) (use assms sc in \<open>auto simp: locked_dtor_def world_ops Let_def\<close>)
qed

lemma with_end_Some:
  assumes "with_end t w = Some w'"
  obtains ob prev scs where "w_scopes w t = With ob prev # scs"
    "w' = w\<lparr>w_holder := (w_holder w)(ob := None), w_scopes := (w_scopes w)(t := scs),
      w_tls := (if w_debug w then (w_tls w)(t := prev) else w_tls w)\<rparr>"
proof -
  obtain ob prev scs where sc: "w_scopes w t = With ob prev # scs"
    using assms by (auto simp: with_end_def split: list.splits scope.splits)
  show thesis by (rule that [OF sc]) (use assms sc in \<open>auto simp: with_end_def world_ops Let_def\<close>)
qed

lemma unlock_effect:
  "style = Free \<or> i = 0 \<Longrightarrow> locked_unlock i t w = Some w' \<Longrightarrow> effect style t w w'"
  by (metis unlock_Some effect.unlocks)

lemma ending_effect:
  "locked_dtor t w = Some w' \<Longrightarrow> effect style t w w'"
  "with_end t w = Some w' \<Longrightarrow> effect style t w w'"
  "c_str_end t w = Some w' \<Longrightarrow> effect style t w w'"
proof -
  show "effect style t w w'" if "locked_dtor t w = Some w'"
    using that by (metis dtor_Some effect.ends_guard)
  show "effect style t w w'" if "with_end t w = Some w'"
    using that by (metis with_end_Some effect.ends_with)
  show "effect style t w w'" if "c_str_end t w = Some w'"
    using that by (auto simp: c_str_end_def world_ops split: list.splits scope.splits
      dest: effect.ends_c_str [where style = style])
qed

section \<open>The mutexes\<close>

fun owns :: "nat \<Rightarrow> scope \<Rightarrow> bool" where
  "owns ob (Guard a owned marked) \<longleftrightarrow> owned \<and> a = ob"
| "owns ob (With a prev) \<longleftrightarrow> a = ob"
| "owns ob (C_Str a) \<longleftrightarrow> a = ob"

definition owners :: "nat \<Rightarrow> nat \<Rightarrow> ms_world \<Rightarrow> nat" where
  "owners ob t w = length (filter (owns ob) (w_scopes w t))"

definition lock_inv :: "ms_world \<Rightarrow> bool" where
  "lock_inv w \<longleftrightarrow> (\<forall>ob t. owners ob t w = (if w_holder w ob = Some t then 1 else 0))"

lemma lock_inv_owns: "lock_inv w \<Longrightarrow> sc \<in> set (w_scopes w t) \<Longrightarrow> owns ob sc \<Longrightarrow> w_holder w ob = Some t"
  by (auto simp: lock_inv_def owners_def filter_empty_conv split: if_splits)

lemma access_effect:
  assumes "guard_access i b t w = Ms_Returns r w' \<or> guard_access i b t w = Ms_Throws e w'" "lock_inv w"
  shows "effect style t w w'"
proof -
  obtain ob owned marked where sc: "i < length (w_scopes w t)" "w_scopes w t ! i = Guard ob owned marked"
    using assms(1) by (auto simp: guard_access_def at_idx_Some split: option.splits scope.splits)
  then have "owned \<Longrightarrow> w_holder w ob = Some t"
    using lock_inv_owns [OF assms(2), of "Guard ob owned marked" t ob] nth_mem by fastforce
  then show ?thesis using assms(1) sc
    by (auto simp: guard_access_def at_idx_def split: if_splits sum.splits)
qed

lemma with_access_effect:
  assumes "with_access i f t w = Some w'" "lock_inv w"
  shows "effect style t w w'"
proof -
  obtain ob prev where sc: "i < length (w_scopes w t)" "w_scopes w t ! i = With ob prev"
    and w': "w' = w\<lparr>w_str := (w_str w)(ob := f (w_str w ob))\<rparr>"
    using assms(1) by (auto simp: with_access_def at_idx_Some split: option.splits scope.splits)
  have "w_holder w ob = Some t"
    by (rule lock_inv_owns [OF assms(2)]) (use sc nth_mem in fastforce)+
  then show ?thesis unfolding w' by auto
qed

lemma new_effect:
  "w_holder w ob = None \<Longrightarrow> effect style t w (ms_from_string s ob w)"
  "w_holder w ob = None \<Longrightarrow> effect style t w (ms_from_cstr p ob w)"
  by (auto simp: ms_from_string_def ms_from_cstr_def)

lemma step_effect: "ms_step mx moved style t w w' \<Longrightarrow> lock_inv w \<Longrightarrow> effect style t w w'"
  by (induction rule: ms_step.induct)
    (auto dest!: member_locked
      intro: locked_effect pair_effect ctor_effect new_effect opening_effect unlock_effect ending_effect
        access_effect with_access_effect)

lemma owners_update:
  "i < length xs \<Longrightarrow> length (filter P (xs[i := x])) + (if P (xs ! i) then 1 else 0) =
   length (filter P xs) + (if P x then 1 else 0)"
  by (subst (3) id_take_nth_drop [of i xs]) (simp_all add: upd_conv_take_nth_drop)

lemma lock_inv_pop:
  assumes "lock_inv w" "w_scopes w t = sc # scs"
  shows "length (filter (owns b) scs) = (if w_holder w b = Some t \<and> \<not> owns b sc then 1 else 0)"
    and "owns b sc \<Longrightarrow> w_holder w b = Some t"
proof -
  have "length (filter (owns b) (sc # scs)) = (if w_holder w b = Some t then 1 else 0)"
    using assms by (simp add: lock_inv_def owners_def flip: assms(2))
  then show "length (filter (owns b) scs) = (if w_holder w b = Some t \<and> \<not> owns b sc then 1 else 0)"
    by (auto split: if_splits simp del: length_0_conv)
  show "owns b sc \<Longrightarrow> w_holder w b = Some t" using lock_inv_owns [OF assms(1), of sc t b] assms(2) by simp
qed

lemma effect_lock_inv:
  assumes "effect style t w w'" and inv: "lock_inv w"
  shows "lock_inv w'"
proof -
  have I: "length (filter (owns ob) (w_scopes w u)) = (if w_holder w ob = Some u then 1 else 0)" for ob u
    using inv by (simp add: lock_inv_def owners_def)
  note [simp] = lock_inv_def owners_def I and [simp del] = length_0_conv
  show ?thesis using assms(1)
  proof (induction rule: effect.induct)
    case (writes s')
    then show ?case by simp
  next
    case (opens ob sc)
    then show ?case by auto
  next
    case (opens_c_str ob)
    then show ?case by simp
  next
    case (unlocks i ob marked)
    have "length (filter (owns b) ((w_scopes w t)[i := Guard ob False m])) =
        (if w_holder w b = Some t \<and> b \<noteq> ob then 1 else 0)" for b m
      using owners_update [OF unlocks(1), of "owns b" "Guard ob False m"] unlocks(2)
      by (auto split: if_splits)
    moreover have "w_holder w ob = Some t"
      using lock_inv_owns [OF inv, of "Guard ob True marked" t ob] unlocks(1,2) nth_mem by fastforce
    ultimately show ?case by auto
  next
    case (ends_guard ob owned marked scs)
    show ?case using lock_inv_pop [OF inv ends_guard, of ob] by (auto simp: lock_inv_pop(1) [OF inv ends_guard])
  next
    case (ends_with ob prev scs)
    show ?case using lock_inv_pop [OF inv ends_with, of ob] by (auto simp: lock_inv_pop(1) [OF inv ends_with])
  next
    case (ends_c_str ob scs)
    show ?case using lock_inv_pop [OF inv ends_c_str, of ob] by (auto simp: lock_inv_pop(1) [OF inv ends_c_str])
  qed
qed

lemma reachable_lock_inv: "ms_reachable mx moved style w \<Longrightarrow> lock_inv w"
proof (induction rule: ms_reachable.induct)
  case (start debug)
  then show ?case by (simp add: lock_inv_def owners_def ms_start_def)
next
  case (step w t w')
  then show ?case using effect_lock_inv step_effect by blast
qed


text \<open>C26: Mutual exclusion. In every reachable state, whatever the threads do, the mutex of an object is
  held by a thread if and only if exactly one of the open scopes of that thread owns it; no other thread
  has a scope that owns it.\<close>

theorem mutex_owned_once:
  assumes "ms_reachable mx moved style w"
  shows "length (filter (owns ob) (w_scopes w t)) = (if w_holder w ob = Some t then 1 else 0)"
  using reachable_lock_inv [OF assms] by (simp add: lock_inv_def owners_def)

lemma effect_others:
  "effect style u w w' \<Longrightarrow> lock_inv w \<Longrightarrow> w_holder w ob = Some t \<Longrightarrow> u \<noteq> t \<Longrightarrow>
   w_str w' ob = w_str w ob \<and> w_holder w' ob = Some t \<and> w_scopes w' t = w_scopes w t \<and> w_tls w' t = w_tls w t"
proof (induction rule: effect.induct)
  case (writes s')
  then show ?case using writes(1) [of ob] by auto
next
  case (unlocks i a marked)
  then have "w_holder w a = Some u"
    using lock_inv_owns [OF unlocks(4), of "Guard a True marked" u a] nth_mem by fastforce
  then show ?case using unlocks by auto
next
  case (ends_guard a owned marked scs)
  then have "owned \<Longrightarrow> w_holder w a = Some u"
    using lock_inv_owns [of w "Guard a owned marked" u a] by simp
  then show ?case using ends_guard by auto
next
  case (ends_with a prev scs)
  then have "w_holder w a = Some u"
    using lock_inv_owns [of w "With a prev" u a] by simp
  then show ?case using ends_with by auto
next
  case (ends_c_str a scs)
  then have "w_holder w a = Some u"
    using lock_inv_owns [of w "C_Str a" u a] by simp
  then show ?case using ends_c_str by auto
qed auto

text \<open>C27: Isolation. While a thread holds the mutex of an object, through a guard, \<open>with_lock\<close> or the guard
  of \<open>c_str\<close>, no step of another thread changes the string of the object or takes the mutex away.\<close>

theorem held_string_isolated:
  assumes "ms_reachable mx moved style w" "w_holder w ob = Some t" "ms_step mx moved style u w w'" "u \<noteq> t"
  shows "w_str w' ob = w_str w ob \<and> w_holder w' ob = Some t"
  using effect_others [OF step_effect [OF assms(3) reachable_lock_inv [OF assms(1)]] reachable_lock_inv [OF assms(1)]
      assms(2,4)] by blast


section \<open>The assertions of the debug build\<close>

fun marks :: "nat \<Rightarrow> scope \<Rightarrow> bool" where
  "marks ob (Guard a owned marked) \<longleftrightarrow> owned \<and> a = ob"
| "marks ob (With a prev) \<longleftrightarrow> a = ob"
| "marks ob (C_Str a) \<longleftrightarrow> False"

fun prevs_ok :: "scope list \<Rightarrow> bool" where
  "prevs_ok [] \<longleftrightarrow> True"
| "prevs_ok (With a prev # scs) \<longleftrightarrow> (\<forall>q. prev = Some q \<longrightarrow> (\<exists>sc \<in> set scs. marks q sc)) \<and> prevs_ok scs"
| "prevs_ok (sc # scs) \<longleftrightarrow> prevs_ok scs"

fun well_marked :: "bool \<Rightarrow> scope \<Rightarrow> bool" where
  "well_marked debug (Guard a owned marked) \<longleftrightarrow> (owned \<longrightarrow> marked = debug)"
| "well_marked debug sc \<longleftrightarrow> True"

definition mark_inv :: "nat \<Rightarrow> ms_world \<Rightarrow> bool" where
  "mark_inv t w \<longleftrightarrow> (\<forall>ob. w_tls w t = Some ob \<longrightarrow> w_debug w \<and> (\<exists>sc \<in> set (w_scopes w t). marks ob sc)) \<and>
     prevs_ok (w_scopes w t) \<and> list_all (well_marked (w_debug w)) (w_scopes w t)"

lemma marks_owns: "marks ob sc \<Longrightarrow> owns ob sc"
  by (cases sc) auto

lemma prevs_ok_pop: "prevs_ok (sc # scs) \<Longrightarrow> prevs_ok scs"
  by (cases sc) auto

lemma effect_debug: "effect style t w w' \<Longrightarrow> w_debug w' = w_debug w"
  by (induction rule: effect.induct) auto

lemma effect_elsewhere: "effect style u w w' \<Longrightarrow> u \<noteq> t \<Longrightarrow> w_tls w' t = w_tls w t \<and> w_scopes w' t = w_scopes w t"
  by (induction rule: effect.induct) auto

lemma effect_mark_inv:
  "effect style t w w' \<Longrightarrow> style \<noteq> Free \<Longrightarrow> mark_inv t w \<Longrightarrow> mark_inv t w'"
proof (induction rule: effect.induct)
  case (opens ob sc)
  then show ?case by (auto simp: mark_inv_def)
next
  case (unlocks i ob marked)
  then obtain scs where "w_scopes w t = Guard ob True marked # scs" by (cases "w_scopes w t") auto
  then show ?case using unlocks by (auto simp: mark_inv_def)
next
  case (ends_guard ob owned marked scs)
  then show ?case by (auto simp: mark_inv_def)
next
  case (ends_with ob prev scs)
  then show ?case by (auto simp: mark_inv_def)
qed (auto simp: mark_inv_def)

lemma reachable_mark_inv: "ms_reachable mx moved style w \<Longrightarrow> style \<noteq> Free \<Longrightarrow> mark_inv t w"
proof (induction rule: ms_reachable.induct)
  case (start debug)
  then show ?case by (simp add: mark_inv_def ms_start_def)
next
  case (step w u w')
  then have e: "effect style u w w'" using step_effect reachable_lock_inv by blast
  show ?case
  proof (cases "u = t")
    case True
    then show ?thesis using effect_mark_inv e step by blast
  next
    case False
    then show ?thesis using step effect_elsewhere [OF e] effect_debug [OF e] by (simp add: mark_inv_def)
  qed
qed

lemma tls_holds: "ms_reachable mx moved style w \<Longrightarrow> style \<noteq> Free \<Longrightarrow> w_tls w t = Some ob \<Longrightarrow> w_holder w ob = Some t"
  using reachable_mark_inv [of mx moved style w t] lock_inv_owns [OF reachable_lock_inv, of mx moved style w]
  by (auto simp: mark_inv_def dest: marks_owns)

text \<open>Every entry point on one object starts with the same check.\<close>

definition entry_call :: "nat \<Rightarrow> call \<Rightarrow> bool" where
  "entry_call mx m \<longleftrightarrow> member_call mx m \<or> m = ms_synchronize \<or> m = with_begin \<or> m = ms_c_str"

lemma entry_cases:
  assumes "entry_call mx m"
  obtains "\<not> assert_not_reentrant t ob w" "m t ob w = Ms_Asserts"
  | h where "assert_not_reentrant t ob w" "w_holder w ob = Some h" "m t ob w = (if h = t then Ms_Self_Lock else Ms_Waits)"
  | "assert_not_reentrant t ob w" "w_holder w ob = None" "m t ob w \<noteq> Ms_Asserts" "m t ob w \<noteq> Ms_Self_Lock"
proof (cases "assert_not_reentrant t ob w")
  case False
  have "m t ob w = Ms_Asserts"
    using assms False by (auto simp: entry_call_def ms_synchronize_def with_begin_def ms_c_str_def locked_def
      dest!: member_locked)
  then show thesis using that(1) False by blast
next
  case True
  note entry = entry_call_def ms_synchronize_def locked_ctor_def with_begin_def ms_c_str_def locked_def
    take_mutex_def Let_def
  show thesis
  proof (cases "w_holder w ob")
    case (Some h)
    have "m t ob w = (if h = t then Ms_Self_Lock else Ms_Waits)"
      using assms True Some by (auto simp: entry set_tls_owner_def dest!: member_locked)
    then show thesis using that(2) True Some by blast
  next
    case None
    have "m t ob w \<noteq> Ms_Asserts \<and> m t ob w \<noteq> Ms_Self_Lock"
      using assms True None
      by (auto simp: entry set_tls_owner_def assert_not_reentrant_def tls_owner_def dest!: member_locked
        split: sum.splits if_splits)
    then show thesis using that(3) True None by blast
  qed
qed

fun innermost :: "scope list \<Rightarrow> nat option" where
  "innermost [Guard ob True marked] = Some ob"
| "innermost [With ob prev] = Some ob"
| "innermost scs = None"

fun one_scope :: "bool \<Rightarrow> scope list \<Rightarrow> bool" where
  "one_scope debug [] \<longleftrightarrow> True"
| "one_scope debug [Guard ob owned marked] \<longleftrightarrow> (owned \<longrightarrow> marked = debug)"
| "one_scope debug [With ob prev] \<longleftrightarrow> prev = None"
| "one_scope debug scs \<longleftrightarrow> False"

definition flat_inv :: "nat \<Rightarrow> ms_world \<Rightarrow> bool" where
  "flat_inv t w \<longleftrightarrow> w_tls w t = (if w_debug w then innermost (w_scopes w t) else None) \<and>
     one_scope (w_debug w) (w_scopes w t)"

lemma effect_flat_inv: "effect Flat t w w' \<Longrightarrow> flat_inv t w \<Longrightarrow> flat_inv t w'"
proof (induction rule: effect.induct)
  case (writes s')
  then show ?case by (simp add: flat_inv_def)
next
  case (opens ob sc)
  then show ?case by (auto simp: flat_inv_def)
next
  case (unlocks i ob marked)
  then obtain scs where "w_scopes w t = Guard ob True marked # scs" by (cases "w_scopes w t") auto
  then show ?case using unlocks by (cases scs) (auto simp: flat_inv_def)
next
  case (ends_guard ob owned marked scs)
  then show ?case by (cases scs; cases owned) (auto simp: flat_inv_def)
next
  case (ends_with ob prev scs)
  then show ?case by (cases scs) (auto simp: flat_inv_def)
qed (auto simp: flat_inv_def)

lemma reachable_flat_inv: "ms_reachable mx moved Flat w \<Longrightarrow> flat_inv t w"
proof (induction rule: ms_reachable.induct)
  case (start debug)
  then show ?case by (simp add: flat_inv_def ms_start_def)
next
  case (step w u w')
  then have e: "effect Flat u w w'" using step_effect reachable_lock_inv by blast
  show ?case
  proof (cases "u = t")
    case True
    then show ?thesis using effect_flat_inv e step by blast
  next
    case False
    then show ?thesis using step effect_elsewhere [OF e] effect_debug [OF e] by (simp add: flat_inv_def)
  qed
qed

lemma flat_holder_marked:
  assumes "ms_reachable mx moved Flat w" "w_debug w" "w_holder w ob = Some t"
  shows "w_tls w t = Some ob"
proof -
  have "owners ob t w = 1" using reachable_lock_inv [OF assms(1)] assms(3) by (simp add: lock_inv_def)
  moreover have "flat_inv t w" by (rule reachable_flat_inv [OF assms(1)])
  ultimately show ?thesis using assms(2)
    by (cases "(w_debug w, w_scopes w t)" rule: one_scope.cases)
      (auto simp: flat_inv_def owners_def split: if_splits)
qed

text \<open>C28: In a program that opens one guard or \<open>with_lock\<close> scope at a time, the debug build is exact about
  re-entrancy: an entry point of an object stops at the assertion if and only if its thread holds the
  mutex, so it never locks a mutex of its own thread a second time.\<close>

theorem flat_reentrancy_caught:
  assumes "ms_reachable mx moved Flat w" "w_debug w" "entry_call mx m"
  shows "(m t ob w = Ms_Asserts) = (w_holder w ob = Some t) \<and> m t ob w \<noteq> Ms_Self_Lock"
  using assms(3)
proof (cases rule: entry_cases [of mx m t ob w])
  case 1
  then show ?thesis using tls_holds [OF assms(1), of t ob] by (simp add: assert_not_reentrant_def tls_owner_def)
next
  case (2 h)
  then show ?thesis using flat_holder_marked [OF assms(1,2), of ob h]
    by (auto simp: assert_not_reentrant_def tls_owner_def assms(2))
next
  case 3
  then show ?thesis by simp
qed

text \<open>With any nesting of scopes, as long as \<open>unlock()\<close> is only called on the innermost one, an assertion
  stops the program only for a thread that holds the mutex of the object it calls.\<close>

theorem no_false_alarm:
  assumes "ms_reachable mx moved Tidy w" "entry_call mx m" "m t ob w = Ms_Asserts"
  shows "w_holder w ob = Some t"
  using assms(2)
proof (cases rule: entry_cases [of mx m t ob w])
  case 1
  then show ?thesis using tls_holds [OF assms(1), of t ob] by (simp add: assert_not_reentrant_def tls_owner_def)
qed (use assms(3) in \<open>auto split: if_splits\<close>)


subsection \<open>The release build\<close>

text \<open>What is left of a state of the debug build when the marks are taken out.\<close>

fun unmark :: "scope \<Rightarrow> scope" where
  "unmark (Guard ob owned marked) = Guard ob owned False"
| "unmark (With ob prev) = With ob None"
| "unmark (C_Str ob) = C_Str ob"

definition release :: "ms_world \<Rightarrow> ms_world" where
  "release w = w\<lparr>w_debug := False, w_tls := (\<lambda>t. None), w_scopes := (\<lambda>t. map unmark (w_scopes w t))\<rparr>"

lemma release_simps [simp]:
  "w_debug (release w) = False" "w_str (release w) = w_str w" "w_holder (release w) = w_holder w"
  "w_tls (release w) t = None" "w_scopes (release w) t = map unmark (w_scopes w t)"
  "assert_not_reentrant t ob (release w)"
  "release (w\<lparr>w_str := s'\<rparr>) = (release w)\<lparr>w_str := s'\<rparr>"
  by (simp_all add: release_def assert_not_reentrant_def)

lemma release_locked:
  "locked b t ob w = Ms_Returns r w' \<Longrightarrow> locked b t ob (release w) = Ms_Returns r (release w')"
  "locked b t ob w = Ms_Throws e w' \<Longrightarrow> locked b t ob (release w) = Ms_Throws e (release w')"
  by (auto simp: locked_def split: if_splits option.splits sum.splits)

lemma release_pair:
  "pair_call moved other m \<Longrightarrow> m t ob w = Ms_Returns r w' \<Longrightarrow> m t ob (release w) = Ms_Returns r (release w')"
  by (induction rule: pair_call.induct)
    (auto simp: ms_copy_assign_def ms_move_assign_def ms_swap_def lock_both_def Let_def split: if_splits)

lemma release_ctor:
  "ctor_call moved other m \<Longrightarrow> m t ob w = Ms_Returns r w' \<Longrightarrow> m t ob (release w) = Ms_Returns r (release w')"
  by (induction rule: ctor_call.induct)
    (auto simp: ms_copy_ctor_def ms_move_ctor_def split: if_splits option.splits)

lemma release_opening:
  "ms_synchronize t ob w = Ms_Returns r w' \<Longrightarrow> ms_synchronize t ob (release w) = Ms_Returns r (release w')"
  "with_begin t ob w = Ms_Returns r w' \<Longrightarrow> with_begin t ob (release w) = Ms_Returns r (release w')"
  "ms_c_str t ob w = Ms_Returns r w' \<Longrightarrow> ms_c_str t ob (release w) = Ms_Returns r (release w')"
  unfolding synchronize_Returns with_begin_Returns c_str_Returns
  by (auto simp: release_def assert_not_reentrant_def intro!: ms_world.equality)

lemma release_unlock:
  assumes "locked_unlock i t w = Some w'"
  shows "locked_unlock i t (release w) = Some (release w')"
  using assms
proof (rule unlock_Some)
  fix ob marked
  assume "i < length (w_scopes w t)" "w_scopes w t ! i = Guard ob True marked"
    "w' = w\<lparr>w_holder := (w_holder w)(ob := None),
       w_scopes := (w_scopes w)(t := (w_scopes w t)[i := Guard ob False (marked \<and> w_tls w t \<noteq> Some ob)]),
       w_tls := (if marked \<and> w_tls w t = Some ob then (w_tls w)(t := None) else w_tls w)\<rparr>"
  then show ?thesis
    by (auto simp: locked_unlock_def at_idx_def world_ops release_def map_update intro!: ms_world.equality)
qed

lemma release_dtor:
  assumes "locked_dtor t w = Some w'"
  shows "locked_dtor t (release w) = Some (release w')"
  using assms
proof (rule dtor_Some)
  fix ob owned marked scs
  assume "w_scopes w t = Guard ob owned marked # scs"
    "w' = w\<lparr>w_holder := (if owned then (w_holder w)(ob := None) else w_holder w),
      w_scopes := (w_scopes w)(t := scs),
      w_tls := (if marked \<and> w_tls w t = Some ob then (w_tls w)(t := None) else w_tls w)\<rparr>"
  then show ?thesis by (auto simp: locked_dtor_def world_ops release_def intro!: ms_world.equality)
qed

lemma release_with_end:
  assumes "with_end t w = Some w'"
  shows "with_end t (release w) = Some (release w')"
  using assms
proof (rule with_end_Some)
  fix ob prev scs
  assume "w_scopes w t = With ob prev # scs"
    "w' = w\<lparr>w_holder := (w_holder w)(ob := None), w_scopes := (w_scopes w)(t := scs),
      w_tls := (if w_debug w then (w_tls w)(t := prev) else w_tls w)\<rparr>"
  then show ?thesis by (auto simp: with_end_def world_ops release_def intro!: ms_world.equality)
qed

lemma release_c_str_end: "c_str_end t w = Some w' \<Longrightarrow> c_str_end t (release w) = Some (release w')"
  by (auto simp: c_str_end_def world_ops release_def intro!: ms_world.equality split: list.splits scope.splits)

lemma release_access:
  "guard_access i b t w = Ms_Returns r w' \<Longrightarrow> guard_access i b t (release w) = Ms_Returns r (release w')"
  "guard_access i b t w = Ms_Throws e w' \<Longrightarrow> guard_access i b t (release w) = Ms_Throws e (release w')"
  "with_access i f t w = Some w' \<Longrightarrow> with_access i f t (release w) = Some (release w')"
  by (auto simp: guard_access_def with_access_def at_idx_def
    split: if_splits option.splits scope.splits sum.splits)

lemma release_step: "ms_step mx moved style t w w' \<Longrightarrow> ms_step mx moved style t (release w) (release w')"
proof (induction rule: ms_step.induct)
  case (s_call m ob r w')
  then show ?case using ms_step.s_call release_locked(1) by (metis member_locked)
next
  case (s_throw m ob e w')
  then show ?case using ms_step.s_throw release_locked(2) by (metis member_locked)
next
  case (s_pair other m ob r w')
  then show ?case using ms_step.s_pair release_pair by blast
next
  case (s_ctor other m ob r w')
  then show ?case using ms_step.s_ctor release_ctor by (metis release_simps(3))
next
  case (s_new ob s)
  then show ?case using ms_step.s_new [of "release w" ob] by (simp add: ms_from_string_def)
next
  case (s_new_cstr ob p)
  then show ?case using ms_step.s_new_cstr [of "release w" ob] by (simp add: ms_from_cstr_def)
next
  case (s_guard ob r w')
  then show ?case using ms_step.s_guard release_opening(1) by (metis release_simps(5) list.simps(8))
next
  case (s_with ob r w')
  then show ?case using ms_step.s_with release_opening(2) by (metis release_simps(5) list.simps(8))
next
  case (s_c_str ob r w')
  then show ?case using ms_step.s_c_str release_opening(3) by blast
next
  case (s_unlock i w')
  then show ?case using ms_step.s_unlock release_unlock by blast
next
  case (s_guard_access i b r w')
  then show ?case using ms_step.s_guard_access release_access(1) by blast
next
  case (s_guard_throw i b e w')
  then show ?case using ms_step.s_guard_throw release_access(2) by blast
next
  case (s_with_access i f w')
  then show ?case using ms_step.s_with_access release_access(3) by blast
next
  case (s_guard_end w')
  then show ?case using ms_step.s_guard_end release_dtor by blast
next
  case (s_with_end w')
  then show ?case using ms_step.s_with_end release_with_end by blast
next
  case (s_c_str_end w')
  then show ?case using ms_step.s_c_str_end release_c_str_end by blast
qed

lemma release_start: "release (ms_start debug) = ms_start False"
  by (simp add: release_def ms_start_def)

text \<open>C29: The checks of the debug build only ever stop a program. Whatever state a program reaches in the
  debug build, the same steps take the release build to the same state without the marks: the same
  strings, the same mutexes held by the same scopes.\<close>

theorem release_build_agrees:
  "ms_reachable mx moved style w \<Longrightarrow> ms_reachable mx moved style (release w)"
proof (induction rule: ms_reachable.induct)
  case (start debug)
  then show ?case unfolding release_start by (rule ms_reachable.start)
next
  case (step w t w')
  then show ?case using ms_reachable.step release_step by blast
qed


section \<open>Runs\<close>

text \<open>Thread 0 of the debug build opens a guard on object 1, and then a second one on object 2.\<close>

definition one_guard :: ms_world where
  "one_guard = (ms_start True)\<lparr>w_holder := [1 \<mapsto> 0], w_scopes := (\<lambda>t. [])(0 := [Guard 1 True True]), w_tls := [0 \<mapsto> 1]\<rparr>"

definition two_guards :: ms_world where
  "two_guards = (ms_start True)\<lparr>w_holder := [1 \<mapsto> 0, 2 \<mapsto> 0],
     w_scopes := (\<lambda>t. [])(0 := [Guard 2 True True, Guard 1 True True]), w_tls := [0 \<mapsto> 2]\<rparr>"

lemma one_guard_opens: "ms_synchronize 0 1 (ms_start True) = Ms_Returns R_unit one_guard"
  by (auto simp: synchronize_Returns one_guard_def ms_start_def assert_not_reentrant_def tls_owner_def)

lemma one_guard_reachable: "ms_reachable mx moved style one_guard"
  by (rule ms_reachable.step [OF ms_reachable.start ms_step.s_guard [OF _ one_guard_opens]]) (simp add: ms_start_def)

lemma two_guards_open: "ms_synchronize 0 2 one_guard = Ms_Returns R_unit two_guards"
  by (auto simp: synchronize_Returns one_guard_def two_guards_def ms_start_def assert_not_reentrant_def tls_owner_def
    intro!: ms_world.equality)

lemma two_guards_reachable: "style \<noteq> Flat \<Longrightarrow> ms_reachable mx moved style two_guards"
  by (rule ms_reachable.step [OF one_guard_reachable ms_step.s_guard [OF _ two_guards_open]]) simp

theorem mutex_owned_once_witness:
  "ms_reachable 100 id Tidy two_guards \<and>
   length (filter (owns 1) (w_scopes two_guards 0)) = (if w_holder two_guards 1 = Some 0 then 1 else 0)"
  using two_guards_reachable [of Tidy] mutex_owned_once [OF two_guards_reachable [of Tidy 100 id], of 1 0] by blast

theorem held_string_isolated_witness:
  "w_holder one_guard 1 = Some 0 \<and> w_str (ms_from_string ''x'' 2 one_guard) 1 = w_str one_guard 1 \<and>
   w_holder (ms_from_string ''x'' 2 one_guard) 1 = Some 0"
proof -
  have h: "w_holder one_guard 1 = Some 0" "w_holder one_guard 2 = None" by (simp_all add: one_guard_def ms_start_def)
  show ?thesis
    using h(1) held_string_isolated [OF one_guard_reachable [of 100 id Free] h(1) ms_step.s_new [OF h(2)], of 5]
    by simp
qed

lemma size_is_entry: "entry_call mx ms_size"
  by (simp add: entry_call_def member_call.intros)

theorem flat_reentrancy_caught_witness:
  "(ms_size 0 1 one_guard = Ms_Asserts) = (w_holder one_guard 1 = Some 0) \<and> ms_size 0 1 one_guard \<noteq> Ms_Self_Lock"
  by (rule flat_reentrancy_caught [OF one_guard_reachable _ size_is_entry]) (simp add: one_guard_def ms_start_def)

theorem no_false_alarm_witness: "w_holder two_guards 2 = Some 0"
  by (rule no_false_alarm [OF two_guards_reachable [of Tidy] size_is_entry])
    (simp_all add: two_guards_def ms_size_def locked_def assert_not_reentrant_def tls_owner_def ms_start_def)

theorem release_build_agrees_witness: "ms_reachable 100 id Tidy (release two_guards)"
  by (rule release_build_agrees [OF two_guards_reachable]) simp

subsection \<open>What the checks miss\<close>

text \<open>With two guards open, the destructor of the inner one forgets the mark altogether, so a call on the
  object of the outer one locks a mutex its own thread holds. The two guards need not even be closed: the
  mark names the inner object only.\<close>

lemma nested_guard_missed:
  "ms_reachable mx moved Tidy two_guards" "ms_size 0 1 two_guards = Ms_Self_Lock"
  "\<exists>w. locked_dtor 0 two_guards = Some w \<and> ms_reachable mx moved Tidy w \<and> ms_size 0 1 w = Ms_Self_Lock"
proof -
  show r: "ms_reachable mx moved Tidy two_guards" by (rule two_guards_reachable) simp
  show "ms_size 0 1 two_guards = Ms_Self_Lock"
    by (simp add: two_guards_def ms_size_def locked_def assert_not_reentrant_def tls_owner_def ms_start_def)
  have d: "locked_dtor 0 two_guards = Some (one_guard\<lparr>w_tls := (\<lambda>t. None)\<rparr>)"
    by (auto simp: locked_dtor_def two_guards_def one_guard_def world_ops ms_start_def intro!: ms_world.equality)
  have "ms_size 0 1 (one_guard\<lparr>w_tls := (\<lambda>t. None)\<rparr>) = Ms_Self_Lock"
    by (simp add: one_guard_def ms_size_def locked_def assert_not_reentrant_def tls_owner_def ms_start_def)
  then show "\<exists>w. locked_dtor 0 two_guards = Some w \<and> ms_reachable mx moved Tidy w \<and> ms_size 0 1 w = Ms_Self_Lock"
    using d ms_reachable.step [OF r ms_step.s_guard_end [OF d]] by blast
qed

text \<open>Assignment checks the object on the left only: assigning from the object of an open guard locks its
  mutex again.\<close>

lemma assign_unchecked:
  "ms_reachable mx moved Flat one_guard" "ms_copy_assign 1 0 2 one_guard = Ms_Self_Lock"
  "ms_copy_ctor 1 0 2 one_guard = Ms_Self_Lock" "ms_swap 1 0 2 one_guard = Ms_Asserts"
  by (simp_all add: one_guard_reachable, simp_all add: ms_copy_assign_def ms_copy_ctor_def ms_swap_def lock_both_def
    one_guard_def assert_not_reentrant_def tls_owner_def ms_start_def)

text \<open>The guard of \<open>c_str\<close> sets no mark, so no call that re-enters it is caught.\<close>

lemma c_str_unmarked:
  "\<exists>w. ms_c_str 0 1 (ms_start True) = Ms_Returns R_unit w \<and> ms_size 0 1 w = Ms_Self_Lock"
  by (auto simp: c_str_Returns ms_size_def locked_def assert_not_reentrant_def tls_owner_def ms_start_def)

text \<open>\<open>unlock()\<close> on a guard inside a \<open>with_lock\<close> of another object leaves a mark behind: when \<open>with_lock\<close>
  restores it, the object can no longer be used although nobody holds it.\<close>

lemma unlock_false_alarm:
  "\<exists>w1 w2 w3. with_begin 0 2 one_guard = Ms_Returns R_unit w1 \<and> locked_unlock 1 0 w1 = Some w2 \<and>
     with_end 0 w2 = Some w3 \<and> w_holder w3 1 = None \<and> ms_size 0 1 w3 = Ms_Asserts"
  by (auto simp: with_begin_Returns locked_unlock_def with_end_def at_idx_def world_ops one_guard_def
    ms_start_def ms_size_def locked_def)

text \<open>Taking out what was put in. If \<open>insert\<close> returns, then \<open>erase\<close> of as many characters at the same
  position brings the whole state back; a position behind the end throws and changes nothing.\<close>

theorem insert_erase:
  "case ms_insert mx pos r t ob w of
     Ms_Returns x w1 \<Rightarrow> ms_erase pos (length r) t ob w1 = Ms_Returns R_unit w \<and> pos \<le> length (w_str w ob)
   | Ms_Throws e w1 \<Rightarrow> w1 = w \<and> (if e = out_of_range then pos > length (w_str w ob)
        else e = length_error \<and> length (w_str w ob) + length r > mx)
   | res \<Rightarrow> res = ms_size t ob w"
proof (cases "assert_not_reentrant t ob w \<and> w_holder w ob = None")
  case True
  have A: "assert_not_reentrant t ob (w\<lparr>w_str := s\<rparr>)" for s
    using True by (simp add: assert_not_reentrant_def tls_owner_def)
  show ?thesis using True A
    by (auto simp: ms_insert_def ms_erase_def locked_def within_def edits_def)
next
  case False
  then show ?thesis by (auto simp: ms_insert_def ms_size_def locked_def split: option.splits)
qed

end
