(* ===== verification/Bit_Array.thy ===== *)
theory Bit_Array
  imports Prelude
begin

text \<open>
  The class \<open>bit_array\<close> of \<open>src/bit/bit_array.cpp\<close>: bytes with a length in bits, the first bit in
  the most significant position. Reading or writing a byte outside a vector is \<open>None\<close>. The
  operations are bit-by-bit loops, as in the code; \<open>bits\<close> is the list of bits an array stands for,
  and the lemmas show that every operation is the corresponding list operation on it.
\<close>

unbundle bit_operations_syntax

section \<open>Model\<close>

record bit_array =
  ba_data :: "uint8 list"
  ba_bit_size :: nat

text \<open>\<open>(data[i / 8] >> (7 - i % 8)) & 1\<close>, and the three ways the code writes a bit.\<close>

definition read_bit :: "uint8 list \<Rightarrow> nat \<Rightarrow> bool option" where
  "read_bit data i = map_option (\<lambda>b. drop_bit (7 - i mod 8) b AND 1 \<noteq> 0) (at_idx data (i div 8))"

definition or_bit :: "uint8 list \<Rightarrow> nat \<Rightarrow> bool \<Rightarrow> uint8 list option" where
  "or_bit data i v =
     Option.bind (at_idx data (i div 8)) (\<lambda>b. put_idx data (i div 8) (b OR push_bit (7 - i mod 8) (of_bool v)))"

definition set_bit :: "uint8 list \<Rightarrow> nat \<Rightarrow> bool \<Rightarrow> uint8 list option" where
  "set_bit data i v =
     Option.bind (at_idx data (i div 8)) (\<lambda>b. put_idx data (i div 8)
       (if v then b OR push_bit (7 - i mod 8) 1 else b AND NOT (push_bit (7 - i mod 8) 1)))"

definition ba_clear :: "bit_array" where
  "ba_clear = \<lparr>ba_data = [], ba_bit_size = 0\<rparr>"

definition ba_from :: "uint8 list \<Rightarrow> nat \<Rightarrow> bit_array" where
  "ba_from bytes nbits = \<lparr>ba_data = bytes, ba_bit_size = (if nbits \<noteq> 0 then nbits else length bytes * 8)\<rparr>"

definition ba_set_bytes :: "nat \<Rightarrow> bit_array" where
  "ba_set_bytes byteSize = \<lparr>ba_data = replicate byteSize 0, ba_bit_size = byteSize * 8\<rparr>"

definition ba_set_bits :: "nat \<Rightarrow> bit_array" where
  "ba_set_bits bitSize = \<lparr>ba_data = replicate ((bitSize + 7) div 8) 0, ba_bit_size = bitSize\<rparr>"

definition ba_get :: "bit_array \<Rightarrow> nat \<Rightarrow> nat \<Rightarrow> bit_array option" where
  "ba_get b bitOffset bitLength =
     (let bitLength =
            (if sz_add bitOffset bitLength > ba_bit_size b
             then if bitOffset < ba_bit_size b then ba_bit_size b - bitOffset else 0
             else bitLength)
      in Option.bind
           (fold_opt (\<lambda>i sub. Option.bind (read_bit (ba_data b) (bitOffset + i)) (or_bit sub i))
              [0..<bitLength] (replicate (sz_add bitLength 7 div 8) 0))
           (\<lambda>sub. Some (ba_from sub bitLength)))"

definition ba_merge :: "bit_array \<Rightarrow> bit_array \<Rightarrow> nat \<Rightarrow> (bool \<times> bit_array) option" where
  "ba_merge b input bitOffset =
     (if bitOffset \<ge> ba_bit_size b then Some (False, b)
      else
        let mergeLength = min (ba_bit_size input) (ba_bit_size b - bitOffset)
        in map_option (\<lambda>data. (True, b\<lparr>ba_data := data\<rparr>))
             (fold_opt (\<lambda>i data. Option.bind (read_bit (ba_data input) i) (set_bit data (bitOffset + i)))
                [0..<mergeLength] (ba_data b)))"

definition ba_plus :: "bit_array \<Rightarrow> bit_array \<Rightarrow> bit_array option" where
  "ba_plus b other =
     (let totalBits = ba_bit_size b + ba_bit_size other in
      Option.bind
        (fold_opt (\<lambda>i d. Option.bind (read_bit (ba_data b) i) (or_bit d i))
           [0..<ba_bit_size b] (replicate ((totalBits + 7) div 8) 0))
        (\<lambda>d1. Option.bind
          (fold_opt (\<lambda>i d. Option.bind (read_bit (ba_data other) i) (or_bit d (ba_bit_size b + i)))
             [0..<ba_bit_size other] d1)
          (\<lambda>d2. Some (ba_from d2 totalBits))))"

definition ba_to_array :: "bit_array \<Rightarrow> bool list option" where
  "ba_to_array b =
     fold_opt (\<lambda>i acc. map_option (\<lambda>v. acc @ [v]) (read_bit (ba_data b) i)) [0..<ba_bit_size b] []"

definition ba_shl :: "bit_array \<Rightarrow> nat \<Rightarrow> bit_array option" where
  "ba_shl b shift =
     (let result = ba_from (ba_data b) (ba_bit_size b) in
      if shift \<ge> ba_bit_size b
      then Some (result\<lparr>ba_data := replicate ((ba_bit_size b + 7) div 8) 0\<rparr>)
      else map_option (\<lambda>d. result\<lparr>ba_data := d\<rparr>)
        (fold_opt (\<lambda>i d.
             let sourceIndex = i + shift in
             if sourceIndex < ba_bit_size b
             then Option.bind (read_bit (ba_data b) sourceIndex) (set_bit d i)
             else set_bit d i False)
           [0..<ba_bit_size b] (ba_data result)))"

definition ba_shr :: "bit_array \<Rightarrow> nat \<Rightarrow> bit_array option" where
  "ba_shr b shift =
     (let result = ba_from (ba_data b) (ba_bit_size b) in
      if shift \<ge> ba_bit_size b
      then Some (result\<lparr>ba_data := replicate ((ba_bit_size b + 7) div 8) 0\<rparr>)
      else map_option (\<lambda>d. result\<lparr>ba_data := d\<rparr>)
        (fold_opt (\<lambda>i d.
             let sourceIndex = (if i \<ge> shift then i - shift else ba_bit_size b) in
             if sourceIndex < ba_bit_size b
             then Option.bind (read_bit (ba_data b) sourceIndex) (set_bit d i)
             else set_bit d i False)
           [0..<ba_bit_size b] (ba_data result)))"

definition ba_reverser :: "bit_array \<Rightarrow> bit_array option" where
  "ba_reverser b =
     (if ba_data b = [] \<or> ba_bit_size b = 0 then Some b
      else map_option (\<lambda>d. b\<lparr>ba_data := d\<rparr>)
        (fold_opt (\<lambda>i d.
             let targetIndex = ba_bit_size b - 1 - i
             in Option.bind (read_bit (ba_data b) i) (\<lambda>v. if v then or_bit d targetIndex True else Some d))
           [0..<ba_bit_size b] (replicate ((ba_bit_size b + 7) div 8) 0)))"

text \<open>What \<open>print\<close> writes, without the newline.\<close>

definition ba_print :: "bit_array \<Rightarrow> bool \<Rightarrow> string option" where
  "ba_print b split4bit =
     fold_opt (\<lambda>i out. map_option
         (\<lambda>v. out @ (if v then ''1'' else ''0'') @
            (if split4bit \<and> (i + 1) mod 4 = 0 \<and> i + 1 \<noteq> ba_bit_size b then '' '' else []))
         (read_bit (ba_data b) i))
       [0..<ba_bit_size b] []"

section \<open>The bits an array stands for\<close>

definition test_bit :: "uint8 list \<Rightarrow> nat \<Rightarrow> bool" where
  "test_bit data i \<longleftrightarrow> bit (data ! (i div 8)) (7 - i mod 8)"

definition wf_bits :: "bit_array \<Rightarrow> bool" where
  "wf_bits b \<longleftrightarrow> ba_bit_size b \<le> 8 * length (ba_data b) \<and> ba_bit_size b + 7 < 2 ^ 64"

definition bits :: "bit_array \<Rightarrow> bool list" where
  "bits b = map (test_bit (ba_data b)) [0..<ba_bit_size b]"

lemma div8: "i < 8 * n \<Longrightarrow> i div 8 < n" for i n :: nat
  by simp

lemma drop_bit_and_1: "drop_bit k b AND 1 \<noteq> 0 \<longleftrightarrow> bit b k" for b :: uint8
  by (simp add: and_one_eq mod2_eq_if bit_iff_odd_drop_bit)

lemma read_bit_in: "i < 8 * length data \<Longrightarrow> read_bit data i = Some (test_bit data i)"
  by (simp add: read_bit_def div8 drop_bit_and_1 test_bit_def)

lemma read_bit_out: "8 * length data \<le> i \<Longrightarrow> read_bit data i = None"
proof -
  assume "8 * length data \<le> i"
  then have "length data \<le> i div 8" by simp
  then show ?thesis by (simp add: read_bit_def)
qed

lemma bit_position_eq:
  fixes i j :: nat
  assumes "i div 8 = j div 8"
  shows "7 - i mod 8 = 7 - j mod 8 \<longleftrightarrow> i = j"
proof
  assume "7 - i mod 8 = 7 - j mod 8"
  moreover have "i mod 8 < 8" "j mod 8 < 8" by simp_all
  ultimately have "i mod 8 = j mod 8" by linarith
  then show "i = j" using assms by (metis div_mult_mod_eq)
qed simp

lemma bit_position_less: "7 - i mod 8 < 8" for i :: nat
  by simp

lemma byte_bits:
  fixes b :: uint8
  assumes "q < 8"
  shows "bit (b OR 2 ^ p) q \<longleftrightarrow> bit b q \<or> q = p"
    "bit (b AND NOT (2 ^ p)) q \<longleftrightarrow> bit b q \<and> q \<noteq> p"
    "bit (b OR push_bit p (of_bool v)) q \<longleftrightarrow> bit b q \<or> q = p \<and> v"
  using assms by (auto simp: bit_or_iff bit_and_iff bit_not_iff bit_exp_iff bit_push_bit_iff bit_1_iff)

text \<open>Writing one bit changes that bit only.\<close>

lemma set_bit_in:
  assumes "i < 8 * length data"
  obtains data' where "set_bit data i v = Some data'" "length data' = length data"
    "\<And>j. j < 8 * length data \<Longrightarrow> test_bit data' j = (if j = i then v else test_bit data j)"
proof
  let ?b = "data ! (i div 8)"
  let ?n = "if v then ?b OR push_bit (7 - i mod 8) 1 else ?b AND NOT (push_bit (7 - i mod 8) 1)"
  show "set_bit data i v = Some (data[i div 8 := ?n])"
    using assms by (simp add: set_bit_def div8)
  show "test_bit (data[i div 8 := ?n]) j = (if j = i then v else test_bit data j)" if "j < 8 * length data" for j
  proof (cases "j div 8 = i div 8")
    case True
    then show ?thesis
      using div8 [OF assms] bit_position_eq [OF True] bit_position_less [of j]
      by (auto simp: test_bit_def byte_bits)
  next
    case False
    then show ?thesis by (auto simp: test_bit_def)
  qed
qed simp

lemma or_bit_in:
  assumes "i < 8 * length data"
  obtains data' where "or_bit data i v = Some data'" "length data' = length data"
    "\<And>j. j < 8 * length data \<Longrightarrow> test_bit data' j = (test_bit data j \<or> j = i \<and> v)"
proof
  let ?n = "data ! (i div 8) OR push_bit (7 - i mod 8) (of_bool v)"
  show "or_bit data i v = Some (data[i div 8 := ?n])"
    using assms by (simp add: or_bit_def div8)
  show "test_bit (data[i div 8 := ?n]) j = (test_bit data j \<or> j = i \<and> v)" if "j < 8 * length data" for j
  proof (cases "j div 8 = i div 8")
    case True
    then show ?thesis
      using div8 [OF assms] bit_position_eq [OF True] bit_position_less [of j]
      by (auto simp: test_bit_def byte_bits)
  next
    case False
    then show ?thesis by (auto simp: test_bit_def)
  qed
qed simp

section \<open>The two kinds of loop\<close>

text \<open>A loop that ORs bits into a vector, and one that overwrites consecutive bits. \<open>src\<close> computes
  the bit of round \<open>i\<close>, \<open>t\<close> its place.\<close>

lemma or_loop:
  assumes "\<And>i. i < n \<Longrightarrow> t i < 8 * length data"
    and "\<And>i d. i < n \<Longrightarrow> body i d = or_bit d (t i) (f i)"
  shows "\<exists>d. fold_opt body [0..<n] data = Some d \<and> length d = length data \<and>
    (\<forall>j < 8 * length data. test_bit d j = (test_bit data j \<or> (\<exists>i < n. t i = j \<and> f i)))"
  using assms
proof (induction n)
  case (Suc n)
  then obtain d where d: "fold_opt body [0..<n] data = Some d" "length d = length data"
    "\<forall>j < 8 * length data. test_bit d j = (test_bit data j \<or> (\<exists>i < n. t i = j \<and> f i))" by auto
  have "t n < 8 * length d" using Suc.prems(1) d(2) by simp
  then obtain d' where d': "or_bit d (t n) (f n) = Some d'" "length d' = length d"
    "\<And>j. j < 8 * length d \<Longrightarrow> test_bit d' j = (test_bit d j \<or> j = t n \<and> f n)"
    by (rule or_bit_in) (rule that)
  have "fold_opt body [0..<Suc n] data = Some d'"
    using d(1) d'(1) Suc.prems(2) [of n] by (simp add: fold_opt_append)
  moreover have "\<forall>j < 8 * length data. test_bit d' j = (test_bit data j \<or> (\<exists>i < Suc n. t i = j \<and> f i))"
    using d(2,3) d'(3) by (auto simp: less_Suc_eq)
  ultimately show ?case using d(2) d'(2) by auto
qed simp

lemma set_loop:
  assumes "off + n \<le> 8 * length data"
    and "\<And>i d. i < n \<Longrightarrow> body i d = set_bit d (off + i) (f i)"
  shows "\<exists>d. fold_opt body [0..<n] data = Some d \<and> length d = length data \<and>
    (\<forall>j < 8 * length data. test_bit d j = (if off \<le> j \<and> j < off + n then f (j - off) else test_bit data j))"
  using assms
proof (induction n)
  case (Suc n)
  then obtain d where d: "fold_opt body [0..<n] data = Some d" "length d = length data"
    "\<forall>j < 8 * length data. test_bit d j = (if off \<le> j \<and> j < off + n then f (j - off) else test_bit data j)"
    by auto
  have "off + n < 8 * length d" using Suc.prems(1) d(2) by simp
  then obtain d' where d': "set_bit d (off + n) (f n) = Some d'" "length d' = length d"
    "\<And>j. j < 8 * length d \<Longrightarrow> test_bit d' j = (if j = off + n then f n else test_bit d j)"
    by (rule set_bit_in) (rule that)
  have "fold_opt body [0..<Suc n] data = Some d'"
    using d(1) d'(1) Suc.prems(2) [of n] by (simp add: fold_opt_append)
  moreover have "\<forall>j < 8 * length data.
      test_bit d' j = (if off \<le> j \<and> j < off + Suc n then f (j - off) else test_bit data j)"
    using d(2,3) d'(3) by (auto simp: less_Suc_eq)
  ultimately show ?case using d(2) d'(2) by auto
qed auto

lemma test_bit_zero [simp]: "i < 8 * n \<Longrightarrow> \<not> test_bit (replicate n 0) i"
  by (simp add: test_bit_def div8)

lemma or_loop_zero:
  assumes "n \<le> 8 * m" and "\<And>i d. i < n \<Longrightarrow> body i d = or_bit d i (f i)"
  shows "\<exists>d. fold_opt body [0..<n] (replicate m 0) = Some d \<and> length d = m \<and>
    (\<forall>j < 8 * m. test_bit d j = (j < n \<and> f j))"
  using or_loop [of n "\<lambda>i. i" "replicate m 0" body f] assms by auto

section \<open>Every operation on the list of bits\<close>

lemma to_array_loop:
  "n \<le> 8 * length data \<Longrightarrow>
   fold_opt (\<lambda>i acc. map_option (\<lambda>v. acc @ [v]) (read_bit data i)) [0..<n] [] = Some (map (test_bit data) [0..<n])"
  by (induction n) (simp_all add: fold_opt_append read_bit_in)

lemma to_array_bits: "ba_bit_size b \<le> 8 * length (ba_data b) \<Longrightarrow> ba_to_array b = Some (bits b)"
  by (simp add: ba_to_array_def bits_def to_array_loop)

lemma bits_eqI:
  assumes "ba_bit_size b = length xs" "\<And>i. i < length xs \<Longrightarrow> test_bit (ba_data b) i = xs ! i"
  shows "bits b = xs"
  using assms by (intro nth_equalityI) (simp_all add: bits_def)

lemma bits_length [simp]: "length (bits b) = ba_bit_size b"
  by (simp add: bits_def)

lemma bits_nth: "i < ba_bit_size b \<Longrightarrow> bits b ! i = test_bit (ba_data b) i"
  by (simp add: bits_def)

lemma ceil8: "n \<le> 8 * ((n + 7) div 8)" for n :: nat
  by presburger

lemma get_bits:
  assumes "wf_bits b" "bitOffset + bitLength < 2 ^ 64"
  shows "\<exists>r. ba_get b bitOffset bitLength = Some r \<and> wf_bits r \<and> bits r = take bitLength (drop bitOffset (bits b))"
proof -
  define n where "n = (if bitOffset + bitLength > ba_bit_size b
    then if bitOffset < ba_bit_size b then ba_bit_size b - bitOffset else 0 else bitLength)"
  have n: "n = 0 \<or> bitOffset + n \<le> ba_bit_size b" "n \<le> ba_bit_size b" "n = min bitLength (ba_bit_size b - bitOffset)"
    by (auto simp: n_def)
  have s: "sz_add n 7 = n + 7" using n(2) assms(1) by (intro sz_add_exact) (simp add: wf_bits_def)
  have r: "read_bit (ba_data b) (bitOffset + i) = Some (test_bit (ba_data b) (bitOffset + i))" if "i < n" for i
    using that n assms(1) by (intro read_bit_in) (auto simp: wf_bits_def)
  obtain d where d: "fold_opt (\<lambda>i sub. Option.bind (read_bit (ba_data b) (bitOffset + i)) (or_bit sub i))
      [0..<n] (replicate ((n + 7) div 8) 0) = Some d" "length d = (n + 7) div 8"
    "\<forall>j < 8 * ((n + 7) div 8). test_bit d j = (j < n \<and> test_bit (ba_data b) (bitOffset + j))"
    using or_loop_zero [OF ceil8, of n "\<lambda>i sub. Option.bind (read_bit (ba_data b) (bitOffset + i)) (or_bit sub i)"
        "\<lambda>j. test_bit (ba_data b) (bitOffset + j)"] r by auto
  have g: "ba_get b bitOffset bitLength = Some (ba_from d n)"
  proof -
    have c: "(if sz_add bitOffset bitLength > ba_bit_size b
        then if bitOffset < ba_bit_size b then ba_bit_size b - bitOffset else 0 else bitLength) = n"
      unfolding n_def sz_add_exact [OF assms(2)] ..
    show ?thesis unfolding ba_get_def c Let_def s using d(1) by simp
  qed
  have size: "ba_bit_size (ba_from d n) = n" using d(2) by (simp add: ba_from_def)
  have "bits (ba_from d n) = take bitLength (drop bitOffset (bits b))"
  proof (rule bits_eqI)
    show "ba_bit_size (ba_from d n) = length (take bitLength (drop bitOffset (bits b)))"
      using size n(3) by (simp add: min.commute)
    fix i assume "i < length (take bitLength (drop bitOffset (bits b)))"
    then have "i < n" "bitOffset + i < ba_bit_size b" using n(3) by auto
    moreover have "i < 8 * ((n + 7) div 8)" using ceil8 [of n] \<open>i < n\<close> by simp
    ultimately show "test_bit (ba_data (ba_from d n)) i = take bitLength (drop bitOffset (bits b)) ! i"
      using d(3) n(3) by (simp add: ba_from_def bits_nth)
  qed
  moreover have "wf_bits (ba_from d n)"
    using ceil8 [of n] d(2) assms(1) n(2) by (simp add: wf_bits_def size) (simp add: ba_from_def)
  ultimately show ?thesis using g by blast
qed

lemma wf_read: "wf_bits b \<Longrightarrow> i < ba_bit_size b \<Longrightarrow> read_bit (ba_data b) i = Some (test_bit (ba_data b) i)"
  by (rule read_bit_in) (simp add: wf_bits_def)

lemma merge_bits:
  assumes "wf_bits b" "wf_bits input" "bitOffset < ba_bit_size b"
  shows "\<exists>r. ba_merge b input bitOffset = Some (True, r) \<and> wf_bits r \<and>
    bits r = take (ba_bit_size b) (take bitOffset (bits b) @ bits input @ drop (bitOffset + ba_bit_size input) (bits b))"
proof -
  define n where "n = min (ba_bit_size input) (ba_bit_size b - bitOffset)"
  have le: "bitOffset + n \<le> 8 * length (ba_data b)" using assms by (auto simp: n_def wf_bits_def)
  have r: "read_bit (ba_data input) i = Some (test_bit (ba_data input) i)" if "i < n" for i
    using that assms(2) by (intro wf_read) (auto simp: n_def)
  obtain d where d: "fold_opt (\<lambda>i data. Option.bind (read_bit (ba_data input) i) (set_bit data (bitOffset + i)))
      [0..<n] (ba_data b) = Some d" "length d = length (ba_data b)"
    "\<forall>j < 8 * length (ba_data b). test_bit d j =
       (if bitOffset \<le> j \<and> j < bitOffset + n then test_bit (ba_data input) (j - bitOffset) else test_bit (ba_data b) j)"
    using set_loop [OF le, of "\<lambda>i data. Option.bind (read_bit (ba_data input) i) (set_bit data (bitOffset + i))"
        "test_bit (ba_data input)"] r by auto
  have "ba_merge b input bitOffset = Some (True, b\<lparr>ba_data := d\<rparr>)"
    using d(1) assms(3) by (simp add: ba_merge_def n_def)
  moreover have "wf_bits (b\<lparr>ba_data := d\<rparr>)" using assms(1) d(2) by (simp add: wf_bits_def)
  moreover have "bits (b\<lparr>ba_data := d\<rparr>) =
      take (ba_bit_size b) (take bitOffset (bits b) @ bits input @ drop (bitOffset + ba_bit_size input) (bits b))"
  proof (rule bits_eqI)
    fix i
    assume "i < length (take (ba_bit_size b) (take bitOffset (bits b) @ bits input @ drop (bitOffset + ba_bit_size input) (bits b)))"
    then have i: "i < ba_bit_size b" by simp
    moreover have "i < 8 * length (ba_data b)" using i assms(1) by (simp add: wf_bits_def)
    ultimately show "test_bit (ba_data (b\<lparr>ba_data := d\<rparr>)) i =
        take (ba_bit_size b) (take bitOffset (bits b) @ bits input @ drop (bitOffset + ba_bit_size input) (bits b)) ! i"
      using assms(3) d(3) by (auto simp: nth_append bits_nth n_def)
  qed (use assms(3) in auto)
  ultimately show ?thesis by blast
qed

lemma from_bits:
  assumes "length d = (n + 7) div 8" "n + 7 < 2 ^ 64" "length xs = n"
    and "\<And>i. i < n \<Longrightarrow> test_bit d i = xs ! i"
  shows "wf_bits (ba_from d n) \<and> bits (ba_from d n) = xs"
proof -
  have size: "ba_bit_size (ba_from d n) = n" using assms(1) by (simp add: ba_from_def)
  have data: "ba_data (ba_from d n) = d" by (simp add: ba_from_def)
  have "bits (ba_from d n) = xs" using assms(3,4) by (intro bits_eqI) (simp_all add: size data)
  then show ?thesis using assms(1,2) ceil8 [of n] by (simp add: wf_bits_def size data)
qed

lemma plus_bits:
  assumes "wf_bits a" "wf_bits b" "ba_bit_size a + ba_bit_size b + 7 < 2 ^ 64"
  shows "\<exists>r. ba_plus a b = Some r \<and> wf_bits r \<and> bits r = bits a @ bits b"
proof -
  let ?n = "ba_bit_size a + ba_bit_size b" and ?m = "(ba_bit_size a + ba_bit_size b + 7) div 8"
  have m: "?n \<le> 8 * ?m" by (rule ceil8)
  obtain d1 where d1: "fold_opt (\<lambda>i d. Option.bind (read_bit (ba_data a) i) (or_bit d i))
      [0..<ba_bit_size a] (replicate ?m 0) = Some d1" "length d1 = ?m"
    "\<forall>j < 8 * ?m. test_bit d1 j = (j < ba_bit_size a \<and> test_bit (ba_data a) j)"
    using or_loop_zero [of "ba_bit_size a" ?m "\<lambda>i d. Option.bind (read_bit (ba_data a) i) (or_bit d i)"
        "test_bit (ba_data a)"] m wf_read [OF assms(1)] by auto
  have t: "\<And>i. i < ba_bit_size b \<Longrightarrow> ba_bit_size a + i < 8 * length d1" using m d1(2) by simp
  obtain d2 where d2: "fold_opt (\<lambda>i d. Option.bind (read_bit (ba_data b) i) (or_bit d (ba_bit_size a + i)))
      [0..<ba_bit_size b] d1 = Some d2" "length d2 = ?m"
    "\<forall>j < 8 * ?m. test_bit d2 j = (test_bit d1 j \<or> (\<exists>i < ba_bit_size b. ba_bit_size a + i = j \<and> test_bit (ba_data b) i))"
    using or_loop [where n = "ba_bit_size b" and t = "\<lambda>i. ba_bit_size a + i" and data = d1
        and body = "\<lambda>i d. Option.bind (read_bit (ba_data b) i) (or_bit d (ba_bit_size a + i))"
        and f = "test_bit (ba_data b)"] t wf_read [OF assms(2)] d1(2) by auto
  have "wf_bits (ba_from d2 ?n) \<and> bits (ba_from d2 ?n) = bits a @ bits b"
  proof (rule from_bits)
    fix i assume i: "i < ?n"
    then have "i < 8 * ?m" using m by simp
    with i d1(3) d2(3) show "test_bit d2 i = (bits a @ bits b) ! i"
      by (auto simp: nth_append bits_nth intro: exI [of _ "i - ba_bit_size a"])
  qed (use d2(2) assms(3) in auto)
  then show ?thesis using d1(1) d2(1) by (auto simp: ba_plus_def Let_def)
qed

lemma shift_result:
  assumes "wf_bits b" "0 < ba_bit_size b"
    and "\<And>i d. i < ba_bit_size b \<Longrightarrow> body i d = set_bit d i (f i)"
  shows "\<exists>d. fold_opt body [0..<ba_bit_size b] (ba_data (ba_from (ba_data b) (ba_bit_size b))) = Some d \<and>
    wf_bits ((ba_from (ba_data b) (ba_bit_size b))\<lparr>ba_data := d\<rparr>) \<and>
    bits ((ba_from (ba_data b) (ba_bit_size b))\<lparr>ba_data := d\<rparr>) = map f [0..<ba_bit_size b]"
proof -
  have same: "ba_from (ba_data b) (ba_bit_size b) = b" using assms(2) by (simp add: ba_from_def)
  have le: "0 + ba_bit_size b \<le> 8 * length (ba_data b)" using assms(1) by (simp add: wf_bits_def)
  obtain d where d: "fold_opt body [0..<ba_bit_size b] (ba_data b) = Some d" "length d = length (ba_data b)"
    "\<forall>j < 8 * length (ba_data b). test_bit d j = (if j < ba_bit_size b then f j else test_bit (ba_data b) j)"
    using set_loop [OF le, of body f] assms(3) by auto
  have "bits (b\<lparr>ba_data := d\<rparr>) = map f [0..<ba_bit_size b]"
    using d(3) le by (intro bits_eqI) auto
  moreover have "wf_bits (b\<lparr>ba_data := d\<rparr>)" using assms(1) d(2) by (simp add: wf_bits_def)
  ultimately show ?thesis using d(1) same by auto
qed

lemma zero_bits:
  assumes "wf_bits b"
  shows "wf_bits ((ba_from (ba_data b) (ba_bit_size b))\<lparr>ba_data := replicate ((ba_bit_size b + 7) div 8) 0\<rparr>) \<and>
    bits ((ba_from (ba_data b) (ba_bit_size b))\<lparr>ba_data := replicate ((ba_bit_size b + 7) div 8) 0\<rparr>) =
      replicate (ba_bit_size b) False \<or> ba_bit_size b = 0"
  using assms ceil8 [of "ba_bit_size b"]
  by (auto simp: ba_from_def wf_bits_def intro!: bits_eqI)

lemma shl_bits:
  assumes "wf_bits b" "0 < ba_bit_size b"
  shows "\<exists>r. ba_shl b k = Some r \<and> wf_bits r \<and> bits r = drop k (bits b) @ replicate (min k (ba_bit_size b)) False"
proof (cases "k \<ge> ba_bit_size b")
  case True
  then show ?thesis using zero_bits [OF assms(1)] assms(2) by (auto simp: ba_shl_def Let_def)
next
  case False
  let ?body = "\<lambda>i d. let sourceIndex = i + k in
     if sourceIndex < ba_bit_size b then Option.bind (read_bit (ba_data b) sourceIndex) (set_bit d i)
     else set_bit d i False"
  have body: "?body i d = set_bit d i ((\<lambda>i. i + k < ba_bit_size b \<and> test_bit (ba_data b) (i + k)) i)" if "i < ba_bit_size b" for i d
    using that wf_read [OF assms(1)] by (auto simp: Let_def)
  obtain d where d: "fold_opt ?body [0..<ba_bit_size b] (ba_data (ba_from (ba_data b) (ba_bit_size b))) = Some d"
    "wf_bits ((ba_from (ba_data b) (ba_bit_size b))\<lparr>ba_data := d\<rparr>)"
    "bits ((ba_from (ba_data b) (ba_bit_size b))\<lparr>ba_data := d\<rparr>) =
       map (\<lambda>i. i + k < ba_bit_size b \<and> test_bit (ba_data b) (i + k)) [0..<ba_bit_size b]"
    using shift_result [OF assms body] by blast
  have "map (\<lambda>i. i + k < ba_bit_size b \<and> test_bit (ba_data b) (i + k)) [0..<ba_bit_size b] =
      drop k (bits b) @ replicate (min k (ba_bit_size b)) False"
    using False by (intro nth_equalityI) (auto simp: nth_append bits_nth add.commute)
  then show ?thesis using d False by (auto simp: ba_shl_def Let_def)
qed

lemma shr_bits:
  assumes "wf_bits b" "0 < ba_bit_size b"
  shows "\<exists>r. ba_shr b k = Some r \<and> wf_bits r \<and>
    bits r = replicate (min k (ba_bit_size b)) False @ take (ba_bit_size b - k) (bits b)"
proof (cases "k \<ge> ba_bit_size b")
  case True
  then show ?thesis using zero_bits [OF assms(1)] assms(2) by (auto simp: ba_shr_def Let_def)
next
  case False
  let ?body = "\<lambda>i d. let sourceIndex = (if i \<ge> k then i - k else ba_bit_size b) in
     if sourceIndex < ba_bit_size b then Option.bind (read_bit (ba_data b) sourceIndex) (set_bit d i)
     else set_bit d i False"
  have body: "?body i d = set_bit d i ((\<lambda>i. k \<le> i \<and> test_bit (ba_data b) (i - k)) i)" if "i < ba_bit_size b" for i d
    using that wf_read [OF assms(1)] by (auto simp: Let_def)
  obtain d where d: "fold_opt ?body [0..<ba_bit_size b] (ba_data (ba_from (ba_data b) (ba_bit_size b))) = Some d"
    "wf_bits ((ba_from (ba_data b) (ba_bit_size b))\<lparr>ba_data := d\<rparr>)"
    "bits ((ba_from (ba_data b) (ba_bit_size b))\<lparr>ba_data := d\<rparr>) =
       map (\<lambda>i. k \<le> i \<and> test_bit (ba_data b) (i - k)) [0..<ba_bit_size b]"
    using shift_result [OF assms body] by blast
  have "map (\<lambda>i. k \<le> i \<and> test_bit (ba_data b) (i - k)) [0..<ba_bit_size b] =
      replicate (min k (ba_bit_size b)) False @ take (ba_bit_size b - k) (bits b)"
    using False by (intro nth_equalityI) (auto simp: nth_append bits_nth)
  then show ?thesis using d False by (auto simp: ba_shr_def Let_def)
qed

lemma reverser_bits:
  assumes "wf_bits b"
  shows "\<exists>r. ba_reverser b = Some r \<and> wf_bits r \<and> bits r = rev (bits b)"
proof (cases "ba_bit_size b = 0")
  case True
  then have "bits b = []" by (simp add: bits_def)
  with True assms show ?thesis by (simp add: ba_reverser_def)
next
  case False
  let ?n = "ba_bit_size b" and ?m = "(ba_bit_size b + 7) div 8"
  have m: "?n \<le> 8 * ?m" by (rule ceil8)
  let ?body = "\<lambda>i d. let targetIndex = ?n - 1 - i
     in Option.bind (read_bit (ba_data b) i) (\<lambda>v. if v then or_bit d targetIndex True else Some d)"
  have skip: "or_bit d j False = Some d" if "j < 8 * length d" for d j
    using that by (simp add: or_bit_def div8)
  have "\<exists>d. fold_opt ?body [0..<k] (replicate ?m 0) = Some d \<and> length d = ?m \<and>
      (\<forall>j < 8 * ?m. test_bit d j = (\<exists>i < k. ?n - 1 - i = j \<and> test_bit (ba_data b) i))" if "k \<le> ?n" for k
    using that
  proof (induction k)
    case (Suc k)
    then obtain d where d: "fold_opt ?body [0..<k] (replicate ?m 0) = Some d" "length d = ?m"
      "\<forall>j < 8 * ?m. test_bit d j = (\<exists>i < k. ?n - 1 - i = j \<and> test_bit (ba_data b) i)" by auto
    have "?n - 1 - k < 8 * length d" using Suc.prems m d(2) by simp
    then obtain d' where d': "or_bit d (?n - 1 - k) (test_bit (ba_data b) k) = Some d'" "length d' = length d"
      "\<And>j. j < 8 * length d \<Longrightarrow> test_bit d' j = (test_bit d j \<or> j = ?n - 1 - k \<and> test_bit (ba_data b) k)"
      by (rule or_bit_in) (rule that)
    have "?body k d = Some d'"
      using d'(1) skip [of "?n - 1 - k" d] \<open>?n - 1 - k < 8 * length d\<close> wf_read [OF assms] Suc.prems
      by (auto simp: Let_def split: if_splits)
    then have "fold_opt ?body [0..<Suc k] (replicate ?m 0) = Some d'"
      using d(1) by (simp add: fold_opt_append)
    moreover have "\<forall>j < 8 * ?m. test_bit d' j = (\<exists>i < Suc k. ?n - 1 - i = j \<and> test_bit (ba_data b) i)"
      using d(2,3) d'(3) by (auto simp: less_Suc_eq)
    ultimately show ?case using d(2) d'(2) by auto
  qed simp
  from this [OF order_refl] obtain d where d: "fold_opt ?body [0..<?n] (replicate ?m 0) = Some d" "length d = ?m"
    "\<forall>j < 8 * ?m. test_bit d j = (\<exists>i < ?n. ?n - 1 - i = j \<and> test_bit (ba_data b) i)" by blast
  have ne: "ba_data b \<noteq> []" using assms False by (auto simp: wf_bits_def)
  have "bits (b\<lparr>ba_data := d\<rparr>) = rev (bits b)"
  proof (rule bits_eqI)
    fix i assume "i < length (rev (bits b))"
    then have i: "i < ?n" by simp
    then have "(\<exists>k < ?n. ?n - 1 - k = i \<and> test_bit (ba_data b) k) \<longleftrightarrow> test_bit (ba_data b) (?n - 1 - i)"
      by (auto intro: exI [of _ "?n - 1 - i"])
    moreover have "i < 8 * ?m" using i m by simp
    ultimately show "test_bit (ba_data (b\<lparr>ba_data := d\<rparr>)) i = rev (bits b) ! i"
      using d(3) i by (simp add: rev_nth bits_nth)
  qed simp
  moreover have "wf_bits (b\<lparr>ba_data := d\<rparr>)" using assms m d(2) by (simp add: wf_bits_def)
  moreover have "ba_reverser b = Some (b\<lparr>ba_data := d\<rparr>)"
    using d(1) False ne by (simp add: ba_reverser_def)
  ultimately show ?thesis by blast
qed

section \<open>Properties\<close>

text \<open>C10: as lists of bits, \<open>get\<close> is a slice (cut at the end of the array), \<open>merge\<close> overwrites bits
  in place without growing the array, and \<open>+\<close> is concatenation; all stay inside their vectors and
  keep the invariant that the bytes hold the announced number of bits.\<close>

theorem bit_array_slices:
  assumes "wf_bits a" "wf_bits b" "off + len < 2 ^ 64" "ba_bit_size a + ba_bit_size b + 7 < 2 ^ 64"
    "pos < ba_bit_size a"
  shows "(\<exists>r. ba_get a off len = Some r \<and> wf_bits r \<and> bits r = take len (drop off (bits a))) \<and>
    (\<exists>r. ba_plus a b = Some r \<and> wf_bits r \<and> bits r = bits a @ bits b) \<and>
    (\<exists>r. ba_merge a b pos = Some (True, r) \<and> wf_bits r \<and>
       bits r = take (ba_bit_size a) (take pos (bits a) @ bits b @ drop (pos + ba_bit_size b) (bits a))) \<and>
    ba_to_array a = Some (bits a)"
proof (intro conjI)
  show "ba_to_array a = Some (bits a)"
    using assms(1) by (intro to_array_bits) (simp add: wf_bits_def)
qed (use assms get_bits plus_bits merge_bits in blast)+

theorem bit_array_slices_witness:
  "let a = ba_from [0xA5, 0xF0] 12; b = ba_from [0x80] 3
   in (\<exists>r. ba_get a 4 6 = Some r \<and> wf_bits r \<and> bits r = take 6 (drop 4 (bits a))) \<and>
    (\<exists>r. ba_plus a b = Some r \<and> wf_bits r \<and> bits r = bits a @ bits b) \<and>
    (\<exists>r. ba_merge a b 5 = Some (True, r) \<and> wf_bits r \<and>
       bits r = take (ba_bit_size a) (take 5 (bits a) @ bits b @ drop (5 + ba_bit_size b) (bits a))) \<and>
    ba_to_array a = Some (bits a)"
  unfolding Let_def by (rule bit_array_slices) (simp_all add: wf_bits_def ba_from_def)

text \<open>The shifts move the bits towards the front or the back, fill with zeros and keep the length,
  also for a shift beyond the length; \<open>reverser\<close> reverses the bits.\<close>

theorem bit_array_shifts:
  assumes "wf_bits b" "0 < ba_bit_size b"
  shows "(\<exists>r. ba_shl b k = Some r \<and> bits r = drop k (bits b) @ replicate (min k (ba_bit_size b)) False) \<and>
    (\<exists>r. ba_shr b k = Some r \<and> bits r = replicate (min k (ba_bit_size b)) False @ take (ba_bit_size b - k) (bits b)) \<and>
    (\<exists>r. ba_reverser b = Some r \<and> bits r = rev (bits b))"
  using shl_bits [OF assms, of k] shr_bits [OF assms, of k] reverser_bits [OF assms(1)] by blast

theorem bit_array_shifts_witness:
  "let b = ba_from [0xA5, 0xF0] 12
   in (\<exists>r. ba_shl b 3 = Some r \<and> bits r = drop 3 (bits b) @ replicate (min 3 (ba_bit_size b)) False) \<and>
    (\<exists>r. ba_shr b 3 = Some r \<and> bits r = replicate (min 3 (ba_bit_size b)) False @ take (ba_bit_size b - 3) (bits b)) \<and>
    (\<exists>r. ba_reverser b = Some r \<and> bits r = rev (bits b))"
  unfolding Let_def by (rule bit_array_shifts) (simp_all add: wf_bits_def ba_from_def)

text \<open>The constructor and \<open>from\<close> take any number of bits. When it is larger than the bytes hold,
  every whole-array read runs past the vector; and a length close to the maximum of \<open>size_t\<close>
  escapes the range check of \<open>get\<close>, as the sum with the offset wraps around.\<close>

theorem bit_array_out_of_bounds:
  "(nbits \<le> 8 * length bytes \<or> ba_to_array (ba_from bytes nbits) = None) \<and>
   ba_get (ba_from [0xA5] 8) 1 (2 ^ 64 - 1) = None"
proof
  have "ba_to_array (ba_from bytes nbits) = None" if "8 * length bytes < nbits"
  proof -
    let ?f = "\<lambda>i acc. map_option (\<lambda>v. acc @ [v]) (read_bit bytes i)"
    have "[0..<nbits] = [0..<8 * length bytes] @ [8 * length bytes..<nbits]"
      using that by (metis le0 less_imp_le_nat upt_add_eq_append le_add_diff_inverse)
    moreover have "[8 * length bytes..<nbits] = (8 * length bytes) # [Suc (8 * length bytes)..<nbits]"
      using that by (simp add: upt_conv_Cons)
    ultimately have "fold_opt ?f [0..<nbits] [] = None"
      by (simp only: fold_opt_append to_array_loop [OF order_refl]) (simp add: read_bit_out)
    then show ?thesis using that by (simp add: ba_to_array_def ba_from_def)
  qed
  then show "nbits \<le> 8 * length bytes \<or> ba_to_array (ba_from bytes nbits) = None" by linarith
  have "[0..<2 ^ 64 - 1] = 0 # [1..<2 ^ 64 - 1 :: nat]" by (subst upt_conv_Cons) simp_all
  then show "ba_get (ba_from [0xA5] 8) 1 (2 ^ 64 - 1) = None"
    by (simp add: ba_get_def ba_from_def sz_add_def read_bit_def or_bit_def del: upt_conv_Cons)
qed

end
