(* ===== verification/Concurrent_Queue.thy ===== *)
theory Concurrent_Queue
  imports Prelude "HOL-Library.Sublist"
begin

text \<open>
  The blocking queue of \<open>include/j2_library/queue/concurrent_queue.hpp\<close>. A method holds the mutex
  from its first statement, so it is one function on the members; only \<open>notify_one\<close>, which
  \<open>emplace_impl\<close> calls after it has released the mutex, and the sleep inside \<open>wait_dequeue\<close> are
  separate steps of a thread.

  The first part gives the operations, the contract of a first-in first-out store and its
  interpretation. The second part interleaves any number of threads: the reachable states keep the
  size bound, lose and duplicate nothing, and never let a thread sleep over an item that nobody has
  been woken for.
\<close>

section \<open>Operations\<close>

datatype overflow_policy = drop_oldest | reject_new

record 'a concurrent_queue =
  cq_queue :: "'a list"
  cq_max_size :: nat
  cq_policy :: overflow_policy

definition new_queue :: "nat \<Rightarrow> overflow_policy \<Rightarrow> 'a concurrent_queue" where
  "new_queue max_size policy = \<lparr>cq_queue = [], cq_max_size = max_size, cq_policy = policy\<rparr>"

text \<open>The returned flag is also the decision to call \<open>notify_one\<close>: every path that returns true
  notifies, the one that returns false does not.\<close>

definition emplace_impl :: "'a \<Rightarrow> 'a concurrent_queue \<Rightarrow> bool \<times> 'a concurrent_queue" where
  "emplace_impl v q =
     (if cq_max_size q = 0 then (True, q\<lparr>cq_queue := cq_queue q @ [v]\<rparr>)
      else if length (cq_queue q) \<ge> cq_max_size q then
        (case cq_policy q of
           drop_oldest \<Rightarrow> (True, q\<lparr>cq_queue := tl (cq_queue q) @ [v]\<rparr>)
         | reject_new \<Rightarrow> (False, q))
      else (True, q\<lparr>cq_queue := cq_queue q @ [v]\<rparr>))"

definition try_dequeue :: "'a concurrent_queue \<Rightarrow> ('a \<times> 'a concurrent_queue) option" where
  "try_dequeue q =
     (case cq_queue q of [] \<Rightarrow> None | x # xs \<Rightarrow> Some (x, q\<lparr>cq_queue := xs\<rparr>))"

definition dequeue_if :: "('a \<Rightarrow> nat \<Rightarrow> bool) \<Rightarrow> 'a concurrent_queue \<Rightarrow> ('a \<times> 'a concurrent_queue) option" where
  "dequeue_if pred q =
     (case cq_queue q of
        [] \<Rightarrow> None
      | x # xs \<Rightarrow> if \<not> pred x (length (cq_queue q)) then None else Some (x, q\<lparr>cq_queue := xs\<rparr>))"

definition cq_size :: "'a concurrent_queue \<Rightarrow> nat" where
  "cq_size q = length (cq_queue q)"

definition cq_empty :: "'a concurrent_queue \<Rightarrow> bool" where
  "cq_empty q \<longleftrightarrow> cq_queue q = []"

definition is_bounded :: "'a concurrent_queue \<Rightarrow> bool" where
  "is_bounded q \<longleftrightarrow> cq_max_size q \<noteq> 0"

definition capacity :: "'a concurrent_queue \<Rightarrow> nat" where
  "capacity q = cq_max_size q"

definition cq_clear :: "'a concurrent_queue \<Rightarrow> nat \<times> 'a concurrent_queue" where
  "cq_clear q = (let removed = length (cq_queue q) in (removed, q\<lparr>cq_queue := []\<rparr>))"

section \<open>The contract of a first-in first-out store\<close>

text \<open>A store may refuse an item, and may give up its oldest items to take one. Whatever it does,
  the items that leave it and those it still holds are, in this order, the items it took.\<close>

fun run_store :: "('a \<Rightarrow> 's \<Rightarrow> bool \<times> 's) \<Rightarrow> ('s \<Rightarrow> ('a \<times> 's) option) \<Rightarrow> 'a option list \<Rightarrow> 's \<Rightarrow>
    'a list \<times> 'a list \<times> 's" where
  "run_store put get [] s = ([], [], s)"
| "run_store put get (Some v # ops) s =
     (let (ok, s') = put v s; (taken, got, s'') = run_store put get ops s'
      in (if ok then v # taken else taken, got, s''))"
| "run_store put get (None # ops) s =
     (case get s of
        None \<Rightarrow> run_store put get ops s
      | Some (x, s') \<Rightarrow> let (taken, got, s'') = run_store put get ops s' in (taken, x # got, s''))"

locale fifo_store =
  fixes items :: "'s \<Rightarrow> 'a list"
    and keeps :: "'s \<Rightarrow> bool"
    and put :: "'a \<Rightarrow> 's \<Rightarrow> bool \<times> 's"
    and get :: "'s \<Rightarrow> ('a \<times> 's) option"
  assumes put_refused: "put v s = (False, s') \<Longrightarrow> s' = s"
    and put_taken: "put v s = (True, s') \<Longrightarrow> \<exists>dropped kept. items s = dropped @ kept \<and>
      items s' = kept @ [v] \<and> (keeps s \<longrightarrow> dropped = [])"
    and put_keeps: "put v s = (ok, s') \<Longrightarrow> keeps s' = keeps s"
    and get_none: "get s = None \<Longrightarrow> items s = []"
    and get_some: "get s = Some (x, s') \<Longrightarrow> items s = x # items s' \<and> keeps s' = keeps s"
begin

lemma run_in_order:
  "run_store put get ops s = (taken, got, s') \<Longrightarrow> subseq (got @ items s') (items s @ taken)"
proof (induction ops arbitrary: s taken got s')
  case Nil
  then show ?case by auto
next
  case (Cons opn ops)
  show ?case
  proof (cases opn)
    case None
    show ?thesis
    proof (cases "get s")
      case g: None
      show ?thesis by (rule Cons.IH) (use Cons.prems None g in simp_all)
    next
      case g: (Some r)
      obtain x s1 where xs: "r = (x, s1)" by fastforce
      obtain got' where r: "run_store put get ops s1 = (taken, got', s')" "got = x # got'"
        using Cons.prems(1) unfolding None by (cases "run_store put get ops s1") (simp add: g xs)
      have "items s = x # items s1" "keeps s1 = keeps s" using get_some g xs by blast+
      then show ?thesis unfolding r(2) using Cons.IH [OF r(1)] by simp
    qed
  next
    case (Some v)
    obtain ok s1 where p: "put v s = (ok, s1)" by fastforce
    obtain tk where r: "run_store put get ops s1 = (tk, got, s')" "taken = (if ok then v # tk else tk)"
      using Cons.prems(1) unfolding Some by (cases "run_store put get ops s1") (simp add: p)
    have sub: "subseq (got @ items s') (items s1 @ tk)" by (rule Cons.IH [OF r(1)])
    show ?thesis
    proof (cases ok)
      case True
      then obtain dr kp where "items s = dr @ kp" "items s1 = kp @ [v]"
        using put_taken [of v s s1] p by auto
      then have "subseq (items s1 @ tk) (items s @ taken)" using True r(2) by auto
      with sub show ?thesis by (rule subseq_order.order_trans)
    next
      case False
      then show ?thesis using put_refused [of v s s1] p sub r(2) by auto
    qed
  qed
qed

lemma run_lossless:
  "run_store put get ops s = (taken, got, s') \<Longrightarrow> keeps s \<Longrightarrow> got @ items s' = items s @ taken"
proof (induction ops arbitrary: s taken got s')
  case (Cons opn ops)
  show ?case
  proof (cases opn)
    case None
    show ?thesis
    proof (cases "get s")
      case g: None
      show ?thesis by (rule Cons.IH) (use Cons.prems None g in simp_all)
    next
      case g: (Some r)
      obtain x s1 where xs: "r = (x, s1)" by fastforce
      obtain got' where r: "run_store put get ops s1 = (taken, got', s')" "got = x # got'"
        using Cons.prems(1) unfolding None by (cases "run_store put get ops s1") (simp add: g xs)
      have "items s = x # items s1" "keeps s1 = keeps s" using get_some g xs by blast+
      then show ?thesis unfolding r(2) using Cons.IH [OF r(1)] Cons.prems(2) by simp
    qed
  next
    case (Some v)
    obtain ok s1 where p: "put v s = (ok, s1)" by fastforce
    obtain tk where r: "run_store put get ops s1 = (tk, got, s')" "taken = (if ok then v # tk else tk)"
      using Cons.prems(1) unfolding Some by (cases "run_store put get ops s1") (simp add: p)
    have "got @ items s' = items s1 @ tk" using Cons.IH [OF r(1)] put_keeps [OF p] Cons.prems(2) by simp
    moreover have "items s1 = (if ok then items s @ [v] else items s)"
    proof (cases ok)
      case True
      then show ?thesis using put_taken [of v s s1] p Cons.prems(2) by auto
    next
      case False
      then show ?thesis using put_refused [of v s s1] p by auto
    qed
    ultimately show ?thesis using r(2) by simp
  qed
qed simp

end

definition never_drops :: "'a concurrent_queue \<Rightarrow> bool" where
  "never_drops q \<longleftrightarrow> cq_max_size q = 0 \<or> cq_policy q = reject_new"

lemma emplace_impl_cases:
  assumes "emplace_impl v q = (ok, q')"
  obtains (refused) "ok = False" "q' = q" "cq_policy q = reject_new" "cq_max_size q \<noteq> 0"
      "length (cq_queue q) \<ge> cq_max_size q"
    | (added) "ok = True" "q' = q\<lparr>cq_queue := cq_queue q @ [v]\<rparr>"
      "cq_max_size q = 0 \<or> length (cq_queue q) < cq_max_size q"
    | (dropped) x xs where "ok = True" "cq_queue q = x # xs" "q' = q\<lparr>cq_queue := xs @ [v]\<rparr>"
      "cq_policy q = drop_oldest" "cq_max_size q \<noteq> 0" "length (cq_queue q) \<ge> cq_max_size q"
  using assms unfolding emplace_impl_def
  by (cases "cq_queue q") (auto split: if_splits overflow_policy.splits)

interpretation cq: fifo_store cq_queue never_drops emplace_impl try_dequeue
proof
  fix v :: 'a and q q' assume e: "emplace_impl v q = (True, q')"
  show "\<exists>dropped kept. cq_queue q = dropped @ kept \<and> cq_queue q' = kept @ [v] \<and>
      (never_drops q \<longrightarrow> dropped = [])"
    using e
  proof (cases rule: emplace_impl_cases)
    case added
    then show ?thesis by (intro exI [of _ "[]"] exI [of _ "cq_queue q"]) simp
  next
    case (dropped x xs)
    then show ?thesis by (intro exI [of _ "[x]"] exI [of _ xs]) (simp add: never_drops_def)
  qed simp
next
  fix v :: 'a and q q' ok assume "emplace_impl v q = (ok, q')"
  then show "never_drops q' = never_drops q"
    by (cases rule: emplace_impl_cases) (simp_all add: never_drops_def)
qed (auto simp: try_dequeue_def never_drops_def split: list.splits elim: emplace_impl_cases)

text \<open>Over any sequence of calls of \<open>enqueue\<close> and \<open>try_dequeue\<close> the items handed out, followed
  by those still queued, are in the order in which they were accepted; a queue that does not drop
  loses none of them and invents none.\<close>

theorem queue_fifo:
  assumes "run_store emplace_impl try_dequeue ops q = (taken, got, q')"
  shows "subseq (got @ cq_queue q') (cq_queue q @ taken) \<and>
    (if cq_max_size q = 0 \<or> cq_policy q = reject_new then got @ cq_queue q' = cq_queue q @ taken
     else True)"
  using cq.run_in_order [OF assms] cq.run_lossless [OF assms] by (simp add: never_drops_def)

theorem queue_fifo_witness:
  "subseq ([2] @ cq_queue ((new_queue 2 drop_oldest :: int concurrent_queue)\<lparr>cq_queue := [3, 4]\<rparr>))
     (cq_queue (new_queue 2 drop_oldest) @ [1, 2, 3, 4 :: int]) \<and>
   (if cq_max_size (new_queue 2 drop_oldest :: int concurrent_queue) = 0 \<or>
       cq_policy (new_queue 2 drop_oldest :: int concurrent_queue) = reject_new
    then [2] @ cq_queue ((new_queue 2 drop_oldest :: int concurrent_queue)\<lparr>cq_queue := [3, 4]\<rparr>) =
      cq_queue (new_queue 2 drop_oldest) @ [1, 2, 3, 4]
    else True)"
  by (rule queue_fifo [where ops = "[Some 1, Some 2, Some 3, None, Some 4]"])
    (simp add: emplace_impl_def try_dequeue_def new_queue_def)

section \<open>Threads\<close>

text \<open>A thread is outside the queue, about to call \<open>notify_one\<close> after its \<open>emplace_impl\<close>, asleep on
  the condition variable, or woken and about to test the predicate of the wait again. Ghost fields
  record the accepted items and those that left the queue, with a flag for a delivery.\<close>

datatype thread = Idle | Notifying | Sleeping | Woken

record 'a world =
  w_queue :: "'a concurrent_queue"
  w_threads :: "thread list"
  w_accepted :: "'a list"
  w_removed :: "(bool \<times> 'a) list"

definition set_thread :: "nat \<Rightarrow> thread \<Rightarrow> 'a world \<Rightarrow> 'a world" where
  "set_thread t st w = w\<lparr>w_threads := (w_threads w)[t := st]\<rparr>"

definition is_thread :: "'a world \<Rightarrow> nat \<Rightarrow> thread \<Rightarrow> bool" where
  "is_thread w t st \<longleftrightarrow> t < length (w_threads w) \<and> w_threads w ! t = st"

definition deliver_item :: "'a \<Rightarrow> 'a concurrent_queue \<Rightarrow> 'a world \<Rightarrow> 'a world" where
  "deliver_item x q w = w\<lparr>w_queue := q, w_removed := w_removed w @ [(True, x)]\<rparr>"

definition accept_item :: "'a \<Rightarrow> 'a concurrent_queue \<Rightarrow> 'a world \<Rightarrow> 'a world" where
  "accept_item v q w =
     (let old = cq_queue (w_queue w); lost = take (length old + 1 - length (cq_queue q)) old
      in w\<lparr>w_queue := q, w_accepted := w_accepted w @ [v],
           w_removed := w_removed w @ map (Pair False) lost\<rparr>)"

text \<open>One rule per atomic section of a thread \<open>t\<close>. \<open>notify_one\<close> wakes some sleeping thread, if there is one; the
  standard also lets a thread wake up by itself. \<open>wait_dequeue\<close> tests its predicate, sleeps while it
  is false, and takes the head in the same section in which it finds it true.\<close>

inductive step :: "nat \<Rightarrow> 'a world \<Rightarrow> 'a world \<Rightarrow> bool" where
  enqueue_ok: "is_thread w t Idle \<Longrightarrow> emplace_impl v (w_queue w) = (True, q) \<Longrightarrow>
    step t w (set_thread t Notifying (accept_item v q w))"
| enqueue_refused: "is_thread w t Idle \<Longrightarrow> emplace_impl v (w_queue w) = (False, q) \<Longrightarrow>
    step t w (w\<lparr>w_queue := q\<rparr>)"
| notify_some: "is_thread w t Notifying \<Longrightarrow> is_thread w u Sleeping \<Longrightarrow>
    step t w (set_thread u Woken (set_thread t Idle w))"
| notify_none: "is_thread w t Notifying \<Longrightarrow> Sleeping \<notin> set (w_threads w) \<Longrightarrow>
    step t w (set_thread t Idle w)"
| spurious: "is_thread w t Sleeping \<Longrightarrow> step t w (set_thread t Woken w)"
| wait_sleep: "is_thread w t Idle \<or> is_thread w t Woken \<Longrightarrow> cq_empty (w_queue w) \<Longrightarrow>
    step t w (set_thread t Sleeping w)"
| wait_take: "is_thread w t Idle \<or> is_thread w t Woken \<Longrightarrow> try_dequeue (w_queue w) = Some (x, q) \<Longrightarrow>
    step t w (set_thread t Idle (deliver_item x q w))"
| take_head: "is_thread w t Idle \<Longrightarrow> try_dequeue (w_queue w) = Some (x, q) \<Longrightarrow> step t w (deliver_item x q w)"
| take_if: "is_thread w t Idle \<Longrightarrow> dequeue_if pred (w_queue w) = Some (x, q) \<Longrightarrow> step t w (deliver_item x q w)"
| clear_all: "is_thread w t Idle \<Longrightarrow> cq_clear (w_queue w) = (n, q) \<Longrightarrow>
    step t w (w\<lparr>w_queue := q, w_removed := w_removed w @ map (Pair False) (cq_queue (w_queue w))\<rparr>)"

definition start :: "nat \<Rightarrow> overflow_policy \<Rightarrow> nat \<Rightarrow> 'a world" where
  "start max_size policy n =
     \<lparr>w_queue = new_queue max_size policy, w_threads = replicate n Idle, w_accepted = [], w_removed = []\<rparr>"

inductive reachable :: "'a world \<Rightarrow> 'a world \<Rightarrow> bool" for w0 where
  reach_start: "reachable w0 w0"
| reach_step: "reachable w0 w \<Longrightarrow> step t w w' \<Longrightarrow> reachable w0 w'"

section \<open>Invariants\<close>

abbreviation number :: "thread \<Rightarrow> 'a world \<Rightarrow> nat" where
  "number st w \<equiv> count_list (w_threads w) st"

definition in_bound :: "'a world \<Rightarrow> bool" where
  "in_bound w \<longleftrightarrow> cq_max_size (w_queue w) = 0 \<or> length (cq_queue (w_queue w)) \<le> cq_max_size (w_queue w)"

definition conserves :: "'a world \<Rightarrow> bool" where
  "conserves w \<longleftrightarrow> w_accepted w = map snd (w_removed w) @ cq_queue (w_queue w)"

definition no_lost_wakeup :: "'a world \<Rightarrow> bool" where
  "no_lost_wakeup w \<longleftrightarrow>
     number Sleeping w = 0 \<or> length (cq_queue (w_queue w)) \<le> number Woken w + number Notifying w"

lemma count_list_nth: "t < length ts \<Longrightarrow> 0 < count_list ts (ts ! t)"
  by (metis count_list_0_iff gr0I nth_mem)

lemma count_list_update:
  "t < length ts \<Longrightarrow>
   count_list (ts[t := x]) y + (if ts ! t = y then 1 else 0) = count_list ts y + (if x = y then 1 else 0)"
proof (induction ts arbitrary: t)
  case (Cons a ts)
  then show ?case
  proof (cases t)
    case (Suc n)
    then show ?thesis using Cons.IH [of n] Cons.prems by auto
  qed auto
qed simp

lemma number_set_thread:
  "is_thread w t st \<Longrightarrow>
   number y (set_thread t x w) + (if st = y then 1 else 0) = number y w + (if x = y then 1 else 0)"
  using count_list_update [of t "w_threads w" x y] by (auto simp: is_thread_def set_thread_def)

lemma set_thread_simps [simp]:
  "w_queue (set_thread t st w) = w_queue w" "w_accepted (set_thread t st w) = w_accepted w"
  "w_removed (set_thread t st w) = w_removed w"
  "w_queue (deliver_item x q w) = q" "w_threads (deliver_item x q w) = w_threads w"
  "w_accepted (deliver_item x q w) = w_accepted w" "w_removed (deliver_item x q w) = w_removed w @ [(True, x)]"
  "w_queue (accept_item v q w) = q" "w_threads (accept_item v q w) = w_threads w"
  by (simp_all add: set_thread_def deliver_item_def accept_item_def Let_def)

lemma try_dequeue_Some:
  "try_dequeue q = Some (x, q') \<longleftrightarrow> cq_queue q \<noteq> [] \<and> x = hd (cq_queue q) \<and> q' = q\<lparr>cq_queue := tl (cq_queue q)\<rparr>"
  by (auto simp: try_dequeue_def split: list.splits)

lemma dequeue_if_Some: "dequeue_if pred q = Some (x, q') \<Longrightarrow> try_dequeue q = Some (x, q')"
  by (auto simp: dequeue_if_def try_dequeue_def split: list.splits if_splits)

lemma emplace_bound:
  "emplace_impl v q = (ok, q') \<Longrightarrow> cq_max_size q' = cq_max_size q \<and> cq_policy q' = cq_policy q \<and>
   (cq_max_size q = 0 \<or> length (cq_queue q) \<le> cq_max_size q \<longrightarrow>
    cq_max_size q = 0 \<or> length (cq_queue q') \<le> cq_max_size q) \<and>
   length (cq_queue q') \<le> length (cq_queue q) + (if ok then 1 else 0)"
  by (erule emplace_impl_cases) auto

lemma accept_item_log:
  assumes "emplace_impl v (w_queue w) = (True, q)" "conserves w"
  shows "conserves (accept_item v q w)"
  using assms(1)
proof (cases rule: emplace_impl_cases)
  case added
  then show ?thesis using assms(2) by (simp add: conserves_def accept_item_def Let_def)
next
  case (dropped x xs)
  then show ?thesis using assms(2) by (simp add: conserves_def accept_item_def Let_def comp_def)
qed simp

lemma step_in_bound: "step t w w' \<Longrightarrow> in_bound w \<Longrightarrow> in_bound w'"
proof (induction rule: step.induct)
  case (enqueue_ok w t v q)
  then show ?case using emplace_bound [OF enqueue_ok.hyps(2)] by (simp add: in_bound_def)
next
  case (enqueue_refused w t v q)
  then show ?case using emplace_bound [OF enqueue_refused.hyps(2)] by (simp add: in_bound_def)
qed (auto simp: in_bound_def try_dequeue_Some cq_clear_def Let_def dest!: dequeue_if_Some)

lemma step_conserves: "step t w w' \<Longrightarrow> conserves w \<Longrightarrow> conserves w'"
proof (induction rule: step.induct)
  case (enqueue_ok w t v q)
  then show ?case using accept_item_log [OF enqueue_ok.hyps(2)] by (simp add: conserves_def)
next
  case (enqueue_refused w t v q)
  then show ?case by (auto simp: conserves_def elim: emplace_impl_cases)
qed (auto simp: conserves_def try_dequeue_Some cq_clear_def Let_def comp_def dest!: dequeue_if_Some)

lemma is_thread_set_other:
  "is_thread w u st \<Longrightarrow> u \<noteq> t \<Longrightarrow> is_thread (set_thread t st' w) u st"
  by (simp add: is_thread_def set_thread_def)

lemma is_thread_set_self: "is_thread w t st \<Longrightarrow> is_thread (set_thread t st' w) t st'"
  by (simp add: is_thread_def set_thread_def)

lemma is_thread_frame [simp]:
  "is_thread (deliver_item x q w) t st = is_thread w t st"
  "is_thread (accept_item v q w) t st = is_thread w t st"
  by (simp_all add: is_thread_def)

lemma step_no_lost_wakeup: "step t w w' \<Longrightarrow> no_lost_wakeup w \<Longrightarrow> no_lost_wakeup w'"
proof (induction rule: step.induct)
  case (enqueue_ok w t v q)
  let ?w = "accept_item v q w"
  have "is_thread ?w t Idle" using enqueue_ok.hyps by simp
  note n = number_set_thread [OF this, where y = Sleeping and x = Notifying] number_set_thread [OF this, where y = Woken and x = Notifying]
    number_set_thread [OF this, where y = Notifying and x = Notifying]
  show ?case using n emplace_bound [OF enqueue_ok.hyps(2)] enqueue_ok.prems
    by (auto simp: no_lost_wakeup_def)
next
  case (enqueue_refused w t v q)
  then show ?case by (auto simp: no_lost_wakeup_def elim: emplace_impl_cases)
next
  case (notify_some w t u)
  let ?w = "set_thread t Idle w"
  have "u \<noteq> t" using notify_some.hyps by (auto simp: is_thread_def)
  then have u: "is_thread ?w u Sleeping" using notify_some.hyps by (intro is_thread_set_other)
  note n = number_set_thread [OF notify_some.hyps(1), where x = Idle] number_set_thread [OF u, where x = Woken]
  show ?case using n [of Sleeping] n [of Woken] n [of Notifying] notify_some.prems
    by (auto simp: no_lost_wakeup_def)
next
  case (notify_none w t)
  then have "number Sleeping w = 0" by (simp add: count_list_0_iff)
  then show ?case using number_set_thread [OF notify_none.hyps(1), where y = Sleeping and x = Idle]
    by (simp add: no_lost_wakeup_def)
next
  case (spurious w t)
  show ?case
    using number_set_thread [OF spurious.hyps, where y = Sleeping and x = Woken]
      number_set_thread [OF spurious.hyps, where y = Woken and x = Woken]
      number_set_thread [OF spurious.hyps, where y = Notifying and x = Woken] spurious.prems
    by (auto simp: no_lost_wakeup_def)
next
  case (wait_sleep w t)
  then show ?case by (simp add: no_lost_wakeup_def cq_empty_def)
next
  case (wait_take w t x q)
  let ?w = "deliver_item x q w"
  obtain st where st: "is_thread ?w t st" "st = Idle \<or> st = Woken" using wait_take.hyps by auto
  note n = number_set_thread [OF st(1), where x = Idle]
  show ?case using n [of Sleeping] n [of Woken] n [of Notifying] wait_take.prems wait_take.hyps(2) st(2)
    by (auto simp: no_lost_wakeup_def try_dequeue_Some)
qed (auto simp: no_lost_wakeup_def try_dequeue_Some cq_clear_def Let_def dest!: dequeue_if_Some)

lemma reachable_invariants:
  assumes "reachable w0 w" "in_bound w0" "conserves w0" "no_lost_wakeup w0"
  shows "in_bound w \<and> conserves w \<and> no_lost_wakeup w"
  using assms(1)
proof (induction rule: reachable.induct)
  case reach_start
  then show ?case using assms(2-4) by simp
next
  case (reach_step w t w')
  then show ?case using step_in_bound step_conserves step_no_lost_wakeup by blast
qed

lemma start_invariants: "in_bound (start m p n)" "conserves (start m p n)" "no_lost_wakeup (start m p n)"
  by (simp_all add: start_def new_queue_def in_bound_def conserves_def no_lost_wakeup_def)

lemmas from_start = reachable_invariants [OF _ start_invariants]

text \<open>C11: however the calls of any number of threads interleave, a bounded queue never holds more
  than its maximum, the items accepted are exactly those delivered, dropped or cleared, in order,
  followed by those queued, and while a thread sleeps in \<open>wait_dequeue\<close> there are at least as many
  pending wake-ups as queued items.\<close>

theorem queue_safe:
  assumes "reachable (start m p n) w"
  shows "(cq_max_size (w_queue w) = 0 \<or> length (cq_queue (w_queue w)) \<le> cq_max_size (w_queue w)) \<and>
    w_accepted w = map snd (w_removed w) @ cq_queue (w_queue w) \<and>
    (number Sleeping w = 0 \<or> length (cq_queue (w_queue w)) \<le> number Woken w + number Notifying w)"
  using from_start [OF assms] unfolding in_bound_def conserves_def no_lost_wakeup_def by blast

definition example_world :: "int world" where
  "example_world =
     \<lparr>w_queue = \<lparr>cq_queue = [7], cq_max_size = 0, cq_policy = reject_new\<rparr>,
      w_threads = [Sleeping, Notifying], w_accepted = [7], w_removed = []\<rparr>"

lemma example_reachable: "reachable (start 0 reject_new 2) example_world"
proof -
  let ?w0 = "start 0 reject_new 2 :: int world"
  let ?w1 = "set_thread 0 Sleeping ?w0"
  have "step 0 ?w0 ?w1"
    by (rule wait_sleep) (simp_all add: start_def is_thread_def cq_empty_def new_queue_def)
  then have "reachable ?w0 ?w1" by (rule reach_step [OF reach_start])
  moreover have "step 1 ?w1 (set_thread 1 Notifying (accept_item 7 (snd (emplace_impl 7 (w_queue ?w1))) ?w1))"
    by (rule enqueue_ok) (simp_all add: start_def set_thread_def is_thread_def emplace_impl_def new_queue_def
        numeral_2_eq_2)
  moreover have "set_thread 1 Notifying (accept_item 7 (snd (emplace_impl 7 (w_queue ?w1))) ?w1) = example_world"
    by (simp add: example_world_def start_def set_thread_def accept_item_def emplace_impl_def new_queue_def
        numeral_2_eq_2)
  ultimately show ?thesis by (metis reach_step)
qed

theorem queue_safe_witness:
  "(cq_max_size (w_queue example_world) = 0 \<or>
    length (cq_queue (w_queue example_world)) \<le> cq_max_size (w_queue example_world)) \<and>
   w_accepted example_world = map snd (w_removed example_world) @ cq_queue (w_queue example_world) \<and>
   (number Sleeping example_world = 0 \<or>
    length (cq_queue (w_queue example_world)) \<le> number Woken example_world + number Notifying example_world)"
  by (rule queue_safe [OF example_reachable])

text \<open>C12: no thread sleeps for ever while an item is queued: in every reachable state with a sleeping
  thread and a non-empty queue, a wake-up is under way, and the steps of the threads concerned, a
  pending \<open>notify_one\<close> and the test of a woken thread, deliver_item the oldest item without any new call.\<close>

theorem queue_progress:
  assumes "reachable (start m p n) w" "is_thread w s Sleeping" "cq_queue (w_queue w) = x # xs"
  shows "\<exists>u w1 w2. (w1 = w \<or> (\<exists>t. is_thread w t Notifying \<and> step t w w1)) \<and>
    is_thread w1 u Woken \<and> step u w1 w2 \<and> w_removed w2 = w_removed w @ [(True, x)]"
proof -
  have take: "step u v (set_thread u Idle (deliver_item x ((w_queue w)\<lparr>cq_queue := xs\<rparr>) v))"
    if "is_thread v u Woken" "w_queue v = w_queue w" for u v
    using that assms(3) by (intro wait_take) (auto simp: try_dequeue_Some)
  have "Sleeping \<in> set (w_threads w)" using assms(2) nth_mem by (force simp: is_thread_def)
  then have "number Sleeping w \<noteq> 0" by (simp add: count_list_0_iff)
  then have "0 < number Woken w + number Notifying w"
    using from_start [OF assms(1)] assms(3) unfolding no_lost_wakeup_def by auto
  then consider u where "is_thread w u Woken" | t where "is_thread w t Notifying"
    by (metis add_is_0 count_list_0_iff in_set_conv_nth is_thread_def neq0_conv)
  then show ?thesis
  proof cases
    case 1
    then show ?thesis using take [OF 1] by (intro exI conjI) auto
  next
    case 2
    let ?w1 = "set_thread s Woken (set_thread t Idle w)"
    have "s \<noteq> t" using 2 assms(2) by (auto simp: is_thread_def)
    then have "is_thread ?w1 s Woken"
      using assms(2) by (intro is_thread_set_self is_thread_set_other)
    moreover have "step t w ?w1" using 2 assms(2) by (rule notify_some)
    moreover have "step s ?w1 (set_thread s Idle (deliver_item x ((w_queue w)\<lparr>cq_queue := xs\<rparr>) ?w1))"
      using calculation(1) by (intro take) simp_all
    moreover have "w_removed (set_thread s Idle (deliver_item x ((w_queue w)\<lparr>cq_queue := xs\<rparr>) ?w1)) =
        w_removed w @ [(True, x)]" by simp
    ultimately show ?thesis using 2 by blast
  qed
qed

theorem queue_progress_witness:
  "\<exists>u w1 w2. (w1 = example_world \<or> (\<exists>t. is_thread example_world t Notifying \<and> step t example_world w1)) \<and>
    is_thread w1 u Woken \<and> step u w1 w2 \<and> w_removed w2 = w_removed example_world @ [(True, 7)]"
  by (rule queue_progress [OF example_reachable, of 0 7 "[]"]) (simp_all add: example_world_def is_thread_def)

end
