(* ===== verification/Key_Value.thy ===== *)
theory Key_Value
  imports Prelude
begin

text \<open>
  The contract of a key-value store: storing under a key, removing a key, and removing a whole group
  of keys at once act on the lookup function as the corresponding updates of a mathematical map. The
  object broker and the INI document are interpretations, so that any sequence of their calls is
  known to behave like the same sequence of map updates; the configuration file, which only stores,
  is an interpretation of the smaller contract \<open>map_store\<close>.
\<close>

datatype ('k, 'v, 'g) edit = Put 'k 'v | Del 'k | Drop 'g

fun edit_map :: "('g \<Rightarrow> 'k \<Rightarrow> bool) \<Rightarrow> ('k, 'v, 'g) edit \<Rightarrow> ('k \<Rightarrow> 'v option) \<Rightarrow> ('k \<Rightarrow> 'v option)" where
  "edit_map belongs (Put k v) m = m(k \<mapsto> v)"
| "edit_map belongs (Del k) m = m(k := None)"
| "edit_map belongs (Drop g) m = (\<lambda>k. if belongs g k then None else m k)"

fun edit_store :: "('k \<Rightarrow> 'v \<Rightarrow> 's \<Rightarrow> 's) \<Rightarrow> ('k \<Rightarrow> 's \<Rightarrow> 's) \<Rightarrow> ('g \<Rightarrow> 's \<Rightarrow> 's) \<Rightarrow> ('k, 'v, 'g) edit \<Rightarrow>
    's \<Rightarrow> 's" where
  "edit_store put del drp (Put k v) s = put k v s"
| "edit_store put del drp (Del k) s = del k s"
| "edit_store put del drp (Drop g) s = drp g s"

locale map_store =
  fixes valid :: "'s \<Rightarrow> bool"
    and look :: "'s \<Rightarrow> 'k \<Rightarrow> 'v option"
    and put :: "'k \<Rightarrow> 'v \<Rightarrow> 's \<Rightarrow> 's"
  assumes look_put: "valid s \<Longrightarrow> look (put k v s) = (look s)(k \<mapsto> v)"
    and valid_put: "valid s \<Longrightarrow> valid (put k v s)"
begin

lemma puts_refine:
  "valid s \<Longrightarrow> valid (fold (\<lambda>(k, v). put k v) kvs s) \<and>
   look (fold (\<lambda>(k, v). put k v) kvs s) = look s ++ map_of (rev kvs)"
proof (induction kvs arbitrary: s)
  case (Cons kv kvs)
  then show ?case by (cases kv) (auto simp: look_put valid_put fun_eq_iff map_add_def split: option.split)
qed simp

end

text \<open>A store that also removes keys, one by one or a group at a time.\<close>

locale key_value_store = map_store valid look put
  for valid :: "'s \<Rightarrow> bool"
    and look :: "'s \<Rightarrow> 'k \<Rightarrow> 'v option"
    and put :: "'k \<Rightarrow> 'v \<Rightarrow> 's \<Rightarrow> 's" +
  fixes belongs :: "'g \<Rightarrow> 'k \<Rightarrow> bool"
    and del :: "'k \<Rightarrow> 's \<Rightarrow> 's"
    and drp :: "'g \<Rightarrow> 's \<Rightarrow> 's"
  assumes look_del: "valid s \<Longrightarrow> look (del k s) = (look s)(k := None)"
    and look_drp: "valid s \<Longrightarrow> look (drp g s) = (\<lambda>k. if belongs g k then None else look s k)"
    and valid_del: "valid s \<Longrightarrow> valid (del k s)"
    and valid_drp: "valid s \<Longrightarrow> valid (drp g s)"
begin

lemma look_edit: "valid s \<Longrightarrow> look (edit_store put del drp e s) = edit_map belongs e (look s)"
  by (cases e) (simp_all add: look_put look_del look_drp)

lemma valid_edit: "valid s \<Longrightarrow> valid (edit_store put del drp e s)"
  by (cases e) (simp_all add: valid_put valid_del valid_drp)

lemma edits_refine:
  "valid s \<Longrightarrow> valid (fold (edit_store put del drp) es s) \<and>
   look (fold (edit_store put del drp) es s) = fold (edit_map belongs) es (look s)"
  by (induction es arbitrary: s) (simp_all add: look_edit valid_edit)

text \<open>The last edit that concerns a key decides what is found under it.\<close>

lemma edits_other:
  assumes "valid s"
    and "list_all (\<lambda>e. case e of Put j v \<Rightarrow> j \<noteq> k | Del j \<Rightarrow> j \<noteq> k | Drop g \<Rightarrow> \<not> belongs g k) es"
  shows "look (fold (edit_store put del drp) es s) k = look s k"
  using assms
proof (induction es arbitrary: s)
  case (Cons e es)
  then have "look (edit_store put del drp e s) k = look s k"
    by (cases e) (auto simp add: look_put look_del look_drp)
  then show ?case using Cons by (simp add: valid_edit)
qed simp

end

end
