(* ===== verification/Object_Broker.thy ===== *)
theory Object_Broker
  imports Key_Value "HOL-Library.AList"
begin

text \<open>
  The registry of shared objects of \<open>include/j2_library/broker/object_broker.hpp\<close>. The one
  \<open>unordered_map\<close> of the singleton is an association list without duplicate keys, in one of the
  orders in which the map may be iterated; every method holds the lock throughout and is one
  function on it. A type is a value of \<open>'ty\<close>, its \<open>type_index\<close>. A stored \<open>std::any\<close> carries the type
  of the \<open>shared_ptr\<close> it was made from and the pointer, \<open>None\<close> for \<open>nullptr\<close>; the pointed-to objects
  are values of \<open>'obj\<close>.

  The broker is an interpretation of the contract of a key-value store, so any sequence of calls acts as the same sequence of updates of a mathematical map. The listing functions return
  exactly the registered entries, and \<open>any_cast\<close> never fails.
\<close>

section \<open>State and operations\<close>

record 'ty key =
  key_type :: 'ty
  key_name :: string

datatype ('ty, 'obj) any = Any (any_type: 'ty) (any_ptr: "'obj option")

type_synonym ('ty, 'obj) storage = "('ty key \<times> ('ty, 'obj) any) list"

definition mk_key :: "'ty \<Rightarrow> string \<Rightarrow> 'ty key" where
  "mk_key T n = \<lparr>key_type = T, key_name = n\<rparr>"

definition default_name :: string where
  "default_name = ''__default__''"

text \<open>\<open>std::any_cast<std::shared_ptr<T>>\<close>: \<open>None\<close> is \<open>std::bad_any_cast\<close>.\<close>

definition any_cast :: "'ty \<Rightarrow> ('ty, 'obj) any \<Rightarrow> 'obj option option" where
  "any_cast T a = (if any_type a = T then Some (any_ptr a) else None)"

definition register_instance :: "'ty \<Rightarrow> string \<Rightarrow> 'obj option \<Rightarrow> ('ty, 'obj) storage \<Rightarrow> ('ty, 'obj) storage" where
  "register_instance T n p s = AList.update (mk_key T n) (Any T p) s"

definition get_instance :: "'ty \<Rightarrow> string \<Rightarrow> ('ty, 'obj) storage \<Rightarrow> 'obj option" where
  "get_instance T n s =
     (case map_of s (mk_key T n) of
        None \<Rightarrow> None
      | Some a \<Rightarrow> (case any_cast T a of None \<Rightarrow> None | Some p \<Rightarrow> p))"

definition contains_instance :: "'ty \<Rightarrow> string \<Rightarrow> ('ty, 'obj) storage \<Rightarrow> bool" where
  "contains_instance T n s \<longleftrightarrow> map_of s (mk_key T n) \<noteq> None"

definition get_optional :: "'ty \<Rightarrow> string \<Rightarrow> ('ty, 'obj) storage \<Rightarrow> 'obj option option" where
  "get_optional T n s =
     (case map_of s (mk_key T n) of None \<Rightarrow> None | Some a \<Rightarrow> any_cast T a)"

definition unregister_instance :: "'ty \<Rightarrow> string \<Rightarrow> ('ty, 'obj) storage \<Rightarrow> ('ty, 'obj) storage" where
  "unregister_instance T n s = AList.delete (mk_key T n) s"

definition broker_clear :: "('ty, 'obj) storage \<Rightarrow> ('ty, 'obj) storage" where
  "broker_clear s = []"

text \<open>The loops over the storage; an entry of another type, one whose cast fails and a null pointer
  are passed over.\<close>

fun get_all_with_names :: "'ty \<Rightarrow> ('ty, 'obj) storage \<Rightarrow> (string \<times> 'obj) list" where
  "get_all_with_names T [] = []"
| "get_all_with_names T ((k, a) # s) =
     (if key_type k = T
      then (case any_cast T a of
          Some (Some sp) \<Rightarrow> (key_name k, sp) # get_all_with_names T s
        | Some None \<Rightarrow> get_all_with_names T s
        | None \<Rightarrow> get_all_with_names T s)
      else get_all_with_names T s)"

fun get_all :: "'ty \<Rightarrow> ('ty, 'obj) storage \<Rightarrow> 'obj list" where
  "get_all T [] = []"
| "get_all T ((k, a) # s) =
     (if key_type k = T
      then (case any_cast T a of
          Some (Some sp) \<Rightarrow> sp # get_all T s
        | Some None \<Rightarrow> get_all T s
        | None \<Rightarrow> get_all T s)
      else get_all T s)"

definition list_names_for_type :: "'ty \<Rightarrow> ('ty, 'obj) storage \<Rightarrow> string list" where
  "list_names_for_type T s = map (\<lambda>(k, a). key_name k) (filter (\<lambda>(k, a). key_type k = T) s)"

definition list_all_names :: "('ty, 'obj) storage \<Rightarrow> string list" where
  "list_all_names s = map (\<lambda>(k, a). key_name k) s"

definition list_unique_names :: "('ty, 'obj) storage \<Rightarrow> string list" where
  "list_unique_names s = remdups (map (\<lambda>(k, a). key_name k) s)"

definition list_all_entries :: "('ty, 'obj) storage \<Rightarrow> ('ty \<times> string) list" where
  "list_all_entries s = map (\<lambda>(k, a). (key_type k, key_name k)) s"

text \<open>A \<open>registration_guard\<close> that lives while \<open>body\<close> runs.\<close>

definition guard_scope ::
  "'ty \<Rightarrow> string \<Rightarrow> 'obj option \<Rightarrow> (('ty, 'obj) storage \<Rightarrow> ('ty, 'obj) storage) \<Rightarrow>
   ('ty, 'obj) storage \<Rightarrow> ('ty, 'obj) storage" where
  "guard_scope T n p body s = unregister_instance T n (body (register_instance T n p s))"

section \<open>The broker is a key-value store\<close>

text \<open>A storage is valid when no key occurs twice and every value was stored under its own type.\<close>

definition valid_storage :: "('ty, 'obj) storage \<Rightarrow> bool" where
  "valid_storage s \<longleftrightarrow> distinct (map fst s) \<and> list_all (\<lambda>(k, a). any_type a = key_type k) s"

definition broker_look :: "('ty, 'obj) storage \<Rightarrow> 'ty \<times> string \<Rightarrow> 'obj option option" where
  "broker_look s = (\<lambda>(T, n). get_optional T n s)"

definition broker_put :: "'ty \<times> string \<Rightarrow> 'obj option \<Rightarrow> ('ty, 'obj) storage \<Rightarrow> ('ty, 'obj) storage" where
  "broker_put = (\<lambda>(T, n). register_instance T n)"

definition broker_del :: "'ty \<times> string \<Rightarrow> ('ty, 'obj) storage \<Rightarrow> ('ty, 'obj) storage" where
  "broker_del = (\<lambda>(T, n). unregister_instance T n)"

lemma mk_key_eq [simp]: "mk_key T n = mk_key T' n' \<longleftrightarrow> T = T' \<and> n = n'"
  by (simp add: mk_key_def)

lemma key_eq_mk_key: "k = mk_key (key_type k) (key_name k)"
  by (simp add: mk_key_def)

lemma key_fields [simp]: "key_type (mk_key T n) = T" "key_name (mk_key T n) = n"
  by (simp_all add: mk_key_def)

lemma valid_storage_map_of: "valid_storage s \<Longrightarrow> map_of s k = Some a \<Longrightarrow> any_type a = key_type k"
  by (auto simp: valid_storage_def list_all_iff dest!: map_of_SomeD)

lemma get_optional_map_of:
  "valid_storage s \<Longrightarrow> get_optional T n s = map_option any_ptr (map_of s (mk_key T n))"
  by (auto simp: get_optional_def any_cast_def split: option.splits dest: valid_storage_map_of)

lemma valid_storage_update:
  assumes "valid_storage s"
  shows "valid_storage (register_instance T n p s)"
proof -
  have "list_all (\<lambda>(k, a). any_type a = key_type k) (AList.update (mk_key T n) (Any T p) s)"
    using assms unfolding valid_storage_def by (induction s) auto
  then show ?thesis
    using assms by (simp add: valid_storage_def register_instance_def AList.distinct_update)
qed

lemma valid_storage_delete: "valid_storage s \<Longrightarrow> valid_storage (unregister_instance T n s)"
  unfolding valid_storage_def unregister_instance_def
  by (auto simp: list_all_iff AList.delete_eq intro: distinct_map_filter)

definition broker_drop :: "unit \<Rightarrow> ('ty, 'obj) storage \<Rightarrow> ('ty, 'obj) storage" where
  "broker_drop u = broker_clear"

interpretation broker: key_value_store valid_storage broker_look broker_put "\<lambda>u k. True" broker_del broker_drop
proof
  fix s :: "('ty, 'obj) storage" and k :: "'ty \<times> string" and v :: "'obj option"
  assume s: "valid_storage s"
  obtain T n where k: "k = (T, n)" by fastforce
  show "valid_storage (broker_put k v s)" "valid_storage (broker_del k s)"
    using s by (simp_all add: k broker_put_def broker_del_def valid_storage_update valid_storage_delete)
  show "broker_look (broker_put k v s) = (broker_look s)(k \<mapsto> v)"
    using valid_storage_update [OF s]
    by (auto simp: k fun_eq_iff broker_look_def broker_put_def get_optional_map_of s register_instance_def
        AList.update_conv')
  show "broker_look (broker_del k s) = (broker_look s)(k := None)"
    using valid_storage_delete [OF s]
    by (auto simp: k fun_eq_iff broker_look_def broker_del_def get_optional_map_of s unregister_instance_def
        AList.delete_conv')
qed (auto simp: broker_look_def broker_drop_def broker_clear_def get_optional_def valid_storage_def)

section \<open>Properties\<close>

definition calls :: "('ty \<times> string, 'obj option, unit) edit list \<Rightarrow> ('ty, 'obj) storage" where
  "calls es = fold (edit_store broker_put broker_del broker_drop) es []"

definition registered :: "('ty \<times> string, 'obj option, unit) edit list \<Rightarrow> ('ty \<times> string \<Rightarrow> 'obj option option)" where
  "registered es = fold (edit_map (\<lambda>u k. True)) es (\<lambda>k. None)"

lemma calls_refine:
  fixes es :: "('ty \<times> string, 'obj option, unit) edit list"
  shows "valid_storage (calls es)" "broker_look (calls es) = registered es"
proof -
  have "valid_storage ([] :: ('ty, 'obj) storage)" "broker_look ([] :: ('ty, 'obj) storage) = (\<lambda>k. None)"
    by (auto simp: valid_storage_def broker_look_def get_optional_def)
  then show "valid_storage (calls es)" "broker_look (calls es) = registered es"
    unfolding calls_def registered_def by (simp_all add: broker.edits_refine)
qed

lemma registered_map_of: "registered es (T, n) = map_option any_ptr (map_of (calls es) (mk_key T n))"
  using calls_refine [of es] get_optional_map_of [of "calls es" T n] by (metis broker_look_def case_prod_conv)

lemma get_instance_look:
  "valid_storage s \<Longrightarrow> get_instance T n s = (case broker_look s (T, n) of None \<Rightarrow> None | Some p \<Rightarrow> p)"
  by (auto simp: get_instance_def broker_look_def get_optional_def any_cast_def split: option.splits)

lemma get_all_names: "get_all T s = map snd (get_all_with_names T s)"
  by (induction T s rule: get_all.induct) (simp_all split: option.splits)

lemma get_all_with_names_set:
  "valid_storage s \<Longrightarrow> set (get_all_with_names T s) = {(n, p). (mk_key T n, Any T (Some p)) \<in> set s}"
proof (induction T s rule: get_all_with_names.induct)
  case (2 T k a s)
  then have v: "any_type a = key_type k" "valid_storage s" by (simp_all add: valid_storage_def)
  obtain T' n' where k: "k = mk_key T' n'" using key_eq_mk_key by blast
  obtain p where "a = Any T' p" using v(1) k by (cases a) simp
  then show ?case using 2 v(2) k by (cases p) (auto simp: any_cast_def)
qed simp

lemma get_all_with_names_distinct:
  "valid_storage s \<Longrightarrow> distinct (map fst (get_all_with_names T s))"
proof (induction T s rule: get_all_with_names.induct)
  case (2 T k a s)
  then have v: "any_type a = key_type k" "valid_storage s" "k \<notin> fst ` set s"
    by (simp_all add: valid_storage_def)
  have "key_name k \<notin> fst ` set (get_all_with_names T s)" if "key_type k = T"
    using v(3) that key_eq_mk_key [of k] by (force simp: get_all_with_names_set [OF v(2)])
  then show ?case using 2 v by (auto simp: any_cast_def split: option.splits)
qed simp

lemma in_calls: "(mk_key T n, a) \<in> set (calls es) \<longleftrightarrow> map_of (calls es) (mk_key T n) = Some a"
  using calls_refine(1) [of es] by (simp add: valid_storage_def)

lemma registered_iff:
  "registered es (T, n) = Some p \<longleftrightarrow> (mk_key T n, Any T p) \<in> set (calls es)"
proof -
  have "map_of (calls es) (mk_key T n) = Some a \<Longrightarrow> any_type a = T" for a
    using valid_storage_map_of [OF calls_refine(1)] by fastforce
  then show ?thesis unfolding registered_map_of in_calls map_option_eq_Some by (metis any.collapse any.sel(2))
qed


text \<open>The listings return the registered entries and nothing else, each once: the objects of a
  type with their names (null pointers left out), the names of a type, all entries, all names.\<close>

theorem broker_listings:
  "set (get_all_with_names T (calls es)) = {(n, p). registered es (T, n) = Some (Some p)} \<and>
   distinct (map fst (get_all_with_names T (calls es))) \<and>
   get_all T (calls es) = map snd (get_all_with_names T (calls es)) \<and>
   set (list_names_for_type T (calls es)) = {n. registered es (T, n) \<noteq> None} \<and>
   set (list_all_entries (calls es)) = dom (registered es) \<and> distinct (list_all_entries (calls es)) \<and>
   list_all_names (calls es) = map snd (list_all_entries (calls es)) \<and>
   set (list_unique_names (calls es)) = snd ` dom (registered es) \<and> distinct (list_unique_names (calls es))"
proof -
  let ?s = "calls es"
  have v: "valid_storage ?s" by (rule calls_refine)
  have mem: "registered es (T, n) \<noteq> None \<longleftrightarrow> (\<exists>k a. (k, a) \<in> set ?s \<and> key_type k = T \<and> key_name k = n)" for T n
  proof -
    have "registered es (T, n) \<noteq> None \<longleftrightarrow> (\<exists>a. (mk_key T n, a) \<in> set ?s)"
      by (auto simp: registered_map_of in_calls)
    then show ?thesis by (metis key_eq_mk_key key_fields)
  qed
  have entries: "set (list_all_entries ?s) = dom (registered es)"
    unfolding list_all_entries_def dom_def using mem by force
  have "inj_on (\<lambda>k. (key_type k, key_name k)) (fst ` set ?s)"
    by (intro inj_onI key.equality) auto
  then have "distinct (list_all_entries ?s)"
    using v distinct_map [of "\<lambda>k. (key_type k, key_name k)" "map fst ?s"]
    by (simp add: valid_storage_def list_all_entries_def case_prod_unfold comp_def)
  moreover have "list_all_names ?s = map snd (list_all_entries ?s)"
    by (auto simp: list_all_names_def list_all_entries_def)
  moreover have "set (list_unique_names ?s) = snd ` dom (registered es)"
    unfolding entries [symmetric] by (force simp: list_unique_names_def list_all_entries_def)
  moreover have "set (list_names_for_type T ?s) = {n. registered es (T, n) \<noteq> None}"
    unfolding mem list_names_for_type_def by force
  ultimately show ?thesis
    using entries get_all_with_names_set [OF v, of T] get_all_with_names_distinct [OF v, of T]
    by (simp add: registered_iff get_all_names list_unique_names_def)
qed

text \<open>When a guard goes out of scope its key is unregistered, whatever was done in between and also
  when an object had been registered under the key before the guard: that one is lost and not
  restored. Every other key is as the scope left it.\<close>

theorem guard_forgets:
  "broker_look (guard_scope T n p (\<lambda>s. fold (edit_store broker_put broker_del broker_drop) body s) (calls es)) =
   (registered (es @ Put (T, n) p # body)) ((T, n) := None)"
proof -
  have "guard_scope T n p (\<lambda>s. fold (edit_store broker_put broker_del broker_drop) body s) (calls es) =
      calls (es @ Put (T, n) p # body @ [Del (T, n)])"
    by (simp add: guard_scope_def calls_def broker_put_def broker_del_def)
  then show ?thesis by (simp add: calls_refine registered_def)
qed

end
