(* ===== verification/Ini_Text.thy ===== *)
theory Ini_Text
  imports String_Basic
begin

text \<open>
  The text level of \<open>src/ini/ini_parser.cpp\<close>: trimming, inline comments, the two ways to quote a
  string, and the parsers of booleans and integers. Floating-point numbers are read and printed by
  the C library; the two functions are collected in \<open>float_api\<close>, a parameter of the model.
\<close>

section \<open>Trimming\<close>

definition ini_space :: "char \<Rightarrow> bool" where
  "ini_space c \<longleftrightarrow> c = CHR '' '' \<or> c = CHR 0x09 \<or> c = CHR 0x0D \<or> c = CHR 0x0A"

text \<open>\<open>while (start < s.size() && is_space(s[start])) ++start\<close> and
  \<open>while (end > start && is_space(s[end])) --end\<close>.\<close>

function skip_front :: "string \<Rightarrow> nat \<Rightarrow> nat" where
  "skip_front s i = (if i < length s \<and> ini_space (s ! i) then skip_front s (i + 1) else i)"
  by pat_completeness auto
termination by (relation "measure (\<lambda>(s, i). length s - i)") auto

fun skip_end :: "string \<Rightarrow> nat \<Rightarrow> nat \<Rightarrow> nat" where
  "skip_end s start 0 = 0"
| "skip_end s start (Suc i) =
     (if Suc i > start \<and> ini_space (s ! Suc i) then skip_end s start i else Suc i)"

declare skip_front.simps [simp del]

definition ini_trim :: "string \<Rightarrow> string" where
  "ini_trim s =
     (let start = skip_front s 0 in
      if start = length s then []
      else let end_pos = skip_end s start (length s - 1)
        in take (end_pos - start + 1) (drop start s))"

section \<open>Inline comments\<close>

text \<open>The loop keeps the quoting state and the position of the last character outside quotes that is
  no white space; \<open>cut_back\<close> is the inner loop.\<close>

fun cut_back :: "string \<Rightarrow> nat \<Rightarrow> nat" where
  "cut_back s 0 = 0"
| "cut_back s (Suc i) = (if isspace (s ! i) then cut_back s i else Suc i)"

function strip_loop :: "string \<Rightarrow> nat \<Rightarrow> bool \<Rightarrow> bool \<Rightarrow> nat option \<Rightarrow> string" where
  "strip_loop s i in_single in_double last_non_space =
     (if i < length s then
        let c = s ! i;
            in_single' = (if c = CHR 0x27 \<and> \<not> in_double then \<not> in_single else in_single);
            in_double' = (if c = CHR 0x27 \<and> \<not> in_double then in_double
                          else if c = CHR ''\"'' \<and> \<not> in_single then \<not> in_double else in_double)
        in if \<not> in_single' \<and> \<not> in_double' then
             (if c = CHR '';'' \<or> c = CHR ''#'' then
                let cut = (case last_non_space of Some j \<Rightarrow> j + 1 | None \<Rightarrow> 0)
                in take (cut_back s cut) s
              else strip_loop s (i + 1) in_single' in_double'
                     (if \<not> isspace c then Some i else last_non_space))
           else strip_loop s (i + 1) in_single' in_double' last_non_space
      else s)"
  by pat_completeness auto
termination by (relation "measure (\<lambda>(s, i, _). length s - i)") (auto simp: Let_def)

declare strip_loop.simps [simp del]

definition strip_inline_comment :: "string \<Rightarrow> string" where
  "strip_inline_comment s = strip_loop s 0 False False None"

section \<open>Quoting\<close>

abbreviation backslash :: char where "backslash \<equiv> CHR 0x5C"
abbreviation squote :: char where "squote \<equiv> CHR 0x27"
abbreviation dquote :: char where "dquote \<equiv> CHR 0x22"

fun decode_escapes_for_string :: "string \<Rightarrow> string" where
  "decode_escapes_for_string [] = []"
| "decode_escapes_for_string [c] = [c]"
| "decode_escapes_for_string (c # nx # s) =
     (if c = backslash then
        (if nx = CHR ''t'' then CHR 0x09 # decode_escapes_for_string s
         else if nx = CHR ''n'' then CHR 0x0A # decode_escapes_for_string s
         else if nx = CHR ''r'' then CHR 0x0D # decode_escapes_for_string s
         else if nx = backslash then backslash # decode_escapes_for_string s
         else if nx = squote then squote # decode_escapes_for_string s
         else if nx = dquote then dquote # decode_escapes_for_string s
         else backslash # nx # decode_escapes_for_string s)
      else c # decode_escapes_for_string (nx # s))"

definition encode_char :: "char \<Rightarrow> string" where
  "encode_char c =
     (if c = CHR 0x09 then [backslash, CHR ''t'']
      else if c = CHR 0x0A then [backslash, CHR ''n'']
      else if c = CHR 0x0D then [backslash, CHR ''r'']
      else if c = backslash then [backslash, backslash]
      else if c = squote then [backslash, squote]
      else [c])"

definition encode_escapes_for_string :: "string \<Rightarrow> string" where
  "encode_escapes_for_string s = concat (map encode_char s)"

fun unescape_literal :: "string \<Rightarrow> string" where
  "unescape_literal [] = []"
| "unescape_literal [c] = [c]"
| "unescape_literal (c # nx # s) =
     (if c = backslash \<and> nx = dquote then dquote # unescape_literal s
      else c # unescape_literal (nx # s))"

definition unquote_and_unescape :: "string \<Rightarrow> char \<Rightarrow> string" where
  "unquote_and_unescape v quote_ch =
     (if length v \<ge> 2 \<and> hd v = quote_ch \<and> last v = quote_ch
      then let inner = take (length v - 2) (drop 1 v)
        in if quote_ch = squote then decode_escapes_for_string inner else unescape_literal inner
      else v)"

definition quote_single_and_escape_raw :: "string \<Rightarrow> string" where
  "quote_single_and_escape_raw v = [squote] @ encode_escapes_for_string v @ [squote]"

definition quote_double_and_escape_literal :: "string \<Rightarrow> string" where
  "quote_double_and_escape_literal v =
     [dquote] @ concat (map (\<lambda>c. if c = dquote then [backslash, dquote] else [c]) v) @ [dquote]"

section \<open>Booleans and numbers\<close>

definition parse_bool :: "string \<Rightarrow> bool option" where
  "parse_bool v =
     (let s = map tolower v in
      if s = ''true'' then Some True else if s = ''false'' then Some False else None)"

text \<open>\<open>strtoll\<close> with base 0: the prefix of the digits selects the base.\<close>

definition auto_base :: "string \<Rightarrow> nat" where
  "auto_base s =
     (case snd (split_sign (dropWhile isspace s)) of
        [] \<Rightarrow> 10
      | c0 # r \<Rightarrow>
          if c0 \<noteq> CHR ''0'' then 10
          else case r of
              x # d # _ \<Rightarrow> if (x = CHR ''x'' \<or> x = CHR ''X'') \<and> is_digit_in 16 d then 16 else 8
            | _ \<Rightarrow> 8)"

definition parse_int :: "string \<Rightarrow> int option" where
  "parse_int v =
     (if v = [] then None
      else let str = c_str v; (neg, ds, rest) = scan_int (auto_base str) str;
               n = int (digits_value (auto_base str) ds); val = (if neg then - n else n)
        in if ds = [] \<or> rest \<noteq> [] \<or> val < - (2 ^ 63) \<or> val \<ge> 2 ^ 63 then None else Some val)"

text \<open>\<open>strtod\<close> on a whole string (with the test that it consumed everything and did not overflow), and
  the printing of a double with 16 significant digits.\<close>

record 'd float_api =
  parse_double :: "string \<Rightarrow> 'd option"
  format_double :: "'d \<Rightarrow> string"

section \<open>Lemmas on trimming\<close>

lemma ini_trim_id:
  "s = [] \<or> \<not> ini_space (hd s) \<and> \<not> ini_space (last s) \<Longrightarrow> ini_trim s = s"
proof -
  assume a: "s = [] \<or> \<not> ini_space (hd s) \<and> \<not> ini_space (last s)"
  have "skip_front s 0 = 0" using a by (subst skip_front.simps) (auto simp: hd_conv_nth)
  moreover have "skip_end s 0 (length s - 1) = length s - 1" if "s \<noteq> []"
    using a that by (cases "length s - 1") (auto simp: last_conv_nth)
  ultimately show ?thesis by (auto simp: ini_trim_def)
qed

section \<open>Lemmas on comments\<close>

definition comment_free :: "string \<Rightarrow> bool" where
  "comment_free s \<longleftrightarrow> CHR '';'' \<notin> set s \<and> CHR ''#'' \<notin> set s"

lemma strip_loop_comment_free: "comment_free s \<Longrightarrow> strip_loop s i a b l = s"
proof (induction s i a b l rule: strip_loop.induct)
  case (1 s i a b l)
  have "s ! i \<noteq> CHR '';''" "s ! i \<noteq> CHR ''#''" if "i < length s"
    using 1(3) nth_mem [OF that] by (auto simp: comment_free_def)
  then show ?case using 1 by (subst strip_loop.simps) (simp add: Let_def)
qed

lemma strip_loop_quoted:
  assumes "q = squote \<or> q = dquote" "s = q # e @ [q]" "q \<notin> set e" "1 \<le> i" "i \<le> Suc (length e)"
  shows "strip_loop s i (q = squote) (q = dquote) l = s"
  using assms(4,5)
proof (induction "length s - i" arbitrary: i)
  case 0
  then show ?case by (simp add: assms(2))
next
  case (Suc n)
  show ?case
  proof (cases "i = Suc (length e)")
    case True
    have "s ! i = q" "length s = Suc i" by (simp_all add: assms(2) True)
    moreover have "strip_loop s (Suc i) x y z = s" for x y z
      by (subst strip_loop.simps) (simp add: calculation(2))
    ultimately show ?thesis using assms(1) by (subst strip_loop.simps) auto
  next
    case False
    then have "i - 1 < length e" using Suc.prems by simp
    then have "s ! i = e ! (i - 1)" "s ! i \<noteq> q"
      using Suc.prems nth_mem [of "i - 1" e] assms(3) by (auto simp: assms(2) nth_Cons' nth_append)
    moreover have "strip_loop s (Suc i) (q = squote) (q = dquote) l = s"
      using False Suc.prems Suc.hyps by (intro Suc.hyps(1)) simp_all
    moreover have "i < length s" using Suc.prems by (simp add: assms(2))
    ultimately show ?thesis using assms(1) by (subst strip_loop.simps) auto
  qed
qed

lemma strip_inline_comment_free: "comment_free s \<Longrightarrow> strip_inline_comment s = s"
  by (simp add: strip_inline_comment_def strip_loop_comment_free)

lemma strip_inline_comment_quoted:
  assumes "q = squote \<or> q = dquote" "q \<notin> set e"
  shows "strip_inline_comment (q # e @ [q]) = q # e @ [q]"
proof -
  have "strip_loop (q # e @ [q]) 1 (q = squote) (q = dquote) None = q # e @ [q]"
    using assms by (intro strip_loop_quoted) auto
  then show ?thesis unfolding strip_inline_comment_def
    using assms(1) by (subst strip_loop.simps) (auto simp: isspace_def)
qed

section \<open>Lemmas on quoting\<close>

lemma decode_encode_char: "decode_escapes_for_string (encode_char c @ s) = c # decode_escapes_for_string s"
  by (cases s) (auto simp: encode_char_def)

lemma decode_encode_escapes: "decode_escapes_for_string (encode_escapes_for_string s) = s"
  by (induction s) (simp_all add: encode_escapes_for_string_def decode_encode_char)

lemma unescape_literal_Cons:
  "c \<noteq> dquote \<Longrightarrow> s = [] \<or> hd s \<noteq> dquote \<Longrightarrow> unescape_literal (c # s) = c # unescape_literal s"
  by (cases s) auto

lemma unescape_escape_literal:
  "unescape_literal (concat (map (\<lambda>c. if c = dquote then [backslash, dquote] else [c]) v)) = v"
proof (induction v)
  case (Cons c v)
  let ?f = "\<lambda>c. if c = dquote then [backslash, dquote] else [c]"
  have "concat (map ?f v) = [] \<or> hd (concat (map ?f v)) \<noteq> dquote" by (cases v) auto
  then show ?case using Cons unescape_literal_Cons by auto
qed simp

lemma unquote_single [simp]: "unquote_and_unescape (quote_single_and_escape_raw v) squote = v"
  by (simp add: unquote_and_unescape_def quote_single_and_escape_raw_def decode_encode_escapes)

lemma unquote_double [simp]: "unquote_and_unescape (quote_double_and_escape_literal v) dquote = v"
  by (simp add: unquote_and_unescape_def quote_double_and_escape_literal_def unescape_escape_literal)

lemma encode_escapes_clean: "CHR 0x0A \<notin> set (encode_escapes_for_string v)"
  by (induction v) (auto simp: encode_escapes_for_string_def encode_char_def)

lemma encode_escapes_set:
  "set (encode_escapes_for_string v) \<subseteq> set v \<union> {backslash, CHR ''t'', CHR ''n'', CHR ''r''}"
  by (induction v) (auto simp: encode_escapes_for_string_def encode_char_def split: if_splits)

section \<open>Lemmas on numbers\<close>

lemma show_nat_hd: "0 < n \<Longrightarrow> hd (show_nat n) \<noteq> CHR ''0''"
proof (induction n rule: show_nat.induct)
  case (1 n)
  show ?case
  proof (cases "n < 10")
    case True
    then have "code (digit_char n) = 48 + n" by (simp add: digit_char_def)
    then show ?thesis using 1(2) True by (subst show_nat.simps) (auto simp: char_eq_code simp del: of_char_eq_iff)
  next
    case False
    then show ?thesis using 1 by (subst show_nat.simps) simp
  qed
qed

lemma digit_not_special:
  "isdigit c \<Longrightarrow> \<not> isspace c \<and> c \<noteq> CHR ''-'' \<and> c \<noteq> CHR ''+'' \<and> c \<noteq> CHR '';'' \<and> c \<noteq> CHR ''#'' \<and>
   c \<noteq> squote \<and> c \<noteq> dquote \<and> c \<noteq> CHR 0x0A \<and> c \<noteq> CHR 0x00 \<and> \<not> ini_space c \<and> \<not> isupper c \<and> c \<noteq> CHR ''t'' \<and>
   c \<noteq> CHR ''f'' \<and> c \<noteq> CHR '']''"
  by (auto simp: isdigit_def isspace_def ini_space_def isupper_def)

lemma to_string_0: "to_string 0 = ''0''"
proof -
  have "digit_char 0 = CHR ''0''" by (simp add: digit_char_def char_of_eq_iff)
  then show ?thesis by (simp add: to_string_def show_nat.simps)
qed

lemma to_string_c_str: "c_str (to_string i) = to_string i"
  unfolding c_str_def using to_string_chars digit_not_special by (fastforce simp: takeWhile_eq_all_conv)

lemma auto_base_to_string: "auto_base (to_string i) = (if i = 0 then 8 else 10)"
proof (cases "i = 0")
  case True
  then show ?thesis by (simp add: auto_base_def to_string_0 split_sign_def isspace_def)
next
  case False
  obtain d ds where sn: "show_nat (nat \<bar>i\<bar>) = d # ds" by (cases "show_nat (nat \<bar>i\<bar>)") simp_all
  have "d \<noteq> CHR ''0''" using show_nat_hd [of "nat \<bar>i\<bar>"] False sn by simp
  then show ?thesis using False by (simp add: auto_base_def to_string_split sn)
qed

lemma parse_int_to_string:
  assumes "- (2 ^ 63) \<le> i" "i < 2 ^ 63"
  shows "parse_int (to_string i) = Some i"
proof -
  have ne: "to_string i \<noteq> []" by (simp add: to_string_def)
  show ?thesis
  proof (cases "i = 0")
    case True
    then show ?thesis
      by (simp add: parse_int_def to_string_c_str auto_base_to_string)
        (simp add: to_string_0 scan_int_def split_sign_def isspace_def is_digit_in_def digit_value_def
          isdigit_def digits_value_def)
  next
    case False
    then show ?thesis using assms ne scan_int_to_string [of i]
      by (simp add: parse_int_def to_string_c_str auto_base_to_string digits_value_show_nat Let_def)
  qed
qed

lemma parse_bool_to_string: "parse_bool (to_string i) = None"
proof -
  have "map tolower (to_string i) = to_string i"
    using to_string_chars digit_not_special by (intro map_idI) (fastforce simp: tolower_def isupper_def)
  moreover have "CHR ''e'' \<notin> set (to_string i)" using to_string_chars by (fastforce simp: isdigit_def)
  ultimately show ?thesis by (auto simp: parse_bool_def Let_def)
qed

lemma to_string_clean:
  "comment_free (to_string i)" "ini_trim (to_string i) = to_string i" "CHR 0x0A \<notin> set (to_string i)"
  "\<not> (hd (to_string i) = squote)" "\<not> (hd (to_string i) = dquote)" "last (to_string i) \<noteq> CHR '']''" "to_string i \<noteq> []"
proof -
  have c: "c \<in> set (to_string i) \<Longrightarrow> \<not> ini_space c \<and> c \<noteq> CHR '';'' \<and> c \<noteq> CHR ''#'' \<and> c \<noteq> CHR 0x0A \<and>
      c \<noteq> squote \<and> c \<noteq> dquote \<and> c \<noteq> CHR '']''" for c
    using to_string_chars digit_not_special by (fastforce simp: ini_space_def)
  have ne: "to_string i \<noteq> []" by (simp add: to_string_def)
  show "comment_free (to_string i)" "CHR 0x0A \<notin> set (to_string i)" using c by (auto simp: comment_free_def)
  show "ini_trim (to_string i) = to_string i" using c ne by (intro ini_trim_id) auto
  show "\<not> (hd (to_string i) = squote)" "\<not> (hd (to_string i) = dquote)" "last (to_string i) \<noteq> CHR '']''"
    using c ne hd_in_set last_in_set by blast+
  show "to_string i \<noteq> []" by (rule ne)
qed

end
