(* ===== verification/Ini_Parser.thy ===== *)
theory Ini_Parser
  imports Ini_Text Key_Value
begin

text \<open>
  The document of \<open>src/ini/ini_parser.cpp\<close>: a vector of sections with a map from names to positions,
  each a vector of entries with a map from keys to positions. The code indexes the vectors without a
  check, so an operation returns \<open>None\<close> where a stored position would be out of range; the invariant
  that both maps are exactly the positions excludes it. A file is its text, \<open>None\<close> when it cannot be
  opened.

  The document is an interpretation of the key-value contract, and saving and loading are inverse on
  the documents that \<open>saveable\<close> describes.
\<close>

section \<open>State\<close>

datatype value_kind = VString | VBool | VInt | VDouble

record entry =
  e_key :: string
  e_value :: string
  e_kind :: value_kind
  e_literal :: bool

record ini_section =
  sec_entries :: "entry list"
  sec_index :: "string \<Rightarrow> nat option"

record ini_parser =
  ini_sections :: "(string \<times> ini_section) list"
  ini_sec_index :: "string \<Rightarrow> nat option"

definition new_section :: "ini_section" where
  "new_section = \<lparr>sec_entries = [], sec_index = (\<lambda>k. None)\<rparr>"

definition new_ini :: "ini_parser" where
  "new_ini = \<lparr>ini_sections = [], ini_sec_index = (\<lambda>k. None)\<rparr>"

section \<open>Sections and entries\<close>

definition ensure_section :: "string \<Rightarrow> ini_parser \<Rightarrow> ini_parser \<times> nat" where
  "ensure_section name p =
     (case ini_sec_index p name of
        Some i \<Rightarrow> (p, i)
      | None \<Rightarrow>
          let idx = length (ini_sections p)
          in (p\<lparr>ini_sections := ini_sections p @ [(name, new_section)],
                ini_sec_index := (ini_sec_index p)(name \<mapsto> idx)\<rparr>, idx))"

definition find_section :: "string \<Rightarrow> ini_parser \<Rightarrow> ini_section option option" where
  "find_section name p =
     (case ini_sec_index p name of
        None \<Rightarrow> Some None
      | Some i \<Rightarrow> map_option (\<lambda>(nm, s). Some s) (at_idx (ini_sections p) i))"

definition upsert_entry :: "string \<Rightarrow> string \<Rightarrow> value_kind \<Rightarrow> bool \<Rightarrow> ini_section \<Rightarrow> ini_section option" where
  "upsert_entry key v kind literal s =
     (case sec_index s key of
        Some i \<Rightarrow>
          map_option (\<lambda>e. s\<lparr>sec_entries := (sec_entries s)[i := e\<lparr>e_value := v, e_kind := kind, e_literal := literal\<rparr>]\<rparr>)
            (at_idx (sec_entries s) i)
      | None \<Rightarrow>
          Some (s\<lparr>sec_index := (sec_index s)(key \<mapsto> length (sec_entries s)),
                  sec_entries := sec_entries s @
                    [\<lparr>e_key = key, e_value = v, e_kind = kind, e_literal = literal\<rparr>]\<rparr>))"

definition upsert :: "string \<Rightarrow> string \<Rightarrow> string \<Rightarrow> value_kind \<Rightarrow> bool \<Rightarrow> ini_parser \<Rightarrow> ini_parser option" where
  "upsert name key v kind literal p =
     (let (p1, si) = ensure_section name p in
      Option.bind (at_idx (ini_sections p1) si)
        (\<lambda>(nm, s). map_option (\<lambda>s'. p1\<lparr>ini_sections := (ini_sections p1)[si := (nm, s')]\<rparr>)
          (upsert_entry key v kind literal s)))"

definition upsert_string :: "string \<Rightarrow> string \<Rightarrow> string \<Rightarrow> bool \<Rightarrow> ini_parser \<Rightarrow> ini_parser option" where
  "upsert_string name key v literal_mode p = upsert name key v VString literal_mode p"

definition upsert_numeric :: "string \<Rightarrow> string \<Rightarrow> string \<Rightarrow> value_kind \<Rightarrow> ini_parser \<Rightarrow> ini_parser option" where
  "upsert_numeric name key v kind p = upsert name key v kind False p"

section \<open>Queries and setters\<close>

definition has_section :: "string \<Rightarrow> ini_parser \<Rightarrow> bool" where
  "has_section name p \<longleftrightarrow> ini_sec_index p name \<noteq> None"

definition find_entry :: "string \<Rightarrow> string \<Rightarrow> ini_parser \<Rightarrow> entry option option" where
  "find_entry name key p =
     Option.bind (find_section name p)
       (\<lambda>r. case r of
          None \<Rightarrow> Some None
        | Some s \<Rightarrow> (case sec_index s key of
              None \<Rightarrow> Some None
            | Some i \<Rightarrow> map_option Some (at_idx (sec_entries s) i)))"

definition has_key :: "string \<Rightarrow> string \<Rightarrow> ini_parser \<Rightarrow> bool option" where
  "has_key name key p =
     map_option (\<lambda>r. case r of None \<Rightarrow> False | Some s \<Rightarrow> sec_index s key \<noteq> None) (find_section name p)"

definition get_string :: "string \<Rightarrow> string \<Rightarrow> ini_parser \<Rightarrow> string option option" where
  "get_string name key p = map_option (map_option e_value) (find_entry name key p)"

definition get_bool :: "string \<Rightarrow> string \<Rightarrow> ini_parser \<Rightarrow> bool option option" where
  "get_bool name key p =
     map_option (\<lambda>r. Option.bind r
       (\<lambda>e. if e_kind e = VBool then Some (e_value e = ''true'') else parse_bool (e_value e)))
       (find_entry name key p)"

definition get_int :: "string \<Rightarrow> string \<Rightarrow> ini_parser \<Rightarrow> int option option" where
  "get_int name key p =
     map_option (\<lambda>r. Option.bind r
       (\<lambda>e. if e_kind e = VInt then parse_int (e_value e) else parse_int (e_value e)))
       (find_entry name key p)"

definition get_double :: "'d float_api \<Rightarrow> string \<Rightarrow> string \<Rightarrow> ini_parser \<Rightarrow> 'd option option" where
  "get_double api name key p =
     map_option (\<lambda>r. Option.bind r
       (\<lambda>e. if e_kind e = VDouble then parse_double api (e_value e) else parse_double api (e_value e)))
       (find_entry name key p)"

definition set_string :: "string \<Rightarrow> string \<Rightarrow> string \<Rightarrow> ini_parser \<Rightarrow> ini_parser option" where
  "set_string name key v p = upsert_string name key v False p"

definition set_string_literal :: "string \<Rightarrow> string \<Rightarrow> string \<Rightarrow> ini_parser \<Rightarrow> ini_parser option" where
  "set_string_literal name key v p = upsert_string name key v True p"

definition set_bool :: "string \<Rightarrow> string \<Rightarrow> bool \<Rightarrow> ini_parser \<Rightarrow> ini_parser option" where
  "set_bool name key v p = upsert_numeric name key (if v then ''true'' else ''false'') VBool p"

definition set_int :: "string \<Rightarrow> string \<Rightarrow> int \<Rightarrow> ini_parser \<Rightarrow> ini_parser option" where
  "set_int name key v p = upsert_numeric name key (to_string v) VInt p"

definition set_double :: "'d float_api \<Rightarrow> string \<Rightarrow> string \<Rightarrow> 'd \<Rightarrow> ini_parser \<Rightarrow> ini_parser option" where
  "set_double api name key v p = upsert_numeric name key (format_double api v) VDouble p"

definition section_names :: "ini_parser \<Rightarrow> string list" where
  "section_names p = map fst (ini_sections p)"

section \<open>Removal\<close>

definition erase_at :: "nat \<Rightarrow> 'a list \<Rightarrow> 'a list option" where
  "erase_at i xs = (if i < length xs then Some (take i xs @ drop (Suc i) xs) else None)"

definition reindex :: "('a \<Rightarrow> string) \<Rightarrow> 'a list \<Rightarrow> (string \<Rightarrow> nat option) \<Rightarrow> (string \<Rightarrow> nat option)" where
  "reindex f xs m = fold (\<lambda>i m. m(f (xs ! i) \<mapsto> i)) [0..<length xs] m"

definition ini_remove :: "string \<Rightarrow> string \<Rightarrow> ini_parser \<Rightarrow> (bool \<times> ini_parser) option" where
  "ini_remove name key p =
     (case ini_sec_index p name of
        None \<Rightarrow> Some (False, p)
      | Some si \<Rightarrow>
          Option.bind (at_idx (ini_sections p) si)
            (\<lambda>(nm, s). case sec_index s key of
                None \<Rightarrow> Some (False, p)
              | Some idx \<Rightarrow>
                  map_option
                    (\<lambda>es. let s' = s\<lparr>sec_entries := es, sec_index := reindex e_key es ((sec_index s)(key := None))\<rparr>
                      in (True, p\<lparr>ini_sections := (ini_sections p)[si := (nm, s')]\<rparr>))
                    (erase_at idx (sec_entries s))))"

definition remove_section :: "string \<Rightarrow> ini_parser \<Rightarrow> (bool \<times> ini_parser) option" where
  "remove_section name p =
     (case ini_sec_index p name of
        None \<Rightarrow> Some (False, p)
      | Some idx \<Rightarrow>
          map_option
            (\<lambda>ss. (True, p\<lparr>ini_sections := ss,
               ini_sec_index := reindex fst ss ((ini_sec_index p)(name := None))\<rparr>))
            (erase_at idx (ini_sections p)))"

section \<open>Files\<close>

definition store_value :: "'d float_api \<Rightarrow> string \<Rightarrow> string \<Rightarrow> string \<Rightarrow> ini_parser \<Rightarrow> ini_parser option" where
  "store_value api current_section key v p =
     (if length v \<ge> 2 \<and> hd v = squote \<and> last v = squote then
        upsert_string current_section key (unquote_and_unescape v squote) False p
      else if length v \<ge> 2 \<and> hd v = dquote \<and> last v = dquote then
        upsert_string current_section key (unquote_and_unescape v dquote) True p
      else case parse_bool v of
        Some b \<Rightarrow> upsert_numeric current_section key (if b then ''true'' else ''false'') VBool p
      | None \<Rightarrow> (case parse_int v of
          Some i \<Rightarrow> upsert_numeric current_section key (to_string i) VInt p
        | None \<Rightarrow> (case parse_double api v of
            Some d \<Rightarrow> upsert_numeric current_section key (format_double api d) VDouble p
          | None \<Rightarrow> upsert_string current_section key (decode_escapes_for_string v) False p)))"

definition load_line :: "'d float_api \<Rightarrow> string \<Rightarrow> string \<times> ini_parser \<Rightarrow> (string \<times> ini_parser) option" where
  "load_line api line st =
     (let (current_section, p) = st; t = ini_trim line in
      if t = [] then Some st
      else if hd t = CHR '';'' \<or> hd t = CHR ''#'' then Some st
      else if hd t = CHR ''['' \<and> last t = CHR '']'' then
        let name = ini_trim (take (length t - 2) (drop 1 t))
        in Some (name, fst (ensure_section name p))
      else case find_in [CHR ''=''] line of
        None \<Rightarrow> Some st
      | Some pos \<Rightarrow>
          let key = ini_trim (take pos line);
              v = ini_trim (strip_inline_comment (drop (pos + 1) line))
          in map_option (Pair current_section) (store_value api current_section key v p))"

definition ini_load :: "'d float_api \<Rightarrow> string option \<Rightarrow> ini_parser \<Rightarrow> (bool \<times> ini_parser) option" where
  "ini_load api file p =
     (case file of
        None \<Rightarrow> Some (False, p)
      | Some content \<Rightarrow>
          map_option (\<lambda>(cur, p'). (True, p'))
            (fold_opt (load_line api) (getline_loop lf content) ([], new_ini)))"

definition save_value :: "entry \<Rightarrow> string" where
  "save_value e =
     (case e_kind e of
        VString \<Rightarrow> if e_literal e then quote_double_and_escape_literal (e_value e)
                   else quote_single_and_escape_raw (e_value e)
      | VBool \<Rightarrow> if e_value e = ''true'' then ''true'' else ''false''
      | VInt \<Rightarrow> e_value e
      | VDouble \<Rightarrow> e_value e)"

definition save_entry :: "entry \<Rightarrow> string" where
  "save_entry e = e_key e @ [CHR ''=''] @ save_value e @ [lf]"

definition save_section :: "string \<Rightarrow> ini_section \<Rightarrow> string" where
  "save_section name s =
     (if name \<noteq> [] then [CHR ''[''] @ name @ [CHR '']'', lf] else []) @ concat (map save_entry (sec_entries s))"

fun save_sections :: "(string \<times> ini_section) list \<Rightarrow> string" where
  "save_sections [] = []"
| "save_sections ((name, s) # ss) =
     save_section name s @ (if ss \<noteq> [] then [lf] else []) @ save_sections ss"

definition ini_save :: "ini_parser \<Rightarrow> string" where
  "ini_save p = save_sections (ini_sections p)"

section \<open>Vectors with an index\<close>

definition index_of :: "('a \<Rightarrow> string) \<Rightarrow> 'a list \<Rightarrow> (string \<Rightarrow> nat option)" where
  "index_of f xs = map_of (zip (map f xs) [0..<length xs])"

definition indexed :: "('a \<Rightarrow> string) \<Rightarrow> 'a list \<Rightarrow> (string \<Rightarrow> nat option) \<Rightarrow> bool" where
  "indexed f xs m \<longleftrightarrow> distinct (map f xs) \<and> m = index_of f xs"

lemma index_of_Nil [simp]: "index_of f [] = (\<lambda>k. None)"
  by (simp add: index_of_def)

lemma index_of_None: "index_of f xs k = None \<longleftrightarrow> k \<notin> f ` set xs"
  by (simp add: index_of_def map_of_zip_is_None)

lemma dom_index_of: "dom (index_of f xs) = f ` set xs"
  by (auto simp: dom_def index_of_None)

lemma index_of_snoc:
  assumes "f x \<notin> f ` set xs"
  shows "index_of f (xs @ [x]) = (index_of f xs)(f x \<mapsto> length xs)"
proof -
  have "index_of f (xs @ [x]) = [f x \<mapsto> length xs] ++ index_of f xs" by (simp add: index_of_def)
  moreover have "index_of f xs (f x) = None" using assms by (simp add: index_of_None)
  ultimately show ?thesis by (auto simp: fun_eq_iff map_add_def split: option.split)
qed

lemma index_of_cong: "map f xs = map f ys \<Longrightarrow> index_of f xs = index_of f ys"
  unfolding index_of_def by (metis length_map)

lemma index_of_nth: "distinct (map f xs) \<Longrightarrow> i < length xs \<Longrightarrow> index_of f xs (f (xs ! i)) = Some i"
  using map_of_zip_nth [of "map f xs" "[0..<length xs]" i] by (simp add: index_of_def)

lemma index_of_Some:
  assumes "index_of f xs k = Some i"
  shows "i < length xs \<and> f (xs ! i) = k"
  using map_of_SomeD [OF assms [unfolded index_of_def]] by (auto simp: set_zip)

lemma indexed_update:
  "indexed f xs m \<Longrightarrow> i < length xs \<Longrightarrow> f x = f (xs ! i) \<Longrightarrow> indexed f (xs[i := x]) m"
  unfolding indexed_def by (metis index_of_cong list_update_id map_update)

lemma indexed_snoc: "indexed f xs m \<Longrightarrow> m (f x) = None \<Longrightarrow> indexed f (xs @ [x]) (m(f x \<mapsto> length xs))"
  by (simp add: indexed_def index_of_None index_of_snoc)

lemma reindex_fold:
  assumes "distinct (map f xs)" "n \<le> length xs"
  shows "fold (\<lambda>i m. m(f (xs ! i) \<mapsto> i)) [0..<n] m = m ++ index_of f (take n xs)"
  using assms(2)
proof (induction n)
  case (Suc n)
  have t: "take (Suc n) xs = take n xs @ [xs ! n]" using Suc.prems by (simp add: take_Suc_conv_app_nth)
  have "distinct (map f (take (Suc n) xs))" using distinct_take [OF assms(1), of "Suc n"] by (simp add: take_map)
  then have "f (xs ! n) \<notin> f ` set (take n xs)" by (simp add: t)
  then show ?case using Suc index_of_snoc [of f "xs ! n" "take n xs"]
    by (simp add: t map_add_upd del: fun_upd_apply)
qed (simp add: index_of_def)

lemma reindex_eq:
  assumes "distinct (map f xs)" "dom m \<subseteq> f ` set xs"
  shows "reindex f xs m = index_of f xs"
proof -
  have "reindex f xs m = m ++ index_of f xs"
    using reindex_fold [OF assms(1), of "length xs" m] by (simp add: reindex_def)
  moreover have "m k = None" if "index_of f xs k = None" for k
    using that assms(2) by (auto simp: index_of_None)
  ultimately show ?thesis by (auto simp: fun_eq_iff map_add_def split: option.split)
qed

lemma erase_at_set:
  assumes "distinct (map f xs)" "i < length xs"
  shows "f ` set (take i xs @ drop (Suc i) xs) = f ` set xs - {f (xs ! i)}"
proof -
  have "xs = take i xs @ xs ! i # drop (Suc i) xs" using assms(2) by (rule id_take_nth_drop)
  then have "distinct (map f (take i xs @ xs ! i # drop (Suc i) xs))"
      "f ` set xs = f ` set (take i xs @ xs ! i # drop (Suc i) xs)" using assms(1) by metis+
  then show ?thesis by (simp add: image_Un insert_Diff_if Un_Diff)
qed

lemma indexed_erase:
  assumes "indexed f xs m" "m k = Some i"
  shows "\<exists>ys. erase_at i xs = Some ys \<and> ys = take i xs @ drop (Suc i) xs \<and>
    indexed f ys (reindex f ys (m(k := None)))"
proof -
  have d: "distinct (map f xs)" and m: "m = index_of f xs" using assms(1) by (simp_all add: indexed_def)
  have i: "i < length xs" "f (xs ! i) = k" using index_of_Some assms(2) m by auto
  let ?ys = "take i xs @ drop (Suc i) xs"
  have "distinct (map f (take i xs @ xs ! i # drop (Suc i) xs))" using d id_take_nth_drop [OF i(1)] by metis
  then have "distinct (map f ?ys)" by auto
  moreover have "dom (m(k := None)) \<subseteq> f ` set ?ys"
    unfolding erase_at_set [OF d i(1)] using i(2) dom_index_of [of f xs] by (auto simp: m)
  ultimately show ?thesis using i(1) by (simp add: erase_at_def indexed_def reindex_eq)
qed

lemma indexed_find: "indexed f xs m \<Longrightarrow> List.find (\<lambda>x. f x = k) xs = map_option ((!) xs) (m k)"
proof (cases "m k")
  case None
  moreover assume "indexed f xs m"
  ultimately have "k \<notin> f ` set xs" by (simp add: indexed_def index_of_None)
  then have "List.find (\<lambda>x. f x = k) xs = None" by (auto simp: find_None_iff)
  then show ?thesis using None by simp
next
  case (Some i)
  assume i: "indexed f xs m"
  then have "i < length xs" "f (xs ! i) = k" using Some index_of_Some by (auto simp: indexed_def)
  moreover have "\<forall>j<i. f (xs ! j) \<noteq> k"
    using i calculation by (auto simp: indexed_def distinct_conv_nth)
  ultimately show ?thesis using Some by (auto simp: find_Some_iff)
qed

section \<open>The specification: ordered lists of sections and entries\<close>

type_synonym document = "(string \<times> entry list) list"

definition put_entry :: "entry \<Rightarrow> entry list \<Rightarrow> entry list" where
  "put_entry e es =
     (if e_key e \<in> e_key ` set es then map (\<lambda>x. if e_key x = e_key e then e else x) es else es @ [e])"

definition doc_put :: "string \<Rightarrow> entry \<Rightarrow> document \<Rightarrow> document" where
  "doc_put name e R =
     (if name \<in> fst ` set R then map (\<lambda>(n, es). (n, if n = name then put_entry e es else es)) R
      else R @ [(name, [e])])"

definition doc_remove :: "string \<Rightarrow> string \<Rightarrow> document \<Rightarrow> document" where
  "doc_remove name key R = map (\<lambda>(n, es). (n, if n = name then filter (\<lambda>e. e_key e \<noteq> key) es else es)) R"

definition doc_remove_section :: "string \<Rightarrow> document \<Rightarrow> document" where
  "doc_remove_section name R = filter (\<lambda>(n, es). n \<noteq> name) R"

definition doc_find :: "string \<Rightarrow> string \<Rightarrow> document \<Rightarrow> entry option" where
  "doc_find name key R = Option.bind (map_of R name) (List.find (\<lambda>e. e_key e = key))"

definition wf_document :: "document \<Rightarrow> bool" where
  "wf_document R \<longleftrightarrow> distinct (map fst R) \<and> list_all (\<lambda>(n, es). distinct (map e_key es)) R"

text \<open>The concrete document with exactly the right maps.\<close>

definition mk_section :: "entry list \<Rightarrow> ini_section" where
  "mk_section es = \<lparr>sec_entries = es, sec_index = index_of e_key es\<rparr>"

definition mk_ini :: "document \<Rightarrow> ini_parser" where
  "mk_ini R = \<lparr>ini_sections = map (\<lambda>(n, es). (n, mk_section es)) R, ini_sec_index = index_of fst R\<rparr>"

definition document_of :: "ini_parser \<Rightarrow> document" where
  "document_of p = map (\<lambda>(n, s). (n, sec_entries s)) (ini_sections p)"

definition valid_ini :: "ini_parser \<Rightarrow> bool" where
  "valid_ini p \<longleftrightarrow> wf_document (document_of p) \<and> p = mk_ini (document_of p)"

lemma document_of_mk [simp]: "document_of (mk_ini R) = R"
  by (induction R) (auto simp: document_of_def mk_ini_def mk_section_def)

lemma valid_mk [simp]: "valid_ini (mk_ini R) = wf_document R"
  by (simp add: valid_ini_def)

lemma valid_iniE: "valid_ini p \<Longrightarrow> (\<And>R. p = mk_ini R \<Longrightarrow> wf_document R \<Longrightarrow> thesis) \<Longrightarrow> thesis"
  by (auto simp: valid_ini_def)

lemma mk_ini_fields [simp]:
  "ini_sections (mk_ini R) = map (\<lambda>(n, es). (n, mk_section es)) R" "ini_sec_index (mk_ini R) = index_of fst R"
  by (simp_all add: mk_ini_def)

lemma mk_section_fields [simp]: "sec_entries (mk_section es) = es" "sec_index (mk_section es) = index_of e_key es"
  by (simp_all add: mk_section_def)

lemma mk_section_Nil: "new_section = mk_section []"
  by (simp add: new_section_def mk_section_def)

lemma update_indexed:
  assumes "distinct (map f xs)" "index_of f xs k = Some i"
  shows "xs[i := g (xs ! i)] = map (\<lambda>y. if f y = k then g y else y) xs"
proof (rule nth_equalityI)
  fix j assume j: "j < length (xs[i := g (xs ! i)])"
  have i: "i < length xs" "f (xs ! i) = k" using index_of_Some [OF assms(2)] by auto
  have "f (xs ! j) = k \<longleftrightarrow> j = i" using assms(1) i j by (auto simp: distinct_conv_nth)
  then show "xs[i := g (xs ! i)] ! j = map (\<lambda>y. if f y = k then g y else y) xs ! j"
    using j i by (simp add: nth_list_update)
qed simp

lemma filter_indexed:
  assumes "distinct (map f xs)" "index_of f xs k = Some i"
  shows "take i xs @ drop (Suc i) xs = filter (\<lambda>y. f y \<noteq> k) xs"
proof -
  have i: "i < length xs" "f (xs ! i) = k" using index_of_Some [OF assms(2)] by auto
  have x: "xs = take i xs @ xs ! i # drop (Suc i) xs" using i(1) by (rule id_take_nth_drop)
  then have "distinct (map f (take i xs @ xs ! i # drop (Suc i) xs))" using assms(1) by metis
  then have "\<forall>y \<in> set (take i xs) \<union> set (drop (Suc i) xs). f y \<noteq> k" using i(2) by (auto simp: image_iff)
  then have "filter (\<lambda>y. f y \<noteq> k) (take i xs @ xs ! i # drop (Suc i) xs) = take i xs @ drop (Suc i) xs"
    using i(2) by (simp add: filter_id_conv)
  then show ?thesis using x by metis
qed

lemma filter_absent: "index_of f xs k = None \<Longrightarrow> filter (\<lambda>y. f y \<noteq> k) xs = xs"
  by (auto simp: index_of_None filter_id_conv)

lemma distinct_map_filter_key: "distinct (map f xs) \<Longrightarrow> distinct (map f (filter P xs))"
  by (rule distinct_map_filter)

lemma put_entry_keys: "distinct (map e_key es) \<Longrightarrow> distinct (map e_key (put_entry e es))"
proof -
  have "map e_key (map (\<lambda>x. if e_key x = e_key e then e else x) es) = map e_key es" by simp
  then show "distinct (map e_key es) \<Longrightarrow> distinct (map e_key (put_entry e es))"
    unfolding put_entry_def by (auto simp del: map_map)
qed

lemma upsert_entry_mk:
  assumes "distinct (map e_key es)"
  shows "upsert_entry key v kind literal (mk_section es) =
    Some (mk_section (put_entry \<lparr>e_key = key, e_value = v, e_kind = kind, e_literal = literal\<rparr> es))"
proof (cases "index_of e_key es key")
  case None
  then have "key \<notin> e_key ` set es" by (simp add: index_of_None)
  then show ?thesis
    using index_of_snoc [of e_key "\<lparr>e_key = key, e_value = v, e_kind = kind, e_literal = literal\<rparr>" es] None
    by (simp add: upsert_entry_def put_entry_def)
next
  case (Some i)
  let ?e = "\<lparr>e_key = key, e_value = v, e_kind = kind, e_literal = literal\<rparr>"
  let ?g = "\<lambda>e. e\<lparr>e_value := v, e_kind := kind, e_literal := literal\<rparr>"
  have i: "i < length es" "e_key (es ! i) = key" using index_of_Some [OF Some] by auto
  have k: "key \<in> e_key ` set es" using Some index_of_None [of e_key es key] by auto
  have "es[i := ?g (es ! i)] = map (\<lambda>y. if e_key y = key then ?g y else y) es"
    by (rule update_indexed [OF assms Some])
  also have "\<dots> = put_entry ?e es" using k by (auto simp: put_entry_def intro!: map_cong)
  finally have u: "es[i := ?g (es ! i)] = put_entry ?e es" .
  have "index_of e_key (put_entry ?e es) = index_of e_key es"
    using k by (intro index_of_cong) (simp add: put_entry_def comp_def if_distrib cong: if_cong)
  then show ?thesis using Some i(1) u by (simp add: upsert_entry_def mk_section_def)
qed

lemma wf_document_nth: "wf_document R \<Longrightarrow> i < length R \<Longrightarrow> distinct (map e_key (snd (R ! i)))"
  using nth_mem [of i R] by (auto simp: wf_document_def list_all_iff case_prod_beta)

lemma update_mk_ini:
  assumes "wf_document R" "index_of fst R name = Some i"
  shows "(mk_ini R)\<lparr>ini_sections := (map (\<lambda>(n, es). (n, mk_section es)) R)[i := (fst (R ! i), mk_section (g (snd (R ! i))))]\<rparr> =
    mk_ini (map (\<lambda>(n, es). (n, if n = name then g es else es)) R)"
proof -
  have i: "i < length R" using index_of_Some [OF assms(2)] by auto
  let ?g = "\<lambda>(n, es). (n, g es)"
  have "R[i := ?g (R ! i)] = map (\<lambda>y. if fst y = name then ?g y else y) R"
    using assms by (intro update_indexed) (simp_all add: wf_document_def)
  also have "\<dots> = map (\<lambda>(n, es). (n, if n = name then g es else es)) R" by (auto intro: map_cong)
  finally have u: "R[i := (fst (R ! i), g (snd (R ! i)))] = \<dots>" by (simp add: case_prod_beta)
  have "index_of fst (map (\<lambda>(n, es). (n, if n = name then g es else es)) R) = index_of fst R"
    by (intro index_of_cong) (simp add: comp_def case_prod_beta)
  moreover have "(map (\<lambda>(n, es). (n, mk_section es)) R)[i := (fst (R ! i), mk_section (g (snd (R ! i))))] =
      map (\<lambda>(n, es). (n, mk_section es)) (R[i := (fst (R ! i), g (snd (R ! i)))])"
    by (simp add: map_update)
  ultimately show ?thesis unfolding u by (simp add: mk_ini_def)
qed

lemma ensure_section_mk:
  "ensure_section name (mk_ini R) =
     (if name \<in> fst ` set R then (mk_ini R, the (index_of fst R name))
      else (mk_ini (R @ [(name, [])]), length R))"
proof (cases "index_of fst R name")
  case None
  then have "name \<notin> fst ` set R" by (simp add: index_of_None)
  then show ?thesis using None index_of_snoc [of fst "(name, [])" R]
    by (simp add: ensure_section_def Let_def mk_section_Nil mk_ini_def)
next
  case (Some i)
  then have "name \<in> fst ` set R" using index_of_None [of fst R name] by auto
  then show ?thesis using Some by (simp add: ensure_section_def)
qed

lemma upsert_mk:
  assumes "wf_document R"
  shows "upsert name key v kind literal (mk_ini R) =
    Some (mk_ini (doc_put name \<lparr>e_key = key, e_value = v, e_kind = kind, e_literal = literal\<rparr> R))"
proof (cases "index_of fst R name")
  case None
  let ?e = "\<lparr>e_key = key, e_value = v, e_kind = kind, e_literal = literal\<rparr>"
  have nm: "name \<notin> fst ` set R" using None by (simp add: index_of_None)
  let ?R = "R @ [(name, [])]"
  have wf: "wf_document ?R" using assms nm by (simp add: wf_document_def)
  have ix: "index_of fst ?R name = Some (length R)" using nm index_of_snoc [of fst "(name, [])" R] by simp
  have "map (\<lambda>(n, es). (n, if n = name then put_entry ?e es else es)) ?R = R @ [(name, [?e])]"
    using nm by (force simp: put_entry_def intro: map_idI)
  then show ?thesis
    using nm update_mk_ini [OF wf ix, of "put_entry ?e"]
    by (simp add: upsert_def ensure_section_mk upsert_entry_mk doc_put_def nth_append)
next
  case (Some i)
  let ?e = "\<lparr>e_key = key, e_value = v, e_kind = kind, e_literal = literal\<rparr>"
  have i: "i < length R" "name \<in> fst ` set R" using index_of_Some [OF Some] by auto
  show ?thesis
    using i update_mk_ini [OF assms Some, of "put_entry ?e"] wf_document_nth [OF assms i(1)] Some
    by (simp add: upsert_def ensure_section_mk upsert_entry_mk doc_put_def case_prod_beta)
qed

lemma map_of_index: "distinct (map fst R) \<Longrightarrow> index_of fst R name = Some i \<Longrightarrow> map_of R name = Some (snd (R ! i))"
  using index_of_Some [of fst R name i] by (metis map_of_eq_Some_iff nth_mem prod.collapse)

lemma map_of_index_None: "index_of fst R name = None \<longleftrightarrow> map_of R name = None"
  by (simp add: index_of_None map_of_eq_None_iff)

lemma find_entry_mk:
  assumes "wf_document R"
  shows "find_entry name key (mk_ini R) = Some (doc_find name key R)"
proof (cases "index_of fst R name")
  case None
  then show ?thesis using map_of_index_None [of R name]
    by (simp add: find_entry_def find_section_def doc_find_def)
next
  case (Some i)
  have i: "i < length R" using index_of_Some [OF Some] by auto
  have es: "map_of R name = Some (snd (R ! i))"
    using assms Some by (intro map_of_index) (simp_all add: wf_document_def)
  have f: "List.find (\<lambda>e. e_key e = key) (snd (R ! i)) =
      map_option ((!) (snd (R ! i))) (index_of e_key (snd (R ! i)) key)"
    using wf_document_nth [OF assms i] by (intro indexed_find) (simp add: indexed_def)
  show ?thesis
  proof (cases "index_of e_key (snd (R ! i)) key")
    case (Some j)
    then have "j < length (snd (R ! i))" using index_of_Some by fastforce
    then show ?thesis using \<open>index_of fst R name = Some i\<close> i es f Some
      by (simp add: find_entry_def find_section_def doc_find_def case_prod_beta)
  qed (use Some i es f in \<open>simp add: find_entry_def find_section_def doc_find_def case_prod_beta\<close>)
qed

lemma doc_remove_absent: "name \<notin> fst ` set R \<Longrightarrow> doc_remove name key R = R"
  by (force simp: doc_remove_def intro: map_idI)

lemma ini_remove_mk:
  assumes "wf_document R"
  shows "ini_remove name key (mk_ini R) = Some (doc_find name key R \<noteq> None, mk_ini (doc_remove name key R))"
proof (cases "index_of fst R name")
  case None
  then have "name \<notin> fst ` set R" "map_of R name = None"
    by (simp_all add: index_of_None map_of_eq_None_iff)
  then show ?thesis using None doc_remove_absent [of name R key] by (simp add: ini_remove_def doc_find_def)
next
  case (Some i)
  let ?es = "snd (R ! i)"
  have i: "i < length R" using index_of_Some [OF Some] by auto
  have d: "distinct (map e_key ?es)" by (rule wf_document_nth [OF assms i])
  have es: "map_of R name = Some ?es" using assms Some by (intro map_of_index) (simp_all add: wf_document_def)
  have f: "List.find (\<lambda>e. e_key e = key) ?es = map_option ((!) ?es) (index_of e_key ?es key)"
    using d by (intro indexed_find) (simp add: indexed_def)
  have u: "(mk_ini R)\<lparr>ini_sections := (map (\<lambda>(n, es). (n, mk_section es)) R)
      [i := (fst (R ! i), mk_section (filter (\<lambda>e. e_key e \<noteq> key) ?es))]\<rparr> = mk_ini (doc_remove name key R)"
    unfolding doc_remove_def using update_mk_ini [OF assms Some, of "filter (\<lambda>e. e_key e \<noteq> key)"] .
  show ?thesis
  proof (cases "index_of e_key ?es key")
    case None
    moreover have "b = ?es" if "(name, b) \<in> set R" for b
      using map_of_is_SomeI [of R name b] that es assms by (simp add: wf_document_def)
    ultimately have "doc_remove name key R = R"
      unfolding doc_remove_def using filter_absent [OF None] by (intro map_idI) auto
    then show ?thesis using Some None i es f by (simp add: ini_remove_def doc_find_def case_prod_beta)
  next
    case (Some j)
    have "indexed e_key ?es (index_of e_key ?es)" using d by (simp add: indexed_def)
    from indexed_erase [OF this Some] have "erase_at j ?es = Some (filter (\<lambda>e. e_key e \<noteq> key) ?es)"
      "reindex e_key (filter (\<lambda>e. e_key e \<noteq> key) ?es) ((index_of e_key ?es)(key := None)) =
        index_of e_key (filter (\<lambda>e. e_key e \<noteq> key) ?es)"
      unfolding filter_indexed [OF d Some] by (auto simp: indexed_def)
    then show ?thesis using \<open>index_of fst R name = Some i\<close> Some i es f u
      by (simp add: ini_remove_def doc_find_def case_prod_beta Let_def mk_section_def)
  qed
qed

lemma remove_section_mk:
  assumes "wf_document R"
  shows "remove_section name (mk_ini R) = Some (name \<in> fst ` set R, mk_ini (doc_remove_section name R))"
proof (cases "index_of fst R name")
  case None
  then have "name \<notin> fst ` set R" by (simp add: index_of_None)
  then show ?thesis using None filter_absent [OF None]
    by (simp add: remove_section_def doc_remove_section_def case_prod_unfold)
next
  case (Some i)
  have i: "i < length R" "name \<in> fst ` set R" using index_of_Some [OF Some] by auto
  have d: "distinct (map fst R)" using assms by (simp add: wf_document_def)
  have "indexed fst R (index_of fst R)" using d by (simp add: indexed_def)
  from indexed_erase [OF this Some] have "reindex fst (filter (\<lambda>y. fst y \<noteq> name) R) ((index_of fst R)(name := None)) =
      index_of fst (filter (\<lambda>y. fst y \<noteq> name) R)"
    unfolding filter_indexed [OF d Some] by (auto simp: indexed_def)
  moreover have "reindex fst (map (\<lambda>(n, es). (n, mk_section es)) S) m = reindex fst S m" for S m
    unfolding reindex_def by (rule fold_cong) (simp_all add: case_prod_beta)
  moreover have "take i (map (\<lambda>(n, es). (n, mk_section es)) R) @ drop (Suc i) (map (\<lambda>(n, es). (n, mk_section es)) R) =
      map (\<lambda>(n, es). (n, mk_section es)) (filter (\<lambda>y. fst y \<noteq> name) R)"
    unfolding filter_indexed [OF d Some, symmetric] by (simp add: take_map drop_map)
  ultimately show ?thesis using Some i
    by (simp add: remove_section_def erase_at_def doc_remove_section_def case_prod_unfold mk_ini_def)
qed

section \<open>The document is a key-value store\<close>

type_synonym value_data = "string \<times> value_kind \<times> bool"

definition entry_data :: "entry \<Rightarrow> value_data" where
  "entry_data e = (e_value e, e_kind e, e_literal e)"

definition ini_look :: "ini_parser \<Rightarrow> string \<times> string \<Rightarrow> value_data option" where
  "ini_look p = (\<lambda>(name, key). case find_entry name key p of Some r \<Rightarrow> map_option entry_data r | None \<Rightarrow> None)"

definition ini_put :: "string \<times> string \<Rightarrow> value_data \<Rightarrow> ini_parser \<Rightarrow> ini_parser" where
  "ini_put = (\<lambda>(name, key) (v, kind, literal) p.
     case upsert name key v kind literal p of Some p' \<Rightarrow> p' | None \<Rightarrow> p)"

definition ini_del :: "string \<times> string \<Rightarrow> ini_parser \<Rightarrow> ini_parser" where
  "ini_del = (\<lambda>(name, key) p. case ini_remove name key p of Some (b, p') \<Rightarrow> p' | None \<Rightarrow> p)"

definition ini_drop :: "string \<Rightarrow> ini_parser \<Rightarrow> ini_parser" where
  "ini_drop name p = (case remove_section name p of Some (b, p') \<Rightarrow> p' | None \<Rightarrow> p)"

definition in_section :: "string \<Rightarrow> string \<times> string \<Rightarrow> bool" where
  "in_section name k \<longleftrightarrow> fst k = name"

lemma find_put_entry:
  "List.find (\<lambda>x. e_key x = k) (put_entry e es) =
   (if k = e_key e then Some e else List.find (\<lambda>x. e_key x = k) es)"
proof (cases "e_key e \<in> e_key ` set es")
  case True
  have "List.find (\<lambda>x. e_key x = k) (map (\<lambda>x. if e_key x = e_key e then e else x) xs) =
      (if k = e_key e then (if k \<in> e_key ` set xs then Some e else None) else List.find (\<lambda>x. e_key x = k) xs)" for xs
    by (induction xs) auto
  then show ?thesis using True by (auto simp: put_entry_def)
next
  case False
  have "List.find (\<lambda>x. e_key x = k) (xs @ [e]) = (case List.find (\<lambda>x. e_key x = k) xs of
      Some y \<Rightarrow> Some y | None \<Rightarrow> if k = e_key e then Some e else None)" for xs
    by (induction xs) auto
  moreover have "List.find (\<lambda>x. e_key x = e_key e) es = None" using False by (auto simp: find_None_iff image_iff)
  ultimately show ?thesis using False by (auto simp: put_entry_def split: option.split)
qed

lemma map_of_map_value:
  "map_of (map (\<lambda>(n, es). (n, if n = name then g es else es)) R) n =
   (if n = name then map_option g (map_of R n) else map_of R n)"
  by (induction R) auto

lemma doc_find_put:
  "doc_find n k (doc_put name e R) = (if n = name \<and> k = e_key e then Some e else doc_find n k R)"
proof (cases "name \<in> fst ` set R")
  case True
  then obtain es where "map_of R name = Some es" by (metis map_of_eq_None_iff option.exhaust)
  then show ?thesis using True by (auto simp: doc_find_def doc_put_def map_of_map_value find_put_entry)
next
  case False
  then have "map_of R name = None" by (simp add: map_of_eq_None_iff)
  then show ?thesis using False by (auto simp: doc_find_def doc_put_def map_add_def split: option.split)
qed

lemma find_filter_key:
  "List.find (\<lambda>x. e_key x = k) (filter (\<lambda>e. e_key e \<noteq> key) es) =
   (if k = key then None else List.find (\<lambda>x. e_key x = k) es)"
  by (induction es) auto

lemma doc_find_remove:
  "doc_find n k (doc_remove name key R) = (if n = name \<and> k = key then None else doc_find n k R)"
  by (cases "map_of R n") (auto simp: doc_find_def doc_remove_def map_of_map_value find_filter_key)

lemma doc_find_remove_section:
  "doc_find n k (doc_remove_section name R) = (if n = name then None else doc_find n k R)"
proof -
  have "map_of (filter (\<lambda>(n, es). n \<noteq> name) R) n = (if n = name then None else map_of R n)"
    by (induction R) auto
  then show ?thesis by (simp add: doc_find_def doc_remove_section_def)
qed

lemma wf_doc_put: "wf_document R \<Longrightarrow> wf_document (doc_put name e R)"
  by (auto simp: wf_document_def doc_put_def list_all_iff put_entry_keys comp_def case_prod_unfold)

lemma wf_doc_remove: "wf_document R \<Longrightarrow> wf_document (doc_remove name key R)"
  by (auto simp: wf_document_def doc_remove_def list_all_iff distinct_map_filter comp_def case_prod_unfold)

lemma wf_doc_remove_section: "wf_document R \<Longrightarrow> wf_document (doc_remove_section name R)"
  by (auto simp: wf_document_def doc_remove_section_def list_all_iff distinct_map_filter)

lemma ini_look_mk: "wf_document R \<Longrightarrow> ini_look (mk_ini R) (n, k) = map_option entry_data (doc_find n k R)"
  by (simp add: ini_look_def find_entry_mk)

lemma ini_put_mk: "wf_document R \<Longrightarrow> ini_put (n, k) (v, kd, l) (mk_ini R) =
    mk_ini (doc_put n \<lparr>e_key = k, e_value = v, e_kind = kd, e_literal = l\<rparr> R)"
  by (simp add: ini_put_def upsert_mk)

lemma ini_del_mk: "wf_document R \<Longrightarrow> ini_del (n, k) (mk_ini R) = mk_ini (doc_remove n k R)"
  by (simp add: ini_del_def ini_remove_mk)

lemma ini_drop_mk: "wf_document R \<Longrightarrow> ini_drop n (mk_ini R) = mk_ini (doc_remove_section n R)"
  by (simp add: ini_drop_def remove_section_mk)

interpretation ini: key_value_store valid_ini ini_look ini_put in_section ini_del ini_drop
proof
  fix p :: ini_parser and k :: "string \<times> string" and v :: value_data and g :: string
  assume "valid_ini p"
  then obtain R where R: "p = mk_ini R" "wf_document R" by (rule valid_iniE)
  obtain n key where k: "k = (n, key)" by fastforce
  obtain s kd l where v: "v = (s, kd, l)" by (cases v) auto
  note wf = wf_doc_put wf_doc_remove wf_doc_remove_section
  show "valid_ini (ini_put k v p)" "valid_ini (ini_del k p)" "valid_ini (ini_drop g p)"
    using R wf by (simp_all add: k v ini_put_mk ini_del_mk ini_drop_mk)
  show "ini_look (ini_put k v p) = (ini_look p)(k \<mapsto> v)"
    using R wf by (auto simp: fun_eq_iff k v ini_put_mk ini_look_mk doc_find_put entry_data_def)
  show "ini_look (ini_del k p) = (ini_look p)(k := None)"
    using R wf by (auto simp: fun_eq_iff k ini_del_mk ini_look_mk doc_find_remove)
  show "ini_look (ini_drop g p) = (\<lambda>j. if in_section g j then None else ini_look p j)"
    using R wf by (auto simp: fun_eq_iff in_section_def ini_drop_mk ini_look_mk doc_find_remove_section)
qed

definition ini_calls :: "(string \<times> string, value_data, string) edit list \<Rightarrow> ini_parser" where
  "ini_calls es = fold (edit_store ini_put ini_del ini_drop) es new_ini"

definition ini_contents :: "(string \<times> string, value_data, string) edit list \<Rightarrow> string \<times> string \<Rightarrow> value_data option" where
  "ini_contents es = fold (edit_map in_section) es (\<lambda>k. None)"

lemma new_ini_mk: "new_ini = mk_ini []"
  by (simp add: new_ini_def mk_ini_def)

lemma ini_calls_refine: "valid_ini (ini_calls es) \<and> ini_look (ini_calls es) = ini_contents es"
proof -
  have "valid_ini new_ini" by (simp add: new_ini_mk wf_document_def)
  moreover have "ini_look new_ini = (\<lambda>k. None)"
    by (simp add: new_ini_mk fun_eq_iff ini_look_mk wf_document_def doc_find_def)
  ultimately show ?thesis unfolding ini_calls_def ini_contents_def using ini.edits_refine by metis
qed

text \<open>C15: after any sequence of setters, removals and section removals the stored positions are in range
  in every operation, so that none of them reads outside a vector, and the getters return what a
  mathematical map holds after the same updates.\<close>

theorem ini_is_map:
  "get_string n k (ini_calls es) = Some (map_option fst (ini_contents es (n, k))) \<and>
   get_int n k (ini_calls es) = Some (Option.bind (ini_contents es (n, k)) (\<lambda>(v, _). parse_int v)) \<and>
   has_key n k (ini_calls es) = Some (ini_contents es (n, k) \<noteq> None) \<and>
   map_option fst (ini_remove n k (ini_calls es)) = Some (ini_contents es (n, k) \<noteq> None) \<and>
   upsert n k v kind literal (ini_calls es) \<noteq> None \<and> remove_section n (ini_calls es) \<noteq> None"
proof -
  obtain R where R: "ini_calls es = mk_ini R" "wf_document R"
    using ini_calls_refine [of es] valid_iniE by blast
  have m: "ini_contents es (n, k) = map_option entry_data (doc_find n k R)"
    using ini_calls_refine [of es] by (metis R ini_look_mk)
  have "has_key n k (mk_ini R) = Some (doc_find n k R \<noteq> None)"
  proof (cases "index_of fst R n")
    case None
    then show ?thesis using map_of_index_None [of R n] by (simp add: has_key_def find_section_def doc_find_def)
  next
    case (Some i)
    then have "i < length R" "map_of R n = Some (snd (R ! i))"
      using index_of_Some [OF Some] map_of_index [of R n i] R(2) by (auto simp: wf_document_def)
    then show ?thesis using Some
      by (auto simp: has_key_def find_section_def doc_find_def case_prod_beta index_of_None find_None_iff)
  qed
  then show ?thesis
    by (cases "doc_find n k R")
      (simp_all add: R m entry_data_def get_string_def get_int_def find_entry_mk ini_remove_mk upsert_mk remove_section_mk)
qed

end
