(* ===== verification/Ini_File.thy ===== *)
theory Ini_File
  imports Ini_Parser
begin

text \<open>
  Saving an INI document and loading it again. A document is saveable when its names, keys and values
  survive the line format: no line feeds or outer white space where the format trims, no second
  section without a header, quotes only in values without comment characters, canonical booleans and
  integers, and floating-point texts that the C library reads and prints unchanged. On these
  documents loading is the inverse of saving; two examples show what happens outside.
\<close>

section \<open>Saveable documents\<close>

definition trimmed :: "string \<Rightarrow> bool" where
  "trimmed s \<longleftrightarrow> s = [] \<or> \<not> ini_space (hd s) \<and> \<not> ini_space (last s)"

definition saveable_key :: "string \<Rightarrow> bool" where
  "saveable_key k \<longleftrightarrow> trimmed k \<and> lf \<notin> set k \<and> CHR ''='' \<notin> set k \<and>
     (k = [] \<or> hd k \<noteq> CHR '';'' \<and> hd k \<noteq> CHR ''#'' \<and> hd k \<noteq> CHR ''['')"

definition saveable_double :: "'d float_api \<Rightarrow> string \<Rightarrow> bool" where
  "saveable_double api v \<longleftrightarrow> trimmed v \<and> v \<noteq> [] \<and> lf \<notin> set v \<and> comment_free v \<and> hd v \<noteq> squote \<and> hd v \<noteq> dquote \<and>
     parse_bool v = None \<and> parse_int v = None \<and> map_option (format_double api) (parse_double api v) = Some v"

definition saveable_value :: "'d float_api \<Rightarrow> entry \<Rightarrow> bool" where
  "saveable_value api e \<longleftrightarrow>
     (case e_kind e of
        VString \<Rightarrow> if e_literal e then lf \<notin> set (e_value e) \<and> (dquote \<notin> set (e_value e) \<or> comment_free (e_value e))
                   else squote \<notin> set (e_value e) \<or> comment_free (e_value e)
      | VBool \<Rightarrow> \<not> e_literal e \<and> (e_value e = ''true'' \<or> e_value e = ''false'')
      | VInt \<Rightarrow> \<not> e_literal e \<and> map_option to_string (parse_int (e_value e)) = Some (e_value e)
      | VDouble \<Rightarrow> \<not> e_literal e \<and> saveable_double api (e_value e))"

definition saveable_section :: "'d float_api \<Rightarrow> string \<times> entry list \<Rightarrow> bool" where
  "saveable_section api = (\<lambda>(name, es). trimmed name \<and> lf \<notin> set name \<and> distinct (map e_key es) \<and>
     list_all (\<lambda>e. saveable_key (e_key e) \<and> saveable_value api e) es)"

definition saveable_document :: "'d float_api \<Rightarrow> document \<Rightarrow> bool" where
  "saveable_document api R \<longleftrightarrow> distinct (map fst R) \<and> list_all (saveable_section api) R \<and>
     list_all (\<lambda>r. fst r \<noteq> []) (tl R) \<and> list_all (\<lambda>r. fst r = [] \<longrightarrow> snd r \<noteq> []) R"

definition saveable :: "'d float_api \<Rightarrow> ini_parser \<Rightarrow> bool" where
  "saveable api p \<longleftrightarrow> valid_ini p \<and> saveable_document api (document_of p)"

section \<open>One entry\<close>

lemma trim_trimmed: "trimmed s \<Longrightarrow> ini_trim s = s"
  by (simp add: trimmed_def ini_trim_id)

lemma comment_free_Cons [simp]: "comment_free (c # s) \<longleftrightarrow> c \<noteq> CHR '';'' \<and> c \<noteq> CHR ''#'' \<and> comment_free s"
  by (auto simp: comment_free_def)

lemma comment_free_append [simp]: "comment_free (s @ t) \<longleftrightarrow> comment_free s \<and> comment_free t"
  by (auto simp: comment_free_def)

lemma comment_free_Nil [simp]: "comment_free []"
  by (simp add: comment_free_def)

lemma comment_free_encode: "comment_free v \<Longrightarrow> comment_free (encode_escapes_for_string v)"
  by (induction v) (auto simp: encode_escapes_for_string_def encode_char_def)

definition escape_literal :: "string \<Rightarrow> string" where
  "escape_literal v = concat (map (\<lambda>c. if c = dquote then [backslash, dquote] else [c]) v)"

lemma quote_double_eq: "quote_double_and_escape_literal v = dquote # escape_literal v @ [dquote]"
  by (simp add: quote_double_and_escape_literal_def escape_literal_def)

lemma quote_single_eq: "quote_single_and_escape_raw v = squote # encode_escapes_for_string v @ [squote]"
  by (simp add: quote_single_and_escape_raw_def)

lemma escape_literal_lemmas:
  "comment_free v \<Longrightarrow> comment_free (escape_literal v)" "lf \<notin> set v \<Longrightarrow> lf \<notin> set (escape_literal v)"
  "dquote \<notin> set v \<Longrightarrow> escape_literal v = v"
  by (induction v) (auto simp: escape_literal_def)

lemma quote_shape [simp]:
  "2 \<le> length (quote_double_and_escape_literal v)" "hd (quote_double_and_escape_literal v) = dquote"
  "last (quote_double_and_escape_literal v) = dquote"
  "2 \<le> length (quote_single_and_escape_raw v)" "hd (quote_single_and_escape_raw v) = squote"
  "last (quote_single_and_escape_raw v) = squote"
  by (simp_all add: quote_double_eq quote_single_eq)

lemma quote_not_space: "\<not> ini_space squote" "\<not> ini_space dquote"
  by (simp_all add: ini_space_def)

lemma saved_int:
  assumes "saveable_value api e" "e_kind e = VInt"
  obtains i where "e_value e = to_string i" "parse_int (e_value e) = Some i" "\<not> e_literal e"
proof -
  obtain i where "to_string i = e_value e" "parse_int (e_value e) = Some i"
    using assms by (auto simp: saveable_value_def)
  then show thesis using assms by (intro that [of i]) (simp_all add: saveable_value_def)
qed

lemma save_value_clean:
  assumes "saveable_value api e"
  shows "strip_inline_comment (save_value e) = save_value e \<and> trimmed (save_value e) \<and> save_value e \<noteq> [] \<and>
    lf \<notin> set (save_value e)"
proof (cases "e_kind e")
  case VString
  show ?thesis
  proof (cases "e_literal e")
    case True
    then have sv: "save_value e = dquote # escape_literal (e_value e) @ [dquote]"
      using VString by (simp add: save_value_def quote_double_eq)
    have "strip_inline_comment (save_value e) = save_value e"
      using assms VString True unfolding sv saveable_value_def
      by (auto simp: strip_inline_comment_free strip_inline_comment_quoted escape_literal_lemmas)
    then show ?thesis using assms VString True unfolding sv
      by (simp add: saveable_value_def trimmed_def quote_not_space escape_literal_lemmas)
  next
    case False
    then have sv: "save_value e = squote # encode_escapes_for_string (e_value e) @ [squote]"
      using VString by (simp add: save_value_def quote_single_eq)
    have "squote \<notin> set (encode_escapes_for_string (e_value e))" if "squote \<notin> set (e_value e)"
      using encode_escapes_set [of "e_value e"] that by auto
    then have "strip_inline_comment (save_value e) = save_value e"
      using assms VString False unfolding sv saveable_value_def
      by (auto simp: strip_inline_comment_free strip_inline_comment_quoted comment_free_encode)
    then show ?thesis using encode_escapes_clean [of "e_value e"] unfolding sv
      by (simp add: trimmed_def quote_not_space)
  qed
next
  case VBool
  then show ?thesis using assms
    by (auto simp: saveable_value_def save_value_def strip_inline_comment_free trimmed_def ini_space_def)
next
  case VInt
  then obtain i where "e_value e = to_string i" using assms by (auto elim: saved_int)
  moreover have "trimmed (to_string i)" for i
  proof -
    have "c \<in> set (to_string i) \<Longrightarrow> \<not> ini_space c" for c
      using to_string_chars digit_not_special by (fastforce simp: ini_space_def)
    then show ?thesis by (simp add: trimmed_def to_string_clean)
  qed
  ultimately show ?thesis using VInt by (simp add: save_value_def strip_inline_comment_free to_string_clean)
next
  case VDouble
  then show ?thesis using assms
    by (simp add: saveable_value_def save_value_def saveable_double_def strip_inline_comment_free)
qed

lemma store_saved:
  assumes "saveable_value api e"
  shows "store_value api cur key (save_value e) p = upsert cur key (e_value e) (e_kind e) (e_literal e) p"
proof (cases "e_kind e")
  case VString
  then show ?thesis
    by (cases "e_literal e")
      (simp_all add: save_value_def store_value_def upsert_string_def)
next
  case VBool
  then show ?thesis using assms
    by (auto simp: saveable_value_def save_value_def store_value_def upsert_numeric_def parse_bool_def
        tolower_def isupper_def)
next
  case VInt
  then obtain i where i: "e_value e = to_string i" "parse_int (e_value e) = Some i" "\<not> e_literal e"
    using assms by (elim saved_int)
  then show ?thesis using VInt to_string_clean(4,5) [of i]
    by (simp add: save_value_def store_value_def upsert_numeric_def parse_bool_to_string)
next
  case VDouble
  then show ?thesis using assms
    by (auto simp: saveable_value_def save_value_def saveable_double_def store_value_def upsert_numeric_def)
qed

section \<open>Lines\<close>

definition entry_line :: "entry \<Rightarrow> string" where
  "entry_line e = e_key e @ CHR ''='' # save_value e"

definition header_lines :: "string \<Rightarrow> string list" where
  "header_lines name = (if name = [] then [] else [CHR ''['' # name @ [CHR '']'']])"

fun document_lines :: "document \<Rightarrow> string list" where
  "document_lines [] = []"
| "document_lines ((name, es) # R) =
     header_lines name @ map entry_line es @ (if R \<noteq> [] then [[]] else []) @ document_lines R"

lemma save_lines: "save_sections (map (\<lambda>(n, es). (n, mk_section es)) R) = concat (map (\<lambda>l. l @ [lf]) (document_lines R))"
proof (induction R rule: document_lines.induct)
  case (2 name es R)
  have "concat (map save_entry es) = concat (map (\<lambda>l. l @ [lf]) (map entry_line es))"
    by (induction es) (simp_all add: save_entry_def entry_line_def)
  then show ?case using 2 by (simp add: save_section_def header_lines_def)
qed simp

lemma getline_saved:
  "list_all (\<lambda>l. lf \<notin> set l) (document_lines R) \<Longrightarrow> getline_loop lf (ini_save (mk_ini R)) = document_lines R"
  by (simp add: ini_save_def save_lines getline_loop_lines)

lemma document_lines_clean: "list_all (saveable_section api) R \<Longrightarrow> list_all (\<lambda>l. lf \<notin> set l) (document_lines R)"
proof (induction R rule: document_lines.induct)
  case (2 name es R)
  then have "list_all (\<lambda>e. saveable_key (e_key e) \<and> saveable_value api e) es" by (simp add: saveable_section_def)
  then have "list_all (\<lambda>l. lf \<notin> set l) (map entry_line es)"
    using save_value_clean by (auto simp: list_all_iff entry_line_def saveable_key_def)
  then show ?case using 2 by (simp add: header_lines_def saveable_section_def)
qed simp

lemma load_entry_line:
  assumes "saveable_key (e_key e)" "saveable_value api e"
  shows "load_line api (entry_line e) (cur, p) =
    map_option (Pair cur) (upsert cur (e_key e) (e_value e) (e_kind e) (e_literal e) p)"
proof -
  let ?k = "e_key e" and ?v = "save_value e"
  note c = save_value_clean [OF assms(2)]
  have k: "trimmed ?k" "CHR ''='' \<notin> set ?k" using assms(1) by (simp_all add: saveable_key_def)
  have hd: "hd (entry_line e) = (if ?k = [] then CHR ''='' else hd ?k)" by (simp add: entry_line_def)
  have "trimmed (entry_line e)"
    using k(1) c unfolding trimmed_def hd by (auto simp: entry_line_def ini_space_def)
  then have t: "ini_trim (entry_line e) = entry_line e" by (rule trim_trimmed)
  have h: "hd (entry_line e) \<noteq> CHR '';''" "hd (entry_line e) \<noteq> CHR ''#''" "hd (entry_line e) \<noteq> CHR ''[''"
    using assms(1) unfolding hd by (auto simp: saveable_key_def)
  have f: "find_in [CHR ''=''] (entry_line e) = Some (length ?k)"
    using k(2) by (simp add: find_in_single entry_line_def takeWhile_not_in)
  have d: "drop (length ?k + 1) (entry_line e) = ?v" "take (length ?k) (entry_line e) = ?k"
    by (simp_all add: entry_line_def)
  have "load_line api (entry_line e) (cur, p) = map_option (Pair cur) (store_value api cur ?k ?v p)"
    unfolding load_line_def using t h f d c k(1)
    by (simp add: Let_def trim_trimmed) (simp add: entry_line_def)
  then show ?thesis by (simp add: store_saved [OF assms(2)])
qed

lemma load_header_line:
  assumes "name \<noteq> []" "trimmed name"
  shows "load_line api (CHR ''['' # name @ [CHR '']'']) (cur, p) = Some (name, fst (ensure_section name p))"
proof -
  have "trimmed (CHR ''['' # name @ [CHR '']''])" by (simp add: trimmed_def ini_space_def)
  then show ?thesis using trim_trimmed [OF assms(2)] by (simp add: load_line_def trim_trimmed)
qed

lemma load_blank_line: "load_line api [] st = Some st"
  by (simp add: load_line_def ini_trim_def skip_front.simps split: prod.split)

lemma doc_put_last:
  "name \<notin> fst ` set D \<Longrightarrow> e_key e \<notin> e_key ` set es0 \<Longrightarrow>
   doc_put name e (D @ [(name, es0)]) = D @ [(name, es0 @ [e])]"
  by (force simp: doc_put_def put_entry_def intro: map_idI)

lemma wf_document_snoc:
  "wf_document (D @ [(name, es)]) \<longleftrightarrow> wf_document D \<and> name \<notin> fst ` set D \<and> distinct (map e_key es)"
  by (auto simp: wf_document_def)

lemma upsert_mk_entry:
  assumes "wf_document R"
  shows "upsert name (e_key e) (e_value e) (e_kind e) (e_literal e) (mk_ini R) = Some (mk_ini (doc_put name e R))"
proof -
  have "\<lparr>e_key = e_key e, e_value = e_value e, e_kind = e_kind e, e_literal = e_literal e\<rparr> = e"
    by (cases e) simp
  then show ?thesis using upsert_mk [OF assms] by metis
qed

lemma load_entries:
  assumes "list_all (\<lambda>e. saveable_key (e_key e) \<and> saveable_value api e) es"
    "distinct (map e_key (es0 @ es))" "wf_document D" "name \<notin> fst ` set D"
  shows "fold_opt (load_line api) (map entry_line es) (name, mk_ini (D @ [(name, es0)])) =
    Some (name, mk_ini (D @ [(name, es0 @ es)]))"
  using assms(1,2)
proof (induction es arbitrary: es0)
  case (Cons e es)
  have "wf_document (D @ [(name, es0)])" using Cons.prems assms by (simp add: wf_document_snoc)
  from upsert_mk_entry [OF this] have "load_line api (entry_line e) (name, mk_ini (D @ [(name, es0)])) =
      Some (name, mk_ini (D @ [(name, es0 @ [e])]))"
    using Cons.prems assms(4) by (simp add: load_entry_line doc_put_last)
  then show ?case using Cons.IH [of "es0 @ [e]"] Cons.prems by simp
qed simp

lemma load_section:
  assumes "saveable_section api (name, es)" "wf_document D" "name \<notin> fst ` set D"
    "name = [] \<Longrightarrow> D = [] \<and> cur = [] \<and> es \<noteq> []"
  shows "fold_opt (load_line api) (header_lines name @ map entry_line es) (cur, mk_ini D) =
    Some (name, mk_ini (D @ [(name, es)]))"
proof (cases "name = []")
  case True
  then obtain e es' where es: "es = e # es'" "D = []" "cur = []" using assms(4) by (cases es) auto
  have e: "saveable_key (e_key e)" "saveable_value api e" using assms(1) es by (simp_all add: saveable_section_def)
  have "load_line api (entry_line e) ([], mk_ini []) = Some ([], mk_ini [([], [e])])"
    using load_entry_line [OF e] upsert_mk_entry [of "[]" "[]" e] by (simp add: wf_document_def doc_put_def)
  moreover have "fold_opt (load_line api) (map entry_line es') ([], mk_ini ([] @ [([], [e])])) =
      Some ([], mk_ini ([] @ [([], [e] @ es')]))"
    using assms(1) es by (intro load_entries) (simp_all add: saveable_section_def wf_document_def)
  ultimately show ?thesis using True es by (simp add: header_lines_def)
next
  case False
  have "load_line api (CHR ''['' # name @ [CHR '']'']) (cur, mk_ini D) = Some (name, mk_ini (D @ [(name, [])]))"
    using False assms(1,3) by (simp add: load_header_line saveable_section_def ensure_section_mk)
  moreover have "fold_opt (load_line api) (map entry_line es) (name, mk_ini (D @ [(name, [])])) =
      Some (name, mk_ini (D @ [(name, [] @ es)]))"
    using assms by (intro load_entries) (simp_all add: saveable_section_def)
  ultimately show ?thesis using False by (simp add: header_lines_def)
qed

lemma load_document:
  assumes "list_all (saveable_section api) R" "wf_document (D @ R)"
    "list_all (\<lambda>r. fst r = [] \<longrightarrow> snd r \<noteq> []) R" "list_all (\<lambda>r. fst r \<noteq> []) (tl R)"
    "D = [] \<longrightarrow> cur = []" "D \<noteq> [] \<longrightarrow> list_all (\<lambda>r. fst r \<noteq> []) R"
  shows "\<exists>cur'. fold_opt (load_line api) (document_lines R) (cur, mk_ini D) = Some (cur', mk_ini (D @ R))"
  using assms
proof (induction R arbitrary: D cur)
  case (Cons r R)
  obtain name es where r: "r = (name, es)" by fastforce
  have wf: "wf_document D" "name \<notin> fst ` set D" using Cons.prems(2) r by (auto simp: wf_document_def)
  have empty: "D = [] \<and> cur = [] \<and> es \<noteq> []" if "name = []"
    using Cons.prems(3,5,6) that r by auto
  have head: "fold_opt (load_line api) (header_lines name @ map entry_line es) (cur, mk_ini D) =
      Some (name, mk_ini (D @ [(name, es)]))"
    using Cons.prems(1) r wf empty by (intro load_section) simp_all
  have tail: "list_all (\<lambda>r. fst r \<noteq> []) (tl R)" using Cons.prems(4) r by (cases R) simp_all
  have sep: "fold_opt (load_line api) (if R \<noteq> [] then [[]] else []) st = Some st" for st
    by (simp add: load_blank_line)
  have "\<exists>cur'. fold_opt (load_line api) (document_lines R) (name, mk_ini ((D @ [(name, es)]) ))
      = Some (cur', mk_ini ((D @ [(name, es)]) @ R))"
    using Cons.prems r tail by (intro Cons.IH) simp_all
  moreover have "document_lines (r # R) =
      (header_lines name @ map entry_line es) @ (if R \<noteq> [] then [[]] else []) @ document_lines R"
    by (simp add: r)
  then have "fold_opt (load_line api) (document_lines (r # R)) (cur, mk_ini D) =
      fold_opt (load_line api) (document_lines R) (name, mk_ini (D @ [(name, es)]))"
    using head sep by (metis Option.bind.simps(2) fold_opt_append)
  ultimately show ?case by (simp add: r)
qed simp

lemma load_save:
  assumes "saveable api p"
  shows "ini_load api (Some (ini_save p)) q = Some (True, p)"
proof -
  obtain R where R: "p = mk_ini R" "wf_document R" using assms valid_iniE unfolding saveable_def by blast
  then have d: "saveable_document api R" using assms by (simp add: saveable_def)
  then obtain cur where "fold_opt (load_line api) (document_lines R) ([], mk_ini []) = Some (cur, mk_ini R)"
    using load_document [of api R "[]" "[]"] R(2) by (auto simp: saveable_document_def)
  moreover have "getline_loop lf (ini_save p) = document_lines R"
    using d document_lines_clean [of api R] by (simp add: getline_saved R(1) saveable_document_def)
  ultimately show ?thesis by (simp add: ini_load_def R(1) new_ini_mk)
qed

interpretation ini_file: codec "saveable api" ini_save "\<lambda>t. map_option snd (ini_load api (Some t) new_ini)" for api
  by unfold_locales (simp add: load_save)

text \<open>C14: loading a saved document gives the same document back, with the same sections and entries in
  the same order, the same kinds and quoting styles, whatever was in memory before.\<close>

theorem ini_roundtrip:
  assumes "saveable api p"
  shows "ini_load api (Some (ini_save p)) q = Some (True, p)"
  using assms by (rule load_save)

definition example_document :: document where
  "example_document =
     [([], [\<lparr>e_key = ''a'', e_value = ''it is; x'', e_kind = VString, e_literal = False\<rparr>]),
      (''s 1'', [\<lparr>e_key = ''n'', e_value = ''-42'', e_kind = VInt, e_literal = False\<rparr>,
               \<lparr>e_key = ''q'', e_value = [dquote] @ ''hi'' @ [dquote], e_kind = VString, e_literal = True\<rparr>,
               \<lparr>e_key = ''b'', e_value = ''true'', e_kind = VBool, e_literal = False\<rparr>])]"

definition no_doubles :: "unit float_api" where
  "no_doubles = \<lparr>parse_double = (\<lambda>v. None), format_double = (\<lambda>d. [])\<rparr>"

lemma parse_minus_42: "map_option to_string (parse_int ''-42'') = Some ''-42''"
proof -
  have "digit_char 4 = CHR ''4''" "digit_char 2 = CHR ''2''" by (simp_all add: digit_char_def char_of_eq_iff)
  then have "to_string (-42) = ''-42''" by (simp add: to_string_def show_nat.simps)
  then show ?thesis using parse_int_to_string [of "-42"] by simp
qed

theorem ini_roundtrip_witness:
  "ini_load no_doubles (Some (ini_save (mk_ini example_document))) new_ini = Some (True, mk_ini example_document)"
proof (rule ini_roundtrip)
  show "saveable no_doubles (mk_ini example_document)"
    unfolding saveable_def
    by (simp add: example_document_def wf_document_def saveable_document_def saveable_section_def saveable_key_def
        saveable_value_def trimmed_def ini_space_def comment_free_def parse_minus_42)
qed

definition quoted_document :: document where
  "quoted_document =
     [([], [\<lparr>e_key = ''k'', e_value = ''it'' @ [squote] @ ''s; x'', e_kind = VString, e_literal = False\<rparr>])]"

text \<open>A string with an apostrophe and a comment character does not survive: it is written with the
  apostrophe escaped, but the comment stripper counts the escaped apostrophe as a closing quote, and
  the value is read back with its opening quote and without what follows the semicolon.\<close>

theorem ini_escaped_quote_lost:
  "Option.bind (ini_load no_doubles (Some (ini_save (mk_ini quoted_document))) new_ini)
     (\<lambda>(ok, p). get_string [] ''k'' p) = Some (Some ([squote] @ ''it'' @ [squote] @ ''s''))"
proof -
  let ?e = "\<lparr>e_key = ''k'', e_value = ''it'' @ [squote] @ ''s; x'', e_kind = VString, e_literal = False\<rparr>"
  let ?v = "[squote] @ ''it'' @ [backslash, squote] @ ''s; x'' @ [squote]" and ?w = "[squote] @ ''it'' @ [backslash, squote] @ ''s''"
  have ln: "entry_line ?e = ''k='' @ ?v" 
    by (simp add: entry_line_def save_value_def quote_single_eq encode_escapes_for_string_def encode_char_def)
  have "getline_loop lf (ini_save (mk_ini quoted_document)) = [''k='' @ ?v]"
    using getline_saved [of quoted_document] ln by (simp add: quoted_document_def header_lines_def)
  moreover have "ini_trim (''k='' @ ?v) = ''k='' @ ?v" "ini_trim ?w = ?w" "ini_trim ''k'' = ''k''"
    by (rule ini_trim_id; simp add: ini_space_def)+
  moreover have "strip_inline_comment ?v = ?w"
    by (simp add: strip_inline_comment_def strip_loop.simps Let_def isspace_def)
  moreover have "parse_bool ?w = None" by (simp add: parse_bool_def tolower_def isupper_def)
  moreover have "parse_int ?w = None"
    by (simp add: parse_int_def c_str_def scan_int_def auto_base_def split_sign_def isspace_def is_digit_in_def
        digit_value_def isdigit_def islower_def isupper_def)
  ultimately have "ini_load no_doubles (Some (ini_save (mk_ini quoted_document))) new_ini =
      map_option (Pair True) (upsert [] ''k'' ([squote] @ ''it'' @ [squote] @ ''s'') VString False (mk_ini []))"
    by (simp add: ini_load_def load_line_def Let_def store_value_def upsert_string_def no_doubles_def new_ini_mk
        upsert_mk wf_document_def)
  then show ?thesis
    by (simp add: upsert_mk wf_document_def doc_put_def get_string_def find_entry_mk doc_find_def)
qed

end
