(* ===== verification/Config.thy ===== *)
theory Config
  imports String_Basic Key_Value
begin

text \<open>
  The configuration file of \<open>src/config/config_manager.cpp\<close>: a list of lines, each either a pair of a
  key and a value or a text that is kept as it is. A file is its text, \<open>None\<close> when it cannot be
  opened. The manager is an interpretation of \<open>map_store\<close>; saving and loading give the same lines
  back as long as no value needs quotes, which \<open>save\<close> does not write.
\<close>

section \<open>The code\<close>

record config_line =
  cl_key :: string
  cl_value :: string
  cl_raw_text :: string
  cl_is_data :: bool

text \<open>The manager's state is the list of its lines.\<close>

type_synonym config_manager = "config_line list"

definition config_space :: "char \<Rightarrow> bool" where
  "config_space c \<longleftrightarrow> c = CHR '' '' \<or> c = CHR 0x09 \<or> c = CHR 0x0D \<or> c = CHR 0x0A"

definition config_trim :: "string \<Rightarrow> string" where
  "config_trim s = strip config_space s"

definition process_escape :: "string \<Rightarrow> string" where
  "process_escape v =
     (if length v \<ge> 2 \<and> hd v = CHR 0x22 \<and> last v = CHR 0x22
      then let inner = take (length v - 2) (drop 1 v);
               quotes = replace_loop [CHR 0x5C, CHR 0x22] [CHR 0x22] inner 0
           in replace_loop [CHR 0x5C, CHR 0x5C] [CHR 0x5C] quotes 0
      else v)"

definition parse_line :: "string \<Rightarrow> config_line" where
  "parse_line line_text =
     (let temp = config_trim line_text;
          other = \<lparr>cl_key = [], cl_value = [], cl_raw_text = line_text, cl_is_data = False\<rparr>
      in if temp \<noteq> [] \<and> hd temp \<noteq> CHR ''#''
         then (case find_in [CHR ''=''] temp of
                 Some sep \<Rightarrow>
                   \<lparr>cl_key = config_trim (take sep temp),
                    cl_value = process_escape (config_trim (drop (sep + 1) temp)),
                    cl_raw_text = line_text, cl_is_data = True\<rparr>
               | None \<Rightarrow> other)
         else other)"

definition config_load :: "string option \<Rightarrow> config_manager \<Rightarrow> bool \<times> config_manager" where
  "config_load file m_lines =
     (case file of
        None \<Rightarrow> (False, m_lines)
      | Some content \<Rightarrow> (True, map parse_line (getline_loop lf content)))"

definition line_text :: "config_line \<Rightarrow> string" where
  "line_text l = (if cl_is_data l then cl_key l @ '' = '' @ cl_value l else cl_raw_text l)"

text \<open>The result and the new contents of a file that can be opened for writing.\<close>

definition config_save :: "config_manager \<Rightarrow> string" where
  "config_save m_lines = concat (map (\<lambda>l. line_text l @ [lf]) m_lines)"

fun config_get_string :: "config_manager \<Rightarrow> string \<Rightarrow> string \<Rightarrow> string" where
  "config_get_string [] key default_val = default_val"
| "config_get_string (l # ls) key default_val =
     (if cl_is_data l \<and> cl_key l = key then cl_value l else config_get_string ls key default_val)"

definition config_get_int :: "config_manager \<Rightarrow> string \<Rightarrow> int \<Rightarrow> int" where
  "config_get_int m_lines key default_val =
     (let v = config_get_string m_lines key []
      in if v = [] then default_val
         else case sto_signed 32 v of Some i \<Rightarrow> i | None \<Rightarrow> default_val)"

definition config_get_bool :: "config_manager \<Rightarrow> string \<Rightarrow> bool \<Rightarrow> bool" where
  "config_get_bool m_lines key default_val =
     (let v = map tolower (config_get_string m_lines key [])
      in if v = ''true'' \<or> v = ''1'' \<or> v = ''yes'' \<or> v = ''on'' then True
         else if v = ''false'' \<or> v = ''0'' \<or> v = ''no'' \<or> v = ''off'' then False
         else default_val)"

fun config_set :: "string \<Rightarrow> string \<Rightarrow> config_manager \<Rightarrow> config_manager" where
  "config_set key v [] =
     [\<lparr>cl_key = key, cl_value = v, cl_raw_text = key @ '' = '' @ v, cl_is_data = True\<rparr>]"
| "config_set key v (l # ls) =
     (if cl_is_data l \<and> cl_key l = key then l\<lparr>cl_value := v\<rparr> # ls
      else l # config_set key v ls)"

section \<open>The manager is a map\<close>

fun config_look :: "config_manager \<Rightarrow> string \<Rightarrow> string option" where
  "config_look [] key = None"
| "config_look (l # ls) key =
     (if cl_is_data l \<and> cl_key l = key then Some (cl_value l) else config_look ls key)"

lemma config_get_string_look:
  "config_get_string ls key d = (case config_look ls key of Some v \<Rightarrow> v | None \<Rightarrow> d)"
  by (induction ls) simp_all

lemma config_look_set: "config_look (config_set key v ls) = (config_look ls)(key \<mapsto> v)"
  by (induction ls) (auto simp: fun_eq_iff)

interpretation config: map_store "\<lambda>_. True" config_look config_set
  by unfold_locales (simp_all add: config_look_set)

definition config_sets :: "(string \<times> string) list \<Rightarrow> config_manager \<Rightarrow> config_manager" where
  "config_sets kvs ls = fold (\<lambda>(k, v). config_set k v) kvs ls"

definition other_lines :: "config_manager \<Rightarrow> string list" where
  "other_lines ls = map cl_raw_text (filter (\<lambda>l. \<not> cl_is_data l) ls)"

definition data_keys :: "config_manager \<Rightarrow> string list" where
  "data_keys ls = map cl_key (filter cl_is_data ls)"

lemma set_keeps_others: "other_lines (config_set k v ls) = other_lines ls"
  by (induction ls) (auto simp: other_lines_def)

lemma set_keys:
  "data_keys (config_set k v ls) = (if k \<in> set (data_keys ls) then data_keys ls else data_keys ls @ [k])"
  by (induction ls) (auto simp: data_keys_def)

text \<open>The keys after some calls of \<open>set\<close>: the old ones in their order, then each new one once, in the
  order of its first call.\<close>

fun new_keys :: "string list \<Rightarrow> string list \<Rightarrow> string list" where
  "new_keys old [] = old"
| "new_keys old (k # ks) = new_keys (if k \<in> set old then old else old @ [k]) ks"

lemma sets_keep:
  "other_lines (config_sets kvs ls) = other_lines ls \<and>
   data_keys (config_sets kvs ls) = new_keys (data_keys ls) (map fst kvs)"
  unfolding config_sets_def
proof (induction kvs arbitrary: ls)
  case (Cons kv kvs)
  then show ?case by (cases kv) (simp add: set_keeps_others set_keys)
qed simp

text \<open>After any sequence of \<open>set\<close> calls every key has the last value set for it, or else the one it
  had; comments and empty lines are all kept in their order, the keys keep theirs, and a new key is
  added once, at the end.\<close>

theorem config_is_map:
  "config_get_string (config_sets kvs ls) k d =
     (case map_of (rev kvs) k of Some v \<Rightarrow> v | None \<Rightarrow> config_get_string ls k d) \<and>
   other_lines (config_sets kvs ls) = other_lines ls \<and>
   data_keys (config_sets kvs ls) = new_keys (data_keys ls) (map fst kvs)"
  using config.puts_refine [where s = ls and kvs = kvs] sets_keep [of kvs ls]
  by (simp add: config_get_string_look config_sets_def map_add_def split: option.split)

section \<open>Quoted values\<close>

definition quote_value :: "string \<Rightarrow> string" where
  "quote_value v =
     CHR 0x22 # concat (map (\<lambda>c. if c = CHR 0x22 \<or> c = CHR 0x5C then [CHR 0x5C, c] else [c]) v) @ [CHR 0x22]"

lemma replace_Nil: "d \<noteq> [] \<Longrightarrow> replace_loop d r [] 0 = []"
  by (simp add: replace_loop_spec split_on_None)

lemma replace_match: "d \<noteq> [] \<Longrightarrow> replace_loop d r (d @ s) 0 = r @ replace_loop d r s 0"
proof -
  assume d: "d \<noteq> []"
  then have "find_in d (d @ s) = Some 0" by (cases d) simp_all
  then show ?thesis using d by (simp add: replace_loop_spec split_on_Some join_Cons)
qed

lemma replace_skip:
  assumes "d \<noteq> []" "take (length d) (c # s) \<noteq> d"
  shows "replace_loop d r (c # s) 0 = c # replace_loop d r s 0"
proof (cases "find_in d s")
  case None
  then have "find_in d (c # s) = None" using assms(2) by simp
  then show ?thesis using assms(1) None by (simp add: replace_loop_spec split_on_None)
next
  case (Some i)
  then have "find_in d (c # s) = Some (Suc i)" using assms(2) by simp
  then show ?thesis using assms(1) Some by (simp add: replace_loop_spec split_on_Some join_Cons)
qed

abbreviation escaped :: "string \<Rightarrow> string" where
  "escaped v \<equiv> concat (map (\<lambda>c. if c = CHR 0x22 \<or> c = CHR 0x5C then [CHR 0x5C, c] else [c]) v)"

abbreviation half_escaped :: "string \<Rightarrow> string" where
  "half_escaped v \<equiv> concat (map (\<lambda>c. if c = CHR 0x5C then [c, c] else [c]) v)"

lemma take_escaped: "take (Suc 0) (escaped v) \<noteq> [CHR 0x22]"
  by (cases v) auto

lemma first_replace: "replace_loop [CHR 0x5C, CHR 0x22] [CHR 0x22] (escaped v) 0 = half_escaped v"
proof (induction v)
  case (Cons c v)
  let ?R = "\<lambda>s. replace_loop [CHR 0x5C, CHR 0x22] [CHR 0x22] s 0"
  have q: "?R (CHR 0x5C # CHR 0x22 # s) = CHR 0x22 # ?R s" for s
    using replace_match [of "[CHR 0x5C, CHR 0x22]" "[CHR 0x22]" s] by simp
  have b: "?R (CHR 0x5C # CHR 0x5C # escaped v) = CHR 0x5C # CHR 0x5C # ?R (escaped v)"
    using take_escaped [of v] by (simp add: replace_skip)
  have o: "?R (c # s) = c # ?R s" if "c \<noteq> CHR 0x5C" for s using that by (simp add: replace_skip)
  show ?case using Cons by (simp add: q b o)
qed (simp add: replace_Nil)

lemma second_replace: "replace_loop [CHR 0x5C, CHR 0x5C] [CHR 0x5C] (half_escaped v) 0 = v"
proof (induction v)
  case (Cons c v)
  let ?R = "\<lambda>s. replace_loop [CHR 0x5C, CHR 0x5C] [CHR 0x5C] s 0"
  have b: "?R (CHR 0x5C # CHR 0x5C # s) = CHR 0x5C # ?R s" for s
    using replace_match [of "[CHR 0x5C, CHR 0x5C]" "[CHR 0x5C]" s] by simp
  have o: "?R (c # s) = c # ?R s" if "c \<noteq> CHR 0x5C" for s using that by (simp add: replace_skip)
  show ?case using Cons by (simp add: b o)
qed (simp add: replace_Nil)

text \<open>A value written between double quotes, with a backslash before every quote and backslash, is read
  back: the two passes over the text do not disturb each other.\<close>

lemma process_escape_quote: "process_escape (quote_value v) = v"
  by (simp add: process_escape_def quote_value_def first_replace second_replace)

section \<open>Saving and loading\<close>

text \<open>The lines that come back: a key and a value without line breaks, without white space at their
  ends, the key without \<open>=\<close> and not a comment, the value not in quotes; any other line must be one that
  is no data to the parser either.\<close>

definition config_trimmed :: "string \<Rightarrow> bool" where
  "config_trimmed s \<longleftrightarrow> s = [] \<or> (config_space (hd s) \<or> config_space (last s)) = False"

definition in_quotes :: "string \<Rightarrow> bool" where
  "in_quotes v \<longleftrightarrow> length v \<ge> 2 \<and> hd v = CHR 0x22 \<and> last v = CHR 0x22"

definition storable :: "config_line \<Rightarrow> bool" where
  "storable l \<longleftrightarrow>
     (if cl_is_data l
      then lf \<notin> set (cl_key l) \<and> lf \<notin> set (cl_value l) \<and> config_trimmed (cl_key l) \<and> config_trimmed (cl_value l) \<and>
           CHR ''='' \<notin> set (cl_key l) \<and> (cl_key l = [] \<or> hd (cl_key l) \<noteq> CHR ''#'') \<and> \<not> in_quotes (cl_value l)
      else lf \<notin> set (cl_raw_text l) \<and> parse_line (cl_raw_text l) = l)"

text \<open>What loading gives for a stored line.\<close>

definition reloaded :: "config_line \<Rightarrow> config_line" where
  "reloaded l = (if cl_is_data l then l\<lparr>cl_raw_text := line_text l\<rparr> else l)"

lemma trimmed_strip: "config_trimmed s \<Longrightarrow> config_trim s = s"
  by (auto simp: config_trimmed_def config_trim_def intro: strip_keep)

lemma blank: "config_space CHR '' ''" "\<not> config_space CHR ''=''"
  by (simp_all add: config_space_def)

lemma trim_data_line:
  assumes "config_trimmed k" "config_trimmed v"
  obtains k' v' where "config_trim (k @ '' = '' @ v) = k' @ CHR ''='' # v'" "config_trim k' = k"
    "config_trim v' = v" "set k' \<subseteq> set k \<union> {CHR '' ''}" "k = [] \<Longrightarrow> k' = []" "k \<noteq> [] \<Longrightarrow> hd k' = hd k"
proof -
  define k' where "k' = (if k = [] then [] else k @ '' '')"
  define v' where "v' = (if v = [] then [] else CHR '' '' # v)"
  have "config_trim (k @ '' = '' @ v) = config_trim (k' @ CHR ''='' # CHR '' '' # v)"
    using strip_left [of config_space "'' ''" "CHR ''='' # CHR '' '' # v"]
    by (simp add: k'_def config_trim_def blank)
  also have "\<dots> = config_trim (k' @ CHR ''='' # v')"
  proof (cases "v = []")
    case True
    have "k' @ [CHR ''=''] = [] \<or> \<not> config_space (hd (k' @ [CHR ''='']))"
      using assms(1) by (auto simp: k'_def config_trimmed_def blank hd_append)
    from strip_right [where P = config_space and b = "'' ''", OF _ this] True show ?thesis by (simp add: v'_def config_trim_def blank)
  qed (simp add: v'_def)
  also have "\<dots> = k' @ CHR ''='' # v'"
    using assms unfolding config_trim_def
    by (intro strip_keep) (auto simp: k'_def v'_def config_trimmed_def blank hd_append)
  finally have "config_trim (k @ '' = '' @ v) = k' @ CHR ''='' # v'" .
  moreover have "config_trim k' = k"
    using strip_right [of config_space "'' ''" k] assms(1) trimmed_strip [OF assms(1)]
    by (auto simp: k'_def config_trim_def blank config_trimmed_def)
  moreover have "config_trim v' = v"
    using strip_left [of config_space "'' ''" v] trimmed_strip [OF assms(2)]
    by (auto simp: v'_def config_trim_def blank)
  ultimately show thesis using that [of k' v'] by (auto simp: k'_def hd_append)
qed

lemma parse_line_text:
  assumes "storable l"
  shows "parse_line (line_text l) = reloaded l"
proof (cases "cl_is_data l")
  case True
  then have s: "config_trimmed (cl_key l)" "config_trimmed (cl_value l)" "CHR ''='' \<notin> set (cl_key l)"
    "cl_key l = [] \<or> hd (cl_key l) \<noteq> CHR ''#''" "\<not> in_quotes (cl_value l)"
    using assms by (simp_all add: storable_def)
  obtain k' v' where t: "config_trim (cl_key l @ '' = '' @ cl_value l) = k' @ CHR ''='' # v'"
    "config_trim k' = cl_key l" "config_trim v' = cl_value l" "set k' \<subseteq> set (cl_key l) \<union> {CHR '' ''}"
    "cl_key l = [] \<Longrightarrow> k' = []" "cl_key l \<noteq> [] \<Longrightarrow> hd k' = hd (cl_key l)"
    using trim_data_line [OF s(1,2)] by metis
  have "CHR ''='' \<notin> set k'" using t(4) s(3) by auto
  then have f: "find_in [CHR ''=''] (k' @ CHR ''='' # v') = Some (length k')"
    by (simp add: find_in_single takeWhile_not_in)
  have h: "hd (k' @ CHR ''='' # v') \<noteq> CHR ''#''"
    using s(4) t(5,6) by (cases "cl_key l = []"; cases "k' = []") (simp_all add: hd_append)
  have "process_escape (cl_value l) = cl_value l"
    using s(5) by (auto simp: process_escape_def in_quotes_def)
  moreover have lt: "line_text l = cl_key l @ '' = '' @ cl_value l" using True by (simp add: line_text_def)
  ultimately show ?thesis
    using True f h t(2,3) unfolding parse_line_def lt t(1) Let_def reloaded_def
    by (simp del: find_in.simps)
next
  case False
  then show ?thesis using assms by (simp add: storable_def line_text_def reloaded_def)
qed

lemma storable_clean: "storable l \<Longrightarrow> lf \<notin> set (line_text l)"
  by (auto simp: storable_def line_text_def split: if_splits)

lemma config_load_save:
  assumes "list_all storable ls"
  shows "config_load (Some (config_save ls)) old = (True, map reloaded ls)"
proof -
  have "list_all (\<lambda>t. lf \<notin> set t) (map line_text ls)"
    using assms storable_clean by (auto simp: list_all_iff)
  then have "getline_loop lf (config_save ls) = map line_text ls"
    using getline_loop_lines [of lf "map line_text ls"] by (simp add: config_save_def comp_def)
  then show ?thesis using assms parse_line_text by (simp add: config_load_def list_all_iff)
qed

lemma reloaded_look: "config_look (map reloaded ls) k = config_look ls k"
  by (induction ls) (simp_all add: reloaded_def)

lemma reloaded_text: "line_text (reloaded l) = line_text l"
  by (simp add: reloaded_def line_text_def)

lemma reloaded_save: "config_save (map reloaded ls) = config_save ls"
  by (simp add: config_save_def comp_def reloaded_text)

interpretation config_file: codec "\<lambda>ls. list_all storable ls \<and> map reloaded ls = ls"
    config_save "\<lambda>t. Some (snd (config_load (Some t) []))"
  by unfold_locales (simp add: config_load_save)

text \<open>C23: a saved configuration of storable lines loads again with the same keys, values, comments and
  empty lines in the same order, whatever was loaded before; the stored text of a data line becomes
  the line of the file, and saving once more writes the same file.\<close>

theorem config_roundtrip:
  assumes "list_all storable ls"
  shows "config_load (Some (config_save ls)) old = (True, map reloaded ls) \<and>
    config_save (map reloaded ls) = config_save ls \<and>
    config_get_string (map reloaded ls) k d = config_get_string ls k d"
  using config_load_save [OF assms] by (simp add: config_get_string_look reloaded_look reloaded_save)

theorem config_roundtrip_witness:
  "config_load (Some (config_save [\<lparr>cl_key = ''port'', cl_value = ''80'', cl_raw_text = [], cl_is_data = True\<rparr>,
      \<lparr>cl_key = [], cl_value = [], cl_raw_text = ''# ports'', cl_is_data = False\<rparr>])) [] =
   (True, [\<lparr>cl_key = ''port'', cl_value = ''80'', cl_raw_text = ''port = 80'', cl_is_data = True\<rparr>,
      \<lparr>cl_key = [], cl_value = [], cl_raw_text = ''# ports'', cl_is_data = False\<rparr>])"
proof -
  let ?ls = "[\<lparr>cl_key = ''port'', cl_value = ''80'', cl_raw_text = [], cl_is_data = True\<rparr>,
      \<lparr>cl_key = [], cl_value = [], cl_raw_text = ''# ports'', cl_is_data = False\<rparr>]"
  have "list_all storable ?ls" by code_simp
  from config_roundtrip [OF this, of "[]"] show ?thesis by (simp add: reloaded_def line_text_def)
qed

text \<open>\<open>save\<close> writes the value without quotes: one that needs them does not come back.\<close>

lemma quotes_lost:
  "config_load (Some ''k = \"  x\"'') [] =
     (True, [\<lparr>cl_key = ''k'', cl_value = ''  x'', cl_raw_text = ''k = \"  x\"'', cl_is_data = True\<rparr>]) \<and>
   config_get_string (snd (config_load (Some (config_save (snd (config_load (Some ''k = \"  x\"'') [])))) [])) ''k'' [] = ''x''"
  by code_simp

end
