(* ===== verification/Calendar.thy ===== *)
theory Calendar
  imports Cpp_Std
begin

text \<open>
  Calendar time: \<open>std::tm\<close>, the conversions \<open>timegm\<close> and \<open>gmtime\<close> of the C library, and the wrappers of
  \<open>src/datetime/datetime_convert.cpp\<close> with the date checks of \<open>src/datetime/datetime_util.cpp\<close>. A
  \<open>time_t\<close> is the number of seconds since 1970; a \<open>system_clock::time_point\<close> its nanoseconds in 64
  bits, so a conversion to one may overflow, which is undefined and \<open>None\<close>. The conversions for the
  local time zone, \<open>mktime\<close> and \<open>localtime\<close>, are parameters.

  The lemmas show that seconds and broken-down times with valid fields correspond one to one.
\<close>

section \<open>Broken-down time\<close>

record std_tm =
  tm_year :: int
  tm_mon :: int
  tm_mday :: int
  tm_hour :: int
  tm_min :: int
  tm_sec :: int
  tm_wday :: int
  tm_yday :: int
  tm_isdst :: int

definition zero_tm :: std_tm where
  "zero_tm = \<lparr>tm_year = 0, tm_mon = 0, tm_mday = 0, tm_hour = 0, tm_min = 0, tm_sec = 0,
              tm_wday = 0, tm_yday = 0, tm_isdst = 0\<rparr>"

definition is_leap :: "int \<Rightarrow> bool" where
  "is_leap y \<longleftrightarrow> y mod 4 = 0 \<and> y mod 100 \<noteq> 0 \<or> y mod 400 = 0"

definition month_days :: "int list" where
  "month_days = [31, 28, 31, 30, 31, 30, 31, 31, 30, 31, 30, 31]"

definition days_in_month :: "int \<Rightarrow> int \<Rightarrow> int" where
  "days_in_month Y M = (if M = 2 \<and> is_leap Y then 29 else month_days ! nat (M - 1))"

definition valid_ymd :: "int \<Rightarrow> int \<Rightarrow> int \<Rightarrow> bool" where
  "valid_ymd Y M D =
     (if Y < 0 \<or> M < 1 \<or> M > 12 then False else D \<ge> 1 \<and> D \<le> days_in_month Y M)"

text \<open>The days before a year, counted from the first of January of the year 1, and the days of a year
  before its month \<open>m\<close>, counted from 0.\<close>

definition days_before_year :: "int \<Rightarrow> int" where
  "days_before_year y = 365 * (y - 1) + (y - 1) div 4 - (y - 1) div 100 + (y - 1) div 400"

definition month_starts :: "bool \<Rightarrow> int list" where
  "month_starts leap =
     (if leap then [0, 31, 60, 91, 121, 152, 182, 213, 244, 274, 305, 335]
      else [0, 31, 59, 90, 120, 151, 181, 212, 243, 273, 304, 334])"

definition month_start :: "bool \<Rightarrow> int \<Rightarrow> int" where
  "month_start leap m = month_starts leap ! nat m"

definition days_from_civil :: "int \<Rightarrow> int \<Rightarrow> int \<Rightarrow> int" where
  "days_from_civil y m d = days_before_year y - 719162 + month_start (is_leap y) m + d - 1"

definition timegm :: "std_tm \<Rightarrow> int" where
  "timegm tm =
     ((days_from_civil (tm_year tm + 1900 + tm_mon tm div 12) (tm_mon tm mod 12) (tm_mday tm) * 24
       + tm_hour tm) * 60 + tm_min tm) * 60 + tm_sec tm"

definition year_of_day :: "int \<Rightarrow> int \<times> int" where
  "year_of_day d =
     (let n = d + 719162;
          a = n div 146097; r = n mod 146097;
          b = min 3 (r div 36524); r1 = r - 36524 * b;
          c = r1 div 1461; r2 = r1 mod 1461;
          e = min 3 (r2 div 365)
      in (400 * a + 100 * b + 4 * c + e + 1, r2 - 365 * e))"

definition month_of_day :: "bool \<Rightarrow> int \<Rightarrow> int" where
  "month_of_day leap yd = int (length (takeWhile (\<lambda>s. s \<le> yd) (month_starts leap))) - 1"

definition int_max :: int where
  "int_max = 2 ^ 31 - 1"

definition gmtime :: "int \<Rightarrow> std_tm option" where
  "gmtime t =
     (let days = t div 86400; s = t mod 86400; (y, yd) = year_of_day days;
          m = month_of_day (is_leap y) yd
      in if y - 1900 < - int_max - 1 \<or> y - 1900 > int_max then None
         else Some \<lparr>tm_year = y - 1900, tm_mon = m, tm_mday = yd - month_start (is_leap y) m + 1,
                    tm_hour = s div 3600, tm_min = s mod 3600 div 60, tm_sec = s mod 60,
                    tm_wday = (days + 4) mod 7, tm_yday = yd, tm_isdst = 0\<rparr>)"

section \<open>Years\<close>

lemma leap_step:
  fixes y :: int
  assumes "a = a' + (if p then 1 else 0)" "b = b' + (if q then 1 else 0)" "c = c' + (if r then 1 else 0)"
    and "r \<Longrightarrow> q" "q \<Longrightarrow> p"
  shows "365 * y + a - b + c = 365 * (y - 1) + a' - b' + c' + (if p \<and> \<not> q \<or> r then 366 else 365)"
  using assms by (cases p; cases q; cases r) simp_all

lemma days_before_next_year: "days_before_year (y + 1) = days_before_year y + (if is_leap y then 366 else 365)"
proof -
  have d: "y div k = (y - 1) div k + (if y mod k = 0 then 1 else 0)" if "k > 1" for k :: int
  proof -
    have y: "y = k * (y div k) + y mod k" "0 \<le> y mod k" "y mod k < k" using that by simp_all
    have "(y - 1) div k = (if y mod k = 0 then y div k - 1 else y div k)"
    proof (cases "y mod k = 0")
      case True
      have "(y - 1) div k = y div k - 1"
        by (rule int_div_pos_eq [where r = "k - 1"]) (use y True that in \<open>simp_all add: algebra_simps\<close>)
      with True show ?thesis by simp
    next
      case False
      have "(y - 1) div k = y div k"
        by (rule int_div_pos_eq [where r = "y mod k - 1"]) (use y False in \<open>simp_all\<close>)
      with False show ?thesis by simp
    qed
    then show ?thesis by simp
  qed
  have "y mod 400 = 0 \<Longrightarrow> y mod 100 = 0" "y mod 100 = 0 \<Longrightarrow> y mod 4 = 0"
    using mod_mod_cancel [of 100 400 y] mod_mod_cancel [of 4 100 y] by auto
  then show ?thesis unfolding days_before_year_def is_leap_def add_diff_cancel_right'
    by (intro leap_step d; simp)
qed

text \<open>The centuries of 400 years and the years of a leap cycle: the last one is a day longer.\<close>

lemma capped_div:
  fixes r k :: int
  assumes "0 < k" "0 \<le> r" "r \<le> 4 * k"
  defines "q \<equiv> min 3 (r div k)"
  shows "0 \<le> q" "q \<le> 3" "0 \<le> r - k * q" "r - k * q \<le> k" "r - k * q = k \<Longrightarrow> q = 3"
proof -
  have r: "k * (r div k) \<le> r" "r < k * (r div k) + k" "0 \<le> r div k"
    using assms(1,2) pos_mod_bound [of k r] pos_mod_sign [of k r] mult_div_mod_eq [of k r]
    by (linarith, linarith, simp add: pos_imp_zdiv_nonneg_iff)
  show "0 \<le> q" "q \<le> 3" using r(3) by (simp_all add: q_def)
  consider "q = r div k" "r div k \<le> 3" | "q = 3" "3 < r div k" unfolding q_def by linarith
  then have "0 \<le> r - k * q \<and> r - k * q \<le> k \<and> (r - k * q = k \<longrightarrow> q = 3)"
  proof cases
    case 1
    then show ?thesis using r by simp
  next
    case 2
    have "k * 3 \<le> k * (r div k)" by (rule mult_left_mono) (use 2 assms(1) in simp_all)
    then have "k * 3 \<le> r" using r(1) by linarith
    then show ?thesis using 2(1) assms(3) by simp
  qed
  then show "0 \<le> r - k * q" "r - k * q \<le> k" "r - k * q = k \<Longrightarrow> q = 3" by simp_all
qed

lemma year_of_day_spec:
  assumes "year_of_day d = (y, yd)"
  shows "days_before_year y - 719162 + yd = d" "0 \<le> yd" "yd < (if is_leap y then 366 else 365)"
proof -
  define n where "n = d + 719162"
  define a where "a = n div 146097"
  define r where "r = n mod 146097"
  define b where "b = min 3 (r div 36524)"
  define r1 where "r1 = r - 36524 * b"
  define c where "c = r1 div 1461"
  define r2 where "r2 = r1 mod 1461"
  define e where "e = min 3 (r2 div 365)"
  have "(y, yd) = (400 * a + 100 * b + 4 * c + e + 1, r2 - 365 * e)"
    using assms unfolding year_of_day_def Let_def n_def a_def r_def b_def r1_def c_def r2_def e_def by (rule sym)
  then have y: "y = 400 * a + 100 * b + 4 * c + e + 1" "yd = r2 - 365 * e" by simp_all
  have n: "n = 146097 * a + r" "0 \<le> r" "r < 146097" unfolding a_def r_def by (rule mult_div_mod_eq [symmetric]) simp_all
  have b: "0 \<le> b" "b \<le> 3" "0 \<le> r1" "r1 \<le> 36524" "r1 = 36524 \<Longrightarrow> b = 3"
    unfolding b_def r1_def by (rule capped_div; use n(2,3) in simp)+
  have r1: "r1 = 1461 * c + r2" "0 \<le> r2" "r2 < 1461" by (simp_all add: c_def r2_def)
  have c: "0 \<le> c" "c \<le> 24" using b r1 by linarith+
  have e: "0 \<le> e" "e \<le> 3" "0 \<le> yd" "yd \<le> 365" "yd = 365 \<Longrightarrow> e = 3"
    unfolding e_def y by (rule capped_div; use r1(2,3) in simp)+
  have q: "(y - 1) div 4 = 100 * a + 25 * b + c" "(y - 1) div 100 = 4 * a + b" "(y - 1) div 400 = a"
  proof -
    show "(y - 1) div 4 = 100 * a + 25 * b + c"
      by (rule int_div_pos_eq [where r = e]) (use y(1) e(1,2) in simp)+
    show "(y - 1) div 100 = 4 * a + b"
      by (rule int_div_pos_eq [where r = "4 * c + e"]) (use y(1) c e(1,2) in simp)+
    show "(y - 1) div 400 = a"
      by (rule int_div_pos_eq [where r = "100 * b + 4 * c + e"]) (use y(1) b(1,2) c e(1,2) in simp)+
  qed
  show "days_before_year y - 719162 + yd = d"
    using n(1) r1(1) unfolding days_before_year_def q by (simp add: y r1_def n_def)
  show "0 \<le> yd" by (rule e(3))
  have "is_leap y" if "yd = 365"
  proof -
    have "e = 3" using e(5) that .
    then have r2: "r2 = 1460" using that y by simp
    show ?thesis
    proof (cases "c = 24")
      case True
      then have "b = 3" using b r1 r2 by simp
      then show ?thesis using True \<open>e = 3\<close> y by (simp add: is_leap_def)
    next
      case False
      have "y = 4 * (100 * a + 25 * b + c + 1)" using y \<open>e = 3\<close> by simp
      moreover have "y mod 100 = 4 * (c + 1)"
        by (rule int_mod_pos_eq [where q = "4 * a + b"]) (use y \<open>e = 3\<close> c False in simp_all)
      ultimately show ?thesis using c False by (simp add: is_leap_def)
    qed
  qed
  then show "yd < (if is_leap y then 366 else 365)" using e(4) by (cases "yd = 365") auto
qed

lemma days_before_year_mono: "y \<le> z \<Longrightarrow> days_before_year y \<le> days_before_year z"
proof (induction z rule: int_ge_induct)
  case (step z)
  then show ?case by (simp add: days_before_next_year)
qed simp

lemma year_of_day_unique:
  assumes "0 \<le> yd" "yd < (if is_leap y then 366 else 365)"
  shows "year_of_day (days_before_year y - 719162 + yd) = (y, yd)"
proof -
  obtain z zd where z: "year_of_day (days_before_year y - 719162 + yd) = (z, zd)" by fastforce
  note spec = year_of_day_spec [OF z]
  have "z = y"
  proof (rule ccontr)
    assume "z \<noteq> y"
    then have "z + 1 \<le> y \<or> y + 1 \<le> z" by linarith
    then show False
      using days_before_year_mono [of "z + 1" y] days_before_year_mono [of "y + 1" z] spec assms
      unfolding days_before_next_year by linarith
  qed
  then show ?thesis using z spec(1) by simp
qed

section \<open>Months\<close>

lemma month_cases:
  fixes m :: int
  assumes "0 \<le> m" "m < 12"
  shows "m = 0 \<or> m = 1 \<or> m = 2 \<or> m = 3 \<or> m = 4 \<or> m = 5 \<or> m = 6 \<or> m = 7 \<or> m = 8 \<or> m = 9 \<or> m = 10 \<or> m = 11"
  using assms by presburger

lemma month_of_date:
  assumes "0 \<le> m" "m < 12" "1 \<le> d" "d \<le> days_in_month y (m + 1)"
  shows "month_of_day (is_leap y) (month_start (is_leap y) m + d - 1) = m"
    and "0 \<le> month_start (is_leap y) m + d - 1"
    and "month_start (is_leap y) m + d - 1 < (if is_leap y then 366 else 365)"
proof -
  have "month_of_day l (month_start l m + d - 1) = m \<and> 0 \<le> month_start l m + d - 1 \<and>
      month_start l m + d - 1 < (if l then 366 else 365)" if "l = is_leap y" for l
    using month_cases [OF assms(1,2)] assms(3,4) unfolding days_in_month_def that [symmetric]
    by (cases l; elim disjE; simp add: month_of_day_def month_start_def month_starts_def month_days_def)
  then show "month_of_day (is_leap y) (month_start (is_leap y) m + d - 1) = m"
    "0 \<le> month_start (is_leap y) m + d - 1"
    "month_start (is_leap y) m + d - 1 < (if is_leap y then 366 else 365)" by blast+
qed

lemma date_of_month:
  assumes "0 \<le> yd" "yd < (if is_leap y then 366 else 365)"
  defines "m \<equiv> month_of_day (is_leap y) yd"
  shows "0 \<le> m" "m < 12" "1 \<le> yd - month_start (is_leap y) m + 1"
    and "yd - month_start (is_leap y) m + 1 \<le> days_in_month y (m + 1)"
  using assms(1,2) unfolding m_def
  by (auto simp: month_of_day_def month_start_def month_starts_def days_in_month_def month_days_def split: if_splits)

section \<open>Seconds and broken-down times\<close>

definition valid_tm :: "std_tm \<Rightarrow> bool" where
  "valid_tm tm \<longleftrightarrow>
     - int_max - 1 \<le> tm_year tm \<and> tm_year tm \<le> int_max \<and> 0 \<le> tm_mon tm \<and> tm_mon tm < 12 \<and>
     1 \<le> tm_mday tm \<and> tm_mday tm \<le> days_in_month (tm_year tm + 1900) (tm_mon tm + 1) \<and>
     0 \<le> tm_hour tm \<and> tm_hour tm < 24 \<and> 0 \<le> tm_min tm \<and> tm_min tm < 60 \<and> 0 \<le> tm_sec tm \<and> tm_sec tm < 60"

lemma clock_split:
  fixes d h m s :: int
  assumes "0 \<le> h" "h < 24" "0 \<le> m" "m < 60" "0 \<le> s" "s < 60"
  defines "t \<equiv> ((d * 24 + h) * 60 + m) * 60 + s"
  shows "t div 86400 = d" "t mod 86400 div 3600 = h" "t mod 86400 mod 3600 div 60 = m" "t mod 86400 mod 60 = s"
proof -
  have t: "t = 86400 * d + (3600 * h + 60 * m + s)" by (simp add: t_def)
  have r: "t mod 86400 = 3600 * h + 60 * m + s"
    by (rule int_mod_pos_eq [OF t]) (use assms in simp_all)
  show "t div 86400 = d" by (rule int_div_pos_eq [OF t]) (use assms in simp_all)
  show "t mod 86400 div 3600 = h" unfolding r
    by (rule int_div_pos_eq [where r = "60 * m + s"]) (use assms in simp_all)
  have "(3600 * h + 60 * m + s) mod 3600 = 60 * m + s"
    by (rule int_mod_pos_eq [where q = h]) (use assms in simp_all)
  then show "t mod 86400 mod 3600 div 60 = m" unfolding r
    by (simp only:) (rule int_div_pos_eq [where r = s]; use assms in simp)
  show "t mod 86400 mod 60 = s" unfolding r
    by (rule int_mod_pos_eq [where q = "60 * h + m"]) (use assms in simp_all)
qed

lemma gmtime_timegm:
  assumes "valid_tm tm"
  shows "gmtime (timegm tm) = Some (tm\<lparr>
    tm_wday := (days_from_civil (tm_year tm + 1900) (tm_mon tm) (tm_mday tm) + 4) mod 7,
    tm_yday := month_start (is_leap (tm_year tm + 1900)) (tm_mon tm) + tm_mday tm - 1, tm_isdst := 0\<rparr>)"
proof -
  let ?y = "tm_year tm + 1900" and ?m = "tm_mon tm" and ?d = "tm_mday tm"
  let ?yd = "month_start (is_leap ?y) ?m + ?d - 1"
  have v: "0 \<le> ?m" "?m < 12" "1 \<le> ?d" "?d \<le> days_in_month ?y (?m + 1)"
    using assms by (simp_all add: valid_tm_def)
  note date = month_of_date [OF v]
  have days: "days_from_civil ?y ?m ?d = days_before_year ?y - 719162 + ?yd"
    by (simp add: days_from_civil_def)
  have "timegm tm = ((days_from_civil ?y ?m ?d * 24 + tm_hour tm) * 60 + tm_min tm) * 60 + tm_sec tm"
    using v by (simp add: timegm_def)
  moreover have "0 \<le> tm_hour tm" "tm_hour tm < 24" "0 \<le> tm_min tm" "tm_min tm < 60" "0 \<le> tm_sec tm" "tm_sec tm < 60"
    using assms by (simp_all add: valid_tm_def)
  ultimately have c: "timegm tm div 86400 = days_from_civil ?y ?m ?d" "timegm tm mod 86400 div 3600 = tm_hour tm"
    "timegm tm mod 86400 mod 3600 div 60 = tm_min tm" "timegm tm mod 86400 mod 60 = tm_sec tm"
    by (simp_all only: clock_split)
  have y: "year_of_day (days_from_civil ?y ?m ?d) = (?y, ?yd)"
    unfolding days by (rule year_of_day_unique [OF date(2,3)])
  show ?thesis using assms unfolding gmtime_def Let_def c y prod.case date(1)
    by (simp add: valid_tm_def)
qed

lemma quotient_bound:
  fixes x k n :: int
  assumes "0 \<le> x" "x < k * n" "0 < k"
  shows "0 \<le> x div k" "x div k < n"
proof -
  show "0 \<le> x div k" using assms(1,3) by (simp add: pos_imp_zdiv_nonneg_iff)
  have "k * (x div k) \<le> x" using assms(1,3) mult_div_mod_eq [of k x] pos_mod_sign [of k x] by linarith
  then have "k * (x div k) < k * n" using assms(2) by linarith
  then show "x div k < n" using assms(3) by simp
qed

lemma timegm_gmtime:
  assumes "gmtime t = Some tm"
  shows "timegm tm = t" "valid_tm tm"
proof -
  obtain y yd where y: "year_of_day (t div 86400) = (y, yd)" by fastforce
  note spec = year_of_day_spec [OF y]
  let ?m = "month_of_day (is_leap y) yd"
  note date = date_of_month [OF spec(2,3)]
  have r: "0 \<le> t mod 86400" "t mod 86400 < 86400" by simp_all
  have tm: "tm = \<lparr>tm_year = y - 1900, tm_mon = ?m, tm_mday = yd - month_start (is_leap y) ?m + 1,
      tm_hour = t mod 86400 div 3600, tm_min = t mod 86400 mod 3600 div 60, tm_sec = t mod 86400 mod 60,
      tm_wday = (t div 86400 + 4) mod 7, tm_yday = yd, tm_isdst = 0\<rparr>"
    and y_range: "\<not> (y - 1900 < - int_max - 1 \<or> y - 1900 > int_max)"
    using assms unfolding gmtime_def Let_def y prod.case by (simp_all split: if_splits)
  have dd: "days_from_civil y ?m (yd - month_start (is_leap y) ?m + 1) = t div 86400"
    using spec(1) by (simp add: days_from_civil_def)
  have mm: "y - 1900 + 1900 + ?m div 12 = y" "?m mod 12 = ?m" using date(1,2) by simp_all
  have c: "((d * 24 + h) * 60 + m) * 60 + w = d * 86400 + r" if "r = 3600 * h + u" "u = 60 * m + w" for d r h u m w :: int
    using that by simp
  have "t mod 86400 mod 60 = t mod 86400 mod 3600 mod 60" by (simp add: mod_mod_cancel)
  then have "timegm tm = t div 86400 * 86400 + t mod 86400" unfolding tm timegm_def std_tm.select_convs mm dd
    by (intro c [where u = "t mod 86400 mod 3600"]) (simp_all only: mult_div_mod_eq)
  then show "timegm tm = t" by (simp only: div_mult_mod_eq)
  have "t mod 86400 < 3600 * 24" by simp
  note hours = quotient_bound [OF r(1) this, simplified]
  have "0 \<le> t mod 86400 mod 3600" "t mod 86400 mod 3600 < 60 * 60" by simp_all
  note minutes = quotient_bound [OF this, simplified]
  have years: "- int_max - 1 \<le> y - 1900" "y - 1900 \<le> int_max" using y_range by linarith+
  have "yd - month_start (is_leap y) ?m + 1 \<le> days_in_month (y - 1900 + 1900) (?m + 1)" using date(4) by simp
  then show "valid_tm tm" unfolding tm valid_tm_def std_tm.select_convs
    by (intro conjI years date(1-3) hours minutes) simp_all
qed

section \<open>The wrappers\<close>

datatype time_zone_mode = utc | local_time

text \<open>The conversions of the local time zone; \<open>mktime\<close> returns -1 on an error.\<close>

record local_zone =
  zone_mktime :: "std_tm \<Rightarrow> int"
  zone_localtime :: "int \<Rightarrow> std_tm option"

definition tm_to_time_utc :: "std_tm \<Rightarrow> int option" where
  "tm_to_time_utc tm = (let t = timegm tm in if t = - 1 then None else Some t)"

definition tm_to_time_local :: "local_zone \<Rightarrow> std_tm \<Rightarrow> int option" where
  "tm_to_time_local zone tm = (let t = zone_mktime zone tm in if t = - 1 then None else Some t)"

definition time_t_to_utc_tm :: "int \<Rightarrow> std_tm option" where
  "time_t_to_utc_tm t = gmtime t"

definition time_t_to_local_tm :: "local_zone \<Rightarrow> int \<Rightarrow> std_tm option" where
  "time_t_to_local_tm zone t = zone_localtime zone t"

text \<open>\<open>system_clock::from_time_t\<close> and \<open>to_time_t\<close>: the first multiplies in 64 bits, the second divides
  towards zero.\<close>

definition in_int64 :: "int \<Rightarrow> bool" where
  "in_int64 n \<longleftrightarrow> - (2 ^ 63) \<le> n \<and> n < 2 ^ 63"

definition ns_time_point :: "int \<Rightarrow> int \<Rightarrow> int option" where
  "ns_time_point n unit_ns = (if in_int64 (n * unit_ns) then Some (n * unit_ns) else None)"

definition from_time_t :: "int \<Rightarrow> int option" where
  "from_time_t t = ns_time_point t 1000000000"

definition trunc_div :: "int \<Rightarrow> int \<Rightarrow> int" where
  "trunc_div a b = (if a < 0 then - ((- a) div b) else a div b)"

definition to_time_t :: "int \<Rightarrow> int" where
  "to_time_t tp = trunc_div tp 1000000000"

definition to_tm :: "local_zone \<Rightarrow> int \<Rightarrow> time_zone_mode \<Rightarrow> std_tm option" where
  "to_tm zone tp tzmode =
     (let t = to_time_t tp in
      if tzmode = utc then time_t_to_utc_tm t else time_t_to_local_tm zone t)"

definition get_utc_tm :: "int \<Rightarrow> std_tm option" where
  "get_utc_tm tp = time_t_to_utc_tm (to_time_t tp)"

definition get_local_tm :: "local_zone \<Rightarrow> int \<Rightarrow> std_tm option" where
  "get_local_tm zone tp = time_t_to_local_tm zone (to_time_t tp)"

text \<open>A failed conversion gives the epoch.\<close>

definition to_timepoint :: "local_zone \<Rightarrow> std_tm \<Rightarrow> time_zone_mode \<Rightarrow> int option" where
  "to_timepoint zone tm tzmode =
     (case (if tzmode = utc then tm_to_time_utc tm else tm_to_time_local zone tm) of
        None \<Rightarrow> Some 0
      | Some t \<Rightarrow> from_time_t t)"

text \<open>\<open>now\<close> is what \<open>std::time\<close> returns; dereferencing the null pointer of a failed \<open>gmtime\<close> is \<open>None\<close>.\<close>

definition now_in_zone :: "local_zone \<Rightarrow> int \<Rightarrow> time_zone_mode \<Rightarrow> std_tm option" where
  "now_in_zone zone now tz = (if tz = utc then gmtime now else zone_localtime zone now)"

definition today_in_fixed_offset_seconds :: "int \<Rightarrow> int \<Rightarrow> std_tm option" where
  "today_in_fixed_offset_seconds now offset_sec = gmtime (now + offset_sec)"

lemma to_time_t_from: "from_time_t t = Some tp \<Longrightarrow> to_time_t tp = t"
  by (cases "t < 0") (auto simp: from_time_t_def ns_time_point_def to_time_t_def trunc_div_def split: if_splits)

lemma timepoint_roundtrip:
  "from_time_t t = Some tp \<Longrightarrow> to_tm zone tp utc = Some tm \<Longrightarrow> t \<noteq> - 1 \<Longrightarrow> to_timepoint zone tm utc = Some tp"
  using timegm_gmtime [of t tm] to_time_t_from [of t tp]
  by (simp add: to_tm_def to_timepoint_def time_t_to_utc_tm_def tm_to_time_utc_def)

text \<open>Seconds and calendar fields in UTC correspond one to one: the fields of a time are valid and
  converting them back gives the time, except for the second before 1970, which the wrapper takes for
  an error; and valid fields come back from their seconds with the week day and the day of the year
  filled in.\<close>

theorem utc_fields_bijection:
  "(case time_t_to_utc_tm t of
      None \<Rightarrow> True
    | Some f \<Rightarrow> valid_tm f \<and> tm_to_time_utc f = (if t = - 1 then None else Some t)) \<and>
   (if valid_tm tm
    then (case time_t_to_utc_tm (timegm tm) of
        None \<Rightarrow> False
      | Some f \<Rightarrow> f = tm\<lparr>tm_wday := tm_wday f,
          tm_yday := month_start (is_leap (tm_year tm + 1900)) (tm_mon tm) + tm_mday tm - 1, tm_isdst := 0\<rparr>)
    else True)"
  using timegm_gmtime [of t] gmtime_timegm [of tm]
  by (cases "gmtime t") (simp_all add: time_t_to_utc_tm_def tm_to_time_utc_def)

end
