(* ===== verification/Xml_Path.thy ===== *)
theory Xml_Path
  imports Xml_Print Calendar
begin

text \<open>
  Access to a tree by path in \<open>src/xml/xml_parser.cpp\<close>: the XPath subset, the getters, the
  validator of required paths, the detection of the encoding and the entry points on files. A
  pointer to a node is the node itself and the null pointer is \<open>None\<close>; the exceptions of the path
  parser are \<open>Inl\<close>. The conversions of the operating system, \<open>strtod\<close> and \<open>mktime\<close> are parameters.

  The breadth-first selection is shown to be the descent in document order, and an attribute of the
  root is read back by its path.
\<close>

section \<open>Steps\<close>

record xpath_step =
  step_name :: string
  step_attr_name :: string
  step_attr_value :: string

datatype xpath_error = Bracket_open | Unsupported_condition string | Condition_without_equals string
  | Condition_without_quote string | Condition_not_closed string

definition parse_xpath_step :: "string \<Rightarrow> xpath_error + xpath_step" where
  "parse_xpath_step step_str =
     (case find_in [CHR ''[''] step_str of
        None \<Rightarrow> Inr \<lparr>step_name = step_str, step_attr_name = [], step_attr_value = []\<rparr>
      | Some lb \<Rightarrow>
          (case find_from step_str [CHR '']''] lb of
             None \<Rightarrow> Inl Bracket_open
           | Some rb \<Rightarrow>
               let cond = filter (\<lambda>c. \<not> isspace c) (take (rb - lb - 1) (drop (lb + 1) step_str)) in
               if length cond < 5 \<or> cond ! 0 \<noteq> CHR ''@'' then Inl (Unsupported_condition cond)
               else (case find_in [CHR ''=''] cond of
                   None \<Rightarrow> Inl (Condition_without_equals cond)
                 | Some eq_pos \<Rightarrow>
                     let quote = (if eq_pos + 1 < length cond then cond ! (eq_pos + 1) else CHR 0x00) in
                     if quote \<noteq> quot \<and> quote \<noteq> CHR 0x27 then Inl (Condition_without_quote cond)
                     else (case find_from cond [quote] (eq_pos + 2) of
                         None \<Rightarrow> Inl (Condition_not_closed cond)
                       | Some q2 \<Rightarrow>
                           Inr \<lparr>step_name = take lb step_str,
                                step_attr_name = take (eq_pos - 1) (drop 1 cond),
                                step_attr_value = take (q2 - (eq_pos + 2)) (drop (eq_pos + 2) cond)\<rparr>))))"

fun parse_xpath_loop :: "string \<Rightarrow> xpath_step list \<Rightarrow> string \<Rightarrow> xpath_error + xpath_step list" where
  "parse_xpath_loop tmp steps [] =
     (if tmp \<noteq> [] then map_sum id (\<lambda>s. steps @ [s]) (parse_xpath_step tmp) else Inr steps)"
| "parse_xpath_loop tmp steps (ch # expr) =
     (if ch = CHR ''/'' then
        (if tmp \<noteq> []
         then (case parse_xpath_step tmp of
             Inl e \<Rightarrow> Inl e
           | Inr s \<Rightarrow> parse_xpath_loop [] (steps @ [s]) expr)
         else parse_xpath_loop tmp steps expr)
      else parse_xpath_loop (tmp @ [ch]) steps expr)"

definition parse_xpath :: "string \<Rightarrow> xpath_error + xpath_step list" where
  "parse_xpath expr = parse_xpath_loop [] [] expr"

definition matches_step :: "xpath_step \<Rightarrow> xml_node \<Rightarrow> bool" where
  "matches_step step child \<longleftrightarrow>
     node_name child = step_name step \<and>
     (step_attr_name step = [] \<or>
      (case find_attribute child (step_attr_name step) of
         None \<Rightarrow> False | Some a \<Rightarrow> attr_value a = step_attr_value step))"

definition match_step_in_children :: "xml_node \<Rightarrow> xpath_step \<Rightarrow> xml_node list" where
  "match_step_in_children parent step = filter (matches_step step) (node_children parent)"

definition strip_slashes :: "string \<Rightarrow> string" where
  "strip_slashes s = dropWhile (\<lambda>c. c = CHR ''/'') s"

fun select_loop :: "xpath_step list \<Rightarrow> xml_node list \<Rightarrow> xml_node list" where
  "select_loop [] current = current"
| "select_loop (step # steps) current =
     (let next_nodes = concat (map (\<lambda>n. match_step_in_children n step) current)
      in if next_nodes = [] then [] else select_loop steps next_nodes)"

definition xpath_select :: "xml_node \<Rightarrow> string \<Rightarrow> xpath_error + xml_node list" where
  "xpath_select root expr =
     (let trimmed = strip_slashes (trim_spaces expr) in
      if trimmed = [] then Inr [root]
      else case parse_xpath trimmed of
        Inl e \<Rightarrow> Inl e
      | Inr steps \<Rightarrow>
          let start_index = (if steps \<noteq> [] \<and> step_name (hd steps) = node_name root then 1 else 0)
          in Inr (select_loop (drop start_index steps) [root]))"

section \<open>Getters\<close>

text \<open>The path in front of the last slash and the part behind it.\<close>

definition split_path :: "string \<Rightarrow> string \<times> string" where
  "split_path path =
     (case rfind_in [CHR ''/''] path of
        None \<Rightarrow> ([], path)
      | Some p \<Rightarrow> (take p path, drop (p + 1) path))"

definition get_attr_value_by_path :: "xml_node option \<Rightarrow> string \<Rightarrow> xpath_error + string" where
  "get_attr_value_by_path root full_path =
     (case root of
        None \<Rightarrow> Inr []
      | Some n \<Rightarrow>
          let path = strip_slashes (trim_spaces full_path) in
          if path = [] then Inr []
          else
            let (node_path, part) = split_path path; attr_part = trim_spaces part in
            if attr_part = [] \<or> hd attr_part \<noteq> CHR ''@'' then Inr []
            else let name = drop 1 attr_part in
              if name = [] then Inr []
              else (case (if node_path = [] then Inr [n] else xpath_select n node_path) of
                  Inl e \<Rightarrow> Inl e
                | Inr [] \<Rightarrow> Inr []
                | Inr (target # _) \<Rightarrow>
                    (case find_attribute target name of None \<Rightarrow> Inr [] | Some a \<Rightarrow> Inr (attr_value a))))"

definition is_attr_path :: "string \<Rightarrow> bool" where
  "is_attr_path path =
     (let trimmed = trim_spaces path in
      if trimmed = [] then False
      else let tmp = strip_slashes trimmed in
        if tmp = [] then False
        else let last_part = trim_spaces (snd (split_path tmp))
          in last_part \<noteq> [] \<and> hd last_part = CHR ''@'')"

definition get_text_by_path :: "xml_node option \<Rightarrow> string \<Rightarrow> xpath_error + string" where
  "get_text_by_path root path =
     (case root of
        None \<Rightarrow> Inr []
      | Some n \<Rightarrow>
          if is_attr_path path then get_attr_value_by_path root path
          else map_sum id (\<lambda>nodes. case nodes of [] \<Rightarrow> [] | m # _ \<Rightarrow> node_text m) (xpath_select n path))"

definition get_text_opt_by_path :: "xml_node option \<Rightarrow> string \<Rightarrow> xpath_error + string option" where
  "get_text_opt_by_path root path =
     (case root of
        None \<Rightarrow> Inr None
      | Some n \<Rightarrow> map_sum id (\<lambda>v. if v = [] then None else Some v) (get_text_by_path root path))"

definition text_bool :: "string \<Rightarrow> bool option" where
  "text_bool s =
     (let lower = map tolower s in
      if lower = ''true'' \<or> lower = ''1'' \<or> lower = ''yes'' \<or> lower = ''on'' then Some True
      else if lower = ''false'' \<or> lower = ''0'' \<or> lower = ''no'' \<or> lower = ''off'' then Some False
      else None)"

definition get_attr_int_by_path :: "xml_node option \<Rightarrow> string \<Rightarrow> xpath_error + int option" where
  "get_attr_int_by_path root path =
     map_sum id (\<lambda>v. if v = [] then None else sto_signed 32 v) (get_attr_value_by_path root path)"

definition get_attr_bool_by_path :: "xml_node option \<Rightarrow> string \<Rightarrow> xpath_error + bool option" where
  "get_attr_bool_by_path root path =
     map_sum id (\<lambda>v. if v = [] then None else text_bool v) (get_attr_value_by_path root path)"

definition get_int_by_path :: "xml_node option \<Rightarrow> string \<Rightarrow> xpath_error + int option" where
  "get_int_by_path root path = map_sum id (\<lambda>t. Option.bind t (sto_signed 32)) (get_text_opt_by_path root path)"

definition get_bool_by_path :: "xml_node option \<Rightarrow> string \<Rightarrow> xpath_error + bool option" where
  "get_bool_by_path root path = map_sum id (\<lambda>t. Option.bind t text_bool) (get_text_opt_by_path root path)"

definition get_double_by_path :: "(string \<Rightarrow> 'd option) \<Rightarrow> xml_node option \<Rightarrow> string \<Rightarrow> xpath_error + 'd option" where
  "get_double_by_path stod root path = map_sum id (\<lambda>t. Option.bind t stod) (get_text_opt_by_path root path)"

section \<open>Dates\<close>

text \<open>A time point is its number of nanoseconds since the epoch, in 64 bits; \<open>None\<close> as the outer result
  is the undefined overflow of the conversion to nanoseconds. \<open>mktime\<close>, which depends on the time
  zone of the machine, is a parameter: \<open>None\<close> is its error.\<close>

definition to_time_point :: "int \<Rightarrow> int \<Rightarrow> int option option" where
  "to_time_point n unit_ns = map_option Some (ns_time_point n unit_ns)"

definition int_at :: "string \<Rightarrow> nat \<Rightarrow> nat \<Rightarrow> int option" where
  "int_at s pos n = sto_signed 32 (take n (drop pos s))"

text \<open>The nanoseconds behind a decimal point: at most nine digits, filled up with zeros.\<close>

definition fraction_ns :: "string \<Rightarrow> int" where
  "fraction_ns s =
     (let frac = take 9 (takeWhile isdigit s)
      in int (digits_value 10 frac) * 10 ^ (9 - length frac))"

definition parse_iso8601_datetime :: "(std_tm \<Rightarrow> int option) \<Rightarrow> string \<Rightarrow> int option option" where
  "parse_iso8601_datetime mktime txt =
     (let s = trim_spaces txt in
      if s = [] \<or> length s < 10 then Some None
      else if s ! 4 \<noteq> CHR ''-'' \<or> s ! 7 \<noteq> CHR ''-'' then Some None
      else case (int_at s 0 4, int_at s 5 2, int_at s 8 2) of
        (Some year, Some month, Some day) \<Rightarrow>
          let tm = zero_tm\<lparr>tm_year := year - 1900, tm_mon := month - 1, tm_mday := day, tm_hour := 0, tm_min := 0, tm_sec := 0\<rparr> in
          if length s \<le> 10 then
            (case mktime tm of None \<Rightarrow> Some None | Some tt \<Rightarrow> to_time_point tt 1000000000)
          else if s ! 10 \<noteq> CHR ''T'' \<and> s ! 10 \<noteq> CHR ''t'' \<and> s ! 10 \<noteq> CHR '' '' then Some None
          else if 19 > length s then Some None
          else if s ! 13 \<noteq> CHR '':'' \<or> s ! 16 \<noteq> CHR '':'' then Some None
          else (case (int_at s 11 2, int_at s 14 2, int_at s 17 2) of
              (Some hour, Some mins, Some sec) \<Rightarrow>
                let tm' = tm\<lparr>tm_hour := hour, tm_min := mins, tm_sec := sec\<rparr>;
                    frac = (if 19 < length s \<and> s ! 19 = CHR ''.'' then fraction_ns (drop 20 s) else 0)
                in (case mktime tm' of
                    None \<Rightarrow> Some None
                  | Some tt \<Rightarrow>
                      Option.bind (to_time_point tt 1000000000)
                        (\<lambda>r. case r of None \<Rightarrow> Some None | Some base \<Rightarrow> to_time_point (base + frac) 1))
            | _ \<Rightarrow> Some None)
      | _ \<Rightarrow> Some None)"

definition parse_unix_epoch_seconds :: "string \<Rightarrow> int option option" where
  "parse_unix_epoch_seconds txt =
     (let s = trim_spaces txt in
      if s = [] then Some None
      else case sto_signed 64 s of None \<Rightarrow> Some None | Some sec \<Rightarrow> to_time_point sec 1000000000)"

definition parse_unix_epoch_millis :: "string \<Rightarrow> int option option" where
  "parse_unix_epoch_millis txt =
     (let s = trim_spaces txt in
      if s = [] then Some None
      else case sto_signed 64 s of None \<Rightarrow> Some None | Some ms \<Rightarrow> to_time_point ms 1000000)"

definition datetime_by_path ::
  "(string \<Rightarrow> int option option) \<Rightarrow> xml_node option \<Rightarrow> string \<Rightarrow> xpath_error + int option option" where
  "datetime_by_path parse root path =
     map_sum id (\<lambda>t. case t of None \<Rightarrow> Some None | Some s \<Rightarrow> parse s) (get_text_opt_by_path root path)"

definition get_datetime_by_path ::
  "(std_tm \<Rightarrow> int option) \<Rightarrow> xml_node option \<Rightarrow> string \<Rightarrow> xpath_error + int option option" where
  "get_datetime_by_path mktime = datetime_by_path (parse_iso8601_datetime mktime)"

definition get_datetime_from_epoch_sec_by_path ::
  "xml_node option \<Rightarrow> string \<Rightarrow> xpath_error + int option option" where
  "get_datetime_from_epoch_sec_by_path = datetime_by_path parse_unix_epoch_seconds"

definition get_datetime_from_epoch_millis_by_path ::
  "xml_node option \<Rightarrow> string \<Rightarrow> xpath_error + int option option" where
  "get_datetime_from_epoch_millis_by_path = datetime_by_path parse_unix_epoch_millis"

section \<open>Required paths\<close>

datatype path_problem = Path_missing string | Path_malformed string | Attribute_missing string

definition check_path :: "xml_node \<Rightarrow> string \<Rightarrow> xpath_error + path_problem option" where
  "check_path root path =
     (if is_attr_path path then
        let full = strip_slashes (trim_spaces path) in
        if full = [] then Inr (Some (Path_missing path))
        else
          let (node_path, part) = split_path full; attr_part = trim_spaces part in
          if attr_part = [] \<or> hd attr_part \<noteq> CHR ''@'' then Inr (Some (Path_malformed path))
          else let name = drop 1 attr_part in
            if name = [] then Inr (Some (Path_malformed path))
            else (case (if node_path = [] then Inr [root] else xpath_select root node_path) of
                Inl e \<Rightarrow> Inl e
              | Inr [] \<Rightarrow> Inr (Some (Path_missing path))
              | Inr (target # _) \<Rightarrow>
                  Inr (if find_attribute target name = None then Some (Attribute_missing path) else None))
      else map_sum id (\<lambda>nodes. if nodes = [] then Some (Path_missing path) else None) (xpath_select root path))"

fun validate :: "string list \<Rightarrow> xml_node \<Rightarrow> xpath_error + path_problem option" where
  "validate [] root = Inr None"
| "validate (path # paths) root =
     (case check_path root path of
        Inl e \<Rightarrow> Inl e
      | Inr (Some problem) \<Rightarrow> Inr (Some problem)
      | Inr None \<Rightarrow> validate paths root)"

section \<open>Encodings and files\<close>

definition find_first_of :: "string \<Rightarrow> string \<Rightarrow> nat \<Rightarrow> nat option" where
  "find_first_of s chars pos =
     (let k = length (takeWhile (\<lambda>c. c \<notin> set chars) (drop pos s))
      in if pos + k < length s then Some (pos + k) else None)"

definition utf8_name :: string where
  "utf8_name = ''UTF-8''"

definition detect_xml_encoding :: "string \<Rightarrow> string" where
  "detect_xml_encoding raw_xml =
     (case find_in ''<?xml'' raw_xml of
        None \<Rightarrow> utf8_name
      | Some pos \<Rightarrow>
          let end_pos = (case find_from raw_xml ''?>'' pos of Some e \<Rightarrow> e | None \<Rightarrow> min (length raw_xml) (pos + 256));
              decl = take (end_pos - pos) (drop pos raw_xml)
          in (case find_in ''encoding'' decl of
                None \<Rightarrow> utf8_name
              | Some enc_pos \<Rightarrow>
                  (case find_from decl [CHR ''=''] enc_pos of
                    None \<Rightarrow> utf8_name
                  | Some eq_pos \<Rightarrow>
                      (case find_first_of decl [quot, CHR 0x27] (eq_pos + 1) of
                        None \<Rightarrow> utf8_name
                      | Some q_pos \<Rightarrow>
                          (case find_from decl [decl ! q_pos] (q_pos + 1) of
                            None \<Rightarrow> utf8_name
                          | Some enc_end \<Rightarrow>
                              map toupper (take (enc_end - (q_pos + 1)) (drop (q_pos + 1) decl)))))))"

text \<open>\<open>iconv name input\<close> is the conversion of the C library, \<open>Inl\<close> its failure.\<close>

definition convert_text_encoding_to_utf8 ::
  "(string \<Rightarrow> string \<Rightarrow> 'e + string) \<Rightarrow> string \<Rightarrow> string \<Rightarrow> 'e + string" where
  "convert_text_encoding_to_utf8 iconv input encoding =
     (let upper = map toupper encoding in
      if upper = ''UTF-8'' \<or> upper = ''UTF8'' then Inr input else iconv encoding input)"

definition convert_xml_to_utf8 :: "(string \<Rightarrow> string \<Rightarrow> 'e + string) \<Rightarrow> string \<Rightarrow> 'e + string" where
  "convert_xml_to_utf8 iconv raw_xml =
     (let encoding = detect_xml_encoding raw_xml; upper = map toupper encoding in
      if upper = ''UTF-8'' \<or> upper = ''UTF8'' then Inr raw_xml
      else convert_text_encoding_to_utf8 iconv raw_xml encoding)"

datatype 'e load_error = Not_found | Not_regular | Unreadable | Conversion 'e | Syntax xml_error

definition parse_with_auto_encoding ::
  "(string \<Rightarrow> string \<Rightarrow> 'e + string) \<Rightarrow> text_policy \<Rightarrow> string \<Rightarrow> 'e load_error + xml_node" where
  "parse_with_auto_encoding iconv policy raw_xml =
     (case convert_xml_to_utf8 iconv raw_xml of
        Inl e \<Rightarrow> Inl (Conversion e)
      | Inr utf8 \<Rightarrow> map_sum Syntax id (xml_parse policy utf8))"

text \<open>The file system answers whether the path exists and is a regular file; \<open>contents\<close> are the bytes
  that \<open>read_file_binary\<close> returns, \<open>None\<close> when the file cannot be opened.\<close>

definition parse_file ::
  "(string \<Rightarrow> string \<Rightarrow> 'e + string) \<Rightarrow> text_policy \<Rightarrow> bool \<Rightarrow> bool \<Rightarrow> string option \<Rightarrow> 'e load_error + xml_node" where
  "parse_file iconv policy exists is_regular contents =
     (if \<not> exists then Inl Not_found
      else if \<not> is_regular then Inl Not_regular
      else case contents of
        None \<Rightarrow> Inl Unreadable
      | Some raw_xml \<Rightarrow>
          (case convert_xml_to_utf8 iconv raw_xml of
             Inl e \<Rightarrow> Inl (Conversion e)
           | Inr utf8 \<Rightarrow> map_sum Syntax id (xml_parse policy utf8)))"

definition parse_file_with_auto_encoding ::
  "(string \<Rightarrow> string \<Rightarrow> 'e + string) \<Rightarrow> text_policy \<Rightarrow> string option \<Rightarrow> 'e load_error + xml_node" where
  "parse_file_with_auto_encoding iconv policy contents =
     (case contents of
        None \<Rightarrow> Inl Unreadable
      | Some raw_xml \<Rightarrow> parse_with_auto_encoding iconv policy raw_xml)"

section \<open>Selection is descent\<close>

fun descend :: "xpath_step list \<Rightarrow> xml_node \<Rightarrow> xml_node list" where
  "descend [] n = [n]"
| "descend (step # steps) n = concat (map (descend steps) (filter (matches_step step) (node_children n)))"

lemma descend_here: "concat (map (descend []) ns) = ns"
  by (induction ns) simp_all

lemma select_loop_descend: "select_loop steps current = concat (map (descend steps) current)"
proof (induction steps arbitrary: current)
  case Nil
  then show ?case by (induction current) simp_all
next
  case (Cons step steps)
  let ?next = "concat (map (\<lambda>n. match_step_in_children n step) current)"
  have e: "concat (map (descend (step # steps)) current) = concat (map (descend steps) ?next)"
    by (induction current) (simp_all add: match_step_in_children_def)
  show ?case
  proof (cases "?next = []")
    case True
    then show ?thesis unfolding e by (simp add: Let_def)
  next
    case False
    then show ?thesis unfolding e using Cons.IH [of ?next] by (simp add: Let_def del: concat_eq_Nil_conv)
  qed
qed

text \<open>C18: the selection, which keeps a list of all nodes reached so far, returns the nodes that a descent
  in document order finds by following the steps through the children, and \<open>root\<close> for an empty
  path; a first step with the name of the root stays at the root.\<close>

theorem xpath_select_descends:
  "xpath_select root expr =
   (let trimmed = strip_slashes (trim_spaces expr) in
    if trimmed = [] then Inr [root]
    else map_sum id
      (\<lambda>steps. descend (if steps \<noteq> [] \<and> step_name (hd steps) = node_name root then tl steps else steps) root)
      (parse_xpath trimmed))"
  by (cases "parse_xpath (strip_slashes (trim_spaces expr))")
    (auto simp: xpath_select_def Let_def select_loop_descend drop_Suc)

section \<open>Reading back\<close>

lemma trim_spaces_id: "s = [] \<or> \<not> isspace (hd s) \<and> \<not> isspace (last s) \<Longrightarrow> trim_spaces s = s"
  using trim_spaces_core [of s "[]"] trim_spaces_blank [of "[]"] by auto

lemma valid_name_chars:
  assumes "valid_name s"
  shows "s \<noteq> []" "\<not> isspace (hd s)" "\<not> isspace (last s)" "CHR ''/'' \<notin> set s" "CHR ''['' \<notin> set s" "hd s \<noteq> CHR ''@''"
    "hd s \<noteq> CHR ''/''"
proof -
  have c: "x \<in> set s \<Longrightarrow> \<not> isspace x \<and> x \<noteq> CHR ''/'' \<and> x \<noteq> CHR ''['' \<and> x \<noteq> CHR ''@''" for x
    using assms by (auto simp: valid_name_def list_all_iff is_name_char_def isalnum_def isdigit_def isupper_def
        islower_def isspace_def)
  show "s \<noteq> []" using assms by (simp add: valid_name_def)
  then show "\<not> isspace (hd s)" "\<not> isspace (last s)" "CHR ''/'' \<notin> set s" "CHR ''['' \<notin> set s" "hd s \<noteq> CHR ''@''"
      "hd s \<noteq> CHR ''/''"
    using c hd_in_set last_in_set by blast+
qed

lemma rfind_single_None: "c \<notin> set s \<Longrightarrow> rfind_in [c] s = None"
  by (induction s) auto

lemma find_single_None: "c \<notin> set s \<Longrightarrow> find_in [c] s = None"
  by (induction s) auto

lemma split_path_plain: "CHR ''/'' \<notin> set s \<Longrightarrow> split_path s = ([], s)"
  by (simp add: split_path_def rfind_single_None)

lemma parse_xpath_plain:
  assumes "CHR ''/'' \<notin> set s"
  shows "parse_xpath_loop tmp steps s =
    (if tmp @ s = [] then Inr steps else map_sum id (\<lambda>x. steps @ [x]) (parse_xpath_step (tmp @ s)))"
  using assms by (induction tmp steps s rule: parse_xpath_loop.induct) auto

lemma attribute_by_path:
  assumes "valid_name a"
  shows "get_attr_value_by_path (Some n) (''/@'' @ a) =
    Inr (case find_attribute n a of None \<Rightarrow> [] | Some x \<Rightarrow> attr_value x)"
proof -
  note a = valid_name_chars [OF assms]
  have "trim_spaces (''/@'' @ a) = ''/@'' @ a" "trim_spaces (CHR ''@'' # a) = CHR ''@'' # a"
    using a by (intro trim_spaces_id; simp add: isspace_def)+
  moreover have "split_path (CHR ''@'' # a) = ([], CHR ''@'' # a)" using a by (intro split_path_plain) simp
  ultimately show ?thesis using a(1)
    by (simp add: get_attr_value_by_path_def strip_slashes_def split: option.split)
qed

lemma text_by_path:
  assumes "valid_name c" "c \<noteq> node_name n"
  shows "get_text_by_path (Some n) c = Inr (case find_child n c of None \<Rightarrow> [] | Some m \<Rightarrow> node_text m)"
proof -
  note c = valid_name_chars [OF assms(1)]
  have t: "trim_spaces c = c" using c by (intro trim_spaces_id) simp
  have s: "strip_slashes c = c" using c(1,7) by (cases c) (simp_all add: strip_slashes_def)
  have "parse_xpath c = Inr [\<lparr>step_name = c, step_attr_name = [], step_attr_value = []\<rparr>]"
    using parse_xpath_plain [OF c(4), of "[]" "[]"] c(1,5)
    by (simp add: parse_xpath_def parse_xpath_step_def find_single_None)
  moreover have "matches_step \<lparr>step_name = c, step_attr_name = [], step_attr_value = []\<rparr> = (\<lambda>m. node_name m = c)"
    by (auto simp: matches_step_def fun_eq_iff)
  ultimately have "xpath_select n c = Inr (filter (\<lambda>m. node_name m = c) (node_children n))"
    using assms(2) c(1) by (simp add: xpath_select_def t s select_loop_descend descend_here Let_def del: select_loop.simps)
  moreover have "\<not> is_attr_path c" using c by (simp add: is_attr_path_def t s split_path_plain Let_def)
  moreover have "List.find P xs = (case filter P xs of [] \<Rightarrow> None | m # ms \<Rightarrow> Some m)" for P and xs :: "xml_node list"
    by (induction xs) auto
  ultimately show ?thesis by (auto simp: get_text_by_path_def find_child_def split: list.split)
qed

text \<open>Writing a tree and parsing it again, the path of an attribute of the root yields the value of
  that attribute, the name of a child the text of the first child with this name, and the validator
  reports the attribute exactly when it is missing.\<close>

theorem xml_read_back:
  assumes "printable n" "valid_name a" "valid_name c" "c \<noteq> node_name n"
  shows "\<exists>r. xml_parse trim_and_discard_empty (serialize_xml n decl) = Inr r \<and>
    get_attr_value_by_path (Some r) (''/@'' @ a) = Inr (case find_attribute n a of None \<Rightarrow> [] | Some x \<Rightarrow> attr_value x) \<and>
    get_text_by_path (Some r) c = Inr (case find_child n c of None \<Rightarrow> [] | Some m \<Rightarrow> node_text m) \<and>
    validate [''/@'' @ a] r = Inr (if find_attribute n a = None then Some (Attribute_missing (''/@'' @ a)) else None)"
proof -
  note a' = valid_name_chars [OF assms(2)]
  have "trim_spaces (''/@'' @ a) = ''/@'' @ a" "trim_spaces (CHR ''@'' # a) = CHR ''@'' # a"
    using a' by (intro trim_spaces_id; simp add: isspace_def)+
  moreover have "split_path (CHR ''@'' # a) = ([], CHR ''@'' # a)" using a' by (intro split_path_plain) simp
  ultimately have "check_path n (''/@'' @ a) =
      Inr (if find_attribute n a = None then Some (Attribute_missing (''/@'' @ a)) else None)"
    using a'(1) by (simp add: check_path_def is_attr_path_def strip_slashes_def Let_def)
  then show ?thesis
    using parse_serialize [OF assms(1)] attribute_by_path [OF assms(2), of n] text_by_path [OF assms(3,4)]
    by simp
qed

theorem xml_read_back_witness:
  "\<exists>r. xml_parse trim_and_discard_empty (serialize_xml sample_tree True) = Inr r \<and>
    get_attr_value_by_path (Some r) (''/@'' @ ''id'') =
      Inr (case find_attribute sample_tree ''id'' of None \<Rightarrow> [] | Some x \<Rightarrow> attr_value x) \<and>
    get_text_by_path (Some r) ''title'' = Inr (case find_child sample_tree ''title'' of None \<Rightarrow> [] | Some m \<Rightarrow> node_text m) \<and>
    validate [''/@'' @ ''id''] r =
      Inr (if find_attribute sample_tree ''id'' = None then Some (Attribute_missing (''/@'' @ ''id'')) else None)"
  by (rule xml_read_back [OF sample_printable])
    (simp_all add: sample_tree_def valid_name_def is_name_char_def isalnum_def isdigit_def isupper_def islower_def)

text \<open>White space inside the quotes of a condition is removed with the rest, so a value with a space is
  never matched, and an attribute with an empty name is no condition at all.\<close>

lemma xpath_condition_spaces:
  "parse_xpath_step (''a[@t='' @ [quot] @ ''x y'' @ [quot] @ '']'') =
     Inr \<lparr>step_name = ''a'', step_attr_name = ''t'', step_attr_value = ''xy''\<rparr> \<and>
   parse_xpath_step (''a[@='' @ [quot] @ ''x'' @ [quot] @ '']'') =
     Inr \<lparr>step_name = ''a'', step_attr_name = [], step_attr_value = ''x''\<rparr>"
  by (simp add: parse_xpath_step_def find_from_def isspace_def)

end
