(* ===== verification/Datetime_Parse.thy ===== *)
theory Datetime_Parse
  imports Datetime
begin

text \<open>
  What the parsers of \<open>src/datetime/datetime_string.cpp\<close> do. The strict parser is related to the
  formatter through the list of tokens that both find in a format; the ISO 8601 parser is followed
  on the texts written from given fields.
\<close>

section \<open>The tokens of a format\<close>

function tokens_of :: "string \<Rightarrow> token list" where
  "tokens_of [] = []"
| "tokens_of (c # fmt) =
     (case parse_token (c # fmt) of
        Some t \<Rightarrow> t # tokens_of (drop (token_width t) (c # fmt))
      | None \<Rightarrow> tokens_of fmt)"
  by pat_completeness auto
termination by (relation "measure length") (auto simp: diff_less)

declare tokens_of.simps(2) [simp del]

definition full_format :: "string \<Rightarrow> bool" where
  "full_format fmt \<longleftrightarrow>
     Millisecond \<notin> set (tokens_of fmt) \<and>
     list_all (\<lambda>t. t \<in> set (tokens_of fmt)) [Year, Month, Day, Hour, Minute, Second]"

definition field_at :: "fields \<Rightarrow> token \<Rightarrow> int" where
  "field_at v t = (case t of
      Year \<Rightarrow> f_year v | Month \<Rightarrow> f_month v | Day \<Rightarrow> f_day v | Hour \<Rightarrow> f_hour v
    | Minute \<Rightarrow> f_minute v | Second \<Rightarrow> f_second v | Millisecond \<Rightarrow> f_ms v)"

definition get_flag :: "present_flags \<Rightarrow> token \<Rightarrow> bool" where
  "get_flag f t = (case t of
      Year \<Rightarrow> has_year f | Month \<Rightarrow> has_month f | Day \<Rightarrow> has_day f | Hour \<Rightarrow> has_hour f
    | Minute \<Rightarrow> has_minute f | Second \<Rightarrow> has_second f | Millisecond \<Rightarrow> has_millisecond f)"

lemma get_set_field [simp]: "field_at (set_field t x v) u = (if u = t then x else field_at v u)"
  by (cases t; cases u) (simp_all add: field_at_def set_field_def)

lemma get_set_flag [simp]: "get_flag (set_flag t f) u = (u = t \<or> get_flag f u)"
  by (cases t; cases u) (simp_all add: get_flag_def set_flag_def)

lemma get_field_fold:
  "field_at (fold (\<lambda>t. set_field t (g t)) ts v) u = (if u \<in> set ts then g u else field_at v u)"
  by (induction ts arbitrary: v) auto

lemma get_flag_fold: "get_flag (fold set_flag ts f) u = (u \<in> set ts \<or> get_flag f u)"
  by (induction ts arbitrary: f) auto

lemma fields_eqI: "(\<And>t. field_at v t = field_at w t) \<Longrightarrow> v = w"
proof -
  assume a: "\<And>t. field_at v t = field_at w t"
  show "v = w" using a [of Year] a [of Month] a [of Day] a [of Hour] a [of Minute] a [of Second] a [of Millisecond]
    by (simp add: field_at_def)
qed

lemma format_token_parse: "format_token fmt = (if parse_token fmt = Some Millisecond then None else parse_token fmt)"
  by (simp add: format_token_def parse_token_def fmt_match_def)

lemma append_ndigits_append: "append_ndigits out x n = out @ append_ndigits [] x n"
  by (simp add: append_ndigits_def Let_def)

lemma format_loop_append: "format_loop tm fmt out = out @ format_loop tm fmt []"
proof (induction fmt arbitrary: out rule: measure_induct_rule [where f = length])
  case (less fmt)
  show ?case
  proof (cases fmt)
    case (Cons c fmt')
    show ?thesis
    proof (cases "format_token fmt")
      case None
      show ?thesis using None Cons less [of fmt' "out @ [c]"] less [of fmt' "[c]"]
        by (simp add: format_loop.simps(2))
    next
      case (Some t)
      let ?d = "append_ndigits [] (tm_field tm t) (token_width t)" and ?f = "drop (token_width t) fmt"
      have "length ?f < length fmt" using Cons by (simp add: diff_less)
      note less [OF this, of "out @ ?d"] less [OF this, of ?d]
      then show ?thesis using Some Cons append_ndigits_append [of out]
        by (simp add: format_loop.simps(2))
    qed
  qed simp
qed

section \<open>What the formatter writes, the parser reads\<close>

lemma format_loop_token:
  "parse_token (c # fmt) = Some t \<Longrightarrow> t \<noteq> Millisecond \<Longrightarrow> 0 \<le> tm_field tm t \<Longrightarrow>
   format_loop tm (c # fmt) [] =
     digits_loop (token_width t) (tm_field tm t) [] @ format_loop tm (drop (token_width t) (c # fmt)) []"
  by (simp add: format_loop.simps(2) format_token_parse append_ndigits_digits
      format_loop_append [of tm _ "digits_loop _ _ _"])

lemma format_loop_literal:
  "parse_token (c # fmt) = None \<Longrightarrow> format_loop tm (c # fmt) [] = c # format_loop tm fmt []"
  by (simp add: format_loop.simps(2) format_token_parse format_loop_append [of tm fmt "[c]"])

lemma strict_loop_token:
  "parse_token (c # fmt) = Some t \<Longrightarrow> strict_loop (c # fmt) s v f =
     (case read_ndigits s (token_width t) of
        None \<Rightarrow> (f, Inl (token_error t))
      | Some (x, s') \<Rightarrow> strict_loop (drop (token_width t) (c # fmt)) s' (set_field t x v) (set_flag t f))"
  by (simp add: strict_loop.simps(2))

lemma strict_loop_literal:
  "parse_token (c # fmt) = None \<Longrightarrow> strict_loop (c # fmt) s v f =
     (case s of
        [] \<Rightarrow> (f, Inl ''Literally inconsistent'')
      | d # s' \<Rightarrow> if c \<noteq> d then (f, Inl ''Literally inconsistent'') else strict_loop fmt s' v f)"
  by (simp add: strict_loop.simps(2))

definition fits :: "std_tm \<Rightarrow> token \<Rightarrow> bool" where
  "fits tm t \<longleftrightarrow> t \<noteq> Millisecond \<and> 0 \<le> tm_field tm t \<and> tm_field tm t < 10 ^ token_width t"

lemma strict_loop_format:
  assumes "list_all (fits tm) (tokens_of fmt)"
  shows "strict_loop fmt (format_loop tm fmt []) v f =
    (fold set_flag (tokens_of fmt) f, Inr (fold (\<lambda>t. set_field t (tm_field tm t)) (tokens_of fmt) v, []))"
  using assms
proof (induction fmt arbitrary: v f rule: tokens_of.induct)
  case (2 c fmt)
  show ?case
  proof (cases "parse_token (c # fmt)")
    case None
    then show ?thesis using 2 by (simp add: strict_loop_literal format_loop_literal tokens_of.simps(2))
  next
    case (Some t)
    then have t: "fits tm t" "list_all (fits tm) (tokens_of (drop (token_width t) (c # fmt)))"
      using 2(3) by (simp_all add: tokens_of.simps(2))
    then have "read_ndigits (format_loop tm (c # fmt) []) (token_width t) =
        Some (tm_field tm t, format_loop tm (drop (token_width t) (c # fmt)) [])"
      using format_loop_token [OF Some, of tm] by (simp add: fits_def)
    then show ?thesis using 2(2) [OF Some t(2)] Some
      by (simp add: strict_loop_token tokens_of.simps(2))
  qed
qed simp

lemma strict_loop_sound:
  assumes "strict_loop fmt s v f = (f', Inr (v', rest))" "distinct (tokens_of fmt)" "Millisecond \<notin> set (tokens_of fmt)"
    and "\<And>t. t \<in> set (tokens_of fmt) \<Longrightarrow> tm_field tm t = field_at v' t"
  shows "s = format_loop tm fmt [] @ rest" "f' = fold set_flag (tokens_of fmt) f"
    and "\<And>t. t \<in> set (tokens_of fmt) \<Longrightarrow> 0 \<le> field_at v' t \<and> field_at v' t < 10 ^ token_width t"
    and "\<And>t. t \<notin> set (tokens_of fmt) \<Longrightarrow> field_at v' t = field_at v t"
proof -
  have "s = format_loop tm fmt [] @ rest \<and> f' = fold set_flag (tokens_of fmt) f \<and>
    (\<forall>t. if t \<in> set (tokens_of fmt) then 0 \<le> field_at v' t \<and> field_at v' t < 10 ^ token_width t
         else field_at v' t = field_at v t)"
    using assms
  proof (induction fmt arbitrary: s v f rule: tokens_of.induct)
    case (2 c fmt)
    show ?case
    proof (cases "parse_token (c # fmt)")
      case None
      then obtain s' where "s = c # s'" "strict_loop fmt s' v f = (f', Inr (v', rest))"
        using 2(3) by (auto simp: strict_loop_literal split: list.splits if_splits)
      then show ?thesis using 2(1) [OF None, of s' v f] 2(4-6) None
        by (simp add: format_loop_literal tokens_of.simps(2))
    next
      case (Some t)
      let ?fmt = "drop (token_width t) (c # fmt)"
      from 2(3) Some obtain x s' where x: "read_ndigits s (token_width t) = Some (x, s')"
        "strict_loop ?fmt s' (set_field t x v) (set_flag t f) = (f', Inr (v', rest))"
        by (auto simp: strict_loop_token split: option.splits)
      have toks: "tokens_of (c # fmt) = t # tokens_of ?fmt" using Some by (simp add: tokens_of.simps(2))
      then have d: "t \<notin> set (tokens_of ?fmt)" "distinct (tokens_of ?fmt)" "Millisecond \<notin> set (tokens_of ?fmt)"
        "t \<noteq> Millisecond" using 2(4,5) by auto
      note IH = 2(2) [OF Some x(2) d(2,3)]
      have ih: "s' = format_loop tm ?fmt [] @ rest" "f' = fold set_flag (tokens_of ?fmt) (set_flag t f)"
        "\<And>u. if u \<in> set (tokens_of ?fmt) then 0 \<le> field_at v' u \<and> field_at v' u < 10 ^ token_width u
           else field_at v' u = field_at (set_field t x v) u"
        using IH 2(6) toks by auto
      have "field_at v' t = x" using ih(3) [of t] d(1) by simp
      moreover from this have "tm_field tm t = x" using 2(6) [of t] toks by simp
      moreover note read_ndigits_Some [OF x(1)]
      ultimately show ?thesis
        using ih format_loop_token [OF Some d(4), of tm] toks by (auto split: if_splits)
    qed
  qed simp
  then show "s = format_loop tm fmt [] @ rest" "f' = fold set_flag (tokens_of fmt) f"
    "\<And>t. t \<in> set (tokens_of fmt) \<Longrightarrow> 0 \<le> field_at v' t \<and> field_at v' t < 10 ^ token_width t"
    "\<And>t. t \<notin> set (tokens_of fmt) \<Longrightarrow> field_at v' t = field_at v t"
    by metis+
qed

section \<open>The strict parser and the formatter\<close>

lemma format_loop_cong:
  "(\<And>t. tm_field tm t = tm_field tm' t) \<Longrightarrow> format_loop tm fmt out = format_loop tm' fmt out"
  by (induction tm fmt out rule: format_loop.induct) (auto simp: format_loop.simps(2) split: option.split)

lemma timegm_fields:
  "(\<And>t. tm_field tm t = tm_field tm' t) \<Longrightarrow> timegm tm = timegm tm'"
proof -
  assume a: "\<And>t. tm_field tm t = tm_field tm' t"
  show ?thesis using a [of Year] a [of Month] a [of Day] a [of Hour] a [of Minute] a [of Second]
    by (simp add: tm_field_def timegm_def)
qed

lemma full_format_tokens: "full_format fmt \<Longrightarrow> t \<in> set (tokens_of fmt) \<longleftrightarrow> t \<noteq> Millisecond"
  by (cases t) (auto simp: full_format_def)

lemma full_format_flags:
  assumes "full_format fmt"
  defines "f \<equiv> fold set_flag (tokens_of fmt) no_flags"
  shows "has_year f" "has_month f" "has_day f" "has_hour f" "has_minute f" "has_second f" "\<not> has_millisecond f"
proof -
  have a: "get_flag f t = (t \<noteq> Millisecond \<or> get_flag no_flags t)" for t
    by (simp add: f_def get_flag_fold full_format_tokens [OF assms(1)])
  show "has_year f" "has_month f" "has_day f" "has_hour f" "has_minute f" "has_second f" "\<not> has_millisecond f"
    using a [of Year] a [of Month] a [of Day] a [of Hour] a [of Minute] a [of Second] a [of Millisecond]
    by (simp_all add: get_flag_def no_flags_def)
qed

lemma fields_tm_field: "tm_field (fields_tm tm v) t = (if t = Millisecond then 0 else field_at v t)"
  by (cases t) (simp_all add: tm_field_def fields_tm_def field_at_def)

text \<open>The checks of the parser are those of a valid broken-down time.\<close>

lemma strict_problem_valid:
  assumes "full_format fmt" "f = fold set_flag (tokens_of fmt) no_flags" "field_at v Year < 10 ^ 4"
  shows "strict_problem None v f rest = None \<longleftrightarrow> rest = [] \<and> valid_tm (fields_tm tm v) \<and> 0 \<le> f_year v"
  using full_format_flags [OF assms(1)] assms(3) unfolding assms(2) [symmetric]
  by (auto simp: strict_problem_def valid_tm_def fields_tm_def valid_ymd_def field_at_def int_max_def)

definition representable :: "int \<Rightarrow> bool" where
  "representable t \<longleftrightarrow>
     t \<noteq> - 1 \<and> in_int64 (t * 1000 * 1000000) \<and>
     (case gmtime t of None \<Rightarrow> False | Some tm \<Rightarrow> 0 \<le> tm_year tm + 1900 \<and> tm_year tm + 1900 \<le> 9999)"

lemma parse_of_format:
  assumes "full_format fmt" "representable t"
  shows "\<exists>r. parse_strict_datetime zone (format_datetime_t zone t utc fmt) fmt utc = Some r \<and>
    r_ok r \<and> r_epoch r = t \<and> r_millisecond r = 0"
proof -
  obtain tm where tm: "gmtime t = Some tm" "0 \<le> tm_year tm + 1900" "tm_year tm + 1900 \<le> 9999"
    and t: "t \<noteq> - 1" "in_int64 (t * 1000 * 1000000)"
    using assms(2) by (auto simp: representable_def split: option.splits)
  note valid = timegm_gmtime [OF tm(1)]
  have "tm_mday tm \<le> 31" using valid(2) month_cases [of "tm_mon tm"]
    by (auto simp: valid_tm_def days_in_month_def month_days_def split: if_splits)
  then have fit: "fits tm u" if "u \<noteq> Millisecond" for u
    using valid(2) tm that by (cases u) (simp_all add: fits_def tm_field_def token_width_def valid_tm_def)
  let ?toks = "tokens_of fmt"
  define v where "v = fold (\<lambda>t. set_field t (tm_field tm t)) ?toks (base_fields None)"
  define f where "f = fold set_flag ?toks no_flags"
  have loop: "strict_loop fmt (format_loop tm fmt []) (base_fields None) no_flags = (f, Inr (v, []))"
    unfolding v_def f_def
    by (rule strict_loop_format) (use fit full_format_tokens [OF assms(1)] in \<open>auto simp: list_all_iff\<close>)
  have get: "field_at v u = tm_field tm u" if "u \<noteq> Millisecond" for u
    using that by (simp add: v_def get_field_fold full_format_tokens [OF assms(1)])
  then have same: "tm_field (fields_tm zero_tm v) u = tm_field tm u" for u
    by (simp add: fields_tm_field) (simp add: tm_field_def)
  have "field_at v Year < 10 ^ 4" using get [of Year] fit [of Year] by (simp add: fits_def token_width_def)
  moreover have "valid_tm (fields_tm zero_tm v)" "0 \<le> f_year v"
    using valid(2) tm(2) same [of Year] same [of Month] same [of Day] same [of Hour] same [of Minute] same [of Second]
    by (simp_all add: valid_tm_def tm_field_def fields_tm_def)
  ultimately have ok: "strict_problem None v f [] = None"
    using strict_problem_valid [OF assms(1) f_def] by blast
  have "timegm (fields_tm zero_tm v) = t" using timegm_fields [OF same] valid(1) by simp
  then show ?thesis
    using t full_format_flags(7) [OF assms(1)]
    by (simp add: parse_strict_datetime_def parse_strict_datetime_ex_impl_def format_datetime_t_def
        time_t_to_utc_tm_def tm(1) format_from_tm_core_def loop ok tm_to_time_utc_def success_def
        ns_time_point_def f_def [symmetric])
qed

lemma format_of_parse:
  assumes "full_format fmt" "distinct (tokens_of fmt)" "parse_strict_datetime zone s fmt utc = Some r" "r_ok r"
  shows "representable (r_epoch r) \<and> s = format_datetime_t zone (r_epoch r) utc fmt"
proof -
  obtain f v rest t where loop: "strict_loop fmt s (base_fields None) no_flags = (f, Inr (v, rest))"
    and ok: "strict_problem None v f rest = None"
    and t: "tm_to_time_utc (fields_tm zero_tm v) = Some t"
    and r: "success t (if has_millisecond f then f_ms v else 0) None f = Some r"
    using assms(3,4) unfolding parse_strict_datetime_def parse_strict_datetime_ex_impl_def
    by (auto simp: new_result_def Let_def split: prod.splits sum.splits option.splits)
  let ?tm = "fields_tm zero_tm v"
  have rest: "rest = []" using ok by (simp add: strict_problem_def split: if_splits)
  have "tm_field ?tm u = field_at v u" if "u \<in> set (tokens_of fmt)" for u
    using that by (simp add: fields_tm_field full_format_tokens [OF assms(1)])
  note sound = strict_loop_sound [OF loop assms(2) _ this, unfolded full_format_tokens [OF assms(1)], simplified]
  have year: "field_at v Year < 10 ^ 4" using sound(3) [of Year] by (simp add: token_width_def)
  have valid: "valid_tm ?tm" "0 \<le> f_year v"
    using strict_problem_valid [OF assms(1) sound(2) year] ok by blast+
  have ms: "\<not> has_millisecond f" using full_format_flags(7) [OF assms(1)] sound(2) by simp
  have t': "t = timegm ?tm" "t \<noteq> - 1" using t by (auto simp: tm_to_time_utc_def Let_def split: if_splits)
  have e: "r_epoch r = t" "in_int64 (t * 1000 * 1000000)"
    using r ms by (auto simp: success_def ns_time_point_def split: if_splits)
  obtain wd yd where g: "gmtime t = Some (?tm\<lparr>tm_wday := wd, tm_yday := yd, tm_isdst := 0\<rparr>)"
    using gmtime_timegm [OF valid(1)] t'(1) by blast
  have "format_loop (?tm\<lparr>tm_wday := wd, tm_yday := yd, tm_isdst := 0\<rparr>) fmt [] = format_loop ?tm fmt []"
    by (rule format_loop_cong) (simp add: tm_field_def split: token.split)
  then have "s = format_datetime_t zone t utc fmt"
    using sound(1) rest by (simp add: format_datetime_t_def time_t_to_utc_tm_def g format_from_tm_core_def)
  moreover have "representable t"
    using g e(2) t'(2) valid(2) year by (simp add: representable_def fields_tm_def field_at_def)
  ultimately show ?thesis using e(1) by simp
qed

text \<open>C19: with a format that names the year, month, day, hour, minute and second once each, the strict
  parser in UTC succeeds on exactly the strings that the formatter prints, and returns the time that was
  printed. The times are those with a year of at most four digits that a time point can hold, without
  the second before 1970.\<close>

theorem datetime_parse_format:
  assumes "full_format fmt" "distinct (tokens_of fmt)"
  shows "(case parse_strict_datetime zone s fmt utc of None \<Rightarrow> False | Some r \<Rightarrow> r_ok r \<and> r_epoch r = t) \<longleftrightarrow>
    representable t \<and> s = format_datetime_t zone t utc fmt"
proof
  assume "case parse_strict_datetime zone s fmt utc of None \<Rightarrow> False | Some r \<Rightarrow> r_ok r \<and> r_epoch r = t"
  then show "representable t \<and> s = format_datetime_t zone t utc fmt"
    using format_of_parse [OF assms, of zone s] by (auto split: option.splits)
next
  assume "representable t \<and> s = format_datetime_t zone t utc fmt"
  then show "case parse_strict_datetime zone s fmt utc of None \<Rightarrow> False | Some r \<Rightarrow> r_ok r \<and> r_epoch r = t"
    using parse_of_format [OF assms(1), of t zone] by auto
qed

definition utc_zone :: local_zone where
  "utc_zone = \<lparr>zone_mktime = timegm, zone_localtime = gmtime\<rparr>"

lemma tokens_of_default: "tokens_of ''YYYY-MM-DD hh:mm:ss'' = [Year, Month, Day, Hour, Minute, Second]"
  by (simp add: tokens_of.simps(2) parse_token_def token_width_def)

theorem datetime_parse_format_witness:
  "(case parse_strict_datetime utc_zone ''2025-10-17 00:30:05'' ''YYYY-MM-DD hh:mm:ss'' utc of
      None \<Rightarrow> False | Some r \<Rightarrow> r_ok r \<and> r_epoch r = 1760661005) \<longleftrightarrow>
   representable 1760661005 \<and>
   ''2025-10-17 00:30:05'' = format_datetime_t utc_zone 1760661005 utc ''YYYY-MM-DD hh:mm:ss''"
  by (rule datetime_parse_format) (simp_all add: full_format_def tokens_of_default)

section \<open>ISO 8601\<close>

lemma at_char_Cons [simp]: "at_char (c # s) cs \<longleftrightarrow> c \<in> set cs" "\<not> at_char [] cs"
  by (simp_all add: at_char_def)

lemma fraction_loop_digits:
  "read_digits_loop n ms s = Some (x, r) \<Longrightarrow> digits + n \<le> 3 \<Longrightarrow>
   fraction_loop digits ms s = fraction_loop (digits + n) x r"
proof (induction n arbitrary: digits ms s)
  case (Suc n)
  then show ?case by (cases s) (auto split: if_splits)
qed simp

lemma fraction_written:
  assumes "0 \<le> ms" "ms < 1000" "\<not> isdigit c"
  shows "parse_fraction_ms (CHR ''.'' # digits_loop 3 ms [] @ c # s) = Some (ms, c # s)"
proof -
  have "read_digits_loop 3 0 (digits_loop 3 ms [] @ c # s) = Some (ms, c # s)"
    using assms read_digits_written [of ms 3 0] by simp
  from fraction_loop_digits [OF this, of 0]
  have "fraction_loop 0 0 (digits_loop 3 ms [] @ c # s) = (3, ms, c # s)" using assms(3) by simp
  then show ?thesis by (simp add: parse_fraction_ms_def)
qed

definition iso_date :: "int \<Rightarrow> int \<Rightarrow> int \<Rightarrow> string" where
  "iso_date y m d = digits_loop 4 y [] @ ''-'' @ digits_loop 2 m [] @ ''-'' @ digits_loop 2 d []"

definition iso_time :: "int \<Rightarrow> int \<Rightarrow> int \<Rightarrow> string" where
  "iso_time h m s = digits_loop 2 h [] @ '':'' @ digits_loop 2 m [] @ '':'' @ digits_loop 2 s []"

definition iso_offset :: "bool \<Rightarrow> int \<Rightarrow> int \<Rightarrow> string" where
  "iso_offset negative h m = [if negative then CHR ''-'' else CHR ''+''] @ digits_loop 2 h [] @ '':'' @ digits_loop 2 m []"

definition two_digits :: "int \<Rightarrow> bool" where
  "two_digits x \<longleftrightarrow> 0 \<le> x \<and> x < 100"

lemma read_two [simp]: "two_digits x \<Longrightarrow> read_ndigits (digits_loop 2 x [] @ s) 2 = Some (x, s)"
  "two_digits x \<Longrightarrow> read_ndigits (digits_loop 2 x []) 2 = Some (x, [])"
  using read_ndigits_written [of x 2 s] read_ndigits_written [of x 2 "[]"] by (simp_all add: two_digits_def)

lemma parse_iso_date:
  "0 \<le> y \<Longrightarrow> y < 10000 \<Longrightarrow> two_digits m \<Longrightarrow> two_digits d \<Longrightarrow>
   parse_date_extended (iso_date y m d @ s) = Some (y, m, d, s)"
  using read_ndigits_written [of y 4]
  by (simp add: parse_date_extended_def iso_date_def)

lemma parse_iso_time:
  "two_digits h \<Longrightarrow> two_digits m \<Longrightarrow> two_digits sec \<Longrightarrow>
   parse_time_extended (iso_time h m sec @ s) = Some (h, m, sec, s)"
  by (simp add: parse_time_extended_def iso_time_def)

lemma parse_iso_offset:
  "two_digits h \<Longrightarrow> two_digits m \<Longrightarrow>
   parse_tz_offset (iso_offset negative h m) = Some (if negative then - (h * 3600 + m * 60) else h * 3600 + m * 60, [])"
  by (simp add: parse_tz_offset_def iso_offset_def Let_def)

definition date_tm :: "int \<Rightarrow> int \<Rightarrow> int \<Rightarrow> int \<Rightarrow> int \<Rightarrow> int \<Rightarrow> std_tm" where
  "date_tm y mo d h mi s = zero_tm\<lparr>tm_year := y - 1900, tm_mon := mo - 1, tm_mday := d,
     tm_hour := h, tm_min := mi, tm_sec := s, tm_isdst := - 1\<rparr>"

text \<open>A date and time with milliseconds and an offset is the time of its fields less the offset,
  whatever the local zone, the current time and the fallback mode are. The fields are not checked:
  a month 13 or an hour 99 is carried over into the next year or days.\<close>

theorem iso8601_offset:
  assumes "0 \<le> y" "y < 10000" "list_all two_digits [mo, d, h, mi, sec, oh, om]" "0 \<le> ms" "ms < 1000"
    and "t = timegm (date_tm y mo d h mi sec)" "t \<noteq> - 1"
    and "off = (if negative then - (oh * 3600 + om * 60) else oh * 3600 + om * 60)"
    and "in_int64 (((t - off) * 1000 + ms) * 1000000)"
  shows "\<exists>r. parse_iso8601_strict zone now
      (iso_date y mo d @ ''T'' @ iso_time h mi sec @ ''.'' @ digits_loop 3 ms [] @ iso_offset negative oh om) mode = Some r \<and>
    r_ok r \<and> r_epoch r = t - off \<and> r_millisecond r = ms \<and> r_timepoint r = ((t - off) * 1000 + ms) * 1000000"
proof -
  let ?tail = "''.'' @ digits_loop 3 ms [] @ iso_offset negative oh om"
  have two: "two_digits mo" "two_digits d" "two_digits h" "two_digits mi" "two_digits sec" "two_digits oh" "two_digits om"
    using assms(3) by simp_all
  have dt: "parse_date_time (iso_date y mo d @ ''T'' @ iso_time h mi sec @ ?tail) = Inr (Some (y, mo, d), Some (h, mi, sec), ?tail)"
    using assms(1,2) two by (simp add: parse_date_time_def parse_iso_date parse_iso_time)
  have "parse_fraction_ms ?tail = Some (ms, iso_offset negative oh om)"
    using fraction_written [OF assms(4,5)] by (simp add: iso_offset_def isdigit_def)
  then have tail: "parse_tail True ?tail = Inr (ms, Some off)"
    using two assms(8) by (simp add: parse_tail_def parse_iso_offset)
  have "iso_tm (y, mo, d) (Some (h, mi, sec)) = date_tm y mo d h mi sec"
    using two by (simp add: iso_tm_def date_tm_def two_digits_def)
  then show ?thesis unfolding parse_iso8601_strict_def dt using assms(6,7,9)
    by (simp add: tail tm_to_time_utc_def Let_def success_def ns_time_point_def del: append.simps)
qed

theorem iso8601_offset_witness:
  "\<exists>r. parse_iso8601_strict utc_zone 0
      (iso_date 2025 10 17 @ ''T'' @ iso_time 9 30 5 @ ''.'' @ digits_loop 3 987 [] @ iso_offset False 9 0) utc = Some r \<and>
    r_ok r \<and> r_epoch r = timegm (date_tm 2025 10 17 9 30 5) - 32400 \<and> r_millisecond r = 987 \<and>
    r_timepoint r = ((timegm (date_tm 2025 10 17 9 30 5) - 32400) * 1000 + 987) * 1000000"
  by (rule iso8601_offset)
    (simp_all add: two_digits_def in_int64_def timegm_def date_tm_def days_from_civil_def days_before_year_def
      month_start_def month_starts_def is_leap_def)

lemma parse_iso_date_alone:
  "0 \<le> y \<Longrightarrow> y < 10000 \<Longrightarrow> two_digits m \<Longrightarrow> two_digits d \<Longrightarrow>
   parse_date_extended (iso_date y m d) = Some (y, m, d, [])"
  using parse_iso_date [of y m d "[]"] by simp

text \<open>A date without a time of day is accepted, but its hour and minute are still the -1 that stands
  for "not read": the result is 61 minutes before the midnight at which the day begins, on the day
  before.\<close>

theorem iso8601_date_only:
  assumes "0 \<le> y" "y < 10000" "two_digits mo" "two_digits d" "midnight = timegm (date_tm y mo d 0 0 0)"
    and "midnight - 3660 \<noteq> - 1" "in_int64 ((midnight - 3660) * 1000 * 1000000)"
  shows "\<exists>r. parse_iso8601_strict zone now (iso_date y mo d) utc = Some r \<and> r_ok r \<and> r_epoch r = midnight - 3660"
proof -
  have "parse_date_time (iso_date y mo d) = Inr (Some (y, mo, d), None, [])"
    using assms(1-4) by (simp add: parse_date_time_def parse_iso_date_alone)
  moreover have "parse_tail False [] = Inr (0, None)" by (simp add: parse_tail_def parse_tz_offset_def)
  moreover have "timegm (iso_tm (y, mo, d) None) = midnight - 3660"
    using assms(5) by (simp add: timegm_def iso_tm_def date_tm_def)
  ultimately show ?thesis using assms(6,7)
    by (simp add: parse_iso8601_strict_def tm_to_time_utc_def success_def ns_time_point_def)
qed

theorem iso8601_date_only_witness:
  "\<exists>r. parse_iso8601_strict utc_zone 0 (iso_date 2025 10 17) utc = Some r \<and> r_ok r \<and>
    r_epoch r = timegm (date_tm 2025 10 17 0 0 0) - 3660"
  by (rule iso8601_date_only)
    (simp_all add: two_digits_def in_int64_def timegm_def date_tm_def days_from_civil_def days_before_year_def
      month_start_def month_starts_def is_leap_def)

text \<open>The formatter copies the token of the milliseconds, which the parser reads.\<close>

lemma format_keeps_milliseconds: "format_from_tm_core tm ''SSS'' = ''SSS'' \<and> parse_token ''SSS'' = Some Millisecond"
  by (simp add: format_from_tm_core_def format_loop.simps(2) format_token_def fmt_match_def parse_token_def)

end
