(* ===== verification/Date_Time_V1.thy ===== *)
theory Date_Time_V1
  imports Calendar
begin

text \<open>
  The classes \<open>time_span\<close> and \<open>date_time\<close> of \<open>src/datetime/v1/date_time.cpp\<close>: milliseconds since the
  epoch in 64 bits, with the zone in which the fields are read. An operation is \<open>None\<close> when an
  arithmetic step of \<open>chrono\<close> overflows or a conversion to fields fails, both of which are undefined
  behaviour. \<open>current_date_time\<close> and the offset take what the system clock returns as \<open>now\<close>.

  Spans and times obey the laws of addition, and shifting by months changes the month and the year only,
  when the day of the month is at most 28.
\<close>

section \<open>Spans\<close>

definition checked :: "int \<Rightarrow> int option" where
  "checked n = (if in_int64 n then Some n else None)"

record time_span =
  total_ms :: int

definition span_from_msecs :: "int \<Rightarrow> time_span" where
  "span_from_msecs ms = \<lparr>total_ms = ms\<rparr>"

definition span_from_seconds :: "int \<Rightarrow> time_span option" where
  "span_from_seconds s = map_option span_from_msecs (checked (s * 1000))"

definition span_from_minutes :: "int \<Rightarrow> time_span option" where
  "span_from_minutes m = map_option span_from_msecs (checked (m * 60000))"

definition span_from_hours :: "int \<Rightarrow> time_span option" where
  "span_from_hours h = map_option span_from_msecs (checked (h * 3600000))"

definition span_from_days :: "int \<Rightarrow> time_span option" where
  "span_from_days d = Option.bind (checked (d * 24)) span_from_hours"

definition total_msecs :: "time_span \<Rightarrow> int" where
  "total_msecs sp = total_ms sp"

definition total_secs :: "time_span \<Rightarrow> int" where
  "total_secs sp = trunc_div (total_ms sp) 1000"

section \<open>Times\<close>

record date_time =
  dt_tp :: int
  dt_spec :: time_zone_mode

definition dt_from_time_t :: "int \<Rightarrow> time_zone_mode \<Rightarrow> date_time option" where
  "dt_from_time_t t spec = map_option (\<lambda>tp. \<lparr>dt_tp = trunc_div tp 1000000, dt_spec = spec\<rparr>) (from_time_t t)"

text \<open>The conversion also normalises the caller's fields in place, which is left out.\<close>

definition dt_from_tm :: "local_zone \<Rightarrow> std_tm \<Rightarrow> time_zone_mode \<Rightarrow> date_time option" where
  "dt_from_tm zone tm spec = dt_from_time_t (if spec = utc then timegm tm else zone_mktime zone tm) spec"

definition from_epoch_msecs :: "int \<Rightarrow> time_zone_mode \<Rightarrow> date_time" where
  "from_epoch_msecs ms spec = \<lparr>dt_tp = ms, dt_spec = spec\<rparr>"

definition to_epoch_msecs :: "date_time \<Rightarrow> int" where
  "to_epoch_msecs d = dt_tp d"

definition current_date_time :: "int \<Rightarrow> date_time" where
  "current_date_time now = \<lparr>dt_tp = trunc_div now 1000000, dt_spec = local_time\<rparr>"

text \<open>The clock counts nanoseconds, so the time point is converted to them first.\<close>

definition dt_to_time_t :: "date_time \<Rightarrow> int option" where
  "dt_to_time_t d = map_option to_time_t (ns_time_point (dt_tp d) 1000000)"

definition dt_to_tm :: "local_zone \<Rightarrow> date_time \<Rightarrow> std_tm option" where
  "dt_to_tm zone d =
     Option.bind (dt_to_time_t d) (\<lambda>t. if dt_spec d = utc then gmtime t else zone_localtime zone t)"

definition to_utc :: "date_time \<Rightarrow> date_time" where
  "to_utc d = \<lparr>dt_tp = dt_tp d, dt_spec = utc\<rparr>"

definition to_local_time :: "date_time \<Rightarrow> date_time" where
  "to_local_time d = \<lparr>dt_tp = dt_tp d, dt_spec = local_time\<rparr>"

definition utc_offset_seconds :: "local_zone \<Rightarrow> int \<Rightarrow> int option" where
  "utc_offset_seconds zone now =
     (case (zone_localtime zone now, gmtime now) of
        (Some l, Some u) \<Rightarrow> Some (zone_mktime zone l - timegm u)
      | _ \<Rightarrow> None)"

definition utc_offset_minutes :: "local_zone \<Rightarrow> int \<Rightarrow> int option" where
  "utc_offset_minutes zone now = map_option (\<lambda>s. trunc_div s 60) (utc_offset_seconds zone now)"

definition utc_offset_hours :: "local_zone \<Rightarrow> int \<Rightarrow> int option" where
  "utc_offset_hours zone now = map_option (\<lambda>m. trunc_div m 60) (utc_offset_minutes zone now)"

text \<open>\<open>snprintf\<close> with \<open>%+03d\<close>, \<open>%+d\<close> and \<open>%02d\<close>.\<close>

definition two_places :: "int \<Rightarrow> string" where
  "two_places n = (let ds = show_nat (nat n) in replicate (2 - length ds) (CHR ''0'') @ ds)"

definition offset_string :: "bool \<Rightarrow> int \<Rightarrow> string" where
  "offset_string short_format secs =
     (let hours = trunc_div secs 3600; sign = (if hours < 0 then ''-'' else ''+'') in
      if short_format then
        let mins = \<bar>trunc_div (secs - hours * 3600) 60\<bar>
        in sign @ two_places \<bar>hours\<bar> @ '':'' @ two_places mins
      else sign @ show_nat (nat \<bar>hours\<bar>))"

definition utc_offset_string :: "local_zone \<Rightarrow> int \<Rightarrow> bool \<Rightarrow> string option" where
  "utc_offset_string zone now short_format = map_option (offset_string short_format) (utc_offset_seconds zone now)"

definition day_of_week :: "local_zone \<Rightarrow> date_time \<Rightarrow> int option" where
  "day_of_week zone d = map_option tm_wday (dt_to_tm zone d)"

definition is_utc :: "date_time \<Rightarrow> bool" where
  "is_utc d \<longleftrightarrow> dt_spec d = utc"

definition dt_year :: "local_zone \<Rightarrow> date_time \<Rightarrow> int option" where
  "dt_year zone d = map_option (\<lambda>tm. tm_year tm + 1900) (dt_to_tm zone d)"

definition dt_month :: "local_zone \<Rightarrow> date_time \<Rightarrow> int option" where
  "dt_month zone d = map_option (\<lambda>tm. tm_mon tm + 1) (dt_to_tm zone d)"

definition dt_day :: "local_zone \<Rightarrow> date_time \<Rightarrow> int option" where
  "dt_day zone d = map_option tm_mday (dt_to_tm zone d)"

definition dt_hour :: "local_zone \<Rightarrow> date_time \<Rightarrow> int option" where
  "dt_hour zone d = map_option tm_hour (dt_to_tm zone d)"

definition dt_minute :: "local_zone \<Rightarrow> date_time \<Rightarrow> int option" where
  "dt_minute zone d = map_option tm_min (dt_to_tm zone d)"

definition dt_second :: "local_zone \<Rightarrow> date_time \<Rightarrow> int option" where
  "dt_second zone d = map_option tm_sec (dt_to_tm zone d)"

text \<open>The remainder of a division towards zero has the sign of the time.\<close>

definition dt_msec :: "date_time \<Rightarrow> int" where
  "dt_msec d = dt_tp d - trunc_div (dt_tp d) 1000 * 1000"

definition shift_by :: "date_time \<Rightarrow> int option \<Rightarrow> date_time option" where
  "shift_by d ms = Option.bind ms (\<lambda>x. map_option (\<lambda>tp. d\<lparr>dt_tp := tp\<rparr>) (checked (dt_tp d + x)))"

definition add_msecs :: "int \<Rightarrow> date_time \<Rightarrow> date_time option" where
  "add_msecs ms d = shift_by d (Some ms)"

definition add_secs :: "int \<Rightarrow> date_time \<Rightarrow> date_time option" where
  "add_secs s d = shift_by d (checked (s * 1000))"

definition add_minutes :: "int \<Rightarrow> date_time \<Rightarrow> date_time option" where
  "add_minutes m d = shift_by d (checked (m * 60000))"

definition add_hours :: "int \<Rightarrow> date_time \<Rightarrow> date_time option" where
  "add_hours h d = shift_by d (checked (h * 3600000))"

definition add_days :: "int \<Rightarrow> date_time \<Rightarrow> date_time option" where
  "add_days n d = shift_by d (Option.bind (checked (n * 24)) (\<lambda>h. checked (h * 3600000)))"

definition adjust_calendar :: "local_zone \<Rightarrow> (std_tm \<Rightarrow> std_tm option) \<Rightarrow> date_time \<Rightarrow> date_time option" where
  "adjust_calendar zone f d =
     Option.bind (dt_to_tm zone d) (\<lambda>parts.
       Option.bind (f parts) (\<lambda>parts'.
         Option.bind (from_time_t (if dt_spec d = utc then timegm parts' else zone_mktime zone parts')) (\<lambda>new_tp.
           Some (d\<lparr>dt_tp := trunc_div new_tp 1000000 + dt_msec d\<rparr>))))"

text \<open>The additions to the fields are those of a 32-bit \<open>int\<close>.\<close>

definition in_int32 :: "int \<Rightarrow> bool" where
  "in_int32 n \<longleftrightarrow> - int_max - 1 \<le> n \<and> n \<le> int_max"

definition add_months :: "local_zone \<Rightarrow> int \<Rightarrow> date_time \<Rightarrow> date_time option" where
  "add_months zone months d =
     adjust_calendar zone (\<lambda>t. if in_int32 (tm_mon t + months) then Some (t\<lparr>tm_mon := tm_mon t + months\<rparr>) else None) d"

definition add_years :: "local_zone \<Rightarrow> int \<Rightarrow> date_time \<Rightarrow> date_time option" where
  "add_years zone years d =
     adjust_calendar zone (\<lambda>t. if in_int32 (tm_year t + years) then Some (t\<lparr>tm_year := tm_year t + years\<rparr>) else None) d"

definition secs_to :: "date_time \<Rightarrow> date_time \<Rightarrow> time_span option" where
  "secs_to d other = map_option span_from_msecs (checked (dt_tp other - dt_tp d))"

definition dt_minus :: "date_time \<Rightarrow> date_time \<Rightarrow> time_span option" where
  "dt_minus d other = map_option span_from_msecs (checked (dt_tp d - dt_tp other))"

definition dt_plus_span :: "date_time \<Rightarrow> time_span \<Rightarrow> date_time option" where
  "dt_plus_span d sp = shift_by d (Some (total_ms sp))"

definition dt_minus_span :: "date_time \<Rightarrow> time_span \<Rightarrow> date_time option" where
  "dt_minus_span d sp = map_option (\<lambda>tp. d\<lparr>dt_tp := tp\<rparr>) (checked (dt_tp d - total_ms sp))"

definition dt_equal :: "date_time \<Rightarrow> date_time \<Rightarrow> bool" where
  "dt_equal a b \<longleftrightarrow> dt_tp a = dt_tp b \<and> dt_spec a = dt_spec b"

section \<open>Shifting by months\<close>

text \<open>The fields with the month and year moved and the month brought back into its range.\<close>

definition months_later :: "int \<Rightarrow> std_tm \<Rightarrow> std_tm" where
  "months_later n tm = tm\<lparr>tm_year := tm_year tm + (tm_mon tm + n) div 12, tm_mon := (tm_mon tm + n) mod 12\<rparr>"

lemma timegm_months_later: "timegm (months_later n tm) = timegm (tm\<lparr>tm_mon := tm_mon tm + n\<rparr>)"
  by (simp add: timegm_def months_later_def add.commute add.left_commute)

lemma short_month: "0 \<le> m \<Longrightarrow> m < 12 \<Longrightarrow> 28 \<le> days_in_month y (m + 1)"
  using month_cases [of m] by (auto simp: days_in_month_def month_days_def)

lemma valid_months_later:
  assumes "valid_tm tm" "tm_mday tm \<le> 28" "- int_max - 1 \<le> tm_year (months_later n tm)" "tm_year (months_later n tm) \<le> int_max"
  shows "valid_tm (months_later n tm)"
  using assms short_month [of "(tm_mon tm + n) mod 12" "tm_year tm + (tm_mon tm + n) div 12 + 1900"]
  by (simp add: valid_tm_def months_later_def)

lemma timegm_months_back:
  assumes "0 \<le> tm_mon tm" "tm_mon tm < 12" "g = (months_later n tm)\<lparr>tm_wday := wd, tm_yday := yd, tm_isdst := dst\<rparr>"
  shows "timegm (g\<lparr>tm_mon := tm_mon g - n\<rparr>) = timegm tm"
proof -
  let ?m = "tm_mon tm"
  have e: "(?m + n) mod 12 - n = 12 * (- ((?m + n) div 12)) + ?m" by (simp add: minus_div_mult_eq_mod [symmetric])
  have "((?m + n) mod 12 - n) div 12 = - ((?m + n) div 12)" by (rule int_div_pos_eq [OF e]) (use assms in simp_all)
  moreover have "((?m + n) mod 12 - n) mod 12 = ?m" by (rule int_mod_pos_eq [OF e]) (use assms in simp_all)
  ultimately show ?thesis using assms by (simp add: timegm_def months_later_def)
qed

lemma dt_of_seconds:
  assumes "0 \<le> t" "(t + 1) * 1000000000 < 2 ^ 63" "0 \<le> ms" "ms < 1000" "dt_tp d = t * 1000 + ms"
  shows "dt_to_time_t d = Some t" "dt_msec d = ms"
proof -
  have d: "(t * 1000 + ms) * 1000000 = t * 1000000000 + ms * 1000000" by simp
  have "(t * 1000000000 + ms * 1000000) div 1000000000 = t"
    by (rule int_div_pos_eq [where r = "ms * 1000000"]) (use assms in simp_all)
  moreover have "in_int64 (t * 1000000000 + ms * 1000000)" using assms by (simp add: in_int64_def)
  ultimately show "dt_to_time_t d = Some t"
    using assms(1,3,5) by (simp add: dt_to_time_t_def ns_time_point_def to_time_t_def trunc_div_def d del: distrib_right_numeral)
  have "(t * 1000 + ms) div 1000 = t" by (rule int_div_pos_eq [where r = ms]) (use assms in simp_all)
  then show "dt_msec d = ms" using assms(1,3,5) by (simp add: dt_msec_def trunc_div_def)
qed

lemma adjust_calendar_utc:
  assumes "dt_spec d = utc" "dt_to_tm zone d = Some tm" "f tm = Some tm'" "timegm tm' = t'" "0 \<le> t'" "(t' + 1) * 1000000000 < 2 ^ 63"
  shows "adjust_calendar zone f d = Some (d\<lparr>dt_tp := t' * 1000 + dt_msec d\<rparr>)"
proof -
  have "from_time_t t' = Some (t' * 1000000000)" using assms(5,6) by (simp add: from_time_t_def ns_time_point_def in_int64_def)
  moreover have "t' * 1000000000 div 1000000 = t' * 1000" by simp
  ultimately show ?thesis using assms by (simp add: adjust_calendar_def trunc_div_def)
qed

text \<open>In UTC, adding months to a time that has a date in the target month gives the same day, time
  and milliseconds there, and subtracting them again gives the time back.\<close>

theorem add_months_spec:
  assumes "d = \<lparr>dt_tp = t * 1000 + ms, dt_spec = utc\<rparr>" "0 \<le> t" "(t + 1) * 1000000000 < 2 ^ 63" "0 \<le> ms" "ms < 1000"
    and "gmtime t = Some tm" "valid_tm (months_later n tm)" "in_int32 (n + 11)" "in_int32 (11 - n)" "in_int32 n" "in_int32 (- n)"
    and "t' = timegm (months_later n tm)" "0 \<le> t'" "(t' + 1) * 1000000000 < 2 ^ 63"
  shows "\<exists>d' wd yd. add_months zone n d = Some d' \<and> dt_msec d' = ms \<and>
    dt_to_tm zone d' = Some ((months_later n tm)\<lparr>tm_wday := wd, tm_yday := yd, tm_isdst := 0\<rparr>) \<and>
    add_months zone (- n) d' = Some d"
proof -
  note valid = timegm_gmtime [OF assms(6)]
  then have mon: "0 \<le> tm_mon tm" "tm_mon tm < 12" by (simp_all add: valid_tm_def)
  have d: "dt_to_time_t d = Some t" "dt_msec d = ms" using dt_of_seconds [OF assms(2-5), of d] assms(1) by simp_all
  then have tm: "dt_to_tm zone d = Some tm" using assms(1,6) by (simp add: dt_to_tm_def)
  define d' where "d' = d\<lparr>dt_tp := t' * 1000 + ms\<rparr>"
  have t': "timegm (tm\<lparr>tm_mon := tm_mon tm + n\<rparr>) = t'" using assms(12) timegm_months_later by simp
  have add: "add_months zone n d = Some d'"
    unfolding add_months_def d'_def d(2) [symmetric]
    by (rule adjust_calendar_utc [OF _ tm, where tm' = "tm\<lparr>tm_mon := tm_mon tm + n\<rparr>"])
      (use assms(1,8,10,13,14) mon t' in \<open>simp_all add: in_int32_def\<close>)
  have d': "dt_to_time_t d' = Some t'" "dt_msec d' = ms"
    using dt_of_seconds [OF assms(13,14,4,5), of d'] by (simp_all add: d'_def)
  obtain wd yd where g: "gmtime t' = Some ((months_later n tm)\<lparr>tm_wday := wd, tm_yday := yd, tm_isdst := 0\<rparr>)"
    using gmtime_timegm [OF assms(7)] assms(12) by blast
  let ?g = "(months_later n tm)\<lparr>tm_wday := wd, tm_yday := yd, tm_isdst := 0\<rparr>"
  have tm': "dt_to_tm zone d' = Some ?g" using d'(1) g assms(1) by (simp add: dt_to_tm_def d'_def)
  have back_t: "timegm (?g\<lparr>tm_mon := tm_mon ?g - n\<rparr>) = t" using timegm_months_back [OF mon refl] valid(1) by blast
  have fits32: "in_int32 (tm_mon ?g - n)"
  proof -
    define r where "r = (tm_mon tm + n) mod 12"
    have "0 \<le> r" "r < 12" by (simp_all add: r_def)
    then show ?thesis using assms(9,11) by (simp add: in_int32_def months_later_def r_def [symmetric])
  qed
  have "add_months zone (- n) d' = Some (d'\<lparr>dt_tp := t * 1000 + dt_msec d'\<rparr>)"
    unfolding add_months_def
    by (rule adjust_calendar_utc [OF _ tm', where tm' = "?g\<lparr>tm_mon := tm_mon ?g - n\<rparr>"])
      (use assms(1-3) back_t fits32 in \<open>simp_all add: d'_def\<close>)
  then have "add_months zone (- n) d' = Some d" using d'(2) assms(1) by (simp add: d'_def)
  then show ?thesis using add d'(2) tm' by blast
qed

definition sample_tm :: std_tm where
  "sample_tm = \<lparr>tm_year = 123, tm_mon = 10, tm_mday = 14, tm_hour = 22, tm_min = 13, tm_sec = 20,
     tm_wday = 2, tm_yday = 317, tm_isdst = 0\<rparr>"

lemma sample_gmtime: "gmtime 1700000000 = Some sample_tm"
  by code_simp

theorem add_months_spec_witness:
  "\<exists>d' wd yd. add_months \<lparr>zone_mktime = timegm, zone_localtime = gmtime\<rparr> 14 \<lparr>dt_tp = 1700000000 * 1000 + 250, dt_spec = utc\<rparr> = Some d' \<and>
    dt_msec d' = 250 \<and>
    dt_to_tm \<lparr>zone_mktime = timegm, zone_localtime = gmtime\<rparr> d' =
      Some ((months_later 14 sample_tm)\<lparr>tm_wday := wd, tm_yday := yd, tm_isdst := 0\<rparr>) \<and>
    add_months \<lparr>zone_mktime = timegm, zone_localtime = gmtime\<rparr> (- 14) d' = Some \<lparr>dt_tp = 1700000000 * 1000 + 250, dt_spec = utc\<rparr>"
  by (rule add_months_spec [OF refl _ _ _ _ sample_gmtime, where t' = "timegm (months_later 14 sample_tm)"])
    (simp_all add: valid_tm_def months_later_def sample_tm_def in_int32_def int_max_def days_in_month_def month_days_def
      timegm_def days_from_civil_def days_before_year_def month_start_def month_starts_def is_leap_def)

text \<open>A month later than the last of January is in March.\<close>

lemma month_overflow:
  "timegm (zero_tm\<lparr>tm_year := 125, tm_mon := 0 + 1, tm_mday := 31\<rparr>) = timegm (zero_tm\<lparr>tm_year := 125, tm_mon := 2, tm_mday := 3\<rparr>)"
  by (simp add: zero_tm_def timegm_def days_from_civil_def days_before_year_def month_start_def month_starts_def is_leap_def)

section \<open>Spans between times\<close>

lemma plus_secs_to: "secs_to a b = Some sp \<Longrightarrow> in_int64 (dt_tp b) \<Longrightarrow> dt_plus_span a sp = Some (a\<lparr>dt_tp := dt_tp b\<rparr>)"
  by (auto simp: secs_to_def dt_plus_span_def shift_by_def checked_def span_from_msecs_def split: if_splits)

lemma minus_plus_span: "dt_plus_span d sp = Some e \<Longrightarrow> in_int64 (dt_tp d) \<Longrightarrow> dt_minus_span e sp = Some d"
  by (auto simp: dt_minus_span_def dt_plus_span_def shift_by_def checked_def split: if_splits)

text \<open>The sign of an offset of less than an hour is lost.\<close>

lemma offset_sign_lost: "offset_string True (- 1800) = ''+00:30''"
  by code_simp

end
