(* ===== verification/Uuid.thy ===== *)
theory Uuid
  imports Cpp_Std
begin

text \<open>
  The generator of \<open>src/uuid/uuid_v4.cpp\<close>. The two 64-bit numbers that the thread's engine delivers
  are the arguments; the sixteen bytes are a list. The theorem states the format of RFC 4122 and that
  nothing of the random numbers is lost but the six bits that the format fixes.
\<close>

unbundle bit_operations_syntax

section \<open>The code\<close>

type_synonym uint64 = "64 word"

definition generate_bytes :: "uint64 \<Rightarrow> uint64 \<Rightarrow> uint8 list" where
  "generate_bytes r1 r2 =
     map (\<lambda>i. ucast (drop_bit (i * 8) r1 AND 0xFF)) [0..<8] @
     map (\<lambda>i. ucast (drop_bit (i * 8) r2 AND 0xFF)) [0..<8]"

definition set_version_and_variant :: "uint8 list \<Rightarrow> uint8 list" where
  "set_version_and_variant b =
     (let b1 = b[6 := (b ! 6 AND 0x0F) OR 0x40]
      in b1[8 := (b1 ! 8 AND 0x3F) OR 0x80])"

definition lower_hex :: "nat \<Rightarrow> char" where
  "lower_hex d = (if d < 10 then char_of (48 + d) else char_of (87 + d))"

text \<open>\<open>setw(2)\<close> with the fill character \<open>0\<close> on a byte in base 16.\<close>

definition emit2 :: "uint8 \<Rightarrow> string" where
  "emit2 b = [lower_hex (unat b div 16), lower_hex (unat b mod 16)]"

definition emit_range :: "uint8 list \<Rightarrow> nat \<Rightarrow> nat \<Rightarrow> string" where
  "emit_range b from_idx to_idx = concat (map (\<lambda>i. emit2 (b ! i)) [from_idx..<to_idx])"

definition format_uuid :: "uint8 list \<Rightarrow> string" where
  "format_uuid b =
     emit_range b 0 4 @ ''-'' @ emit_range b 4 6 @ ''-'' @ emit_range b 6 8 @ ''-'' @
     emit_range b 8 10 @ ''-'' @ emit_range b 10 16"

definition generate :: "uint64 \<Rightarrow> uint64 \<Rightarrow> string" where
  "generate r1 r2 = format_uuid (set_version_and_variant (generate_bytes r1 r2))"

section \<open>Bytes and digits\<close>

lemma lower_hex_inject: "a < 16 \<Longrightarrow> b < 16 \<Longrightarrow> lower_hex a = lower_hex b \<longleftrightarrow> a = b"
proof -
  assume "a < 16" "b < 16"
  moreover have "code (lower_hex d) = (if d < 10 then 48 + d else 87 + d)" if "d < 16" for d
    using that by (simp add: lower_hex_def)
  ultimately have "a = b" if "lower_hex a = lower_hex b"
    using arg_cong [OF that, of code] by (auto simp del: of_char_eq_iff split: if_splits)
  then show ?thesis by blast
qed

lemma byte_parts: "unat b div 16 < 16" "unat b mod 16 < 16" for b :: uint8
  using unsigned_less [of b, where 'a = nat] by (simp_all add: less_mult_imp_div_less)

lemma emit2_inject: "emit2 a = emit2 b \<longleftrightarrow> a = b"
proof
  assume "emit2 a = emit2 b"
  then have "unat a div 16 = unat b div 16" "unat a mod 16 = unat b mod 16"
    using byte_parts [of a] byte_parts [of b] by (simp_all add: emit2_def lower_hex_inject)
  then have "unat a = unat b" by (metis div_mult_mod_eq)
  then show "a = b" by (simp add: word_unat_eq_iff)
qed simp

text \<open>The bytes that are printed, without the list operations that set them.\<close>

definition byte_at :: "nat \<Rightarrow> uint64 \<Rightarrow> uint8" where
  "byte_at i r = ucast (drop_bit (i * 8) r AND 0xFF)"

lemma bytes_explicit:
  "set_version_and_variant (generate_bytes r1 r2) =
     [byte_at 0 r1, byte_at 1 r1, byte_at 2 r1, byte_at 3 r1, byte_at 4 r1, byte_at 5 r1,
      (byte_at 6 r1 AND 0x0F) OR 0x40, byte_at 7 r1,
      (byte_at 0 r2 AND 0x3F) OR 0x80, byte_at 1 r2, byte_at 2 r2, byte_at 3 r2,
      byte_at 4 r2, byte_at 5 r2, byte_at 6 r2, byte_at 7 r2]"
  by (simp add: set_version_and_variant_def generate_bytes_def byte_at_def upt_rec)

lemma format_explicit:
  "format_uuid [b0, b1, b2, b3, b4, b5, b6, b7, b8, b9, b10, b11, b12, b13, b14, b15] =
     emit2 b0 @ emit2 b1 @ emit2 b2 @ emit2 b3 @ ''-'' @ emit2 b4 @ emit2 b5 @ ''-'' @ emit2 b6 @ emit2 b7 @ ''-'' @
     emit2 b8 @ emit2 b9 @ ''-'' @ emit2 b10 @ emit2 b11 @ emit2 b12 @ emit2 b13 @ emit2 b14 @ emit2 b15"
  by (simp add: format_uuid_def emit_range_def upt_rec)

lemma bit_byte_at: "n < 8 \<Longrightarrow> bit (byte_at i r) n \<longleftrightarrow> bit r (i * 8 + n)"
proof -
  assume "n < 8"
  then have "n = 0 \<or> n = 1 \<or> n = 2 \<or> n = 3 \<or> n = 4 \<or> n = 5 \<or> n = 6 \<or> n = 7" by auto
  then show ?thesis by (auto simp: byte_at_def bit_simps)
qed

lemma version_byte: "unat ((b AND 0x0F) OR 0x40) div 16 = 4" for b :: uint8
proof -
  have "drop_bit 4 ((b AND 0x0F) OR 0x40) = 4" by (rule byte_eqI) (auto simp: bit_simps)
  then have "unat (drop_bit 4 ((b AND 0x0F) OR 0x40)) = 4" by (simp only: unat_numeral) simp
  then have "unat ((b AND 0x0F) OR 0x40) div 2 ^ 4 = 4" by (simp only: unat_drop_bit_div)
  then show ?thesis by simp
qed

lemma variant_byte: "unat ((b AND 0x3F) OR 0x80) div 16 \<in> {8, 9, 10, 11}" for b :: uint8
proof -
  have "drop_bit 6 ((b AND 0x3F) OR 0x80) = 2" by (rule byte_eqI) (auto simp: bit_simps)
  then have "unat (drop_bit 6 ((b AND 0x3F) OR 0x80)) = 2" by (simp only: unat_numeral) simp
  then have "unat ((b AND 0x3F) OR 0x80) div 2 ^ 6 = 2" by (simp only: unat_drop_bit_div)
  then show ?thesis by auto
qed

lemma emit2_digits: "set (emit2 b) \<subseteq> set ''0123456789abcdef''"
proof -
  have "list_all (\<lambda>d. lower_hex d \<in> set ''0123456789abcdef'') [0..<16]" by code_simp
  then have "lower_hex d \<in> set ''0123456789abcdef''" if "d < 16" for d
    using that by (simp add: list_all_iff del: list.set upt_rec_numeral)
  then show ?thesis using byte_parts [of b] by (simp add: emit2_def)
qed

section \<open>The properties\<close>

text \<open>Whatever the random numbers, the result has the form of RFC 4122: 36 characters, hyphens after
  8, 12, 16 and 20 hexadecimal digits in lower case, the version digit 4 and a variant digit from 8 to
  b.\<close>

theorem uuid_format:
  "\<exists>a b c d e. generate r1 r2 = a @ ''-'' @ b @ ''-'' @ c @ ''-'' @ d @ ''-'' @ e \<and>
     map length [a, b, c, d, e] = [8, 4, 4, 4, 12] \<and>
     set (concat [a, b, c, d, e]) \<subseteq> set ''0123456789abcdef'' \<and>
     hd c = CHR ''4'' \<and> hd d \<in> set ''89ab''"
proof -
  note b = bytes_explicit [of r1 r2] and e = emit2_digits
  have l: "length (emit2 x) = 2" for x by (simp add: emit2_def)
  have v: "hd (emit2 ((x AND 0x0F) OR 0x40) @ s) = CHR ''4''" for x s
    by (simp add: emit2_def version_byte lower_hex_def char_of_eq_iff)
  have w: "hd (emit2 ((x AND 0x3F) OR 0x80) @ s) \<in> set ''89ab''" for x s
    using variant_byte [of x] by (auto simp: emit2_def lower_hex_def char_of_eq_iff)
  let ?v = "(byte_at 6 r1 AND 0x0F) OR 0x40" and ?w = "(byte_at 0 r2 AND 0x3F) OR 0x80"
  show ?thesis
    by (rule exI [of _ "emit2 (byte_at 0 r1) @ emit2 (byte_at 1 r1) @ emit2 (byte_at 2 r1) @ emit2 (byte_at 3 r1)"],
        rule exI [of _ "emit2 (byte_at 4 r1) @ emit2 (byte_at 5 r1)"],
        rule exI [of _ "emit2 ?v @ emit2 (byte_at 7 r1)"],
        rule exI [of _ "emit2 ?w @ emit2 (byte_at 1 r2)"],
        rule exI [of _ "emit2 (byte_at 2 r2) @ emit2 (byte_at 3 r2) @ emit2 (byte_at 4 r2) @ emit2 (byte_at 5 r2) @
          emit2 (byte_at 6 r2) @ emit2 (byte_at 7 r2)"])
      (use v [of "byte_at 6 r1"] w [of "byte_at 0 r2"] e in
        \<open>simp add: generate_def b format_explicit l Un_subset_iff del: list.set insert_subset\<close>)
qed

definition random_bits1 :: "uint64 \<Rightarrow> uint64" where
  "random_bits1 r = r AND NOT (push_bit 52 (mask 4))"

definition random_bits2 :: "uint64 \<Rightarrow> uint64" where
  "random_bits2 r = r AND NOT (push_bit 6 (mask 2))"

lemma random_bits_eq:
  "random_bits1 r = random_bits1 s \<longleftrightarrow> (\<forall>n < 64. n < 52 \<or> 56 \<le> n \<longrightarrow> bit r n = bit s n)"
  "random_bits2 r = random_bits2 s \<longleftrightarrow> (\<forall>n < 64. n < 6 \<or> 8 \<le> n \<longrightarrow> bit r n = bit s n)"
  by (auto simp: random_bits1_def random_bits2_def bit_eq_iff bit_simps)

lemma emit2_append: "emit2 a @ s = emit2 b @ t \<longleftrightarrow> a = b \<and> s = t"
  using emit2_inject [of a b] by (auto simp: emit2_def)

lemma byte_at_eq: "byte_at i r = byte_at i s \<longleftrightarrow> (\<forall>n < 8. bit r (i * 8 + n) = bit s (i * 8 + n))"
  by (auto simp: bit_eq_iff bit_byte_at dest: bit_imp_le_length)

lemma fixed_bits_eq:
  "(x AND 0x0F) OR 0x40 = (y AND 0x0F) OR 0x40 \<longleftrightarrow> take_bit 4 x = take_bit 4 y"
  "(x AND 0x3F) OR 0x80 = (y AND 0x3F) OR 0x80 \<longleftrightarrow> take_bit 6 x = take_bit 6 y"
  for x y :: uint8
proof -
  have m: "x AND 0x0F = take_bit 4 x" "x AND 0x3F = take_bit 6 x" for x :: uint8
    by (rule byte_eqI; simp add: bit_simps)+
  have t: "take_bit 4 (take_bit 4 x OR 0x40) = take_bit 4 x" "take_bit 6 (take_bit 6 x OR 0x80) = take_bit 6 x" for x :: uint8
    by (rule byte_eqI; simp add: bit_simps)+
  show "(x AND 0x0F) OR 0x40 = (y AND 0x0F) OR 0x40 \<longleftrightarrow> take_bit 4 x = take_bit 4 y"
    "(x AND 0x3F) OR 0x80 = (y AND 0x3F) OR 0x80 \<longleftrightarrow> take_bit 6 x = take_bit 6 y"
    unfolding m by (metis t)+
qed

lemma take_bit_byte_eq:
  "k \<le> 8 \<Longrightarrow> take_bit k (byte_at i r) = take_bit k (byte_at i s) \<longleftrightarrow>
     (\<forall>n < k. bit r (i * 8 + n) = bit s (i * 8 + n))"
  by (simp add: bit_eq_iff bit_take_bit_iff bit_byte_at) (meson less_le_trans)

lemma position_cases:
  fixes n :: nat
  assumes "n < 64"
  obtains q m where "n = q * 8 + m" "m < 8" "q \<in> {0, 1, 2, 3, 4, 5, 6, 7}"
proof
  show "n = n div 8 * 8 + n mod 8" "n mod 8 < 8" by simp_all
  have "n div 8 < 8" using assms by simp
  then show "n div 8 \<in> {0, 1, 2, 3, 4, 5, 6, 7}" by auto
qed

lemma first_bytes_eq:
  "list_all (\<lambda>i. byte_at i r = byte_at i s) [0, 1, 2, 3, 4, 5, 7] \<and>
     (byte_at 6 r AND 0x0F) OR 0x40 = (byte_at 6 s AND 0x0F) OR 0x40 \<longleftrightarrow> random_bits1 r = random_bits1 s"
  (is "?l \<longleftrightarrow> ?r")
proof
  assume l: ?l
  show ?r unfolding random_bits_eq
  proof (intro allI impI)
    fix n :: nat assume n: "n < 64" "n < 52 \<or> 56 \<le> n"
    obtain q m where q: "n = q * 8 + m" "m < 8" "q \<in> {0, 1, 2, 3, 4, 5, 6, 7}" using position_cases [OF n(1)] .
    then show "bit r n = bit s n"
      using l n(2) by (auto simp: byte_at_eq fixed_bits_eq take_bit_byte_eq simp del: One_nat_def)
  qed
qed (simp add: random_bits_eq byte_at_eq fixed_bits_eq take_bit_byte_eq)

lemma last_bytes_eq:
  "list_all (\<lambda>i. byte_at i r = byte_at i s) [1, 2, 3, 4, 5, 6, 7] \<and>
     (byte_at 0 r AND 0x3F) OR 0x80 = (byte_at 0 s AND 0x3F) OR 0x80 \<longleftrightarrow> random_bits2 r = random_bits2 s"
  (is "?l \<longleftrightarrow> ?r")
proof
  assume l: ?l
  show ?r unfolding random_bits_eq
  proof (intro allI impI)
    fix n :: nat assume n: "n < 64" "n < 6 \<or> 8 \<le> n"
    obtain q m where q: "n = q * 8 + m" "m < 8" "q \<in> {0, 1, 2, 3, 4, 5, 6, 7}" using position_cases [OF n(1)] .
    then show "bit r n = bit s n"
      using l n(2) by (auto simp: byte_at_eq fixed_bits_eq take_bit_byte_eq simp del: One_nat_def)
  qed
qed (simp add: random_bits_eq byte_at_eq fixed_bits_eq take_bit_byte_eq)

text \<open>Two identifiers are equal exactly when the random numbers they were made from agree in all but
  the six fixed bits: every other bit is printed, none is reused.\<close>

theorem uuid_keeps_randomness:
  "(generate r1 r2 = generate s1 s2) = (random_bits1 r1 = random_bits1 s1 \<and> random_bits2 r2 = random_bits2 s2)"
  unfolding first_bytes_eq [symmetric] last_bytes_eq [symmetric] generate_def bytes_explicit format_explicit
  by (auto simp: emit2_append emit2_inject)

end
