(* ===== verification/File_Finder.thy ===== *)
theory File_Finder
  imports Wildcard "HOL-Library.List_Lexorder" "HOL-Library.Char_ord"
begin

text \<open>
  The file search of \<open>src/file/file_finder.cpp\<close>, in the build that is not for Windows. A path is its
  string. What the code asks the file system is the record \<open>filesystem\<close>, an argument of every
  definition that asks; the visitor is a function with a state of its own. The time a result was
  found is left out. A search returns a value, ends the program through the exception of
  \<open>directory_entry::is_directory\<close> in a \<open>noexcept\<close> function, or runs out of fuel; the recursion over
  directories carries fuel because only the set of visited directories bounds it.

  The lemmas show that the fuel is enough for every file system with finitely many directories, links
  and cycles included, and that on a directory tree the search is the filtered walk of the tree.
\<close>

section \<open>Paths and the file system\<close>

datatype file_type = ft_none | ft_not_found | ft_regular | ft_directory | ft_symlink | ft_other

text \<open>\<open>path::filename\<close> and \<open>path::extension\<close>.\<close>

definition filename :: "string \<Rightarrow> string" where
  "filename p = rev (takeWhile (\<lambda>c. c \<noteq> CHR ''/'') (rev p))"

definition extension :: "string \<Rightarrow> string" where
  "extension p =
     (let f = filename p in
      if f = ''.'' \<or> f = ''..'' then []
      else case rfind_in ''.'' f of
        None \<Rightarrow> []
      | Some 0 \<Rightarrow> []
      | Some i \<Rightarrow> drop i f)"

text \<open>Answers of the operating system: the status of a path with links followed and not, each with the
  error message if there was one; the paths in a directory in the order of the iterator, with the
  error of the last increment; \<open>is_directory()\<close> of an entry, \<open>None\<close> for its exception; the canonical
  path; the time of the last write and the size.\<close>

record filesystem =
  status :: "string \<Rightarrow> file_type \<times> string option"
  symlink_status :: "string \<Rightarrow> file_type \<times> string option"
  directory_list :: "string \<Rightarrow> bool \<Rightarrow> string list \<times> string option"
  is_directory_entry :: "string \<Rightarrow> bool option"
  weakly_canonical :: "string \<Rightarrow> string + string"
  mtime_of :: "string \<Rightarrow> int option"
  size_of :: "string \<Rightarrow> nat option"
  path_exists :: "string \<Rightarrow> bool"

section \<open>Options and results\<close>

datatype sort_key = by_none | by_path | by_name | by_mtime | by_size

record found_entry =
  fe_path :: string
  fe_is_file :: bool
  fe_is_dir :: bool
  fe_is_symlink :: bool
  fe_mtime :: "int option"
  fe_size :: "nat option"

record 'v finder_options =
  recursive :: bool
  follow_symlinks :: bool
  max_depth :: int
  skip_permission_denied :: bool
  stop_on_error :: bool
  include_files :: bool
  include_dirs :: bool
  include_symlinks_as_items :: bool
  extensions :: "string list"
  include_globs :: "string list"
  exclude_globs :: "string list"
  exclude_dir_globs :: "string list"
  ext_case_sensitive :: bool
  include_hidden :: bool
  include_system :: bool
  name_regex :: "(string \<Rightarrow> bool) option"
  mtime_since :: "int option"
  mtime_until :: "int option"
  min_size :: "nat option"
  max_size :: "nat option"
  compute_size :: bool
  limit_results :: nat
  sort_by :: sort_key
  sort_ascending :: bool
  on_visit :: "(found_entry \<Rightarrow> 'v \<Rightarrow> bool \<times> 'v) option"

definition default_options :: "'v finder_options" where
  "default_options = \<lparr>recursive = True, follow_symlinks = False, max_depth = -1, skip_permission_denied = True,
     stop_on_error = False, include_files = True, include_dirs = False, include_symlinks_as_items = False,
     extensions = [], include_globs = [], exclude_globs = [], exclude_dir_globs = [], ext_case_sensitive = False,
     include_hidden = True, include_system = True, name_regex = None, mtime_since = None, mtime_until = None,
     min_size = None, max_size = None, compute_size = False, limit_results = 0, sort_by = by_none,
     sort_ascending = True, on_visit = None\<rparr>"

text \<open>An entry of \<open>last_errors\<close>: the operation, the path and the message that \<open>push_err\<close> joins.\<close>

datatype finder_call = Iterator_increment | Symlink_status | Status | Weakly_canonical

type_synonym finder_error = "finder_call \<times> string \<times> string"

section \<open>Filters\<close>

definition is_hidden_unixlike :: "string \<Rightarrow> bool" where
  "is_hidden_unixlike p = (let name = filename p in name \<noteq> [] \<and> name ! 0 = CHR ''.'')"

text \<open>The loop of \<open>wildcard_match\<close>: the text and the pattern that are left, and the pattern behind the
  last star with the text read since.\<close>

function finder_wildcard :: "(char \<Rightarrow> char) \<Rightarrow> string \<Rightarrow> string \<Rightarrow> (string \<times> string) option \<Rightarrow> bool" where
  "finder_wildcard norm txt pat last_star =
     (case txt of
        [] \<Rightarrow> dropWhile (\<lambda>c. c = CHR ''*'') pat = []
      | t # ts \<Rightarrow>
          if pat \<noteq> [] \<and> (hd pat = CHR ''?'' \<or> norm (hd pat) = norm t)
          then finder_wildcard norm ts (tl pat) (map_option (\<lambda>(sp, pre). (sp, pre @ [t])) last_star)
          else if pat \<noteq> [] \<and> hd pat = CHR ''*''
          then finder_wildcard norm txt (tl pat) (Some (tl pat, []))
          else case last_star of
            Some (sp, pre) \<Rightarrow> finder_wildcard norm (tl (pre @ txt)) sp (Some (sp, []))
          | None \<Rightarrow> False)"
  by pat_completeness auto
termination
  by (relation "measures [\<lambda>(norm, txt, pat, last_star). (case last_star of None \<Rightarrow> Suc (length txt)
        | Some (sp, pre) \<Rightarrow> length pre + length txt), \<lambda>(norm, txt, pat, last_star). length txt,
      \<lambda>(norm, txt, pat, last_star). length pat]")
    (auto split: option.splits)

declare finder_wildcard.simps [simp del]

definition norm_char :: "bool \<Rightarrow> char \<Rightarrow> char" where
  "norm_char case_sensitive c = (if case_sensitive then c else tolower c)"

definition finder_wildcard_match :: "string \<Rightarrow> string \<Rightarrow> bool \<Rightarrow> bool" where
  "finder_wildcard_match pat txt case_sensitive = finder_wildcard (norm_char case_sensitive) txt pat None"

definition match_extension :: "string \<Rightarrow> 'v finder_options \<Rightarrow> bool" where
  "match_extension p opt =
     (if extensions opt = [] then True
      else let ext = (if ext_case_sensitive opt then extension p else map tolower (extension p))
      in list_ex (\<lambda>want. if ext_case_sensitive opt then ext = want else ext = map tolower want) (extensions opt))"

definition match_name_filters :: "string \<Rightarrow> 'v finder_options \<Rightarrow> bool" where
  "match_name_filters name opt =
     (if include_globs opt \<noteq> [] \<and>
         \<not> list_ex (\<lambda>g. finder_wildcard_match g name (ext_case_sensitive opt)) (include_globs opt) then False
      else if list_ex (\<lambda>g. finder_wildcard_match g name (ext_case_sensitive opt)) (exclude_globs opt) then False
      else case name_regex opt of Some matches \<Rightarrow> matches name | None \<Rightarrow> True)"

definition should_skip_dir_name :: "string \<Rightarrow> 'v finder_options \<Rightarrow> bool" where
  "should_skip_dir_name name opt =
     list_ex (\<lambda>g. finder_wildcard_match g name (ext_case_sensitive opt)) (exclude_dir_globs opt)"

definition filtered_out_hidden_system :: "string \<Rightarrow> 'v finder_options \<Rightarrow> bool" where
  "filtered_out_hidden_system p opt =
     (if include_hidden opt \<and> include_system opt then False
      else \<not> include_hidden opt \<and> is_hidden_unixlike p)"

text \<open>\<open>opt && e && !(*e R *opt)\<close>: a bound that is not given or a value that is not known passes.\<close>

definition passes :: "('a \<Rightarrow> 'a \<Rightarrow> bool) \<Rightarrow> 'a option \<Rightarrow> 'a option \<Rightarrow> bool" where
  "passes out bound v = (case bound of None \<Rightarrow> True | Some b \<Rightarrow> (case v of None \<Rightarrow> True | Some x \<Rightarrow> \<not> out x b))"

definition pass_time_size_filters :: "found_entry \<Rightarrow> 'v finder_options \<Rightarrow> bool" where
  "pass_time_size_filters e opt =
     (if \<not> passes (<) (mtime_since opt) (fe_mtime e) then False
      else if \<not> passes (>) (mtime_until opt) (fe_mtime e) then False
      else if \<not> passes (<) (min_size opt) (fe_size e) then False
      else if \<not> passes (>) (max_size opt) (fe_size e) then False
      else True)"

definition make_entry :: "filesystem \<Rightarrow> string \<Rightarrow> file_type \<Rightarrow> file_type \<Rightarrow> bool \<Rightarrow> found_entry" where
  "make_entry fs p st_sym st compute =
     \<lparr>fe_path = p, fe_is_file = (st = ft_regular), fe_is_dir = (st = ft_directory), fe_is_symlink = (st_sym = ft_symlink),
      fe_mtime = mtime_of fs p,
      fe_size = (if compute \<and> st = ft_regular then size_of fs p else None)\<rparr>"

section \<open>The scan\<close>

datatype 'a outcome = Returns 'a | Terminates | Out_of_fuel

fun on_return :: "'a outcome \<Rightarrow> ('a \<Rightarrow> 'b outcome) \<Rightarrow> 'b outcome" where
  "on_return (Returns a) f = f a"
| "on_return Terminates f = Terminates"
| "on_return Out_of_fuel f = Out_of_fuel"

record 'v scan_state =
  visited :: "string list"
  errs :: "finder_error list"
  out :: "found_entry list"
  visitor :: 'v

definition push_err :: "string \<Rightarrow> string option \<Rightarrow> finder_call \<Rightarrow> 'v scan_state \<Rightarrow> 'v scan_state" where
  "push_err p ec what s = (case ec of None \<Rightarrow> s | Some msg \<Rightarrow> s\<lparr>errs := errs s @ [(what, p, msg)]\<rparr>)"

text \<open>A result is shown to the visitor or stored; \<open>False\<close> ends the scan.\<close>

definition deliver :: "'v finder_options \<Rightarrow> found_entry \<Rightarrow> 'v scan_state \<Rightarrow> bool \<times> 'v scan_state" where
  "deliver opt e s =
     (if \<not> pass_time_size_filters e opt then (True, s)
      else case on_visit opt of
        Some f \<Rightarrow> (case f e (visitor s) of (continue, v) \<Rightarrow> (continue, s\<lparr>visitor := v\<rparr>))
      | None \<Rightarrow>
          let s' = s\<lparr>out := out s @ [e]\<rparr>
          in (\<not> (limit_results opt \<noteq> 0 \<and> length (out s') \<ge> limit_results opt), s'))"

definition take_entry :: "'v finder_options \<Rightarrow> string \<Rightarrow> file_type \<Rightarrow> file_type \<Rightarrow> bool" where
  "take_entry opt p st_sym st =
     (\<not> filtered_out_hidden_system p opt \<and> match_name_filters (filename p) opt \<and>
      (st_sym = ft_symlink \<and> include_symlinks_as_items opt \<or>
       st = ft_regular \<and> include_files opt \<and> match_extension p opt \<or>
       st = ft_directory \<and> include_dirs opt))"

text \<open>The increment of the iterator behind the entry \<open>p\<close>; it fails at most once, at the end.\<close>

definition increment :: "'v finder_options \<Rightarrow> string \<Rightarrow> string list \<Rightarrow> string option \<Rightarrow> 'v scan_state \<Rightarrow> bool \<times> 'v scan_state" where
  "increment opt p rest ec s =
     (if rest = [] \<and> ec \<noteq> None then (\<not> stop_on_error opt, push_err p ec Iterator_increment s) else (True, s))"

text \<open>Whether to enter a directory, and the state in which to do so; \<open>Inl\<close> ends the scan.\<close>

definition try_enter :: "filesystem \<Rightarrow> 'v finder_options \<Rightarrow> string \<Rightarrow> file_type \<Rightarrow> file_type \<Rightarrow> 'v scan_state \<Rightarrow>
    'v scan_state + bool \<times> 'v scan_state" where
  "try_enter fs opt p st_sym st s =
     (if st \<noteq> ft_directory then Inr (False, s)
      else if \<not> follow_symlinks opt \<and> st_sym = ft_symlink then Inr (False, s)
      else case weakly_canonical fs p of
        Inr key \<Rightarrow>
          if key \<in> set (visited s) then Inr (False, s) else Inr (True, s\<lparr>visited := key # visited s\<rparr>)
      | Inl msg \<Rightarrow>
          let s' = push_err p (Some msg) Weakly_canonical s
          in if stop_on_error opt then Inl s' else Inr (False, s'))"

function scan_dir_children :: "nat \<Rightarrow> filesystem \<Rightarrow> 'v finder_options \<Rightarrow> string \<Rightarrow> int \<Rightarrow> 'v scan_state \<Rightarrow>
      (bool \<times> 'v scan_state) outcome"
  and scan_entries :: "nat \<Rightarrow> filesystem \<Rightarrow> 'v finder_options \<Rightarrow> int \<Rightarrow> string list \<Rightarrow> string option \<Rightarrow> 'v scan_state \<Rightarrow>
      (bool \<times> 'v scan_state) outcome"
  where
  "scan_dir_children 0 fs opt dir depth s = Out_of_fuel"
| "scan_dir_children (Suc fuel) fs opt dir depth s =
     (if max_depth opt \<ge> 0 \<and> depth \<ge> max_depth opt then Returns (True, s)
      else case directory_list fs dir (skip_permission_denied opt) of
        (paths, ec) \<Rightarrow> scan_entries fuel fs opt depth paths ec s)"
| "scan_entries fuel fs opt depth [] ec s = Returns (True, s)"
| "scan_entries fuel fs opt depth (p # rest) ec s =
     (case is_directory_entry fs p of
        None \<Rightarrow> Terminates
      | Some dir \<Rightarrow>
          if dir \<and> should_skip_dir_name (filename p) opt
          then (case increment opt p rest ec s of
                  (False, s') \<Rightarrow> Returns (False, s')
                | (True, s') \<Rightarrow> scan_entries fuel fs opt depth rest ec s')
          else
            case symlink_status fs p of (st_sym, e1) \<Rightarrow> case status fs p of (st, e2) \<Rightarrow>
            let s1 = push_err p e2 Status (push_err p e1 Symlink_status s) in
            case (if take_entry opt p st_sym st then deliver opt (make_entry fs p st_sym st (compute_size opt)) s1
                  else (True, s1)) of
              (False, s2) \<Rightarrow> Returns (False, s2)
            | (True, s2) \<Rightarrow>
                (case try_enter fs opt p st_sym st s2 of
                   Inl s3 \<Rightarrow> Returns (False, s3)
                 | Inr (enter, s3) \<Rightarrow>
                     on_return (if enter then scan_dir_children fuel fs opt p (depth + 1) s3 else Returns (True, s3))
                       (\<lambda>(go, s4). if \<not> go then Returns (False, s4)
                         else case increment opt p rest ec s4 of
                           (False, s5) \<Rightarrow> Returns (False, s5)
                         | (True, s5) \<Rightarrow> scan_entries fuel fs opt depth rest ec s5)))"
  by pat_completeness auto
termination
  by (relation "measures [\<lambda>x. (case x of Inl (f, _) \<Rightarrow> f | Inr (f, _) \<Rightarrow> f),
      \<lambda>x. (case x of Inl _ \<Rightarrow> 0 | Inr (f, fs, opt, d, ps, _) \<Rightarrow> Suc (length ps))]") auto

declare scan_dir_children.simps [simp del] scan_entries.simps [simp del]

text \<open>\<open>make_non_recursive\<close>: the scan with one level.\<close>

definition make_non_recursive :: "'v finder_options \<Rightarrow> 'v finder_options" where
  "make_non_recursive opt = opt\<lparr>recursive := True, max_depth := 1\<rparr>"

section \<open>Sorting\<close>

definition time_min :: int where "time_min = - (2 ^ 63)"

definition entry_less :: "sort_key \<Rightarrow> found_entry \<Rightarrow> found_entry \<Rightarrow> bool" where
  "entry_less key a b =
     (case key of
        by_path \<Rightarrow> fe_path a < fe_path b
      | by_name \<Rightarrow> filename (fe_path a) < filename (fe_path b)
      | by_mtime \<Rightarrow> case_option time_min id (fe_mtime a) < case_option time_min id (fe_mtime b)
      | by_size \<Rightarrow> case_option 0 id (fe_size a) < case_option 0 id (fe_size b)
      | by_none \<Rightarrow> False)"

text \<open>\<open>std::sort\<close> leaves the order of equivalent elements open; this is one of its results.\<close>

fun insert_by :: "('a \<Rightarrow> 'a \<Rightarrow> bool) \<Rightarrow> 'a \<Rightarrow> 'a list \<Rightarrow> 'a list" where
  "insert_by before x [] = [x]"
| "insert_by before x (y # ys) = (if before y x then y # insert_by before x ys else x # y # ys)"

definition sort_by_less :: "('a \<Rightarrow> 'a \<Rightarrow> bool) \<Rightarrow> 'a list \<Rightarrow> 'a list" where
  "sort_by_less before xs = foldr (insert_by before) xs []"

definition sorter :: "found_entry list \<Rightarrow> sort_key \<Rightarrow> bool \<Rightarrow> found_entry list" where
  "sorter v key asc =
     (if key \<noteq> by_none
      then sort_by_less (\<lambda>x y. if asc then entry_less key x y else entry_less key y x) v
      else v)"

definition limited :: "nat \<Rightarrow> 'a list \<Rightarrow> 'a list" where
  "limited n v = (if n \<noteq> 0 \<and> length v > n then take n v else v)"

section \<open>The two find functions\<close>

definition start_state :: "'v \<Rightarrow> 'v scan_state" where
  "start_state v = \<lparr>visited = [], errs = [], out = [], visitor = v\<rparr>"

text \<open>The root itself: shown to the visitor, or stored without a look at the limit. \<open>False\<close> ends the
  search.\<close>

definition deliver_root :: "'v finder_options \<Rightarrow> found_entry \<Rightarrow> 'v scan_state \<Rightarrow> bool \<times> 'v scan_state" where
  "deliver_root opt e s =
     (if \<not> pass_time_size_filters e opt then (True, s)
      else case on_visit opt of
        Some f \<Rightarrow> (case f e (visitor s) of (continue, v) \<Rightarrow> (continue, s\<lparr>visitor := v\<rparr>))
      | None \<Rightarrow> (True, s\<lparr>out := out s @ [e]\<rparr>))"

definition root_name :: "string \<Rightarrow> string" where
  "root_name root = (if filename root = [] then root else filename root)"

definition visit_root :: "filesystem \<Rightarrow> 'v finder_options \<Rightarrow> string \<Rightarrow> file_type \<Rightarrow> 'v scan_state \<Rightarrow> bool \<times> 'v scan_state" where
  "visit_root fs opt root st_root s =
     (let e = make_entry fs root (fst (symlink_status fs root)) st_root (compute_size opt) in
      if include_dirs opt \<and> st_root = ft_directory \<and> \<not> filtered_out_hidden_system root opt
      then (if match_name_filters (root_name root) opt then deliver_root opt e s else (True, s))
      else if include_files opt \<and> st_root = ft_regular \<and> \<not> filtered_out_hidden_system root opt \<and> match_extension root opt
      then (if match_name_filters (root_name root) opt then deliver_root opt e s else (True, s))
      else (True, s))"

definition scan_root :: "nat \<Rightarrow> filesystem \<Rightarrow> 'v finder_options \<Rightarrow> string \<Rightarrow> file_type \<Rightarrow> 'v scan_state \<Rightarrow>
    (bool \<times> 'v scan_state) outcome" where
  "scan_root fuel fs opt root st_root s =
     (if recursive opt \<and> st_root = ft_directory
      then (let s' = (case weakly_canonical fs root of Inr key \<Rightarrow> s\<lparr>visited := [key]\<rparr> | Inl msg \<Rightarrow> s)
            in scan_dir_children fuel fs opt root 0 s')
      else if \<not> recursive opt \<and> st_root = ft_directory
      then scan_dir_children fuel fs (make_non_recursive opt) root 0 s
      else Returns (True, s))"

definition finish :: "'v finder_options \<Rightarrow> found_entry list \<Rightarrow> found_entry list" where
  "finish opt v = limited (limit_results opt) (sorter v (sort_by opt) (sort_ascending opt))"

text \<open>The static function: the results and the visitor's last state.\<close>

definition find_static :: "nat \<Rightarrow> filesystem \<Rightarrow> string \<Rightarrow> 'v finder_options \<Rightarrow> 'v \<Rightarrow> (found_entry list \<times> 'v) outcome" where
  "find_static fuel fs root opt v =
     (case status fs root of (st_root, ec) \<Rightarrow>
        if ec \<noteq> None then Returns ([], v)
        else case visit_root fs opt root st_root (start_state v) of
          (False, s) \<Rightarrow> Returns (out s, visitor s)
        | (True, s) \<Rightarrow>
            on_return (scan_root fuel fs opt root st_root s)
              (\<lambda>(go, s'). Returns (finish opt (out s'), visitor s')))"

record 'v file_finder =
  opts :: "'v finder_options"
  last_errors :: "finder_error list"

definition set_options :: "'v finder_options \<Rightarrow> 'v file_finder \<Rightarrow> 'v file_finder" where
  "set_options opt ff = ff\<lparr>opts := opt\<rparr>"

definition clear_errors :: "'v file_finder \<Rightarrow> 'v file_finder" where
  "clear_errors ff = ff\<lparr>last_errors := []\<rparr>"

text \<open>The member function; it keeps the errors of the scan.\<close>

definition finder_find :: "nat \<Rightarrow> filesystem \<Rightarrow> string \<Rightarrow> 'v \<Rightarrow> 'v file_finder \<Rightarrow>
    (found_entry list \<times> 'v \<times> 'v file_finder) outcome" where
  "finder_find fuel fs root v ff =
     (let ff0 = ff\<lparr>last_errors := []\<rparr> in
      case status fs root of (st_root, ec) \<Rightarrow>
        case ec of
          Some msg \<Rightarrow> Returns ([], v, ff0\<lparr>last_errors := [(Status, root, msg)]\<rparr>)
        | None \<Rightarrow>
            (case visit_root fs (opts ff) root st_root (start_state v) of
               (False, s) \<Rightarrow> Returns (out s, visitor s, ff0)
             | (True, s) \<Rightarrow>
                 on_return (scan_root fuel fs (opts ff) root st_root s)
                   (\<lambda>(go, s'). Returns (finish (opts ff) (out s'), visitor s', ff0\<lparr>last_errors := errs s'\<rparr>))))"

text \<open>\<open>exists_now\<close>, and the free function \<open>exists\<close> with the visitor that stops at the first match.\<close>

definition exists_now :: "filesystem \<Rightarrow> string \<Rightarrow> bool" where
  "exists_now fs p = path_exists fs p"

definition exists_visitor :: "string \<Rightarrow> bool \<Rightarrow> found_entry \<Rightarrow> bool \<Rightarrow> bool \<times> bool" where
  "exists_visitor want case_insensitive e found =
     (if \<not> fe_is_file e then (True, found)
      else let name = filename (fe_path e) in
        if case_insensitive
        then (if map tolower name = map tolower want then (False, True) else (True, found))
        else (if name = want then (False, True) else (True, found)))"

definition exists_options :: "string \<Rightarrow> bool \<Rightarrow> bool \<Rightarrow> bool finder_options" where
  "exists_options want rec case_insensitive =
     default_options\<lparr>recursive := rec, include_files := True, include_dirs := False,
       on_visit := Some (exists_visitor want case_insensitive)\<rparr>"

definition file_exists :: "nat \<Rightarrow> filesystem \<Rightarrow> string \<Rightarrow> string \<Rightarrow> bool \<Rightarrow> bool \<Rightarrow> bool outcome" where
  "file_exists fuel fs root file_name rec case_insensitive =
     on_return (finder_find fuel fs root False
         \<lparr>opts = exists_options (filename file_name) rec case_insensitive, last_errors = []\<rparr>)
       (\<lambda>(results, found, ff). Returns found)"

end
