(* ===== verification/File_Search.thy ===== *)
theory File_Search
  imports File_Finder
begin

text \<open>
  What the searches of \<open>File_Finder\<close> find. The name filters decide the usual glob patterns; a search
  ends on every file system with finitely many directories; and on a directory tree it is the filtered
  walk of the tree, from which the answer of the free function \<open>exists\<close> follows.
\<close>

section \<open>Wildcards\<close>

lemma tolower_special: "tolower c = CHR ''*'' \<longleftrightarrow> c = CHR ''*''" "tolower c = CHR ''?'' \<longleftrightarrow> c = CHR ''?''"
  unfolding char_eq_code tolower_code by (auto simp: isupper_def)

lemma norm_special: "norm_char cs c = CHR ''*'' \<longleftrightarrow> c = CHR ''*''" "norm_char cs c = CHR ''?'' \<longleftrightarrow> c = CHR ''?''"
  by (simp_all add: norm_char_def tolower_special)

lemma finder_wildcard_impl:
  "norm = norm_char cs \<Longrightarrow> finder_wildcard norm txt pat last_star =
     wildcard_impl (map norm txt) (map norm pat) (map_option (\<lambda>(sp, pre). (map norm sp, map norm pre)) last_star)"
proof (induction norm "txt" pat last_star rule: finder_wildcard.induct)
  case (1 norm s pat last_star)
  show ?case
  proof (cases s)
    case Nil
    then show ?thesis
      by (subst finder_wildcard.simps, subst wildcard_impl.simps) (simp add: 1(4) norm_special)
  next
    case (Cons t ts)
    show ?thesis
    proof (cases "pat \<noteq> [] \<and> (hd pat = CHR ''?'' \<or> norm (hd pat) = norm t)")
      case True
      then show ?thesis using 1(1) [OF Cons True 1(4)]
        by (subst finder_wildcard.simps, subst wildcard_impl.simps)
          (cases pat; cases last_star; auto simp: Cons 1(4) norm_special)
    next
      case no: False
      show ?thesis
      proof (cases "pat \<noteq> [] \<and> hd pat = CHR ''*''")
        case True
        then show ?thesis using no 1(2) [OF Cons no True 1(4)]
          by (subst finder_wildcard.simps, subst wildcard_impl.simps)
            (cases pat; auto simp: Cons 1(4) norm_special)
      next
        case False
        show ?thesis
        proof (cases last_star)
          case None
          then show ?thesis using no False
            by (subst finder_wildcard.simps, subst wildcard_impl.simps) (cases pat; auto simp: Cons 1(4) norm_special)
        next
          case (Some x)
          obtain sp pre where x: "x = (sp, pre)" by fastforce
          show ?thesis using no False 1(3) [OF Cons no False Some x [symmetric] 1(4)] Some x
            by (subst finder_wildcard.simps, subst wildcard_impl.simps)
              (cases pat; auto simp: Cons 1(4) norm_special map_tl)
        qed
      qed
    qed
  qed
qed

text \<open>For a name without a star the filters decide the glob, up to the case of letters when that is
  asked for.\<close>

lemma finder_wildcard_glob:
  assumes "CHR ''*'' \<notin> set name"
  shows "finder_wildcard_match pat name cs \<longleftrightarrow> glob (map (norm_char cs) pat) (map (norm_char cs) name)"
proof -
  have "CHR ''*'' \<notin> set (map (norm_char cs) name)" 
  proof
    assume "CHR ''*'' \<in> set (map (norm_char cs) name)"
    then obtain c where "c \<in> set name" "norm_char cs c = CHR ''*''" by auto
    with norm_special(1) assms show False by simp
  qed
  then have "wildcard_impl (map (norm_char cs) name) (map (norm_char cs) pat) None =
      state_matches (map (norm_char cs) name) (map (norm_char cs) pat) None"
    by (rule wildcard_impl_matches) (simp_all add: state_ok_def)
  then show ?thesis
    unfolding finder_wildcard_match_def by (subst finder_wildcard_impl [OF refl]) (simp add: state_matches_def)
qed

section \<open>The fuel\<close>

text \<open>\<open>U\<close> holds the canonical paths of the directories of a file system: several paths, through dots
  and symbolic links, lead to each. Paths that lead to no directory are not restricted.\<close>

definition dirs_within :: "filesystem \<Rightarrow> string set \<Rightarrow> bool" where
  "dirs_within fs U \<longleftrightarrow>
     (\<forall>p key. fst (status fs p) = ft_directory \<and> weakly_canonical fs p = Inr key \<longrightarrow> key \<in> U)"

definition fresh :: "string set \<Rightarrow> 'v scan_state \<Rightarrow> nat" where
  "fresh U s = card (U - set (visited s))"

lemma deliver_visited: "visited (snd (deliver opt e s)) = visited s"
  by (simp add: deliver_def Let_def split: option.split prod.split)

lemma push_err_visited [simp]: "visited (push_err p ec what s) = visited s"
  by (simp add: push_err_def split: option.split)

lemma increment_visited: "visited (snd (increment opt p rest ec s)) = visited s"
  by (simp add: increment_def)

lemma try_enter_visited:
  "try_enter fs opt p a b s = Inr (False, s') \<Longrightarrow> visited s' = visited s"
  "try_enter fs opt p a b s = Inr (True, s') \<Longrightarrow>
     b = ft_directory \<and>
     (\<exists>key. weakly_canonical fs p = Inr key \<and> key \<notin> set (visited s) \<and> visited s' = key # visited s)"
  by (auto simp: try_enter_def Let_def split: if_splits sum.splits)

lemma fresh_enter:
  assumes "finite U" "dirs_within fs U"
    "try_enter fs opt p a (fst (status fs p)) s = Inr (True, s')"
  shows "fresh U s = Suc (fresh U s')"
proof -
  obtain key where k: "key \<in> U" "key \<notin> set (visited s)" "visited s' = key # visited s"
    using try_enter_visited(2) [OF assms(3)] assms(2) unfolding dirs_within_def by blast
  then have "U - set (visited s) = insert key (U - set (visited s'))" "key \<notin> U - set (visited s')" by auto
  moreover have "finite (U - set (visited s'))" using assms(1) by simp
  ultimately show ?thesis unfolding fresh_def by (metis card_insert_disjoint)
qed

lemma fresh_mono: "finite U \<Longrightarrow> set (visited s) \<subseteq> set (visited s') \<Longrightarrow> fresh U s' \<le> fresh U s"
  unfolding fresh_def by (rule card_mono) auto

definition fuelled :: "string set \<Rightarrow> 'v scan_state \<Rightarrow> (bool \<times> 'v scan_state) outcome \<Rightarrow> bool" where
  "fuelled U s r = (case r of Returns (go, s') \<Rightarrow> set (visited s) \<subseteq> set (visited s')
     | Terminates \<Rightarrow> True | Out_of_fuel \<Rightarrow> False)"

lemma fuelled_mono:
  "set (visited s) \<subseteq> set (visited s') \<Longrightarrow> fuelled U s' r \<Longrightarrow> fuelled U s r"
  by (auto simp: fuelled_def split: outcome.splits)

lemma fuelled_Returns [simp]: "fuelled U s (Returns (go, s')) \<longleftrightarrow> set (visited s) \<subseteq> set (visited s')"
  by (simp add: fuelled_def)

lemma fuelled_Terminates [simp]: "fuelled U s Terminates"
  by (simp add: fuelled_def)

lemma fuelled_bind:
  assumes "fuelled U s r" "\<And>go s'. r = Returns (go, s') \<Longrightarrow> set (visited s) \<subseteq> set (visited s') \<Longrightarrow> fuelled U s (f (go, s'))"
  shows "fuelled U s (on_return r f)"
  using assms by (cases r) (auto simp: fuelled_def)

lemma scan_entries_fuelled:
  assumes U: "finite U" "dirs_within fs U"
    and D: "\<And>dir depth s :: 'v scan_state. fresh U s < fuel \<Longrightarrow> fuelled U s (scan_dir_children fuel fs opt dir depth s)"
  shows "fresh U s \<le> fuel \<Longrightarrow> fuelled U s (scan_entries fuel fs opt depth paths ec s)"
proof (induction paths arbitrary: s)
  case Nil
  then show ?case by (simp add: scan_entries.simps)
next
  case (Cons p rest)
  have next_entry: "fuelled U s (case increment opt p rest ec s' of
      (False, s5) \<Rightarrow> Returns (False, s5) | (True, s5) \<Rightarrow> scan_entries fuel fs opt depth rest ec s5)"
    if "set (visited s) \<subseteq> set (visited s')" for s'
  proof -
    obtain b s5 where i: "increment opt p rest ec s' = (b, s5)" by fastforce
    then have v: "set (visited s) \<subseteq> set (visited s5)"
      using that increment_visited [of opt p rest ec s'] by simp
    moreover have "fuelled U s5 (scan_entries fuel fs opt depth rest ec s5)"
      using fresh_mono [OF U(1) v] Cons.prems by (intro Cons.IH) simp
    ultimately show ?thesis by (auto simp: i intro: fuelled_mono split: bool.split)
  qed
  obtain dir where dir: "is_directory_entry fs p = Some dir \<or> is_directory_entry fs p = None"
    by (cases "is_directory_entry fs p") auto
  obtain st_sym e1 st e2 where st: "symlink_status fs p = (st_sym, e1)" "status fs p = (st, e2)"
    by fastforce
  define s1 where "s1 = push_err p e2 Status (push_err p e1 Symlink_status s)"
  obtain b s2 where t: "(if take_entry opt p st_sym st then deliver opt (make_entry fs p st_sym st (compute_size opt)) s1
      else (True, s1)) = (b, s2)" by fastforce
  have v2: "visited s2 = visited s"
    using t deliver_visited [of opt _ s1] by (auto simp: s1_def split: if_splits) (metis push_err_visited snd_conv)
  have enter: "fuelled U s (on_return (if enter then scan_dir_children fuel fs opt p (depth + 1) s3 else Returns (True, s3))
      (\<lambda>(go, s4). if \<not> go then Returns (False, s4) else case increment opt p rest ec s4 of
        (False, s5) \<Rightarrow> Returns (False, s5) | (True, s5) \<Rightarrow> scan_entries fuel fs opt depth rest ec s5))"
    if e: "try_enter fs opt p st_sym st s2 = Inr (enter, s3)" for enter s3
  proof (rule fuelled_bind)
    show "fuelled U s (if enter then scan_dir_children fuel fs opt p (depth + 1) s3 else Returns (True, s3))"
    proof (cases enter)
      case True
      with e have e': "try_enter fs opt p st_sym st s2 = Inr (True, s3)" by simp
      have "fresh U s3 < fuel"
        using fresh_enter [OF U, of opt p st_sym s2 s3] e' st(2) Cons.prems v2 by (simp add: fresh_def)
      from D [OF this] have "fuelled U s3 (scan_dir_children fuel fs opt p (depth + 1) s3)" .
      moreover have "set (visited s) \<subseteq> set (visited s3)" using try_enter_visited(2) [OF e'] v2 by auto
      ultimately show ?thesis using True by (simp add: fuelled_mono)
    next
      case False
      with e have "visited s3 = visited s2" using try_enter_visited(1) by simp
      then show ?thesis using False v2 by simp
    qed
  qed (use next_entry in \<open>simp split: bool.split\<close>)
  show ?case
    unfolding scan_entries.simps st s1_def [symmetric] t Let_def prod.case
    using dir next_entry [of s] enter v2
    by (auto split: option.split bool.split sum.split simp: try_enter_def Let_def)
qed

lemma scan_fuelled:
  assumes U: "finite U" "dirs_within fs U"
  shows "fresh U s < fuel \<Longrightarrow> fuelled U s (scan_dir_children fuel fs opt dir depth s)"
proof (induction fuel arbitrary: dir depth s)
  case (Suc fuel)
  have "fuelled U s (scan_entries fuel fs opt depth paths ec s)" for paths ec
    using scan_entries_fuelled [OF U, where fuel = fuel and s = s and opt = opt] Suc.IH Suc.prems by simp
  then show ?case by (subst scan_dir_children.simps) (auto split: prod.split)
qed simp

lemma scan_root_fuelled:
  assumes U: "finite U" "dirs_within fs U" and "card U < fuel"
  shows "scan_root fuel fs opt root st s \<noteq> Out_of_fuel"
proof -
  have "fresh U s' < fuel" for s' :: "'a scan_state"
    using assms(3) card_mono [OF U(1), of "U - set (visited s')"] by (simp add: fresh_def)
  then have "scan_dir_children fuel fs o' root 0 s' \<noteq> Out_of_fuel" for o' :: "'a finder_options" and s'
    using scan_fuelled [OF U, where fuel = fuel and s = s' and opt = o' and dir = root and depth = 0]
    by (auto simp: fuelled_def split: outcome.splits)
  then show ?thesis by (simp add: scan_root_def Let_def)
qed

lemma on_return_fuel: "r \<noteq> Out_of_fuel \<Longrightarrow> (\<And>x. f x \<noteq> Out_of_fuel) \<Longrightarrow> on_return r f \<noteq> Out_of_fuel"
  by (cases r) auto

lemma on_return_Returns [simp]: "on_return r (\<lambda>(a, b). Returns (g a b)) = Out_of_fuel \<longleftrightarrow> r = Out_of_fuel"
  by (cases r) auto

lemma finder_find_fuelled:
  assumes "finite U" "dirs_within fs U" "card U < fuel"
  shows "finder_find fuel fs root v ff \<noteq> Out_of_fuel"
  unfolding finder_find_def Let_def
  by (auto simp: scan_root_fuelled [OF assms] split: prod.split option.split bool.split)

text \<open>C24: every search ends, with results or with the exception that ends the program, on any file
  system with finitely many directories: fuel beyond their number is enough, whatever symbolic links,
  cycles of links and errors there are, because no directory is entered twice.\<close>

theorem finder_terminates:
  assumes "finite U" "dirs_within fs U" "card U < fuel"
  shows "find_static fuel fs root opt v \<noteq> Out_of_fuel \<and> finder_find fuel fs root v ff \<noteq> Out_of_fuel \<and>
    file_exists fuel fs root file_name rec ci \<noteq> Out_of_fuel"
proof (intro conjI)
  show "find_static fuel fs root opt v \<noteq> Out_of_fuel"
    unfolding find_static_def
    by (auto simp: scan_root_fuelled [OF assms] split: prod.split bool.split)
  show "file_exists fuel fs root file_name rec ci \<noteq> Out_of_fuel"
    unfolding file_exists_def
    by (rule on_return_fuel [OF finder_find_fuelled [OF assms]]) (simp split: prod.split)
qed (rule finder_find_fuelled [OF assms])

text \<open>A directory \<open>/d\<close> whose only entry is the link \<open>/d/l\<close> to itself: \<open>/d\<close>, \<open>/d/l\<close>, \<open>/d/l/l\<close> and so on
  are paths of one directory, and there is nothing at any other path.\<close>

fun link_chain :: "string \<Rightarrow> bool" where
  "link_chain [] = True"
| "link_chain [c] = False"
| "link_chain (c # d # p) = (c = CHR ''/'' \<and> d = CHR ''l'' \<and> link_chain p)"

definition names_d :: "string \<Rightarrow> bool" where
  "names_d p \<longleftrightarrow> take 2 p = ''/d'' \<and> link_chain (drop 2 p)"

definition cyclic_fs :: filesystem where
  "cyclic_fs = \<lparr>
     status = (\<lambda>p. if names_d p then (ft_directory, None) else (ft_not_found, Some ''No such file'')),
     symlink_status = (\<lambda>p. if p = ''/d'' then (ft_directory, None) else if names_d p then (ft_symlink, None)
        else (ft_not_found, Some ''No such file'')),
     directory_list = (\<lambda>p skip. if names_d p then ([p @ ''/l''], None) else ([], Some ''No such file'')),
     is_directory_entry = (\<lambda>p. if names_d p then Some True else None),
     weakly_canonical = (\<lambda>p. Inr (if names_d p then ''/d'' else p)), mtime_of = (\<lambda>p. None), size_of = (\<lambda>p. None),
     path_exists = names_d\<rparr>"

lemma cyclic_dirs: "dirs_within cyclic_fs {''/d''}"
  by (simp add: dirs_within_def cyclic_fs_def split: if_splits)

theorem finder_terminates_witness:
  "find_static 2 cyclic_fs ''/d'' (default_options\<lparr>follow_symlinks := True, include_dirs := True\<rparr>) () \<noteq> Out_of_fuel \<and>
   file_exists 2 cyclic_fs ''/d'' ''x'' True True \<noteq> Out_of_fuel"
  using finder_terminates [of "{''/d''}" cyclic_fs 2 "''/d''" "default_options\<lparr>follow_symlinks := True, include_dirs := True\<rparr>"
      "()" "undefined" "''x''" True True]
  by (simp add: cyclic_dirs)

text \<open>The search that follows links finds the link and does not enter the directory again; the file
  system of a tree, defined below, has finitely many directories too.\<close>

lemma cyclic_search:
  "(case find_static 2 cyclic_fs ''/d'' (default_options\<lparr>follow_symlinks := True, include_dirs := True\<rparr>) () of
      Returns (es, v) \<Rightarrow> map fe_path es | _ \<Rightarrow> []) = [''/d'', ''/d/l'']"
  by code_simp

section \<open>The search on a tree\<close>

text \<open>A tree of files and directories, each child with its path, and the file systems that show it at a
  path without an error.\<close>

datatype tree = File | Directory (children: "(string \<times> tree) list")

abbreviation is_dir :: "tree \<Rightarrow> bool" where
  "is_dir t \<equiv> t \<noteq> File"

definition type_of :: "bool \<Rightarrow> file_type" where
  "type_of dir = (if dir then ft_directory else ft_regular)"

fun represents :: "filesystem \<Rightarrow> bool \<Rightarrow> string \<Rightarrow> tree \<Rightarrow> bool" where
  "represents fs skip p File \<longleftrightarrow>
     is_directory_entry fs p = Some False \<and> status fs p = (ft_regular, None) \<and> symlink_status fs p = (ft_regular, None)"
| "represents fs skip p (Directory cs) \<longleftrightarrow>
     is_directory_entry fs p = Some True \<and> status fs p = (ft_directory, None) \<and>
     symlink_status fs p = (ft_directory, None) \<and> directory_list fs p skip = (map fst cs, None) \<and>
     (case weakly_canonical fs p of Inr key \<Rightarrow> True | Inl msg \<Rightarrow> False) \<and>
     list_all (\<lambda>(q, c). represents fs skip q c) cs"

definition canon :: "filesystem \<Rightarrow> string \<Rightarrow> string" where
  "canon fs p = case_sum id id (weakly_canonical fs p)"

text \<open>The directories of a tree, the root included.\<close>

fun directories :: "string \<Rightarrow> tree \<Rightarrow> string list" where
  "directories p File = []"
| "directories p (Directory cs) = p # concat (map (\<lambda>(q, c). directories q c) cs)"

text \<open>The walk: the paths below a directory down to the maximal depth, children before their
  descendants, without the directories that are skipped by name.\<close>

fun walk :: "'v finder_options \<Rightarrow> int \<Rightarrow> tree \<Rightarrow> (string \<times> bool) list" where
  "walk opt depth File = []"
| "walk opt depth (Directory cs) =
     (if max_depth opt \<ge> 0 \<and> depth \<ge> max_depth opt then []
      else concat (map (\<lambda>(q, c). if is_dir c \<and> should_skip_dir_name (filename q) opt then []
                                 else (q, is_dir c) # walk opt (depth + 1) c) cs))"

definition entry_of :: "filesystem \<Rightarrow> 'v finder_options \<Rightarrow> string \<times> bool \<Rightarrow> found_entry" where
  "entry_of fs opt x = make_entry fs (fst x) (type_of (snd x)) (type_of (snd x)) (compute_size opt)"

definition wanted :: "'v finder_options \<Rightarrow> string \<times> bool \<Rightarrow> bool" where
  "wanted opt x = take_entry opt (fst x) (type_of (snd x)) (type_of (snd x))"

definition entries :: "filesystem \<Rightarrow> 'v finder_options \<Rightarrow> (string \<times> bool) list \<Rightarrow> found_entry list" where
  "entries fs opt xs = map (entry_of fs opt) (filter (wanted opt) xs)"

text \<open>Delivering entries until the visitor or the limit says stop.\<close>

fun deliver_all :: "'v finder_options \<Rightarrow> found_entry list \<Rightarrow> 'v scan_state \<Rightarrow> bool \<times> 'v scan_state" where
  "deliver_all opt [] s = (True, s)"
| "deliver_all opt (e # es) s =
     (case deliver opt e s of (False, s') \<Rightarrow> (False, s') | (True, s') \<Rightarrow> deliver_all opt es s')"

lemma entries_append [simp]: "entries fs opt (xs @ ys) = entries fs opt xs @ entries fs opt ys"
  by (simp add: entries_def)

lemma deliver_all_append:
  "deliver_all opt (xs @ ys) s =
     (case deliver_all opt xs s of (False, s') \<Rightarrow> (False, s') | (True, s') \<Rightarrow> deliver_all opt ys s')"
  by (induction xs arbitrary: s) (auto split: prod.split bool.split)

lemma deliver_visited_update:
  "deliver opt e (s\<lparr>visited := vs\<rparr>) = (case deliver opt e s of (b, s') \<Rightarrow> (b, s'\<lparr>visited := vs\<rparr>))"
  by (simp add: deliver_def Let_def split: option.split prod.split)

lemma deliver_all_visited_update:
  "deliver_all opt es (s\<lparr>visited := vs\<rparr>) = (case deliver_all opt es s of (b, s') \<Rightarrow> (b, s'\<lparr>visited := vs\<rparr>))"
  by (induction es arbitrary: s) (auto simp: deliver_visited_update split: prod.split bool.split)

lemma represents_type:
  "represents fs skip p t \<Longrightarrow> is_directory_entry fs p = Some (is_dir t) \<and> status fs p = (type_of (is_dir t), None) \<and>
     symlink_status fs p = (type_of (is_dir t), None)"
  by (cases t) (auto simp: type_of_def)

lemma represents_canon: "represents fs skip p (Directory cs) \<Longrightarrow> weakly_canonical fs p = Inr (canon fs p)"
  by (auto simp: canon_def split: sum.splits)

text \<open>What the scan of a tree amounts to.\<close>

definition scans :: "filesystem \<Rightarrow> 'v finder_options \<Rightarrow> (string \<times> bool) list \<Rightarrow> string list \<Rightarrow> 'v scan_state \<Rightarrow>
    (bool \<times> 'v scan_state) outcome \<Rightarrow> bool" where
  "scans fs opt xs ds s r \<longleftrightarrow>
     (\<exists>go s' vs. deliver_all opt (entries fs opt xs) s = (go, s') \<and> r = Returns (go, s'\<lparr>visited := vs\<rparr>) \<and>
        set vs \<subseteq> set (visited s) \<union> canon fs ` set ds)"

lemma deliver_all_visited: "visited (snd (deliver_all opt es s)) = visited s"
proof (induction es arbitrary: s)
  case (Cons e es)
  then show ?case using deliver_visited [of opt e s] by (auto split: prod.split bool.split)
qed simp

lemma scans_Nil: "scans fs opt [] ds s (Returns (True, s))"
proof -
  have "s = s\<lparr>visited := visited s\<rparr>" by simp
  then show ?thesis unfolding scans_def entries_def by (intro exI [of _ True] exI [of _ s] exI [of _ "visited s"]) simp
qed

lemma scans_append:
  assumes "scans fs opt xs ds s r"
    "\<And>s'. set (visited s') \<subseteq> set (visited s) \<union> canon fs ` set ds \<Longrightarrow> scans fs opt ys es s' (f s')"
  shows "scans fs opt (xs @ ys) (ds @ es) s
    (on_return r (\<lambda>(go, s'). if \<not> go then Returns (False, s') else f s'))"
proof -
  obtain go s' vs where 1: "deliver_all opt (entries fs opt xs) s = (go, s')" "r = Returns (go, s'\<lparr>visited := vs\<rparr>)"
    "set vs \<subseteq> set (visited s) \<union> canon fs ` set ds" using assms(1) unfolding scans_def by blast
  show ?thesis
  proof (cases go)
    case False
    then show ?thesis using 1 unfolding scans_def
      by (intro exI [of _ False] exI [of _ s'] exI [of _ vs]) (auto simp: deliver_all_append)
  next
    case True
    obtain go2 s2 vs2 where 2: "deliver_all opt (entries fs opt ys) (s'\<lparr>visited := vs\<rparr>) = (go2, s2)"
      "f (s'\<lparr>visited := vs\<rparr>) = Returns (go2, s2\<lparr>visited := vs2\<rparr>)" "set vs2 \<subseteq> set vs \<union> canon fs ` set es"
      using assms(2) [of "s'\<lparr>visited := vs\<rparr>"] 1(3) unfolding scans_def by auto
    obtain s3 where 3: "deliver_all opt (entries fs opt ys) s' = (go2, s3)" "s2 = s3\<lparr>visited := vs\<rparr>"
      using 2(1) by (auto simp: deliver_all_visited_update split: prod.splits)
    show ?thesis unfolding scans_def
      using 1 2 3 True by (intro exI [of _ go2] exI [of _ s3] exI [of _ vs2]) (auto simp: deliver_all_append)
  qed
qed

text \<open>One entry that is a file, a directory that is skipped, and a directory that is entered.\<close>

lemma increment_ok [simp]: "increment opt p rest None s = (True, s)"
  by (simp add: increment_def)

lemma scan_entry:
  assumes "represents fs skip p t" "\<not> (is_dir t \<and> should_skip_dir_name (filename p) opt)"
    "is_dir t \<Longrightarrow> canon fs p \<notin> set (visited s)"
  shows "scan_entries fuel fs opt depth (p # rest) None s =
    (case deliver_all opt (entries fs opt [(p, is_dir t)]) s of
       (False, s2) \<Rightarrow> Returns (False, s2)
     | (True, s2) \<Rightarrow> on_return (if is_dir t then scan_dir_children fuel fs opt p (depth + 1) (s2\<lparr>visited := canon fs p # visited s2\<rparr>)
           else Returns (True, s2))
         (\<lambda>(go, s4). if \<not> go then Returns (False, s4) else scan_entries fuel fs opt depth rest None s4))"
proof -
  note ty = represents_type [OF assms(1)]
  have e: "(if take_entry opt p (type_of (is_dir t)) (type_of (is_dir t)) then
      deliver opt (make_entry fs p (type_of (is_dir t)) (type_of (is_dir t)) (compute_size opt)) s else (True, s)) =
    deliver_all opt (entries fs opt [(p, is_dir t)]) s"
    by (auto simp: entries_def wanted_def entry_of_def split: prod.split bool.split)
  obtain b s2 where d: "deliver_all opt (entries fs opt [(p, is_dir t)]) s = (b, s2)" by fastforce
  have v: "visited s2 = visited s" using deliver_all_visited [of opt "entries fs opt [(p, is_dir t)]" s] d by simp
  have en: "try_enter fs opt p (type_of (is_dir t)) (type_of (is_dir t)) s2 =
      Inr (is_dir t, if is_dir t then s2\<lparr>visited := canon fs p # visited s2\<rparr> else s2)"
  proof (cases t)
    case (Directory cs)
    then have "weakly_canonical fs p = Inr (canon fs p)" using assms(1) represents_canon by simp
    then show ?thesis using assms(3) v Directory by (simp add: try_enter_def type_of_def)
  qed (simp add: try_enter_def type_of_def)
  define dd where "dd = is_dir t"
  define tt where "tt = type_of dd"
  show ?thesis
    using assms(2) ty e d en unfolding scan_entries.simps increment_ok tt_def [symmetric] dd_def [symmetric]
    by (simp add: push_err_def cong: if_cong split: bool.split)
qed

lemma scans_Cons:
  assumes "deliver_all opt (entries fs opt [x]) s = (b, s2)" "b \<Longrightarrow> scans fs opt ys ds (s2\<lparr>visited := vs\<rparr>) r"
    "set vs \<subseteq> set (visited s) \<union> canon fs ` set ds"
  shows "scans fs opt (x # ys) ds s (if b then r else Returns (False, s2))"
proof (cases b)
  case False
  have "visited s2 = visited s" using assms(1) deliver_all_visited [of opt "entries fs opt [x]" s] by simp
  then have "s2\<lparr>visited := visited s\<rparr> = s2" by (metis scan_state.surjective scan_state.update_convs(1))
  then show ?thesis
    using assms(1) False deliver_all_append [of opt "entries fs opt [x]" "entries fs opt ys" s] entries_append [of fs opt "[x]" ys]
    unfolding scans_def by (intro exI [of _ False] exI [of _ s2] exI [of _ "visited s"]) simp
next
  case True
  obtain go s' vs' where 1: "deliver_all opt (entries fs opt ys) (s2\<lparr>visited := vs\<rparr>) = (go, s')"
    "r = Returns (go, s'\<lparr>visited := vs'\<rparr>)" "set vs' \<subseteq> set vs \<union> canon fs ` set ds"
    using assms(2) [OF True] unfolding scans_def by auto
  obtain s3 where 3: "deliver_all opt (entries fs opt ys) s2 = (go, s3)" "s' = s3\<lparr>visited := vs\<rparr>"
    using 1(1) by (auto simp: deliver_all_visited_update split: prod.splits)
  then show ?thesis
    using assms(1,3) True 1 deliver_all_append [of opt "entries fs opt [x]" "entries fs opt ys" s] entries_append [of fs opt "[x]" ys]
    unfolding scans_def by (intro exI [of _ go] exI [of _ s3] exI [of _ vs']) auto
qed

lemma scans_mono: "scans fs opt xs ds s r \<Longrightarrow> set ds \<subseteq> set ds' \<Longrightarrow> scans fs opt xs ds' s r"
  unfolding scans_def by blast

abbreviation inner_dirs :: "(string \<times> tree) list \<Rightarrow> string list" where
  "inner_dirs cs \<equiv> concat (map (\<lambda>(q, c). directories q c) cs)"

abbreviation walk_children :: "'v finder_options \<Rightarrow> int \<Rightarrow> (string \<times> tree) list \<Rightarrow> (string \<times> bool) list" where
  "walk_children opt d cs \<equiv> concat (map (\<lambda>(q, c). if is_dir c \<and> should_skip_dir_name (filename q) opt then []
      else (q, is_dir c) # walk opt (d + 1) c) cs)"

definition unseen :: "filesystem \<Rightarrow> string list \<Rightarrow> 'v scan_state \<Rightarrow> bool" where
  "unseen fs ds s \<longleftrightarrow> distinct (map (canon fs) ds) \<and> set (visited s) \<inter> canon fs ` set ds = {}"

lemma scan_children:
  assumes IH: "\<And>q cs' f d s. (q, Directory cs') \<in> set cs \<Longrightarrow> length (directories q (Directory cs')) \<le> f \<Longrightarrow>
      unseen fs (inner_dirs cs') s \<Longrightarrow> represents fs (skip_permission_denied opt) q (Directory cs') \<Longrightarrow>
      scans fs opt (walk opt d (Directory cs')) (inner_dirs cs') s (scan_dir_children f fs opt q d s)"
    and r: "list_all (\<lambda>(q, c). represents fs (skip_permission_denied opt) q c) cs"
    and f: "length (inner_dirs cs) \<le> f"
  shows "unseen fs (inner_dirs cs) s \<Longrightarrow>
    scans fs opt (walk_children opt d cs) (inner_dirs cs) s (scan_entries f fs opt d (map fst cs) None s)"
  using IH r f
proof (induction cs arbitrary: s)
  case Nil
  then show ?case by (simp add: scan_entries.simps scans_Nil)
next
  case (Cons qc cs)
  obtain q c where qc: "qc = (q, c)" by fastforce
  have rq: "represents fs (skip_permission_denied opt) q c" using Cons.prems(3) by (simp add: qc)
  have un: "distinct (map (canon fs) (directories q c @ inner_dirs cs))"
    "set (visited s) \<inter> canon fs ` set (directories q c @ inner_dirs cs) = {}"
    using Cons.prems(1) by (simp_all add: unseen_def qc image_Un)
  have rest: "scans fs opt (walk_children opt d cs) (inner_dirs cs) s' (scan_entries f fs opt d (map fst cs) None s')"
    if "set (visited s') \<subseteq> set (visited s) \<union> canon fs ` set (directories q c)" for s'
  proof (rule Cons.IH)
    have "canon fs ` set (directories q c) \<inter> canon fs ` set (inner_dirs cs) = {}"
      using un(1) by (simp only: map_append distinct_append set_map)
    moreover have "set (visited s) \<inter> canon fs ` set (inner_dirs cs) = {}"
      using un(2) unfolding set_append image_Un by blast
    ultimately have "set (visited s') \<inter> canon fs ` set (inner_dirs cs) = {}" using that by blast
    then show "unseen fs (inner_dirs cs) s'"
      using un(1) unfolding unseen_def by (simp only: map_append distinct_append) 
    show "list_all (\<lambda>(q, c). represents fs (skip_permission_denied opt) q c) cs" using Cons.prems(3) by simp
    show "length (inner_dirs cs) \<le> f" using Cons.prems(4) by (simp add: qc)
  qed (use Cons.prems(2) in auto)
  show ?case
  proof (cases "is_dir c \<and> should_skip_dir_name (filename q) opt")
    case True
    then have "scan_entries f fs opt d (map fst (qc # cs)) None s = scan_entries f fs opt d (map fst cs) None s"
      using represents_type [OF rq] by (simp add: scan_entries.simps qc)
    moreover have "scans fs opt (walk_children opt d cs) (directories q c @ inner_dirs cs) s
        (scan_entries f fs opt d (map fst cs) None s)"
      using rest [of s] by (rule scans_mono) auto
    ultimately show ?thesis using True by (simp add: qc)
  next
    case no: False
    obtain b s2 where d2: "deliver_all opt (entries fs opt [(q, is_dir c)]) s = (b, s2)" by fastforce
    have v2: "visited s2 = visited s" using deliver_all_visited [of opt "entries fs opt [(q, is_dir c)]" s] d2 by simp
    define r where "r = on_return (if is_dir c then scan_dir_children f fs opt q (d + 1) (s2\<lparr>visited := canon fs q # visited s2\<rparr>)
         else Returns (True, s2)) (\<lambda>(go, s4). if \<not> go then Returns (False, s4) else scan_entries f fs opt d (map fst cs) None s4)"
    have cq: "is_dir c \<Longrightarrow> canon fs q \<notin> set (visited s)" using un(2) by (cases c) auto
    have eq: "scan_entries f fs opt d (map fst (qc # cs)) None s = (if b then r else Returns (False, s2))"
      using scan_entry [OF rq no cq] d2 by (simp add: qc r_def split: bool.split)
    define vs where "vs = (if is_dir c then canon fs q # visited s2 else visited s2)"
    have vs: "set vs \<subseteq> set (visited s) \<union> canon fs ` set (directories q c @ inner_dirs cs)"
      using v2 by (cases c) (auto simp: vs_def)
    have "scans fs opt (walk opt (d + 1) c @ walk_children opt d cs) (directories q c @ inner_dirs cs)
        (s2\<lparr>visited := vs\<rparr>) r"
    proof (cases c)
      case File
      have "s2\<lparr>visited := vs\<rparr> = s2" by (simp add: vs_def File)
      then show ?thesis using File rest [of s2] v2 by (simp add: r_def)
    next
      case (Directory cs')
      let ?s3 = "s2\<lparr>visited := vs\<rparr>"
      have "scans fs opt (walk opt (d + 1) c) (inner_dirs cs') ?s3 (scan_dir_children f fs opt q (d + 1) ?s3)"
      proof -
        have "distinct (map (canon fs) (q # inner_dirs cs'))"
          using un(1) unfolding Directory directories.simps map_append distinct_append by blast
        moreover have "set (visited s) \<inter> canon fs ` set (q # inner_dirs cs') = {}"
          using un(2) unfolding Directory directories.simps set_append image_Un by blast
        moreover have "visited ?s3 = canon fs q # visited s" using v2 by (simp add: vs_def Directory)
        ultimately have "unseen fs (inner_dirs cs') ?s3" unfolding unseen_def
          by (simp only: list.map distinct.simps list.set image_insert set_map) blast
        moreover have "length (directories q (Directory cs')) \<le> f" using Cons.prems(4) by (simp add: qc Directory)
        ultimately show ?thesis using Cons.prems(2) [of q cs' f ?s3 "d + 1"] rq by (simp add: qc Directory)
      qed
      then have "scans fs opt (walk opt (d + 1) c @ walk_children opt d cs) (inner_dirs cs' @ inner_dirs cs) ?s3
          (on_return (scan_dir_children f fs opt q (d + 1) ?s3)
            (\<lambda>(go, s4). if \<not> go then Returns (False, s4) else scan_entries f fs opt d (map fst cs) None s4))"
        by (rule scans_append) (rule rest, auto simp: vs_def v2 Directory)
      moreover have "r = on_return (scan_dir_children f fs opt q (d + 1) ?s3)
            (\<lambda>(go, s4). if \<not> go then Returns (False, s4) else scan_entries f fs opt d (map fst cs) None s4)"
        by (simp add: r_def vs_def Directory)
      ultimately show ?thesis by (auto simp: Directory elim!: scans_mono)
    qed
    moreover have "walk_children opt d (qc # cs) = (q, is_dir c) # walk opt (d + 1) c @ walk_children opt d cs"
      using no by (auto simp: qc)
    moreover have "inner_dirs (qc # cs) = directories q c @ inner_dirs cs" by (simp add: qc)
    ultimately show ?thesis using scans_Cons [OF d2 _ vs] unfolding eq by (simp only:)
  qed
qed

lemma scan_tree:
  "t = Directory cs \<Longrightarrow> represents fs (skip_permission_denied opt) p t \<Longrightarrow> unseen fs (inner_dirs cs) s \<Longrightarrow>
   length (directories p t) \<le> fuel \<Longrightarrow>
   scans fs opt (walk opt d t) (inner_dirs cs) s (scan_dir_children fuel fs opt p d s)"
proof (induction t arbitrary: p cs d s fuel)
  case (Directory cs0)
  then obtain f where f: "fuel = Suc f" "length (inner_dirs cs) \<le> f" by (cases fuel) auto
  have cs: "cs0 = cs" using Directory.prems(1) by simp
  show ?case
  proof (cases "max_depth opt \<ge> 0 \<and> d \<ge> max_depth opt")
    case True
    have "scans fs opt [] (inner_dirs cs) s (Returns (True, s))" by (rule scans_Nil)
    then show ?thesis using True by (simp add: f scan_dir_children.simps cs)
  next
    case False
    have "scans fs opt (walk_children opt d cs) (inner_dirs cs) s (scan_entries f fs opt d (map fst cs) None s)"
    proof (rule scan_children)
      fix q cs' f d s assume "(q, Directory cs') \<in> set cs"
      then show "length (directories q (Directory cs')) \<le> f \<Longrightarrow> unseen fs (inner_dirs cs') s \<Longrightarrow>
          represents fs (skip_permission_denied opt) q (Directory cs') \<Longrightarrow>
          scans fs opt (walk opt d (Directory cs')) (inner_dirs cs') s (scan_dir_children f fs opt q d s)"
        using Directory.IH [of "(q, Directory cs')" "Directory cs'" cs' q s f d] by (simp add: cs)
    qed (use Directory.prems f(2) cs in auto)
    then show ?thesis
      using Directory.prems(2) unfolding f(1) cs walk.simps scan_dir_children.simps if_not_P [OF False] by simp
  qed
qed simp

section \<open>Results on a tree\<close>

lemma deliver_all_plain:
  "on_visit opt = None \<Longrightarrow> limit_results opt = 0 \<Longrightarrow>
   deliver_all opt es s = (True, s\<lparr>out := out s @ filter (\<lambda>e. pass_time_size_filters e opt) es\<rparr>)"
  by (induction es arbitrary: s) (simp_all add: deliver_def)

definition level_options :: "'v finder_options \<Rightarrow> 'v finder_options" where
  "level_options opt = (if recursive opt then opt else make_non_recursive opt)"

lemma scans_start:
  assumes "scans fs opt xs ds (s\<lparr>visited := us\<rparr>) r" "set us \<subseteq> set (visited s) \<union> canon fs ` set ds'" "set ds \<subseteq> set ds'"
  shows "scans fs opt xs ds' s r"
proof -
  obtain go s' vs where 1: "deliver_all opt (entries fs opt xs) (s\<lparr>visited := us\<rparr>) = (go, s')"
    "r = Returns (go, s'\<lparr>visited := vs\<rparr>)" "set vs \<subseteq> set us \<union> canon fs ` set ds"
    using assms(1) unfolding scans_def by auto
  obtain s3 where 3: "deliver_all opt (entries fs opt xs) s = (go, s3)" "s' = s3\<lparr>visited := us\<rparr>"
    using 1(1) by (auto simp: deliver_all_visited_update split: prod.splits)
  show ?thesis using 1 3 assms(2,3) unfolding scans_def
    by (intro exI [of _ go] exI [of _ s3] exI [of _ vs]) auto
qed

lemma scan_root_tree:
  assumes "represents fs (skip_permission_denied opt) root (Directory cs)"
    "distinct (map (canon fs) (directories root (Directory cs)))"
    "length (directories root (Directory cs)) \<le> fuel" "visited s = []"
  shows "scans fs (level_options opt) (walk (level_options opt) 0 (Directory cs)) (directories root (Directory cs)) s
    (scan_root fuel fs opt root ft_directory s)"
proof -
  have sk: "skip_permission_denied (level_options opt) = skip_permission_denied opt"
    by (simp add: level_options_def make_non_recursive_def)
  note r = assms(1) [folded sk]
  have c: "weakly_canonical fs root = Inr (canon fs root)" using represents_canon [OF assms(1)] .
  show ?thesis
  proof (cases "recursive opt")
    case True
    let ?s = "s\<lparr>visited := [canon fs root]\<rparr>"
    have "unseen fs (inner_dirs cs) ?s" using assms(2) by (auto simp: unseen_def)
    from scan_tree [OF refl r this assms(3)]
    have "scans fs (level_options opt) (walk (level_options opt) 0 (Directory cs)) (inner_dirs cs) ?s
        (scan_dir_children fuel fs (level_options opt) root 0 ?s)" .
    then have "scans fs (level_options opt) (walk (level_options opt) 0 (Directory cs)) (directories root (Directory cs)) s
        (scan_dir_children fuel fs (level_options opt) root 0 ?s)"
      by (rule scans_start) auto
    then show ?thesis using True c by (simp add: scan_root_def level_options_def del: walk.simps)
  next
    case False
    have "unseen fs (inner_dirs cs) s" using assms(2,4) by (simp add: unseen_def)
    from scan_tree [OF refl r this assms(3)]
    have "scans fs (level_options opt) (walk (level_options opt) 0 (Directory cs)) (directories root (Directory cs)) s
        (scan_dir_children fuel fs (level_options opt) root 0 s)"
      by (rule scans_mono) auto
    then show ?thesis using False by (simp add: scan_root_def level_options_def del: walk.simps)
  qed
qed

definition root_items :: "filesystem \<Rightarrow> 'v finder_options \<Rightarrow> string \<Rightarrow> found_entry list" where
  "root_items fs opt root =
     (if include_dirs opt \<and> \<not> filtered_out_hidden_system root opt \<and> match_name_filters (root_name root) opt
      then [entry_of fs opt (root, True)] else [])"

lemma level_entries: "entries fs (level_options opt) xs = entries fs opt xs"
proof -
  have "entry_of fs (level_options opt) = entry_of fs opt" "wanted (level_options opt) = wanted opt"
    by (simp_all add: fun_eq_iff entry_of_def wanted_def level_options_def make_non_recursive_def take_entry_def
        filtered_out_hidden_system_def match_name_filters_def match_extension_def)
  then show ?thesis by (simp add: entries_def)
qed

lemma level_plain: "on_visit (level_options opt) = on_visit opt" "limit_results (level_options opt) = limit_results opt"
  "pass_time_size_filters e (level_options opt) = pass_time_size_filters e opt"
  by (simp_all add: level_options_def make_non_recursive_def pass_time_size_filters_def)

text \<open>C25: on a directory tree a search without a visitor, without a limit and without an order returns
  the root, when it is wanted, and the paths of the walk that pass the filters, in the order of the walk.
  The walk has one level when the search is not recursive, every level when the maximal depth is
  negative, and \<open>n\<close> levels when it is a positive \<open>n\<close>; the recursive search with the maximal depth 0, for
  which the header and the code differ, is the lemma \<open>max_depth_zero\<close>.\<close>

theorem find_is_filtered_walk:
  assumes "represents fs (skip_permission_denied opt) root (Directory cs)"
    "distinct (map (canon fs) (directories root (Directory cs)))"
    "length (directories root (Directory cs)) \<le> fuel"
    "on_visit opt = None" "limit_results opt = 0" "sort_by opt = by_none"
    "\<not> (recursive opt \<and> max_depth opt = 0)"
  shows "find_static fuel fs root opt v =
    Returns (filter (\<lambda>e. pass_time_size_filters e opt)
      (root_items fs opt root @ entries fs opt (walk (level_options opt) 0 (Directory cs))), v)"
proof -
  have st: "status fs root = (ft_directory, None)" "fst (symlink_status fs root) = ft_directory"
    using assms(1) by simp_all
  define s where "s = (start_state v)\<lparr>out := filter (\<lambda>e. pass_time_size_filters e opt) (root_items fs opt root)\<rparr>"
  have vr: "visit_root fs opt root ft_directory (start_state v) = (True, s)"
    using assms(4) by (simp add: visit_root_def deliver_root_def root_items_def entry_of_def type_of_def st s_def start_state_def Let_def)
  have "visited s = []" and s: "out s = filter (\<lambda>e. pass_time_size_filters e opt) (root_items fs opt root)" "visitor s = v"
    by (simp_all add: s_def start_state_def)
  from scan_root_tree [OF assms(1-3) this(1)] obtain go s' vs where sr:
    "deliver_all (level_options opt) (entries fs opt (walk (level_options opt) 0 (Directory cs))) s = (go, s')"
    "scan_root fuel fs opt root ft_directory s = Returns (go, s'\<lparr>visited := vs\<rparr>)"
    unfolding scans_def level_entries by blast
  then show ?thesis
    using assms(4-6) by (auto simp: find_static_def st vr deliver_all_plain level_plain finish_def sorter_def
      limited_def s simp del: walk.simps)
qed

text \<open>The file system of a tree.\<close>

fun node_at :: "string \<Rightarrow> tree \<Rightarrow> string \<Rightarrow> tree option" where
  "node_at p File x = (if x = p then Some File else None)"
| "node_at p (Directory cs) x =
     (if x = p then Some (Directory cs)
      else foldr (\<lambda>(q, c) found. case node_at q c x of Some t \<Rightarrow> Some t | None \<Rightarrow> found) cs None)"

definition fs_of_tree :: "string \<Rightarrow> tree \<Rightarrow> filesystem" where
  "fs_of_tree root t =
     (let st = (\<lambda>p. case node_at root t p of None \<Rightarrow> (ft_not_found, Some ''No such file'')
         | Some File \<Rightarrow> (ft_regular, None) | Some (Directory cs) \<Rightarrow> (ft_directory, None))
      in \<lparr>status = st, symlink_status = st,
          directory_list = (\<lambda>p skip. case node_at root t p of Some (Directory cs) \<Rightarrow> (map fst cs, None) | _ \<Rightarrow> ([], None)),
          is_directory_entry = (\<lambda>p. case node_at root t p of Some n \<Rightarrow> Some (is_dir n) | None \<Rightarrow> None),
          weakly_canonical = Inr, mtime_of = (\<lambda>p. Some 7), size_of = (\<lambda>p. Some (length p)),
          path_exists = (\<lambda>p. node_at root t p \<noteq> None)\<rparr>)"

lemma node_at_directories: "node_at p t x = Some (Directory ds) \<Longrightarrow> x \<in> set (directories p t)"
proof (induction p t x rule: node_at.induct)
  case (2 p cs x)
  show ?case
  proof (cases "x = p")
    case False
    have "foldr (\<lambda>(q, c) found. case node_at q c x of Some t \<Rightarrow> Some t | None \<Rightarrow> found) cs' None = Some (Directory ds) \<Longrightarrow>
        x \<in> set (inner_dirs cs')" if "set cs' \<subseteq> set cs" for cs'
      using that
    proof (induction cs')
      case (Cons qc cs')
      obtain q c where qc: "qc = (q, c)" by fastforce
      then show ?case using Cons 2 False by (auto split: option.splits)
    qed simp
    then show ?thesis using 2 False by simp
  qed simp
qed (auto split: if_splits)

lemma fs_of_tree_dirs: "dirs_within (fs_of_tree root t) (set (directories root t))"
  by (auto simp: dirs_within_def fs_of_tree_def Let_def split: option.splits tree.splits
      dest: node_at_directories)

definition sample_fs_tree :: tree where
  "sample_fs_tree = Directory [(''/r/a.txt'', File),
     (''/r/build'', Directory [(''/r/build/x.txt'', File)]),
     (''/r/src'', Directory [(''/r/src/B.TXT'', File), (''/r/src/c.cpp'', File)])]"

definition sample_options :: "unit finder_options" where
  "sample_options = default_options\<lparr>extensions := [''.txt''], exclude_dir_globs := [''bui*'']\<rparr>"

theorem find_is_filtered_walk_witness:
  "find_static 4 (fs_of_tree ''/r'' sample_fs_tree) ''/r'' sample_options () =
   Returns (filter (\<lambda>e. pass_time_size_filters e sample_options)
     (root_items (fs_of_tree ''/r'' sample_fs_tree) sample_options ''/r'' @
      entries (fs_of_tree ''/r'' sample_fs_tree) sample_options (walk (level_options sample_options) 0 sample_fs_tree)), ())"
  unfolding sample_fs_tree_def
  by (rule find_is_filtered_walk) (simp_all add: fs_of_tree_def canon_def sample_options_def default_options_def Let_def)

text \<open>What that search finds.\<close>

lemma sample_search:
  "map fe_path (entries (fs_of_tree ''/r'' sample_fs_tree) sample_options (walk (level_options sample_options) 0 sample_fs_tree)) =
   [''/r/a.txt'', ''/r/src/B.TXT'']"
  by code_simp

text \<open>The header says that the depth 0 shows the children only; it shows nothing.\<close>

lemma max_depth_zero: "max_depth opt = 0 \<Longrightarrow> scan_dir_children (Suc fuel) fs opt dir 0 s = Returns (True, s)"
  by (simp add: scan_dir_children.simps)

text \<open>A limit stops the scan before the results are sorted: the search for the last path, sorted in
  descending order with the limit 1, returns the first one that was found.\<close>

definition last_path_options :: "unit finder_options" where
  "last_path_options = default_options\<lparr>sort_by := by_path, sort_ascending := False, limit_results := 1\<rparr>"

lemma limit_before_sort:
  "(case find_static 4 (fs_of_tree ''/r'' sample_fs_tree) ''/r'' last_path_options () of
      Returns (es, v) \<Rightarrow> map fe_path es | _ \<Rightarrow> []) = [''/r/a.txt'']"
  by code_simp

section \<open>The free function exists\<close>

definition same_name :: "bool \<Rightarrow> string \<Rightarrow> string \<Rightarrow> bool" where
  "same_name ci a b = (if ci then map tolower a = map tolower b else a = b)"

text \<open>The files below a directory, at any depth.\<close>

fun files_of :: "string \<Rightarrow> tree \<Rightarrow> string list" where
  "files_of q File = [q]"
| "files_of q (Directory cs) = concat (map (\<lambda>(q, c). files_of q c) cs)"

definition child_files :: "(string \<times> tree) list \<Rightarrow> string list" where
  "child_files cs = map fst (filter (\<lambda>(q, c). c = File) cs)"

definition visible_files :: "(string \<times> bool) list \<Rightarrow> string list" where
  "visible_files xs = map fst (filter (\<lambda>x. \<not> snd x) xs)"

lemma visible_files_simps [simp]:
  "visible_files [] = []" "visible_files (x # xs) = (if snd x then visible_files xs else fst x # visible_files xs)"
  "visible_files (xs @ ys) = visible_files xs @ visible_files ys"
  by (simp_all add: visible_files_def)

lemma walk_all_files:
  assumes "max_depth opt < 0" "exclude_dir_globs opt = []"
  shows "t = Directory cs \<Longrightarrow> visible_files (walk opt d t) = files_of q t"
proof (induction t arbitrary: cs d q)
  case (Directory cs0)
  have "visible_files (walk_children opt d cs') = concat (map (\<lambda>(q, c). files_of q c) cs')" if "set cs' \<subseteq> set cs0" for cs'
    using that
  proof (induction cs')
    case (Cons x cs')
    obtain p c where x: "x = (p, c)" by fastforce
    have "c = Directory ds \<Longrightarrow> visible_files (walk opt (d + 1) c) = files_of p c" for ds
      using Directory.IH [of "(p, c)" c ds "d + 1" p] Cons.prems by (simp add: x)
    then show ?case using Cons assms(2) by (cases c) (simp_all add: x should_skip_dir_name_def)
  qed simp
  then show ?case using assms(1) by simp
qed simp

lemma walk_one_level:
  assumes "max_depth opt = 1" "exclude_dir_globs opt = []"
  shows "visible_files (walk opt 0 (Directory cs)) = child_files cs"
proof -
  have "walk opt 1 c = []" for c using assms(1) by (cases c) simp_all
  then have "visible_files (walk_children opt 0 cs) = child_files cs"
    using assms(2) by (induction cs) (auto simp: child_files_def should_skip_dir_name_def)
  then show ?thesis using assms(1) by simp
qed

lemma exists_option_values:
  "on_visit (level_options (exists_options want r ci)) = Some (exists_visitor want ci)"
  "exclude_dir_globs (level_options (exists_options want r ci)) = []"
  "max_depth (level_options (exists_options want r ci)) = (if r then -1 else 1)"
  "pass_time_size_filters e (level_options (exists_options want r ci))"
  "wanted (level_options (exists_options want r ci)) x \<longleftrightarrow> \<not> snd x"
  "skip_permission_denied (exists_options want r ci) = True"
  by (simp_all add: level_options_def make_non_recursive_def exists_options_def default_options_def
      pass_time_size_filters_def passes_def wanted_def take_entry_def filtered_out_hidden_system_def
      match_name_filters_def match_extension_def type_of_def)

lemma deliver_all_exists:
  fixes s :: "bool scan_state" and want :: string and r ci :: bool
  defines "opt \<equiv> level_options (exists_options want r ci)"
  assumes "\<not> visitor s"
  shows "visitor (snd (deliver_all opt (entries fs opt xs) s)) \<longleftrightarrow>
    list_ex (\<lambda>q. same_name ci (filename q) want) (visible_files xs)"
  using assms(2)
proof (induction xs arbitrary: s)
  case Nil
  then show ?case by (simp add: entries_def)
next
  case (Cons x xs)
  note o = exists_option_values [where want = want and r = r and ci = ci, folded opt_def]
  have e: "entries fs opt (x # xs) = (if snd x then [] else [entry_of fs opt x]) @ entries fs opt xs"
    by (simp add: entries_def o)
  have d: "deliver opt (entry_of fs opt x) s =
      (if same_name ci (filename (fst x)) want then (False, s\<lparr>visitor := True\<rparr>) else (True, s))" if "\<not> snd x"
    using that Cons.prems by (simp add: deliver_def o exists_visitor_def same_name_def entry_of_def make_entry_def type_of_def)
  show ?case using Cons.IH [OF Cons.prems] d by (simp add: e)
qed

text \<open>On a directory tree \<open>exists\<close> answers whether a file of that name is in the directory, or anywhere
  below it when the search is recursive, comparing letters with or without case; stopping at the first
  hit loses nothing.\<close>

theorem exists_spec:
  assumes "represents fs True root (Directory cs)" "distinct (map (canon fs) (directories root (Directory cs)))"
    "length (directories root (Directory cs)) \<le> fuel"
  shows "file_exists fuel fs root file_name r ci =
    Returns (list_ex (\<lambda>q. same_name ci (filename q) (filename file_name))
      (if r then files_of root (Directory cs) else child_files cs))"
proof -
  let ?o = "exists_options (filename file_name) r ci"
  have st: "status fs root = (ft_directory, None)" using assms(1) by simp
  have "represents fs (skip_permission_denied ?o) root (Directory cs)" using assms(1) by (simp only: exists_option_values)
  moreover have "visited (start_state False) = []" by (simp add: start_state_def)
  ultimately obtain go s' vs where sr:
    "deliver_all (level_options ?o) (entries fs (level_options ?o) (walk (level_options ?o) 0 (Directory cs))) (start_state False) = (go, s')"
    "scan_root fuel fs ?o root ft_directory (start_state False) = Returns (go, s'\<lparr>visited := vs\<rparr>)"
    using scan_root_tree assms(2,3) unfolding scans_def by blast
  have vr: "visit_root fs ?o root ft_directory (start_state False) = (True, start_state False)"
    by (simp add: visit_root_def exists_options_def default_options_def Let_def)
  have "visible_files (walk (level_options ?o) 0 (Directory cs)) = (if r then files_of root (Directory cs) else child_files cs)"
    using walk_all_files [where opt = "level_options ?o" and t = "Directory cs" and cs = cs and d = 0 and q = root] walk_one_level [of "level_options ?o" cs]
    by (cases r) (simp_all add: exists_option_values del: walk.simps files_of.simps)
  then have "visitor s' = list_ex (\<lambda>q. same_name ci (filename q) (filename file_name))
      (if r then files_of root (Directory cs) else child_files cs)"
    using deliver_all_exists [of "start_state False" "filename file_name" r ci fs "walk (level_options ?o) 0 (Directory cs)"] sr(1)
    by (simp add: start_state_def del: walk.simps files_of.simps)
  then show ?thesis
    by (simp add: file_exists_def finder_find_def Let_def st vr sr(2) del: files_of.simps)
qed

theorem exists_spec_witness:
  "file_exists 4 (fs_of_tree ''/r'' sample_fs_tree) ''/r'' ''b.txt'' True True =
   Returns (list_ex (\<lambda>q. same_name True (filename q) (filename ''b.txt'')) (files_of ''/r'' sample_fs_tree))"
proof -
  have "file_exists 4 (fs_of_tree ''/r'' sample_fs_tree) ''/r'' ''b.txt'' True True =
    Returns (list_ex (\<lambda>q. same_name True (filename q) (filename ''b.txt'')) (if True then files_of ''/r'' sample_fs_tree
      else child_files (children sample_fs_tree)))"
    unfolding sample_fs_tree_def tree.sel
    by (rule exists_spec) (simp_all add: fs_of_tree_def canon_def Let_def)
  then show ?thesis by simp
qed

end
