(* ===== verification/Paths.thy ===== *)
theory Paths
  imports Cpp_Std
begin

text \<open>
  The operations of \<open>std::filesystem::path\<close> on the text of a POSIX path that the components use:
  \<open>operator/\<close>, \<open>parent_path\<close>, \<open>root_directory\<close> and the iteration over \<open>relative_path\<close>.
\<close>

abbreviation slash :: char where
  "slash \<equiv> CHR ''/''"

text \<open>An absolute right operand replaces the left one, an empty one adds a separator.\<close>

definition path_div :: "string \<Rightarrow> string \<Rightarrow> string" where
  "path_div p q =
     (if q \<noteq> [] \<and> hd q = slash then q
      else if p = [] \<or> last p = slash then p @ q
      else p @ [slash] @ q)"

lemma path_div_nil: "p \<noteq> [] \<Longrightarrow> last p \<noteq> slash \<Longrightarrow> path_div p [] = p @ [slash]"
  by (simp add: path_div_def)

definition relative_path :: "string \<Rightarrow> string" where
  "relative_path p = dropWhile (\<lambda>c. c = slash) p"

definition root_directory :: "string \<Rightarrow> string" where
  "root_directory p = (if p \<noteq> [] \<and> hd p = slash then [slash] else [])"

definition parent_path :: "string \<Rightarrow> string" where
  "parent_path p =
     (if relative_path p = [] then p
      else let d = rev (dropWhile (\<lambda>c. c \<noteq> slash) (rev p));
               e = rev (dropWhile (\<lambda>c. c = slash) (rev d))
           in if e = [] then take 1 d else e)"

text \<open>The elements of a path without root: the names, and an empty one behind a final separator.\<close>

function path_elements :: "string \<Rightarrow> string list" where
  "path_elements s =
     (if s = [] then []
      else let e = takeWhile (\<lambda>c. c \<noteq> slash) s; r = dropWhile (\<lambda>c. c \<noteq> slash) s
           in if r = [] then [e]
              else let q = dropWhile (\<lambda>c. c = slash) r
                   in if q = [] then [e, []] else e # path_elements q)"
  by pat_completeness auto

lemma after_element_shorter:
  assumes r: "dropWhile (\<lambda>c. c \<noteq> slash) s \<noteq> []"
  shows "length (dropWhile (\<lambda>c. c = slash) (dropWhile (\<lambda>c. c \<noteq> slash) s)) < length s"
proof (cases "dropWhile (\<lambda>c. c \<noteq> slash) s")
  case (Cons x xs)
  then have x: "x = slash" using hd_dropWhile [OF r] by simp
  have "length (dropWhile (\<lambda>c. c = slash) (x # xs)) \<le> length xs"
    using x by (simp add: length_dropWhile_le)
  also have "\<dots> < length (dropWhile (\<lambda>c. c \<noteq> slash) s)" using Cons by simp
  also have "\<dots> \<le> length s" by (rule length_dropWhile_le)
  finally show ?thesis using Cons by simp
qed (use r in simp)

termination path_elements
proof (relation "measure length")
  fix s e r q :: string
  assume "r = dropWhile (\<lambda>c. c \<noteq> slash) s" "r \<noteq> []" "q = dropWhile (\<lambda>c. c = slash) r"
  then show "(q, s) \<in> measure length" using after_element_shorter [of s] by simp
qed simp

declare path_elements.simps [simp del]

text \<open>One separator for each run of them.\<close>

fun squeeze :: "string \<Rightarrow> string" where
  "squeeze (a # b # s) = (if a = slash \<and> b = slash then squeeze (b # s) else a # squeeze (b # s))"
| "squeeze s = s"

lemma squeeze_name: "slash \<notin> set e \<Longrightarrow> squeeze (e @ s) = e @ squeeze s"
proof (induction e)
  case (Cons a e)
  then show ?case by (cases "e @ s") auto
qed simp

lemma squeeze_slashes:
  "r \<noteq> [] \<Longrightarrow> list_all (\<lambda>c. c = slash) r \<Longrightarrow> q = [] \<or> hd q \<noteq> slash \<Longrightarrow> squeeze (r @ q) = slash # squeeze q"
proof (induction r)
  case (Cons a r)
  then show ?case by (cases r; cases q) auto
qed simp

text \<open>Putting the elements together again gives the path with its separators squeezed.\<close>

lemma join_elements:
  "s = [] \<or> hd s \<noteq> slash \<Longrightarrow> s \<noteq> [] \<Longrightarrow> foldl path_div p (path_elements s) =
     p @ (if p = [] \<or> last p = slash then [] else [slash]) @ squeeze s"
proof (induction s arbitrary: p rule: path_elements.induct)
  case (1 s)
  let ?e = "takeWhile (\<lambda>c. c \<noteq> slash) s" and ?r = "dropWhile (\<lambda>c. c \<noteq> slash) s"
  let ?q = "dropWhile (\<lambda>c. c = slash) ?r" and ?t = "takeWhile (\<lambda>c. c = slash) ?r"
  let ?p = "p @ (if p = [] \<or> last p = slash then [] else [slash]) @ ?e"
  have e: "slash \<notin> set ?e" by (auto dest: set_takeWhileD)
  have ne: "?e \<noteq> []" using "1.prems" by (cases s) auto
  have le: "last ?e \<noteq> slash" using e last_in_set [OF ne] by metis
  have "hd ?e \<noteq> slash" using e hd_in_set [OF ne] by metis
  then have p: "path_div p ?e = ?p" using ne by (simp add: path_div_def)
  have lp: "?p \<noteq> []" "last ?p \<noteq> slash" using ne le by auto
  have s: "squeeze s = ?e @ squeeze ?r" using squeeze_name [OF e, of ?r] by simp
  show ?case
  proof (cases "?r = []")
    case True
    have "squeeze s = ?e" unfolding s True by simp
    then show ?thesis using "1.prems"(2) True p
      by (subst path_elements.simps) (simp only: Let_def foldl.simps if_True if_False simp_thms append_assoc)
  next
    case r: False
    then have t: "?t \<noteq> []" using hd_dropWhile [OF r] by (cases ?r) auto
    have "list_all (\<lambda>c. c = slash) ?t" by (auto simp: list_all_iff dest: set_takeWhileD)
    moreover have "?q = [] \<or> hd ?q \<noteq> slash" using hd_dropWhile [of "\<lambda>c. c = slash" ?r] by auto
    ultimately have sq: "squeeze ?r = slash # squeeze ?q"
      using squeeze_slashes [OF t, of ?q] by simp
    show ?thesis
    proof (cases "?q = []")
      case True
      have "foldl path_div p (path_elements s) = path_div ?p []"
        using "1.prems"(2) r True p by (subst path_elements.simps) (simp only: Let_def foldl.simps if_True if_False simp_thms)
      also have "\<dots> = ?p @ [slash]" by (rule path_div_nil [OF lp])
      finally have "foldl path_div p (path_elements s) = ?p @ [slash]" .
      then show ?thesis unfolding s sq True by simp
    next
      case False
      have "foldl path_div p (path_elements s) = foldl path_div ?p (path_elements ?q)"
        using "1.prems"(2) r False p by (subst path_elements.simps) (simp only: Let_def foldl.simps if_True if_False simp_thms)
      also have "\<dots> = ?p @ [slash] @ squeeze ?q"
      proof -
        have "?q = [] \<or> hd ?q \<noteq> slash" using hd_dropWhile [OF False] by simp
        then show ?thesis
          using "1.IH" [OF "1.prems"(2) refl refl r refl False _ False, of ?p] lp by (simp only: if_False simp_thms)
      qed
      finally have "foldl path_div p (path_elements s) = ?p @ [slash] @ squeeze ?q" .
      then show ?thesis unfolding s sq by simp
    qed
  qed
qed

end
