(* ===== verification/Directory_Text.thy ===== *)
theory Directory_Text
  imports Encoding
begin

text \<open>
  The types and texts of \<open>directory/directory_maker.cpp\<close>: the codes of its results, the mapping of
  error codes, the messages in two languages, and \<open>to_console_encoding\<close> of
  \<open>string/to_console_encoding.cpp\<close>, which the Korean ones go through. The Korean texts are the UTF-8
  bytes of the literals.
\<close>

section \<open>The encoding of the console\<close>

definition bytes_of_string :: "string \<Rightarrow> u8string" where
  "bytes_of_string s = map byte_of_char s"

definition string_of_bytes :: "u8string \<Rightarrow> string" where
  "string_of_bytes b = map char_of_byte b"

text \<open>The Windows helper gives up with an empty string.\<close>

definition utf8_to_codepage_impl :: "win_api \<Rightarrow> u8string \<Rightarrow> int \<Rightarrow> u8string" where
  "utf8_to_codepage_impl w inp codepage =
     (if inp = [] then []
      else let wlen = fst (multi_to_wide w 65001 inp (int_of_size (length inp)) 0)
      in if wlen \<le> 0 then []
         else let (written, wtmp) = multi_to_wide w 65001 inp (int_of_size (length inp)) wlen
         in if written \<le> 0 then []
            else let wbuf = filled (nat wlen) wtmp;
                     mblen = fst (wide_to_multi w codepage wbuf wlen 0)
            in if mblen \<le> 0 then []
               else let (n, mtmp) = wide_to_multi w codepage wbuf wlen mblen
               in if n \<le> 0 then [] else filled (nat mblen) mtmp)"

text \<open>\<open>None\<close> is the build that is not for Windows.\<close>

definition to_console_encoding :: "win_api option \<Rightarrow> string \<Rightarrow> string" where
  "to_console_encoding api inp =
     (case api of
        None \<Rightarrow> inp
      | Some w \<Rightarrow>
          let encoded = utf8_to_codepage_impl w (bytes_of_string inp) 51949
          in if encoded \<noteq> [] then string_of_bytes encoded
             else let encoded = utf8_to_codepage_impl w (bytes_of_string inp) 949
             in if encoded \<noteq> [] then string_of_bytes encoded else inp)"

text \<open>Whatever the code pages can hold, a text is never lost: it is converted or kept.\<close>

lemma to_console_not_empty: "to_console_encoding api inp = [] \<longleftrightarrow> inp = []"
  by (auto simp: to_console_encoding_def Let_def string_of_bytes_def bytes_of_string_def
    utf8_to_codepage_impl_def split: option.splits if_splits)

section \<open>Types\<close>

datatype language = English | Korean

datatype create_path_code = Created | AlreadyExists | InvalidPath | NotDirectory | PermissionDenied |
  SymlinkBlocked | ReadOnlyFilesystem | NameTooLong | NoSuchParent | DiskFull | Interrupted | UnknownError

datatype perm_mode = Add | Remove | Exact

record create_dir_options =
  make_parents :: bool
  succeed_if_exists :: bool
  dm_follow_symlinks :: bool
  set_permissions :: bool
  perms_mask :: nat
  mode :: perm_mode

text \<open>The defaults: the mask is 0755.\<close>

definition default_dir_options :: create_dir_options where
  "default_dir_options = \<lparr>make_parents = True, succeed_if_exists = True, dm_follow_symlinks = False,
     set_permissions = False, perms_mask = 493, mode = Exact\<rparr>"

record directory_maker =
  dm_lang :: language
  dm_opt :: create_dir_options

definition new_directory_maker :: "language \<Rightarrow> create_dir_options \<Rightarrow> directory_maker" where
  "new_directory_maker lang opt = \<lparr>dm_lang = lang, dm_opt = opt\<rparr>"

definition set_language :: "language \<Rightarrow> directory_maker \<Rightarrow> directory_maker" where
  "set_language lang m = m\<lparr>dm_lang := lang\<rparr>"

definition set_dir_options :: "create_dir_options \<Rightarrow> directory_maker \<Rightarrow> directory_maker" where
  "set_dir_options opt m = m\<lparr>dm_opt := opt\<rparr>"

text \<open>\<open>std::error_code\<close>: \<open>None\<close> when there is no error, or the condition and the message.\<close>

datatype errc = Permission_denied | Read_only_file_system | File_exists | Not_a_directory |
  No_such_file_or_directory | Filename_too_long | No_space_on_device | Interrupted_call | Other_error

type_synonym error_code = "(errc \<times> string) option"

definition error_message :: "error_code \<Rightarrow> string" where
  "error_message ec = (case ec of None \<Rightarrow> ''Success'' | Some (_, msg) \<Rightarrow> msg)"

definition map_errc :: "error_code \<Rightarrow> create_path_code" where
  "map_errc ec =
     (case ec of
        None \<Rightarrow> UnknownError
      | Some (e, _) \<Rightarrow>
          (case e of
             Permission_denied \<Rightarrow> PermissionDenied
           | Read_only_file_system \<Rightarrow> ReadOnlyFilesystem
           | File_exists \<Rightarrow> AlreadyExists
           | Not_a_directory \<Rightarrow> NotDirectory
           | No_such_file_or_directory \<Rightarrow> NoSuchParent
           | Filename_too_long \<Rightarrow> NameTooLong
           | No_space_on_device \<Rightarrow> DiskFull
           | Interrupted_call \<Rightarrow> Interrupted
           | Other_error \<Rightarrow> UnknownError))"

definition code_to_string :: "create_path_code \<Rightarrow> string" where
  "code_to_string c =
     (case c of
        Created \<Rightarrow> ''Created''
      | AlreadyExists \<Rightarrow> ''AlreadyExists''
      | InvalidPath \<Rightarrow> ''InvalidPath''
      | NotDirectory \<Rightarrow> ''NotDirectory''
      | PermissionDenied \<Rightarrow> ''PermissionDenied''
      | SymlinkBlocked \<Rightarrow> ''SymlinkBlocked''
      | ReadOnlyFilesystem \<Rightarrow> ''ReadOnlyFilesystem''
      | NameTooLong \<Rightarrow> ''NameTooLong''
      | NoSuchParent \<Rightarrow> ''NoSuchParent''
      | DiskFull \<Rightarrow> ''DiskFull''
      | Interrupted \<Rightarrow> ''Interrupted''
      | UnknownError \<Rightarrow> ''UnknownError'')"

lemma code_to_string_inject: "code_to_string c = code_to_string d \<longleftrightarrow> c = d"
  by (cases c; cases d) (simp_all add: code_to_string_def)

section \<open>Messages\<close>

definition ko_invalid_path :: string where
  "ko_invalid_path = map char_of [
     236, 156, 160, 237, 154, 168, 237, 149, 152, 236, 167, 128, 32, 236, 149, 138, 236, 157,
     128, 32, 234, 178, 189, 235, 161, 156, 236, 158, 133, 235, 139, 136, 235, 139, 164, 40,
     235, 185, 136, 32, 234, 178, 189, 235, 161, 156, 32, 235, 152, 144, 235, 138, 148, 32,
     236, 158, 152, 235, 170, 187, 235, 144, 156, 32, 237, 152, 149, 236, 139, 157, 41, 46 :: nat]"

definition ko_already_exists :: string where
  "ko_already_exists = map char_of [
     234, 178, 189, 235, 161, 156, 234, 176, 128, 32, 236, 157, 180, 235, 175, 184, 32, 235,
     148, 148, 235, 160, 137, 237, 132, 176, 235, 166, 172, 235, 161, 156, 32, 236, 161, 180,
     236, 158, 172, 237, 149, 169, 235, 139, 136, 235, 139, 164, 46 :: nat]"

definition ko_already_exists_error :: string where
  "ko_already_exists_error = map char_of [
     234, 178, 189, 235, 161, 156, 234, 176, 128, 32, 236, 157, 180, 235, 175, 184, 32, 236,
     161, 180, 236, 158, 172, 237, 149, 169, 235, 139, 136, 235, 139, 164, 40, 236, 160, 149,
     236, 177, 133, 236, 131, 129, 32, 236, 152, 164, 235, 165, 152, 235, 161, 156, 32, 234,
     176, 132, 236, 163, 188, 41, 46 :: nat]"

definition ko_symlink_blocked :: string where
  "ko_symlink_blocked = map char_of [
     236, 139, 172, 235, 179, 188, 235, 166, 173, 32, 235, 167, 129, 237, 129, 172, 234, 176,
     128, 32, 236, 161, 180, 236, 158, 172, 237, 149, 152, 235, 169, 176, 32, 236, 176, 168,
     235, 139, 168, 235, 144, 152, 236, 151, 136, 236, 138, 181, 235, 139, 136, 235, 139, 164,
     46 :: nat]"

definition ko_not_directory :: string where
  "ko_not_directory = map char_of [
     235, 148, 148, 235, 160, 137, 237, 132, 176, 235, 166, 172, 234, 176, 128, 32, 236, 149,
     132, 235, 139, 140, 32, 237, 149, 173, 235, 170, 169, 236, 157, 180, 32, 236, 161, 180,
     236, 158, 172, 237, 149, 169, 235, 139, 136, 235, 139, 164, 58, 32 :: nat]"

definition ko_state_fail :: string where
  "ko_state_fail = map char_of [
     234, 178, 189, 235, 161, 156, 32, 236, 131, 129, 237, 131, 156, 32, 237, 153, 149, 236,
     157, 184, 32, 236, 139, 164, 237, 140, 168, 58, 32 :: nat]"

definition ko_no_parent :: string where
  "ko_no_parent = map char_of [
     235, 182, 128, 235, 170, 168, 32, 234, 178, 189, 235, 161, 156, 234, 176, 128, 32, 236,
     161, 180, 236, 158, 172, 237, 149, 152, 236, 167, 128, 32, 236, 149, 138, 236, 138, 181,
     235, 139, 136, 235, 139, 164, 58, 32 :: nat]"

definition ko_create_fail :: string where
  "ko_create_fail = map char_of [
     235, 148, 148, 235, 160, 137, 237, 132, 176, 235, 166, 172, 32, 236, 131, 157, 236, 132,
     177, 32, 236, 139, 164, 237, 140, 168, 58, 32 :: nat]"

definition ko_created_ok :: string where
  "ko_created_ok = map char_of [
     235, 148, 148, 235, 160, 137, 237, 132, 176, 235, 166, 172, 32, 237, 138, 184, 235, 166,
     172, 235, 165, 188, 32, 236, 132, 177, 234, 179, 181, 236, 160, 129, 236, 156, 188, 235,
     161, 156, 32, 236, 131, 157, 236, 132, 177, 237, 150, 136, 236, 138, 181, 235, 139, 136,
     235, 139, 164, 46 :: nat]"

definition ko_nothing_new :: string where
  "ko_nothing_new = map char_of [
     236, 131, 136, 235, 161, 156, 32, 236, 131, 157, 236, 132, 177, 235, 144, 156, 32, 235,
     148, 148, 235, 160, 137, 237, 132, 176, 235, 166, 172, 234, 176, 128, 32, 236, 151, 134,
     236, 138, 181, 235, 139, 136, 235, 139, 164, 40, 236, 157, 180, 235, 175, 184, 32, 236,
     161, 180, 236, 158, 172, 41, 46 :: nat]"

definition ko_unknown_exception :: string where
  "ko_unknown_exception = map char_of [
     236, 149, 140, 32, 236, 136, 152, 32, 236, 151, 134, 235, 138, 148, 32, 236, 152, 136,
     236, 153, 184, 234, 176, 128, 32, 235, 176, 156, 236, 131, 157, 237, 150, 136, 236, 138,
     181, 235, 139, 136, 235, 139, 164, 46 :: nat]"

definition msg_invalid_path :: "(string \<Rightarrow> string) \<Rightarrow> language \<Rightarrow> string" where
  "msg_invalid_path to_console lang =
     (if lang = English then ''Invalid path: empty or malformed.''
      else to_console ko_invalid_path)"

definition msg_already_exists :: "(string \<Rightarrow> string) \<Rightarrow> language \<Rightarrow> string" where
  "msg_already_exists to_console lang =
     (if lang = English then ''Directory already exists.''
      else to_console ko_already_exists)"

definition msg_already_exists_error :: "(string \<Rightarrow> string) \<Rightarrow> language \<Rightarrow> string" where
  "msg_already_exists_error to_console lang =
     (if lang = English then ''Directory already exists (policy: treat as error).''
      else to_console ko_already_exists_error)"

definition msg_symlink_blocked :: "(string \<Rightarrow> string) \<Rightarrow> language \<Rightarrow> string" where
  "msg_symlink_blocked to_console lang =
     (if lang = English then ''Operation blocked by symlink.''
      else to_console ko_symlink_blocked)"

definition msg_not_directory :: "(string \<Rightarrow> string) \<Rightarrow> language \<Rightarrow> string \<Rightarrow> string" where
  "msg_not_directory to_console lang p =
     (if lang = English then ''A non-directory entry exists: '' @ p
      else to_console (ko_not_directory @ p))"

definition msg_state_fail :: "(string \<Rightarrow> string) \<Rightarrow> language \<Rightarrow> string \<Rightarrow> error_code \<Rightarrow> string" where
  "msg_state_fail to_console lang p ec =
     (if lang = English then ''Failed to query status: '' @ p @ '' : '' @ error_message ec
      else to_console (ko_state_fail @ p @ '' : '' @ error_message ec))"

definition msg_no_parent :: "(string \<Rightarrow> string) \<Rightarrow> language \<Rightarrow> string \<Rightarrow> string" where
  "msg_no_parent to_console lang p =
     (if lang = English then ''Parent does not exist: '' @ p
      else to_console (ko_no_parent @ p))"

definition msg_create_fail :: "(string \<Rightarrow> string) \<Rightarrow> language \<Rightarrow> string \<Rightarrow> error_code \<Rightarrow> string" where
  "msg_create_fail to_console lang p ec =
     (if lang = English then ''Failed to create: '' @ p @ '' : '' @ error_message ec
      else to_console (ko_create_fail @ p @ '' : '' @ error_message ec))"

definition msg_created_ok :: "(string \<Rightarrow> string) \<Rightarrow> language \<Rightarrow> string" where
  "msg_created_ok to_console lang =
     (if lang = English then ''Directory tree created.''
      else to_console ko_created_ok)"

definition msg_nothing_new :: "(string \<Rightarrow> string) \<Rightarrow> language \<Rightarrow> string" where
  "msg_nothing_new to_console lang =
     (if lang = English then ''Nothing created; already exists.''
      else to_console ko_nothing_new)"

definition msg_fs_exception :: "(string \<Rightarrow> string) \<Rightarrow> language \<Rightarrow> string \<Rightarrow> error_code \<Rightarrow> string" where
  "msg_fs_exception to_console lang what ec =
     (if lang = English then ''filesystem_error: '' @ what @ '' : '' @ error_message ec
      else to_console (''filesystem_error: '' @ what @ '' : '' @ error_message ec))"

definition msg_std_exception :: "(string \<Rightarrow> string) \<Rightarrow> language \<Rightarrow> string \<Rightarrow> string" where
  "msg_std_exception to_console lang what =
     (if lang = English then ''std::exception: '' @ what
      else to_console (''std::exception: '' @ what))"

definition msg_unknown_exception :: "(string \<Rightarrow> string) \<Rightarrow> language \<Rightarrow> string" where
  "msg_unknown_exception to_console lang =
     (if lang = English then ''Unknown exception.''
      else to_console ko_unknown_exception)"

end
