(* ===== verification/Directory_Maker.thy ===== *)
theory Directory_Maker
  imports Paths Directory_Text File_Finder
begin

text \<open>
  \<open>directory_maker::create_directory_tree\<close> of \<open>directory/directory_maker.cpp\<close>. The file system is a
  state of any type; its operations are the parameter \<open>dir_api\<close>. The handlers for exceptions are left
  out: every call of the file system takes an error code, so only a failed allocation gets there.
\<close>

section \<open>The file system\<close>

text \<open>\<open>status\<close> (links followed) and \<open>symlink_status\<close> by the flag, \<open>create_directory\<close>, \<open>permissions\<close>.\<close>

record 's dir_api =
  da_status :: "bool \<Rightarrow> string \<Rightarrow> 's \<Rightarrow> file_type \<times> error_code"
  da_create :: "string \<Rightarrow> 's \<Rightarrow> bool \<times> error_code \<times> 's"
  da_permissions :: "perm_mode \<Rightarrow> nat \<Rightarrow> string \<Rightarrow> 's \<Rightarrow> 's"
  da_console :: "win_api option"

definition safe_status :: "'s dir_api \<Rightarrow> string \<Rightarrow> bool \<Rightarrow> 's \<Rightarrow> file_type \<times> error_code" where
  "safe_status A p follow s = (if follow then da_status A True p s else da_status A False p s)"

text \<open>\<open>std::filesystem::exists\<close>: the error is cleared when the status is known.\<close>

definition path_exists_ec :: "'s dir_api \<Rightarrow> string \<Rightarrow> 's \<Rightarrow> bool \<times> error_code" where
  "path_exists_ec A p s =
     (let (t, ec) = da_status A True p s
      in (t \<noteq> ft_none \<and> t \<noteq> ft_not_found, if t = ft_none then ec else None))"

definition has_errc :: "errc \<Rightarrow> error_code \<Rightarrow> bool" where
  "has_errc e ec \<longleftrightarrow> (case ec of None \<Rightarrow> False | Some (e', _) \<Rightarrow> e' = e)"

definition try_set_perms :: "'s dir_api \<Rightarrow> directory_maker \<Rightarrow> string \<Rightarrow> 's \<Rightarrow> 's" where
  "try_set_perms A m p s =
     (if \<not> set_permissions (dm_opt m) then s
      else da_permissions A (mode (dm_opt m)) (perms_mask (dm_opt m)) p s)"

section \<open>Results\<close>

record create_dir_result =
  dm_code :: create_path_code
  dm_ec :: error_code
  dm_message :: string
  dm_requested :: string
  dm_created :: "string list"
  dm_success :: bool

definition new_dir_result :: "string \<Rightarrow> create_dir_result" where
  "new_dir_result target = \<lparr>dm_code = UnknownError, dm_ec = None, dm_message = [], dm_requested = target,
     dm_created = [], dm_success = False\<rparr>"

abbreviation to_console :: "'s dir_api \<Rightarrow> string \<Rightarrow> string" where
  "to_console A \<equiv> to_console_encoding (da_console A)"

text \<open>The three endings that several branches share.\<close>

definition already_there :: "'s dir_api \<Rightarrow> directory_maker \<Rightarrow> create_dir_result \<Rightarrow> create_dir_result" where
  "already_there A m res =
     res\<lparr>dm_code := AlreadyExists,
         dm_message := if succeed_if_exists (dm_opt m) then msg_already_exists (to_console A) (dm_lang m)
           else msg_already_exists_error (to_console A) (dm_lang m),
         dm_success := succeed_if_exists (dm_opt m)\<rparr>"

definition no_directory :: "'s dir_api \<Rightarrow> directory_maker \<Rightarrow> string \<Rightarrow> error_code \<Rightarrow> create_dir_result \<Rightarrow>
    create_dir_result" where
  "no_directory A m p ec res =
     res\<lparr>dm_code := NotDirectory, dm_ec := ec, dm_message := msg_not_directory (to_console A) (dm_lang m) p\<rparr>"

definition blocked :: "'s dir_api \<Rightarrow> directory_maker \<Rightarrow> create_dir_result \<Rightarrow> create_dir_result" where
  "blocked A m res =
     res\<lparr>dm_code := SymlinkBlocked, dm_message := msg_symlink_blocked (to_console A) (dm_lang m)\<rparr>"

definition failed_with :: "create_path_code \<Rightarrow> error_code \<Rightarrow> string \<Rightarrow> create_dir_result \<Rightarrow> create_dir_result" where
  "failed_with c ec msg res = res\<lparr>dm_code := c, dm_ec := ec, dm_message := msg\<rparr>"

definition now_directory :: "'s dir_api \<Rightarrow> directory_maker \<Rightarrow> string \<Rightarrow> 's \<Rightarrow> bool" where
  "now_directory A m p s \<longleftrightarrow> fst (safe_status A p (dm_follow_symlinks (dm_opt m)) s) = ft_directory"

section \<open>The steps\<close>

text \<open>Step 1: what the target is now; \<open>None\<close> when it does not exist.\<close>

definition check_target :: "'s dir_api \<Rightarrow> directory_maker \<Rightarrow> string \<Rightarrow> 's \<Rightarrow> create_dir_result \<Rightarrow>
    create_dir_result option" where
  "check_target A m target s res =
     (let (st, ec) = safe_status A target (dm_follow_symlinks (dm_opt m)) s
      in if ec = None
         then Some (if st = ft_directory then already_there A m res
                    else if st = ft_symlink \<and> \<not> dm_follow_symlinks (dm_opt m) then blocked A m res
                    else no_directory A m target None res)
         else if \<not> has_errc No_such_file_or_directory ec
         then Some (failed_with (map_errc ec) ec (msg_state_fail (to_console A) (dm_lang m) target ec) res)
         else None)"

text \<open>Step 2: only the target, when its parent is there.\<close>

definition make_single :: "'s dir_api \<Rightarrow> directory_maker \<Rightarrow> string \<Rightarrow> 's \<Rightarrow> create_dir_result \<Rightarrow>
    create_dir_result \<times> 's" where
  "make_single A m target s res =
     (let parent = parent_path target; (there, pec) = path_exists_ec A parent s
      in if parent \<noteq> [] \<and> \<not> there
         then (failed_with NoSuchParent pec (msg_no_parent (to_console A) (dm_lang m) parent) res, s)
         else let (made, mec, s1) = da_create A target s
              in if \<not> made
                 then if mec = None \<or> has_errc File_exists mec
                      then (if now_directory A m target s1 then already_there A m res
                            else no_directory A m target mec res, s1)
                      else (failed_with (map_errc mec) mec (msg_create_fail (to_console A) (dm_lang m) target mec) res, s1)
                 else (res\<lparr>dm_created := dm_created res @ [target], dm_code := Created,
                           dm_message := msg_created_ok (to_console A) (dm_lang m), dm_success := True\<rparr>,
                       try_set_perms A m target s1))"

text \<open>Step 3: the elements of the path one after the other. \<open>Inl\<close> is a return, \<open>Inr\<close> the end of the
  loop.\<close>

fun make_loop :: "'s dir_api \<Rightarrow> directory_maker \<Rightarrow> string \<Rightarrow> string list \<Rightarrow> 's \<Rightarrow> create_dir_result \<Rightarrow>
    (create_dir_result + create_dir_result) \<times> 's" where
  "make_loop A m acc [] s res = (Inr res, s)"
| "make_loop A m acc (part # parts) s res =
     (let accum = path_div acc part; (st, ec) = safe_status A accum (dm_follow_symlinks (dm_opt m)) s
      in if ec = None \<and> st \<noteq> ft_none \<and> st \<noteq> ft_not_found
         then if st = ft_directory then make_loop A m accum parts s res
              else if st = ft_symlink \<and> \<not> dm_follow_symlinks (dm_opt m) then (Inl (blocked A m res), s)
              else (Inl (no_directory A m accum None res), s)
         else if ec \<noteq> None \<and> \<not> has_errc No_such_file_or_directory ec
         then (Inl (failed_with (map_errc ec) ec (msg_state_fail (to_console A) (dm_lang m) accum ec) res), s)
         else let (made, mec, s1) = da_create A accum s
              in if \<not> made
                 then if mec = None \<or> has_errc File_exists mec
                      then if now_directory A m accum s1 then make_loop A m accum parts s1 res
                           else (Inl (no_directory A m accum mec res), s1)
                      else (Inl (failed_with (map_errc mec) mec
                              (msg_create_fail (to_console A) (dm_lang m) accum mec) res), s1)
                 else make_loop A m accum parts (try_set_perms A m accum s1)
                        (res\<lparr>dm_created := dm_created res @ [accum]\<rparr>))"

definition finish_tree :: "'s dir_api \<Rightarrow> directory_maker \<Rightarrow> create_dir_result \<Rightarrow> create_dir_result" where
  "finish_tree A m res =
     (if dm_created res = []
      then res\<lparr>dm_code := AlreadyExists,
               dm_message := if succeed_if_exists (dm_opt m) then msg_nothing_new (to_console A) (dm_lang m)
                 else msg_already_exists_error (to_console A) (dm_lang m),
               dm_success := succeed_if_exists (dm_opt m)\<rparr>
      else res\<lparr>dm_code := Created, dm_message := msg_created_ok (to_console A) (dm_lang m), dm_success := True\<rparr>)"

definition create_directory_tree :: "'s dir_api \<Rightarrow> directory_maker \<Rightarrow> string \<Rightarrow> 's \<Rightarrow> create_dir_result \<times> 's" where
  "create_directory_tree A m target s =
     (let res = new_dir_result target
      in if target = []
         then (res\<lparr>dm_code := InvalidPath, dm_message := msg_invalid_path (to_console A) (dm_lang m)\<rparr>, s)
         else case check_target A m target s res of
           Some r \<Rightarrow> (r, s)
         | None \<Rightarrow>
             if \<not> make_parents (dm_opt m) then make_single A m target s res
             else (case make_loop A m (root_directory target) (path_elements (relative_path target)) s res of
                     (Inl r, s1) \<Rightarrow> (r, s1)
                   | (Inr r, s1) \<Rightarrow> (finish_tree A m r, s1)))"

end
