(* ===== verification/File_Info.thy ===== *)
theory File_Info
  imports Directory_Maker
begin

text \<open>
  \<open>file/file_info.cpp\<close> and the POSIX build of \<open>file/permissions.cpp\<close>: questions about one path, and
  its permission bits with their text. \<open>None\<close> is the \<open>filesystem_error\<close> of the calls that throw; the
  status of a path is the one of \<open>dir_api\<close>, its size, the working directory and \<open>stat\<close> are parameters.
\<close>

unbundle bit_operations_syntax

section \<open>\<open>file_info\<close>\<close>

record file_info =
  fi_path :: string

definition new_file_info :: "string \<Rightarrow> file_info" where
  "new_file_info path = \<lparr>fi_path = path\<rparr>"

text \<open>\<open>std::filesystem::status\<close> without an error code throws when the type cannot be told.\<close>

definition status_or_throw :: "'s dir_api \<Rightarrow> string \<Rightarrow> 's \<Rightarrow> file_type option" where
  "status_or_throw A p s = (let t = fst (da_status A True p s) in if t = ft_none then None else Some t)"

definition fi_exists :: "'s dir_api \<Rightarrow> 's \<Rightarrow> file_info \<Rightarrow> bool option" where
  "fi_exists A s f = map_option (\<lambda>t. t \<noteq> ft_not_found) (status_or_throw A (fi_path f) s)"

definition fi_is_file :: "'s dir_api \<Rightarrow> 's \<Rightarrow> file_info \<Rightarrow> bool option" where
  "fi_is_file A s f = map_option (\<lambda>t. t = ft_regular) (status_or_throw A (fi_path f) s)"

definition fi_is_dir :: "'s dir_api \<Rightarrow> 's \<Rightarrow> file_info \<Rightarrow> bool option" where
  "fi_is_dir A s f = map_option (\<lambda>t. t = ft_directory) (status_or_throw A (fi_path f) s)"

definition fi_file_name :: "file_info \<Rightarrow> string" where
  "fi_file_name f = filename (fi_path f)"

definition fi_extension :: "file_info \<Rightarrow> string" where
  "fi_extension f = extension (fi_path f)"

definition fi_parent_path :: "file_info \<Rightarrow> string" where
  "fi_parent_path f = parent_path (fi_path f)"

definition fi_absolute_path :: "string \<Rightarrow> file_info \<Rightarrow> string" where
  "fi_absolute_path cwd f = path_div cwd (fi_path f)"

text \<open>The size of what is not a regular file is 0; a failed question throws.\<close>

definition fi_file_size :: "'s dir_api \<Rightarrow> (string \<Rightarrow> nat option) \<Rightarrow> 's \<Rightarrow> file_info \<Rightarrow> nat option" where
  "fi_file_size A file_size s f =
     (case fi_is_file A s f of
        None \<Rightarrow> None
      | Some True \<Rightarrow> file_size (fi_path f)
      | Some False \<Rightarrow> Some 0)"

section \<open>\<open>permissions_info\<close>\<close>

record perms =
  p_read :: bool
  p_write :: bool
  p_execute :: bool

definition no_perms :: perms where
  "no_perms = \<lparr>p_read = False, p_write = False, p_execute = False\<rparr>"

record permissions_info =
  pi_path :: string
  pi_owner :: perms
  pi_group :: perms
  pi_others :: perms
  pi_loaded :: bool

text \<open>\<open>load\<close> asks once; the masks are \<open>S_IRUSR\<close> to \<open>S_IXOTH\<close>.\<close>

definition perms_load :: "(string \<Rightarrow> 16 word option) \<Rightarrow> permissions_info \<Rightarrow> permissions_info" where
  "perms_load stat p =
     (if pi_loaded p then p
      else let p0 = p\<lparr>pi_owner := no_perms, pi_group := no_perms, pi_others := no_perms\<rparr>;
               p1 = (case stat (pi_path p) of
                       None \<Rightarrow> p0
                     | Some m \<Rightarrow>
                         p0\<lparr>pi_owner := \<lparr>p_read = m AND 256 \<noteq> 0, p_write = m AND 128 \<noteq> 0, p_execute = m AND 64 \<noteq> 0\<rparr>,
                            pi_group := \<lparr>p_read = m AND 32 \<noteq> 0, p_write = m AND 16 \<noteq> 0, p_execute = m AND 8 \<noteq> 0\<rparr>,
                            pi_others := \<lparr>p_read = m AND 4 \<noteq> 0, p_write = m AND 2 \<noteq> 0, p_execute = m AND 1 \<noteq> 0\<rparr>\<rparr>)
           in p1\<lparr>pi_loaded := True\<rparr>)"

definition new_permissions_info :: "(string \<Rightarrow> 16 word option) \<Rightarrow> string \<Rightarrow> permissions_info" where
  "new_permissions_info stat path =
     perms_load stat \<lparr>pi_path = path, pi_owner = no_perms, pi_group = no_perms, pi_others = no_perms,
       pi_loaded = False\<rparr>"

definition perms_exists :: "'s dir_api \<Rightarrow> 's \<Rightarrow> permissions_info \<Rightarrow> bool option" where
  "perms_exists A s p = map_option (\<lambda>t. t \<noteq> ft_not_found) (status_or_throw A (pi_path p) s)"

definition perms_text :: "perms \<Rightarrow> string" where
  "perms_text x =
     [if p_read x then CHR ''r'' else CHR ''-'', if p_write x then CHR ''w'' else CHR ''-'',
      if p_execute x then CHR ''x'' else CHR ''-'']"

definition perms_to_string :: "permissions_info \<Rightarrow> string" where
  "perms_to_string p = perms_text (pi_owner p) @ perms_text (pi_group p) @ perms_text (pi_others p)"

section \<open>The text\<close>

lemma and_power: "w AND 2 ^ n \<noteq> 0 \<longleftrightarrow> bit w n" if "n < 16" for w :: "16 word"
  using that by (simp add: bit_iff_and_push_bit_not_eq_0 push_bit_eq_mult)

lemma mode_bits:
  "w AND 256 \<noteq> 0 \<longleftrightarrow> bit w 8" "w AND 128 \<noteq> 0 \<longleftrightarrow> bit w 7" "w AND 64 \<noteq> 0 \<longleftrightarrow> bit w 6"
  "w AND 32 \<noteq> 0 \<longleftrightarrow> bit w 5" "w AND 16 \<noteq> 0 \<longleftrightarrow> bit w 4" "w AND 8 \<noteq> 0 \<longleftrightarrow> bit w 3"
  "w AND 4 \<noteq> 0 \<longleftrightarrow> bit w 2" "w AND 2 \<noteq> 0 \<longleftrightarrow> bit w 1" "w AND 1 \<noteq> 0 \<longleftrightarrow> bit w 0" for w :: "16 word"
  using and_power [of 8 w] and_power [of 7 w] and_power [of 6 w] and_power [of 5 w] and_power [of 4 w]
    and_power [of 3 w] and_power [of 2 w] and_power [of 1 w] and_power [of 0 w] by simp_all

text \<open>The text shows the nine low bits of the mode, the highest first, as \<open>ls\<close> does.\<close>

lemma permission_text:
  assumes "stat path = Some m"
  shows "perms_to_string (new_permissions_info stat path) =
    map2 (\<lambda>i c. if bit m (8 - i) then c else CHR ''-'') [0..<9] ''rwxrwxrwx''"
  using assms
  by (simp add: new_permissions_info_def perms_load_def perms_to_string_def perms_text_def Let_def mode_bits
    upt_rec)

text \<open>A path that cannot be asked about shows the text of a file without permissions.\<close>

lemma unreadable_shows_none:
  "stat path = None \<Longrightarrow> perms_to_string (new_permissions_info stat path) = ''---------''"
  by (simp add: new_permissions_info_def perms_load_def perms_to_string_def perms_text_def no_perms_def Let_def)

lemma load_twice: "perms_load stat (perms_load stat' p) = perms_load stat' p"
  by (simp add: perms_load_def Let_def split: option.split)

lemma size_of_directory: "fi_is_dir A s f = Some True \<Longrightarrow> fi_file_size A file_size s f = Some 0"
  by (auto simp: fi_is_dir_def fi_file_size_def fi_is_file_def)

end
