(* ===== verification/Log_Settings.thy ===== *)
theory Log_Settings
  imports Ini_Parser String_Basic
begin

text \<open>
  The settings of \<open>logger_manager.cpp\<close>: how the values of an INI section become levels, switches, sizes
  and numbers, and the text of the UDP alert. The conversions of floating-point numbers are the
  parameter \<open>log_floats\<close>; the document is the one of \<open>Ini_Parser\<close>, whose positions are never out of
  range (\<open>ini_load_total\<close>, \<open>get_total\<close>), so \<open>the\<close> takes the answer of a lookup.
\<close>

section \<open>Parameters\<close>

record ('d, 'l) log_floats =
  lf_ini :: "'d float_api"
  lf_trunc :: "'d \<Rightarrow> int"
  lf_of_int :: "int \<Rightarrow> 'd"
  lf_five :: 'd
  lf_stod :: "string \<Rightarrow> 'd option"
  lf_llround :: "'d \<Rightarrow> nat \<Rightarrow> int"
  lf_percent :: "nat \<Rightarrow> nat \<Rightarrow> 'l"
  lf_hundred :: 'l
  lf_below :: "'l \<Rightarrow> 'd \<Rightarrow> bool"
  lf_fixed2 :: "'l \<Rightarrow> string"

section \<open>Values\<close>

datatype log_level = Trace | Debug | Info | Warn | Err | Critical | Off

definition log_to_bool :: "string \<Rightarrow> bool \<Rightarrow> bool" where
  "log_to_bool val default_val =
     (let v = to_lower val in
      if v = ''true'' \<or> v = ''1'' \<or> v = ''yes'' \<or> v = ''on'' then True
      else if v = ''false'' \<or> v = ''0'' \<or> v = ''no'' \<or> v = ''off'' then False
      else default_val)"

definition parse_level :: "string \<Rightarrow> log_level \<Rightarrow> log_level" where
  "parse_level s def =
     (let v = to_lower s in
      if v = ''trace'' then Trace
      else if v = ''debug'' then Debug
      else if v = ''info'' then Info
      else if v = ''warn'' \<or> v = ''warning'' then Warn
      else if v = ''error'' \<or> v = ''err'' then Err
      else if v = ''critical'' \<or> v = ''crit'' then Critical
      else if v = ''off'' then Off
      else def)"

text \<open>The factor of a unit, \<open>None\<close> for a text that is none.\<close>

definition size_unit :: "string \<Rightarrow> nat option" where
  "size_unit u =
     (if u = [] \<or> u = ''b'' then Some 1
      else if u = ''k'' \<or> u = ''kb'' then Some 1024
      else if u = ''m'' \<or> u = ''mb'' then Some (1024 * 1024)
      else if u = ''g'' \<or> u = ''gb'' then Some (1024 * 1024 * 1024)
      else if u = ''t'' \<or> u = ''tb'' then Some (1024 * 1024 * 1024 * 1024)
      else None)"

definition as_size :: "int \<Rightarrow> nat" where
  "as_size x = nat (x mod 2 ^ 64)"

definition parse_size_bytes :: "('d, 'l) log_floats \<Rightarrow> string \<Rightarrow> nat \<Rightarrow> nat" where
  "parse_size_bytes fl s default_val =
     (if s = [] then default_val
      else let lower = to_lower (filter (\<lambda>c. \<not> isspace c) s);
               num_str = takeWhile (\<lambda>c. isdigit c \<or> c = CHR ''.'') lower;
               unit_str = drop (length num_str) lower
           in if num_str = [] then default_val
              else (case lf_stod fl num_str of
                      None \<Rightarrow> default_val
                    | Some num \<Rightarrow> (case size_unit unit_str of
                          None \<Rightarrow> default_val
                        | Some mul \<Rightarrow> as_size (lf_llround fl num mul))))"

section \<open>Reading the section\<close>

definition log_get_str :: "ini_parser \<Rightarrow> string \<Rightarrow> string \<Rightarrow> string \<Rightarrow> string" where
  "log_get_str ini sect key def = (case the (get_string sect key ini) of Some v \<Rightarrow> v | None \<Rightarrow> def)"

definition log_get_ll :: "('d, 'l) log_floats \<Rightarrow> ini_parser \<Rightarrow> string \<Rightarrow> string \<Rightarrow> int \<Rightarrow> int" where
  "log_get_ll fl ini sect key def =
     (case the (get_int sect key ini) of
        Some v \<Rightarrow> v
      | None \<Rightarrow> (case the (get_double (lf_ini fl) sect key ini) of Some v \<Rightarrow> lf_trunc fl v | None \<Rightarrow> def))"

definition log_get_d :: "('d, 'l) log_floats \<Rightarrow> ini_parser \<Rightarrow> string \<Rightarrow> string \<Rightarrow> 'd \<Rightarrow> 'd" where
  "log_get_d fl ini sect key def =
     (case the (get_double (lf_ini fl) sect key ini) of
        Some v \<Rightarrow> v
      | None \<Rightarrow> (case the (get_int sect key ini) of Some v \<Rightarrow> lf_of_int fl v | None \<Rightarrow> def))"

record 'd log_settings =
  ls_utc :: bool
  ls_console :: bool
  ls_file_all :: bool
  ls_file_alerts :: bool
  ls_console_min :: log_level
  ls_all_min :: log_level
  ls_alerts_min :: log_level
  ls_logger_min :: log_level
  ls_flush_on :: log_level
  ls_flush_every :: nat
  ls_pattern_console :: string
  ls_pattern_file :: string
  ls_all_path :: string
  ls_alerts_path :: string
  ls_all_max_size :: nat
  ls_all_max_files :: nat
  ls_alert_max_size :: nat
  ls_alert_max_files :: nat
  ls_guard :: bool
  ls_disk_root :: string
  ls_min_ratio :: 'd
  ls_udp_ip :: string
  ls_udp_port :: nat
  ls_udp_interval :: nat
  ls_udp_message :: string
  ls_auto_reload :: nat

definition default_console_pattern :: string where
  "default_console_pattern = ''[%Y-%m-%d %H:%M:%S.%e] [%^%l%$] [%t] %v''"

definition default_file_pattern :: string where
  "default_file_pattern = ''[%Y-%m-%d %H:%M:%S.%e] [%l] [%t] %v''"

definition default_message :: string where
  "default_message = ''DISK LOW: path={path} free={avail_bytes}B ({ratio}%)''"

text \<open>The values the members have in a new manager.\<close>

definition initial_settings :: "('d, 'l) log_floats \<Rightarrow> 'd log_settings" where
  "initial_settings fl = \<lparr>
     ls_utc = False, ls_console = True, ls_file_all = True, ls_file_alerts = True,
     ls_console_min = Trace, ls_all_min = Trace, ls_alerts_min = Warn, ls_logger_min = Trace,
     ls_flush_on = Warn, ls_flush_every = 1,
     ls_pattern_console = default_console_pattern, ls_pattern_file = default_file_pattern,
     ls_all_path = ''logs/all.log'', ls_alerts_path = ''logs/alerts.log'',
     ls_all_max_size = 100 * 1024 * 1024, ls_all_max_files = 5,
     ls_alert_max_size = 100 * 1024 * 1024, ls_alert_max_files = 10,
     ls_guard = True, ls_disk_root = [], ls_min_ratio = lf_five fl,
     ls_udp_ip = [], ls_udp_port = 0, ls_udp_interval = 60, ls_udp_message = default_message,
     ls_auto_reload = 60\<rparr>"

text \<open>The reading of a section by \<open>loadConfig\<close>; \<open>AUTO_RELOAD_SEC\<close> only when asked for.\<close>

definition read_settings :: "('d, 'l) log_floats \<Rightarrow> ini_parser \<Rightarrow> string \<Rightarrow> bool \<Rightarrow> 'd log_settings \<Rightarrow> 'd log_settings" where
  "read_settings fl ini sect readAutoReload old =
     (let get_str = log_get_str ini sect; get_ll = log_get_ll fl ini sect in
      \<lparr>ls_utc = (to_lower (get_str ''TIME_MODE'' ''local'') = ''utc''),
       ls_console = log_to_bool (get_str ''ENABLE_CONSOLE_LOG'' ''true'') True,
       ls_file_all = log_to_bool (get_str ''ENABLE_FILE_LOG_ALL'' ''true'') True,
       ls_file_alerts = log_to_bool (get_str ''ENABLE_FILE_LOG_ALERTS'' ''true'') True,
       ls_console_min = parse_level (get_str ''CONSOLE_LEVEL'' ''trace'') Trace,
       ls_all_min = parse_level (get_str ''ALL_FILE_LEVEL'' ''trace'') Trace,
       ls_alerts_min = parse_level (get_str ''ALERTS_FILE_LEVEL'' ''warn'') Warn,
       ls_logger_min = parse_level (get_str ''LOGGER_LEVEL'' ''trace'') Trace,
       ls_flush_on = parse_level (get_str ''FLUSH_ON_LEVEL'' ''warn'') Warn,
       ls_flush_every = as_size (get_ll ''FLUSH_EVERY_SEC'' 1),
       ls_pattern_console = get_str ''PATTERN_CONSOLE'' default_console_pattern,
       ls_pattern_file = get_str ''PATTERN_FILE'' default_file_pattern,
       ls_all_path = get_str ''ALL_PATH'' ''logs/all.log'',
       ls_alerts_path = get_str ''ALERTS_PATH'' ''logs/alerts.log'',
       ls_all_max_size = parse_size_bytes fl (get_str ''ALL_MAX_SIZE'' ''104857600'') (100 * 1024 * 1024),
       ls_all_max_files = as_size (get_ll ''ALL_MAX_FILES'' 5),
       ls_alert_max_size = parse_size_bytes fl (get_str ''ALERT_MAX_SIZE'' ''104857600'') (100 * 1024 * 1024),
       ls_alert_max_files = as_size (get_ll ''ALERT_MAX_FILES'' 10),
       ls_guard = log_to_bool (get_str ''DISK_GUARD_ENABLE'' ''true'') True,
       ls_disk_root = get_str ''DISK_ROOT'' [],
       ls_min_ratio = log_get_d fl ini sect ''DISK_MIN_FREE_RATIO'' (lf_five fl),
       ls_udp_ip = get_str ''UDP_ALERT_IP'' [],
       ls_udp_port = nat (get_ll ''UDP_ALERT_PORT'' 0 mod 2 ^ 16),
       ls_udp_interval = nat (get_ll ''UDP_ALERT_INTERVAL_SEC'' 60 mod 2 ^ 32),
       ls_udp_message = get_str ''UDP_ALERT_MESSAGE'' default_message,
       ls_auto_reload = (if readAutoReload then nat (get_ll ''AUTO_RELOAD_SEC'' 60 mod 2 ^ 32)
                         else ls_auto_reload old)\<rparr>)"

section \<open>Texts\<close>

definition replace_all_in :: "string \<Rightarrow> string \<Rightarrow> string \<Rightarrow> string" where
  "replace_all_in s from to = (if from = [] then s else replace_loop from to s 0)"

definition replace_Z_placeholder :: "string \<Rightarrow> bool \<Rightarrow> string" where
  "replace_Z_placeholder pattern utc =
     (let tz = (if utc then ''utc'' else ''local'') in replace_loop ''%Z'' tz pattern 0)"

definition as_long_long :: "nat \<Rightarrow> int" where
  "as_long_long n = (if n < 2 ^ 63 then int n else int n - 2 ^ 64)"

definition build_udp_message :: "('d, 'l) log_floats \<Rightarrow> string \<Rightarrow> string \<Rightarrow> nat \<Rightarrow> 'l \<Rightarrow> string" where
  "build_udp_message fl tmpl path availBytes ratioPercent =
     (let ratio2 = lf_fixed2 fl ratioPercent;
          msg1 = replace_all_in tmpl ''{path}'' path;
          msg2 = replace_all_in msg1 ''{avail_bytes}'' (to_string (as_long_long availBytes))
      in replace_all_in msg2 ''{ratio}'' ratio2)"

section \<open>Lookups never fail\<close>

lemma get_total:
  assumes "valid_ini p"
  shows "get_string n k p \<noteq> None" "get_int n k p \<noteq> None" "get_double api n k p \<noteq> None"
  using assms
  by (auto elim!: valid_iniE simp: get_string_def get_int_def get_double_def find_entry_mk simp del: not_None_eq)

lemma upsert_valid: "valid_ini p \<Longrightarrow> \<exists>p'. upsert n k v kd l p = Some p' \<and> valid_ini p'"
  by (auto elim!: valid_iniE simp: upsert_mk wf_doc_put)

lemma ensure_valid: "valid_ini p \<Longrightarrow> valid_ini (fst (ensure_section n p))"
  by (auto elim!: valid_iniE simp: ensure_section_mk wf_document_def)

lemma store_value_valid: "valid_ini p \<Longrightarrow> \<exists>p'. store_value api cur k v p = Some p' \<and> valid_ini p'"
  by (auto simp: store_value_def upsert_string_def upsert_numeric_def upsert_valid split: option.split)

lemma load_line_valid: "valid_ini (snd st) \<Longrightarrow> \<exists>st'. load_line api line st = Some st' \<and> valid_ini (snd st')"
  using store_value_valid [of "snd st" api "fst st"]
  by (cases st) (fastforce simp: load_line_def Let_def ensure_valid split: option.split)

lemma load_lines_valid:
  "valid_ini (snd st) \<Longrightarrow> \<exists>st'. fold_opt (load_line api) ls st = Some st' \<and> valid_ini (snd st')"
proof (induction ls arbitrary: st)
  case (Cons l ls)
  then show ?case using load_line_valid [OF Cons.prems, of api l] by auto
qed simp

lemma ini_load_total:
  "valid_ini p \<Longrightarrow> \<exists>p'. ini_load api doc p = Some (doc \<noteq> None, p') \<and> valid_ini p'"
proof (cases doc)
  case (Some content)
  have "valid_ini (snd ([] :: string, new_ini))" by (simp add: new_ini_mk wf_document_def)
  from load_lines_valid [OF this, of api "getline_loop lf content"]
  show ?thesis using Some by (auto simp: ini_load_def)
qed (simp add: ini_load_def)

text \<open>An empty section gives the initial settings back, if the C library reads the two literals for the
  sizes as the numbers they are.\<close>

lemma defaults_agree:
  assumes "lf_stod fl ''104857600'' = Some v" "lf_llround fl v 1 = 104857600"
  shows "read_settings fl new_ini sect True (initial_settings fl) = initial_settings fl"
proof -
  have none: "get_string sect k new_ini = Some None" "get_int sect k new_ini = Some None"
    "get_double (lf_ini fl) sect k new_ini = Some None" for k
    by (simp_all add: get_string_def get_int_def get_double_def find_entry_def find_section_def new_ini_def)
  have size: "parse_size_bytes fl ''104857600'' d = 104857600" for d
    using assms by (simp add: parse_size_bytes_def to_lower_def tolower_def isupper_def isspace_def isdigit_def
      size_unit_def as_size_def)
  have lv: "parse_level ''trace'' d = Trace" "parse_level ''warn'' d = Warn" for d by code_simp+
  have bl: "log_to_bool ''true'' d" "to_lower ''local'' \<noteq> ''utc''" for d by code_simp+
  show ?thesis
    by (simp add: read_settings_def initial_settings_def log_get_str_def log_get_ll_def log_get_d_def none size lv bl
      as_size_def)
qed

text \<open>The spelling of levels and switches does not depend on the case of letters.\<close>

lemma parse_level_case: "parse_level (to_lower s) d = parse_level s d" "log_to_bool (to_lower s) b = log_to_bool s b"
  by (simp_all add: parse_level_def log_to_bool_def to_lower_def comp_def)

end
