(* ===== verification/Logger_Manager.thy ===== *)
theory Logger_Manager
  imports Log_Settings "HOL-Library.Multiset"
begin

text \<open>
  The sinks of \<open>logger_manager.cpp\<close> through initialisation, reloads of the configuration file and the disk
  guard. spdlog is a parameter: \<open>dist_api\<close> is its \<open>dist_sink\<close>, and whether a rotating file can be opened
  is part of the environment of a call, like the file with the settings, its time of change, the free
  space, the clock and the UDP socket. A sink object is a number into a store, so that a shared pointer
  and an entry of the distributing sink can be the same object. \<open>ld_custom\<close> tells the two builds apart,
  with and without spdlog's custom flags. The texts that the manager logs itself are left out, and
  so are the mutex, which every public operation holds as a whole, and the flushing of a sink.
\<close>

section \<open>State and environment\<close>

datatype sink_target = Stdout | Rotating string nat nat

datatype formatter = Formatter string bool bool

record log_sink =
  sk_target :: sink_target
  sk_level :: log_level
  sk_format :: formatter

record 's dist_api =
  da_empty :: 's
  da_add :: "nat \<Rightarrow> 's \<Rightarrow> 's"
  da_remove :: "nat \<Rightarrow> 's \<Rightarrow> 's"
  da_sinks :: "'s \<Rightarrow> nat list"

record ('d, 'l, 's) log_deps =
  ld_floats :: "('d, 'l) log_floats"
  ld_dist :: "'s dist_api"
  ld_custom :: bool

record log_env =
  env_var :: "string \<Rightarrow> string option"
  env_file :: "string \<Rightarrow> string option"
  env_mtime :: "string \<Rightarrow> int option"
  env_opens :: "string \<Rightarrow> nat \<Rightarrow> nat \<Rightarrow> bool"
  env_name_free :: "string \<Rightarrow> bool"
  env_space :: "string \<Rightarrow> (nat \<times> nat) option"
  env_now :: int
  env_udp :: "string \<Rightarrow> string \<Rightarrow> nat \<Rightarrow> bool"

text \<open>The members, with the times of the alerts that were sent as a ghost.\<close>

record ('d, 's) logger_manager =
  lm_cfg :: "'d log_settings"
  lm_ini_path :: string
  lm_section :: string
  lm_name :: string
  lm_ini :: ini_parser
  lm_detached :: bool
  lm_last_udp :: int
  lm_sent :: "int list"
  lm_logger :: "(log_level \<times> log_level) option"
  lm_console :: "nat option"
  lm_all :: "nat option"
  lm_alerts :: "nat option"
  lm_dist :: 's
  lm_sinks :: "nat \<Rightarrow> log_sink"
  lm_next :: nat
  lm_last_write :: int
  lm_flush_period :: "nat option"
  lm_running :: bool

definition new_manager :: "('d, 'l, 's) log_deps \<Rightarrow> ('d, 's) logger_manager" where
  "new_manager L = \<lparr>lm_cfg = initial_settings (ld_floats L), lm_ini_path = [], lm_section = ''Log'', lm_name = [],
     lm_ini = new_ini, lm_detached = False, lm_last_udp = 0, lm_sent = [], lm_logger = None,
     lm_console = None, lm_all = None, lm_alerts = None, lm_dist = da_empty (ld_dist L),
     lm_sinks = (\<lambda>i. \<lparr>sk_target = Stdout, sk_level = Trace, sk_format = Formatter [] False False\<rparr>), lm_next = 0,
     lm_last_write = 0, lm_flush_period = None, lm_running = False\<rparr>"

section \<open>Settings and formatters\<close>

definition load_config :: "('d, 'l, 's) log_deps \<Rightarrow> log_env \<Rightarrow> bool \<Rightarrow> ('d, 's) logger_manager \<Rightarrow>
    bool \<times> ('d, 's) logger_manager" where
  "load_config L env readAutoReload lm =
     (case the (ini_load (lf_ini (ld_floats L)) (env_file env (lm_ini_path lm)) (lm_ini lm)) of
        (False, ini) \<Rightarrow> (False, lm\<lparr>lm_ini := ini\<rparr>)
      | (True, ini) \<Rightarrow> (True, lm\<lparr>lm_ini := ini,
          lm_cfg := read_settings (ld_floats L) ini (lm_section lm) readAutoReload (lm_cfg lm)\<rparr>))"

definition make_formatter :: "bool \<Rightarrow> string \<Rightarrow> bool \<Rightarrow> formatter" where
  "make_formatter custom pattern utc =
     (if custom then Formatter pattern utc True else Formatter (replace_Z_placeholder pattern utc) utc False)"

definition console_format :: "('d, 'l, 's) log_deps \<Rightarrow> 'd log_settings \<Rightarrow> formatter" where
  "console_format L cfg = make_formatter (ld_custom L) (ls_pattern_console cfg) (ls_utc cfg)"

definition file_format :: "('d, 'l, 's) log_deps \<Rightarrow> 'd log_settings \<Rightarrow> formatter" where
  "file_format L cfg = make_formatter (ld_custom L) (ls_pattern_file cfg) (ls_utc cfg)"

text \<open>\<open>set_level\<close> and \<open>set_formatter\<close> on a sink, if the pointer is not null.\<close>

definition restyle :: "nat option \<Rightarrow> log_level \<Rightarrow> formatter \<Rightarrow> ('d, 's) logger_manager \<Rightarrow> ('d, 's) logger_manager" where
  "restyle p level fmt lm = (case p of
      None \<Rightarrow> lm
    | Some i \<Rightarrow> lm\<lparr>lm_sinks := (lm_sinks lm)(i := (lm_sinks lm i)\<lparr>sk_level := level, sk_format := fmt\<rparr>)\<rparr>)"

definition apply_soft_settings :: "('d, 'l, 's) log_deps \<Rightarrow> ('d, 's) logger_manager \<Rightarrow> ('d, 's) logger_manager" where
  "apply_soft_settings L lm =
     (let cfg = lm_cfg lm;
          lm1 = restyle (lm_console lm) (ls_console_min cfg) (console_format L cfg) lm;
          lm2 = restyle (lm_all lm1) (ls_all_min cfg) (file_format L cfg) lm1;
          lm3 = restyle (lm_alerts lm2) (ls_alerts_min cfg) (file_format L cfg) lm2
      in lm3\<lparr>lm_logger := map_option (\<lambda>lg. (ls_logger_min cfg, ls_flush_on cfg)) (lm_logger lm3)\<rparr>)"

section \<open>The sinks\<close>

definition add_sink :: "('d, 'l, 's) log_deps \<Rightarrow> nat \<Rightarrow> ('d, 's) logger_manager \<Rightarrow> ('d, 's) logger_manager" where
  "add_sink L i lm = lm\<lparr>lm_dist := da_add (ld_dist L) i (lm_dist lm)\<rparr>"

definition remove_sink :: "('d, 'l, 's) log_deps \<Rightarrow> nat \<Rightarrow> ('d, 's) logger_manager \<Rightarrow> ('d, 's) logger_manager" where
  "remove_sink L i lm = lm\<lparr>lm_dist := da_remove (ld_dist L) i (lm_dist lm)\<rparr>"

text \<open>A new sink object, with its level and formatter, added to the distributing sink.\<close>

definition new_sink :: "('d, 'l, 's) log_deps \<Rightarrow> sink_target \<Rightarrow> log_level \<Rightarrow> formatter \<Rightarrow> ('d, 's) logger_manager \<Rightarrow>
    nat \<times> ('d, 's) logger_manager" where
  "new_sink L target level fmt lm =
     (let i = lm_next lm
      in (i, add_sink L i (lm\<lparr>lm_next := i + 1,
           lm_sinks := (lm_sinks lm)(i := \<lparr>sk_target = target, sk_level = level, sk_format = fmt\<rparr>)\<rparr>)))"

definition add_console :: "('d, 'l, 's) log_deps \<Rightarrow> log_level \<Rightarrow> ('d, 's) logger_manager \<Rightarrow> ('d, 's) logger_manager" where
  "add_console L level lm =
     (let (i, lm1) = new_sink L Stdout level (console_format L (lm_cfg lm)) lm in lm1\<lparr>lm_console := Some i\<rparr>)"

text \<open>With no sink at all the manager falls back to a console sink at the lowest level.\<close>

definition fallback :: "('d, 'l, 's) log_deps \<Rightarrow> ('d, 's) logger_manager \<Rightarrow> ('d, 's) logger_manager" where
  "fallback L lm = (if da_sinks (ld_dist L) (lm_dist lm) = [] then add_console L Trace lm else lm)"

definition hard_console :: "('d, 'l, 's) log_deps \<Rightarrow> ('d, 's) logger_manager \<Rightarrow> ('d, 's) logger_manager" where
  "hard_console L lm =
     (case lm_console lm of
        None \<Rightarrow> if ls_console (lm_cfg lm) then add_console L (ls_console_min (lm_cfg lm)) lm else lm
      | Some s \<Rightarrow> if \<not> ls_console (lm_cfg lm) then remove_sink L s (lm\<lparr>lm_console := None\<rparr>) else lm)"

text \<open>One file sink: \<open>None\<close> when the file cannot be opened, which throws; otherwise the new pointer. The
  new sink is added before the old one is removed.\<close>

definition renew_sink :: "('d, 'l, 's) log_deps \<Rightarrow> bool \<Rightarrow> bool \<Rightarrow> bool \<Rightarrow> nat option \<Rightarrow> sink_target \<Rightarrow> log_level \<Rightarrow>
    ('d, 's) logger_manager \<Rightarrow> (nat option \<times> ('d, 's) logger_manager) option" where
  "renew_sink L enable need_new opens old target level lm =
     (if enable
      then (if need_new
            then (if \<not> opens then None
                  else let (i, lm1) = new_sink L target level (file_format L (lm_cfg lm)) lm
                       in Some (Some i, case old of None \<Rightarrow> lm1 | Some s \<Rightarrow> remove_sink L s lm1))
            else Some (old, lm))
      else (case old of None \<Rightarrow> Some (None, lm) | Some s \<Rightarrow> Some (None, remove_sink L s lm)))"

definition hard_all :: "('d, 'l, 's) log_deps \<Rightarrow> log_env \<Rightarrow> 'd log_settings \<Rightarrow> ('d, 's) logger_manager \<Rightarrow>
    bool \<times> ('d, 's) logger_manager" where
  "hard_all L env old lm =
     (let cfg = lm_cfg lm;
          need_new = (ls_file_all cfg \<and> lm_all lm = None \<or> \<not> ls_file_all old \<and> ls_file_all cfg \<or>
            lm_all lm \<noteq> None \<and> (ls_all_path cfg \<noteq> ls_all_path old \<or> ls_all_max_size cfg \<noteq> ls_all_max_size old \<or>
              ls_all_max_files cfg \<noteq> ls_all_max_files old));
          path = ls_all_path cfg; max_size = ls_all_max_size cfg; files = ls_all_max_files cfg
      in case renew_sink L (ls_file_all cfg) need_new (env_opens env path max_size files) (lm_all lm)
             (Rotating path max_size files) (ls_all_min cfg) lm of
           None \<Rightarrow> (False, lm)
         | Some (p, lm1) \<Rightarrow> (True, lm1\<lparr>lm_all := p\<rparr>))"

definition hard_alerts :: "('d, 'l, 's) log_deps \<Rightarrow> log_env \<Rightarrow> 'd log_settings \<Rightarrow> ('d, 's) logger_manager \<Rightarrow>
    bool \<times> ('d, 's) logger_manager" where
  "hard_alerts L env old lm =
     (let cfg = lm_cfg lm;
          need_new = (ls_file_alerts cfg \<and> lm_alerts lm = None \<or> \<not> ls_file_alerts old \<and> ls_file_alerts cfg \<or>
            lm_alerts lm \<noteq> None \<and> (ls_alerts_path cfg \<noteq> ls_alerts_path old \<or>
              ls_alert_max_size cfg \<noteq> ls_alert_max_size old \<or> ls_alert_max_files cfg \<noteq> ls_alert_max_files old));
          path = ls_alerts_path cfg; max_size = ls_alert_max_size cfg; files = ls_alert_max_files cfg
      in case renew_sink L (ls_file_alerts cfg) need_new (env_opens env path max_size files) (lm_alerts lm)
             (Rotating path max_size files) (ls_alerts_min cfg) lm of
           None \<Rightarrow> (False, lm)
         | Some (p, lm1) \<Rightarrow> (True, lm1\<lparr>lm_alerts := p\<rparr>))"

text \<open>The flag is false when a file could not be opened, which leaves the function by an exception.\<close>

definition apply_hard_settings :: "('d, 'l, 's) log_deps \<Rightarrow> log_env \<Rightarrow> 'd log_settings \<Rightarrow> ('d, 's) logger_manager \<Rightarrow>
    bool \<times> ('d, 's) logger_manager" where
  "apply_hard_settings L env old lm =
     (case hard_all L env old (hard_console L lm) of
        (False, lm1) \<Rightarrow> (False, lm1)
      | (True, lm1) \<Rightarrow> (case hard_alerts L env old lm1 of
          (False, lm2) \<Rightarrow> (False, lm2)
        | (True, lm2) \<Rightarrow> (True, fallback L lm2)))"

section \<open>The disk guard\<close>

definition suspend_files :: "('d, 'l, 's) log_deps \<Rightarrow> ('d, 's) logger_manager \<Rightarrow> ('d, 's) logger_manager" where
  "suspend_files L lm =
     (if lm_detached lm then lm
      else let lm1 = (case lm_all lm of None \<Rightarrow> lm | Some s \<Rightarrow> remove_sink L s lm);
               lm2 = (case lm_alerts lm1 of None \<Rightarrow> lm1 | Some s \<Rightarrow> remove_sink L s lm1)
           in lm2\<lparr>lm_detached := True\<rparr>)"

definition resume_files :: "('d, 'l, 's) log_deps \<Rightarrow> ('d, 's) logger_manager \<Rightarrow> ('d, 's) logger_manager" where
  "resume_files L lm =
     (if \<not> lm_detached lm then lm
      else let lm1 = (case lm_all lm of Some s \<Rightarrow> if ls_file_all (lm_cfg lm) then add_sink L s lm else lm | None \<Rightarrow> lm);
               lm2 = (case lm_alerts lm1 of Some s \<Rightarrow> if ls_file_alerts (lm_cfg lm1) then add_sink L s lm1 else lm1
                      | None \<Rightarrow> lm1)
           in (apply_soft_settings L lm2)\<lparr>lm_detached := False\<rparr>)"

definition send_udp_alert :: "log_env \<Rightarrow> ('d, 's) logger_manager \<Rightarrow> string \<Rightarrow> bool" where
  "send_udp_alert env lm msg =
     (if ls_udp_ip (lm_cfg lm) = [] then False
      else if ls_udp_port (lm_cfg lm) = 0 then False
      else if msg = [] then False
      else env_udp env msg (ls_udp_ip (lm_cfg lm)) (ls_udp_port (lm_cfg lm)))"

text \<open>The clock counts nanoseconds; a time of 0 means that no alert has been sent.\<close>

definition alert_if_due :: "('d, 'l, 's) log_deps \<Rightarrow> log_env \<Rightarrow> nat \<Rightarrow> 'l \<Rightarrow> ('d, 's) logger_manager \<Rightarrow>
    ('d, 's) logger_manager" where
  "alert_if_due L env avail ratio lm =
     (let cfg = lm_cfg lm; now = env_now env;
          due = (lm_last_udp lm = 0 \<or> now - lm_last_udp lm \<ge> int (ls_udp_interval cfg) * 1000000000)
      in if due \<and> ls_udp_ip cfg \<noteq> [] \<and> ls_udp_port cfg > 0
         then let payload = build_udp_message (ld_floats L) (ls_udp_message cfg) (ls_disk_root cfg) avail ratio
              in if send_udp_alert env lm payload
                 then lm\<lparr>lm_last_udp := now, lm_sent := lm_sent lm @ [now]\<rparr> else lm
         else lm)"

definition check_disk :: "('d, 'l, 's) log_deps \<Rightarrow> log_env \<Rightarrow> ('d, 's) logger_manager \<Rightarrow> ('d, 's) logger_manager" where
  "check_disk L env lm =
     (let cfg = lm_cfg lm; fl = ld_floats L in
      if \<not> ls_guard cfg then resume_files L lm
      else if ls_disk_root cfg = [] then lm
      else (case env_space env (ls_disk_root cfg) of
              None \<Rightarrow> lm
            | Some (avail, cap) \<Rightarrow>
                let ratio = (if cap > 0 then lf_percent fl avail cap else lf_hundred fl);
                    low = lf_below fl ratio (ls_min_ratio cfg)
                in if low then alert_if_due L env avail ratio (suspend_files L lm) else resume_files L lm))"

section \<open>Initialisation and reload\<close>

definition config_path :: "log_env \<Rightarrow> string \<Rightarrow> string \<Rightarrow> string" where
  "config_path env defaultConfigPath envName =
     (if envName \<noteq> [] then (case env_var env envName of Some envPath \<Rightarrow> envPath | None \<Rightarrow> defaultConfigPath)
      else defaultConfigPath)"

definition init_file :: "('d, 'l, 's) log_deps \<Rightarrow> log_env \<Rightarrow> bool \<Rightarrow> string \<Rightarrow> nat \<Rightarrow> nat \<Rightarrow> log_level \<Rightarrow>
    ('d, 's) logger_manager \<Rightarrow> (nat option \<times> ('d, 's) logger_manager) option" where
  "init_file L env enable path max_size files level lm =
     (if \<not> enable then Some (None, lm)
      else if \<not> env_opens env path max_size files then None
      else let (i, lm1) = new_sink L (Rotating path max_size files) level (file_format L (lm_cfg lm)) lm
           in Some (Some i, lm1))"

text \<open>The sinks that \<open>init\<close> makes; a pointer of a disabled sink keeps its value.\<close>

definition init_sinks :: "('d, 'l, 's) log_deps \<Rightarrow> log_env \<Rightarrow> ('d, 's) logger_manager \<Rightarrow>
    bool \<times> ('d, 's) logger_manager" where
  "init_sinks L env lm =
     (let cfg = lm_cfg lm;
          lm1 = lm\<lparr>lm_dist := da_empty (ld_dist L)\<rparr>;
          lm2 = (if ls_console cfg then add_console L (ls_console_min cfg) lm1 else lm1)
      in case init_file L env (ls_file_all cfg) (ls_all_path cfg) (ls_all_max_size cfg) (ls_all_max_files cfg)
             (ls_all_min cfg) lm2 of
           None \<Rightarrow> (False, lm2)
         | Some (a, lm3) \<Rightarrow>
             let lm4 = (if a = None then lm3 else lm3\<lparr>lm_all := a\<rparr>)
             in (case init_file L env (ls_file_alerts cfg) (ls_alerts_path cfg) (ls_alert_max_size cfg)
                    (ls_alert_max_files cfg) (ls_alerts_min cfg) lm4 of
                   None \<Rightarrow> (False, lm4)
                 | Some (b, lm5) \<Rightarrow>
                     (True, fallback L (if b = None then lm5 else lm5\<lparr>lm_alerts := b\<rparr>))))"

definition start_auto_reload :: "nat \<Rightarrow> ('d, 's) logger_manager \<Rightarrow> bool \<times> ('d, 's) logger_manager" where
  "start_auto_reload interval_sec lm =
     (let interval = (if interval_sec = 0 then 60 else interval_sec)
      in (True, lm\<lparr>lm_cfg := (lm_cfg lm)\<lparr>ls_auto_reload := interval\<rparr>, lm_running := True\<rparr>))"

definition stop_auto_reload :: "('d, 's) logger_manager \<Rightarrow> ('d, 's) logger_manager" where
  "stop_auto_reload lm = (if \<not> lm_running lm then lm else lm\<lparr>lm_running := False\<rparr>)"

text \<open>\<open>None\<close> as result: an exception leaves the call.\<close>

definition log_init :: "('d, 'l, 's) log_deps \<Rightarrow> log_env \<Rightarrow> string \<Rightarrow> string \<Rightarrow> string \<Rightarrow> string \<Rightarrow>
    ('d, 's) logger_manager \<Rightarrow> bool option \<times> ('d, 's) logger_manager" where
  "log_init L env defaultConfigPath sectionName loggerName envName lm =
     (let lm1 = lm\<lparr>lm_name := loggerName, lm_section := sectionName,
            lm_ini_path := config_path env defaultConfigPath envName\<rparr>
      in case load_config L env True lm1 of
           (False, lm2) \<Rightarrow> (Some False, lm2)
         | (True, lm2) \<Rightarrow>
             let lm3 = lm2\<lparr>lm_last_write := (case env_mtime env (lm_ini_path lm2) of Some m \<Rightarrow> m | None \<Rightarrow> 0)\<rparr>
             in (case init_sinks L env lm3 of
                   (False, lm4) \<Rightarrow> (None, lm4)
                 | (True, lm4) \<Rightarrow>
                     let lm5 = lm4\<lparr>lm_logger := Some (Info, Off)\<rparr>
                     in if \<not> env_name_free env loggerName then (None, lm5)
                        else let lm6 = apply_soft_settings L lm5;
                                 lm7 = (if ls_flush_every (lm_cfg lm6) > 0
                                        then lm6\<lparr>lm_flush_period := Some (ls_flush_every (lm_cfg lm6))\<rparr> else lm6);
                                 lm8 = check_disk L env lm7
                             in (Some True, if ls_auto_reload (lm_cfg lm8) > 0
                                            then snd (start_auto_reload (ls_auto_reload (lm_cfg lm8)) lm8)
                                            else stop_auto_reload lm8)))"

definition reload_if_changed :: "('d, 'l, 's) log_deps \<Rightarrow> log_env \<Rightarrow> ('d, 's) logger_manager \<Rightarrow>
    bool option \<times> ('d, 's) logger_manager" where
  "reload_if_changed L env lm =
     (case env_mtime env (lm_ini_path lm) of
        None \<Rightarrow> (Some False, check_disk L env lm)
      | Some now \<Rightarrow>
          if now = lm_last_write lm then (Some False, check_disk L env lm)
          else (case load_config L env False (lm\<lparr>lm_last_write := now\<rparr>) of
                  (False, lm1) \<Rightarrow> (Some False, check_disk L env lm1)
                | (True, lm1) \<Rightarrow>
                    (case apply_hard_settings L env (lm_cfg lm) lm1 of
                       (False, lm2) \<Rightarrow> (None, lm2)
                     | (True, lm2) \<Rightarrow>
                         let lm3 = apply_soft_settings L lm2;
                             lm4 = (if ls_flush_every (lm_cfg lm3) > 0
                                    then lm3\<lparr>lm_flush_period := Some (ls_flush_every (lm_cfg lm3))\<rparr> else lm3)
                         in (Some True, check_disk L env lm4))))"

end
