(* ===== verification/Log_Sinks.thy ===== *)
theory Log_Sinks
  imports Logger_Manager
begin

text \<open>
  What the manager of \<open>Logger_Manager\<close> keeps through its runs. With the distributing sink of spdlog as its
  documentation has it, the sinks behind it are in every reachable state exactly those the loaded
  settings ask for, each once and with the configured target, level and format, or the console alone
  while the disk is low; so a reload gives what a restart would give. A run may reload a changed file
  only while the file sinks are attached: the last section shows what happens otherwise.
\<close>

section \<open>The contract of the distributing sink\<close>

definition dist_laws :: "'s dist_api \<Rightarrow> bool" where
  "dist_laws da \<longleftrightarrow> da_sinks da (da_empty da) = [] \<and>
     (\<forall>i s. da_sinks da (da_add da i s) = da_sinks da s @ [i]) \<and>
     (\<forall>i s. da_sinks da (da_remove da i s) = removeAll i (da_sinks da s))"

lemma dist_lawsD:
  "dist_laws da \<Longrightarrow> da_sinks da (da_empty da) = []"
  "dist_laws da \<Longrightarrow> da_sinks da (da_add da i s) = da_sinks da s @ [i]"
  "dist_laws da \<Longrightarrow> da_sinks da (da_remove da i s) = removeAll i (da_sinks da s)"
  by (simp_all add: dist_laws_def)

definition ptr :: "nat option \<Rightarrow> nat list" where
  "ptr p = (case p of None \<Rightarrow> [] | Some i \<Rightarrow> [i])"

lemma ptr_simps [simp]: "ptr None = []" "ptr (Some i) = [i]"
  by (simp_all add: ptr_def)

definition pointers :: "('d, 's) logger_manager \<Rightarrow> nat list" where
  "pointers lm = ptr (lm_console lm) @ ptr (lm_all lm) @ ptr (lm_alerts lm)"

definition members :: "('d, 'l, 's) log_deps \<Rightarrow> ('d, 's) logger_manager \<Rightarrow> nat multiset" where
  "members L lm = mset (da_sinks (ld_dist L) (lm_dist lm))"

text \<open>The pointers are different live objects, and the distributing sink has those it should have.\<close>

definition linked :: "('d, 'l, 's) log_deps \<Rightarrow> ('d, 's) logger_manager \<Rightarrow> bool" where
  "linked L lm \<longleftrightarrow> distinct (pointers lm) \<and> (\<forall>i \<in> set (pointers lm). i < lm_next lm) \<and>
     members L lm = mset (if lm_detached lm then ptr (lm_console lm) else pointers lm)"

definition all_target :: "'d log_settings \<Rightarrow> sink_target" where
  "all_target cfg = Rotating (ls_all_path cfg) (ls_all_max_size cfg) (ls_all_max_files cfg)"

definition alerts_target :: "'d log_settings \<Rightarrow> sink_target" where
  "alerts_target cfg = Rotating (ls_alerts_path cfg) (ls_alert_max_size cfg) (ls_alert_max_files cfg)"

definition has_target :: "('d, 's) logger_manager \<Rightarrow> nat option \<Rightarrow> sink_target \<Rightarrow> bool" where
  "has_target lm p target \<longleftrightarrow> (\<forall>i. p = Some i \<longrightarrow> sk_target (lm_sinks lm i) = target)"

definition targets :: "'d log_settings \<Rightarrow> ('d, 's) logger_manager \<Rightarrow> bool" where
  "targets cfg lm \<longleftrightarrow> has_target lm (lm_console lm) Stdout \<and> has_target lm (lm_all lm) (all_target cfg) \<and>
     has_target lm (lm_alerts lm) (alerts_target cfg)"

definition switched :: "'d log_settings \<Rightarrow> ('d, 's) logger_manager \<Rightarrow> bool" where
  "switched cfg lm \<longleftrightarrow> (lm_console lm \<noteq> None) = (ls_console cfg \<or> \<not> ls_file_all cfg \<and> \<not> ls_file_alerts cfg) \<and>
     (lm_all lm \<noteq> None) = ls_file_all cfg \<and> (lm_alerts lm \<noteq> None) = ls_file_alerts cfg"

definition styled :: "('d, 'l, 's) log_deps \<Rightarrow> ('d, 's) logger_manager \<Rightarrow> bool" where
  "styled L lm \<longleftrightarrow> (let cfg = lm_cfg lm in
     (\<forall>i. lm_console lm = Some i \<longrightarrow> sk_level (lm_sinks lm i) = ls_console_min cfg \<and>
        sk_format (lm_sinks lm i) = console_format L cfg) \<and>
     (\<forall>i. lm_all lm = Some i \<longrightarrow> sk_level (lm_sinks lm i) = ls_all_min cfg \<and>
        sk_format (lm_sinks lm i) = file_format L cfg) \<and>
     (\<forall>i. lm_alerts lm = Some i \<longrightarrow> sk_level (lm_sinks lm i) = ls_alerts_min cfg \<and>
        sk_format (lm_sinks lm i) = file_format L cfg))"

section \<open>Single steps\<close>

lemma soft_keeps [simp]:
  "lm_cfg (apply_soft_settings L lm) = lm_cfg lm" "lm_console (apply_soft_settings L lm) = lm_console lm"
  "lm_all (apply_soft_settings L lm) = lm_all lm" "lm_alerts (apply_soft_settings L lm) = lm_alerts lm"
  "lm_dist (apply_soft_settings L lm) = lm_dist lm" "lm_next (apply_soft_settings L lm) = lm_next lm"
  "lm_detached (apply_soft_settings L lm) = lm_detached lm"
  "lm_last_udp (apply_soft_settings L lm) = lm_last_udp lm" "lm_sent (apply_soft_settings L lm) = lm_sent lm"
  "lm_section (apply_soft_settings L lm) = lm_section lm" "lm_ini_path (apply_soft_settings L lm) = lm_ini_path lm"
  "lm_last_write (apply_soft_settings L lm) = lm_last_write lm"
  "sk_target (lm_sinks (apply_soft_settings L lm) i) = sk_target (lm_sinks lm i)"
  by (simp_all add: apply_soft_settings_def restyle_def Let_def split: option.splits)

lemma soft_keeps_sets [simp]:
  "pointers (apply_soft_settings L lm) = pointers lm" "members L (apply_soft_settings L' lm) = members L lm"
  "linked L (apply_soft_settings L' lm) = linked L lm" "targets cfg (apply_soft_settings L lm) = targets cfg lm"
  "switched cfg (apply_soft_settings L lm) = switched cfg lm"
  by (simp_all add: pointers_def members_def linked_def targets_def has_target_def switched_def)

lemma soft_styled: "distinct (pointers lm) \<Longrightarrow> styled L (apply_soft_settings L lm)"
  by (auto simp: styled_def apply_soft_settings_def restyle_def Let_def pointers_def ptr_def split: option.splits)

lemma remove_one:
  "distinct (a @ s # b) \<Longrightarrow> mset xs = mset (a @ s # b) \<Longrightarrow> mset (removeAll s xs) = mset (a @ b)"
proof -
  assume d: "distinct (a @ s # b)" and m: "mset xs = mset (a @ s # b)"
  have "mset (removeAll s xs) = filter_mset ((\<noteq>) s) (mset (a @ s # b))"
    unfolding m [symmetric] by (simp add: removeAll_filter_not_eq)
  also have "\<dots> = mset (filter ((\<noteq>) s) (a @ s # b))" by simp
  also have "filter ((\<noteq>) s) a = a" "filter ((\<noteq>) s) b = b" by (rule filter_True, use d in auto)+
  then have "filter ((\<noteq>) s) (a @ s # b) = a @ b" by simp
  finally show ?thesis .
qed

lemma add_console_props:
  assumes "dist_laws (ld_dist L)" "linked L lm" "lm_console lm = None" "targets cfg lm"
  shows "linked L (add_console L level lm)" "lm_console (add_console L level lm) \<noteq> None"
    "targets cfg (add_console L level lm)"
  using assms
  by (auto simp: linked_def pointers_def members_def targets_def has_target_def add_console_def new_sink_def add_sink_def Let_def
    dist_lawsD ptr_def split: option.splits)

lemma add_console_keeps [simp]:
  "lm_cfg (add_console L level lm) = lm_cfg lm" "lm_detached (add_console L level lm) = lm_detached lm"
  "lm_all (add_console L level lm) = lm_all lm" "lm_alerts (add_console L level lm) = lm_alerts lm"
  "lm_last_udp (add_console L level lm) = lm_last_udp lm" "lm_sent (add_console L level lm) = lm_sent lm"
  by (simp_all add: add_console_def new_sink_def add_sink_def Let_def)

lemma remove_console_props:
  assumes "dist_laws (ld_dist L)" "linked L lm" "lm_console lm = Some s" "targets cfg lm"
  shows "linked L (remove_sink L s (lm\<lparr>lm_console := None\<rparr>))" "targets cfg (remove_sink L s (lm\<lparr>lm_console := None\<rparr>))"
proof -
  have "members L (remove_sink L s (lm\<lparr>lm_console := None\<rparr>)) =
      mset (if lm_detached lm then [] else ptr (lm_all lm) @ ptr (lm_alerts lm))"
    using assms remove_one [of "[]" s "if lm_detached lm then [] else ptr (lm_all lm) @ ptr (lm_alerts lm)"]
    by (auto simp: linked_def pointers_def members_def remove_sink_def dist_lawsD)
  then show "linked L (remove_sink L s (lm\<lparr>lm_console := None\<rparr>))" "targets cfg (remove_sink L s (lm\<lparr>lm_console := None\<rparr>))"
    using assms(2-4) by (auto simp: linked_def pointers_def remove_sink_def targets_def has_target_def members_def)
qed

lemma hard_console_props:
  assumes "dist_laws (ld_dist L)" "linked L lm" "targets cfg lm"
  defines "lm' \<equiv> hard_console L lm"
  shows "linked L lm'" "targets cfg lm'" "(lm_console lm' \<noteq> None) = ls_console (lm_cfg lm)"
    "lm_cfg lm' = lm_cfg lm" "lm_all lm' = lm_all lm" "lm_alerts lm' = lm_alerts lm" "lm_detached lm' = lm_detached lm"
  using assms add_console_props [of L lm cfg] remove_console_props [of L lm _ cfg]
  by (auto simp: hard_console_def remove_sink_def split: option.splits)


text \<open>What the renewal of one file sink does to the pointer at its place.\<close>

lemma renew_props:
  assumes laws: "dist_laws (ld_dist L)"
    and d: "distinct (a @ ptr old @ b)" "\<forall>i \<in> set (a @ ptr old @ b). i < lm_next lm"
    and m: "members L lm = mset (a @ ptr old @ b)"
    and r: "renew_sink L enable need_new opens old target level lm = Some (p, lm')"
    and n: "enable \<Longrightarrow> old = None \<Longrightarrow> need_new"
  shows "distinct (a @ ptr p @ b)" "\<forall>i \<in> set (a @ ptr p @ b). i < lm_next lm'"
    "members L lm' = mset (a @ ptr p @ b)" "(p \<noteq> None) = enable"
    "\<forall>i. i < lm_next lm \<longrightarrow> lm_sinks lm' i = lm_sinks lm i"
    "\<forall>i. p = Some i \<longrightarrow> (if need_new then sk_target (lm_sinks lm' i) = target else old = Some i)"
proof -
  have fresh: "lm_next lm \<notin> set (a @ ptr old @ b)" using d(2) by blast
  consider (same) "p = old" "lm' = lm" "enable" "\<not> need_new"
    | (new) "enable" "need_new" "p = Some (lm_next lm)" "lm_next lm' = Suc (lm_next lm)"
        "lm_sinks lm' = (lm_sinks lm)(lm_next lm := \<lparr>sk_target = target, sk_level = level,
           sk_format = file_format L (lm_cfg lm)\<rparr>)"
        "da_sinks (ld_dist L) (lm_dist lm') = (case old of None \<Rightarrow> da_sinks (ld_dist L) (lm_dist lm) @ [lm_next lm]
           | Some s \<Rightarrow> removeAll s (da_sinks (ld_dist L) (lm_dist lm) @ [lm_next lm]))"
    | (off) "\<not> enable" "p = None" "lm_next lm' = lm_next lm" "lm_sinks lm' = lm_sinks lm"
        "da_sinks (ld_dist L) (lm_dist lm') = (case old of None \<Rightarrow> da_sinks (ld_dist L) (lm_dist lm)
           | Some s \<Rightarrow> removeAll s (da_sinks (ld_dist L) (lm_dist lm)))"
    using r laws by (auto simp: renew_sink_def new_sink_def add_sink_def remove_sink_def dist_lawsD Let_def
      split: if_splits option.splits)
  then have all: "distinct (a @ ptr p @ b) \<and> (\<forall>i \<in> set (a @ ptr p @ b). i < lm_next lm') \<and>
    members L lm' = mset (a @ ptr p @ b) \<and> (p \<noteq> None) = enable \<and>
    (\<forall>i. i < lm_next lm \<longrightarrow> lm_sinks lm' i = lm_sinks lm i) \<and>
    (\<forall>i. p = Some i \<longrightarrow> (if need_new then sk_target (lm_sinks lm' i) = target else old = Some i))"
  proof cases
    case same
    then show ?thesis using d m n by auto
  next
    case new
    have "members L lm' = mset (a @ lm_next lm # b)"
    proof (cases old)
      case None
      then show ?thesis using m new(6) by (simp add: members_def)
    next
      case (Some s)
      have "mset (removeAll s (da_sinks (ld_dist L) (lm_dist lm) @ [lm_next lm])) = mset (a @ b @ [lm_next lm])"
        by (rule remove_one) (use d fresh m Some in \<open>auto simp: members_def\<close>)
      then show ?thesis using new(6) Some by (simp add: members_def)
    qed
    moreover have "distinct (a @ lm_next lm # b)" using d(1) fresh by auto
    ultimately show ?thesis using new d(2) by (auto simp: less_Suc_eq)
  next
    case off
    have "members L lm' = mset (a @ b)"
    proof (cases old)
      case None
      then show ?thesis using m off(5) by (simp add: members_def)
    next
      case (Some s)
      have "mset (removeAll s (da_sinks (ld_dist L) (lm_dist lm))) = mset (a @ b)"
        by (rule remove_one) (use d m Some in \<open>auto simp: members_def\<close>)
      then show ?thesis using off(5) Some by (simp add: members_def)
    qed
    then show ?thesis using off d by auto
  qed
  then show "distinct (a @ ptr p @ b)" "\<forall>i \<in> set (a @ ptr p @ b). i < lm_next lm'"
    "members L lm' = mset (a @ ptr p @ b)" "(p \<noteq> None) = enable"
    "\<forall>i. i < lm_next lm \<longrightarrow> lm_sinks lm' i = lm_sinks lm i"
    "\<forall>i. p = Some i \<longrightarrow> (if need_new then sk_target (lm_sinks lm' i) = target else old = Some i)" by blast+
qed

lemma renew_keeps:
  "renew_sink L enable need_new opens old target level lm = Some (p, lm') \<Longrightarrow>
   lm_cfg lm' = lm_cfg lm \<and> lm_console lm' = lm_console lm \<and> lm_all lm' = lm_all lm \<and> lm_alerts lm' = lm_alerts lm \<and>
   lm_detached lm' = lm_detached lm \<and> lm_last_udp lm' = lm_last_udp lm \<and> lm_sent lm' = lm_sent lm"
  by (auto simp: renew_sink_def new_sink_def add_sink_def remove_sink_def Let_def split: if_splits option.splits)

lemma renew_target:
  assumes "\<forall>i. i < lm_next lm \<longrightarrow> lm_sinks lm' i = lm_sinks lm i" "\<forall>i \<in> set (ptr old). i < lm_next lm"
    and "\<forall>i. p = Some i \<longrightarrow> (if need_new then sk_target (lm_sinks lm' i) = target else old = Some i)"
    and "has_target lm old target'" "\<not> need_new \<Longrightarrow> old \<noteq> None \<Longrightarrow> target = target'"
  shows "has_target lm' p target"
  using assms by (cases need_new) (auto simp: has_target_def)

lemma hard_all_props:
  assumes "dist_laws (ld_dist L)" "linked L lm" "\<not> lm_detached lm" "hard_all L env old lm = (True, lm')"
    and t: "has_target lm (lm_console lm) Stdout" "has_target lm (lm_all lm) (all_target old)"
      "has_target lm (lm_alerts lm) T"
  shows "linked L lm'" "(lm_all lm' \<noteq> None) = ls_file_all (lm_cfg lm)" "lm_cfg lm' = lm_cfg lm"
    "lm_console lm' = lm_console lm" "lm_alerts lm' = lm_alerts lm" "\<not> lm_detached lm'"
    "has_target lm' (lm_console lm') Stdout" "has_target lm' (lm_all lm') (all_target (lm_cfg lm))"
    "has_target lm' (lm_alerts lm') T"
proof -
  define cfg where "cfg = lm_cfg lm"
  define need where "need = (ls_file_all cfg \<and> lm_all lm = None \<or> \<not> ls_file_all old \<and> ls_file_all cfg \<or>
      lm_all lm \<noteq> None \<and> (ls_all_path cfg \<noteq> ls_all_path old \<or> ls_all_max_size cfg \<noteq> ls_all_max_size old \<or>
        ls_all_max_files cfg \<noteq> ls_all_max_files old))"
  obtain p lm1 where r: "renew_sink L (ls_file_all cfg) need
      (env_opens env (ls_all_path cfg) (ls_all_max_size cfg) (ls_all_max_files cfg)) (lm_all lm) (all_target cfg)
      (ls_all_min cfg) lm = Some (p, lm1)" and lm': "lm' = lm1\<lparr>lm_all := p\<rparr>"
    using assms(4) by (auto simp: hard_all_def Let_def need_def cfg_def all_target_def split: option.splits)
  have D: "distinct (ptr (lm_console lm) @ ptr (lm_all lm) @ ptr (lm_alerts lm))"
    "\<forall>i \<in> set (ptr (lm_console lm) @ ptr (lm_all lm) @ ptr (lm_alerts lm)). i < lm_next lm"
    "members L lm = mset (ptr (lm_console lm) @ ptr (lm_all lm) @ ptr (lm_alerts lm))"
    using assms(2,3) by (simp_all add: linked_def pointers_def)
  have n: "ls_file_all cfg \<Longrightarrow> lm_all lm = None \<Longrightarrow> need" by (simp add: need_def)
  note R = renew_props [OF assms(1) D r n] and K = renew_keeps [OF r]
  show "linked L lm'" using R(1-3) K assms(3) by (auto simp: linked_def pointers_def lm' members_def)
  show "(lm_all lm' \<noteq> None) = ls_file_all (lm_cfg lm)" "lm_cfg lm' = lm_cfg lm" "lm_console lm' = lm_console lm"
    "lm_alerts lm' = lm_alerts lm" "\<not> lm_detached lm'"
    using R(4) K assms(3) by (auto simp: lm' cfg_def)
  have old: "i \<in> set (pointers lm) \<Longrightarrow> lm_sinks lm1 i = lm_sinks lm i" for i
    using R(5) D(2) by (simp add: pointers_def)
  show "has_target lm' (lm_console lm') Stdout" "has_target lm' (lm_alerts lm') T"
    using t(1,3) K old by (auto simp: has_target_def lm' pointers_def)
  have "has_target lm1 p (all_target cfg)"
    by (rule renew_target [OF R(5) _ R(6) t(2)])
      (use D(2) in \<open>auto simp: need_def all_target_def ptr_def\<close>)
  then show "has_target lm' (lm_all lm') (all_target (lm_cfg lm))" by (simp add: has_target_def lm' cfg_def)
qed

lemma hard_alerts_props:
  assumes "dist_laws (ld_dist L)" "linked L lm" "\<not> lm_detached lm" "hard_alerts L env old lm = (True, lm')"
    and t: "has_target lm (lm_console lm) Stdout" "has_target lm (lm_alerts lm) (alerts_target old)"
      "has_target lm (lm_all lm) T"
  shows "linked L lm'" "(lm_alerts lm' \<noteq> None) = ls_file_alerts (lm_cfg lm)" "lm_cfg lm' = lm_cfg lm"
    "lm_console lm' = lm_console lm" "lm_all lm' = lm_all lm" "\<not> lm_detached lm'"
    "has_target lm' (lm_console lm') Stdout" "has_target lm' (lm_alerts lm') (alerts_target (lm_cfg lm))"
    "has_target lm' (lm_all lm') T"
proof -
  define cfg where "cfg = lm_cfg lm"
  define need where "need = (ls_file_alerts cfg \<and> lm_alerts lm = None \<or> \<not> ls_file_alerts old \<and> ls_file_alerts cfg \<or>
      lm_alerts lm \<noteq> None \<and> (ls_alerts_path cfg \<noteq> ls_alerts_path old \<or> ls_alert_max_size cfg \<noteq> ls_alert_max_size old \<or>
        ls_alert_max_files cfg \<noteq> ls_alert_max_files old))"
  obtain p lm1 where r: "renew_sink L (ls_file_alerts cfg) need
      (env_opens env (ls_alerts_path cfg) (ls_alert_max_size cfg) (ls_alert_max_files cfg)) (lm_alerts lm) (alerts_target cfg)
      (ls_alerts_min cfg) lm = Some (p, lm1)" and lm': "lm' = lm1\<lparr>lm_alerts := p\<rparr>"
    using assms(4) by (auto simp: hard_alerts_def Let_def need_def cfg_def alerts_target_def split: option.splits)
  have D: "distinct ((ptr (lm_console lm) @ ptr (lm_all lm)) @ ptr (lm_alerts lm) @ [])"
    "\<forall>i \<in> set ((ptr (lm_console lm) @ ptr (lm_all lm)) @ ptr (lm_alerts lm) @ []). i < lm_next lm"
    "members L lm = mset ((ptr (lm_console lm) @ ptr (lm_all lm)) @ ptr (lm_alerts lm) @ [])"
    using assms(2,3) by (simp_all add: linked_def pointers_def)
  have n: "ls_file_alerts cfg \<Longrightarrow> lm_alerts lm = None \<Longrightarrow> need" by (simp add: need_def)
  note R = renew_props [OF assms(1) D r n] and K = renew_keeps [OF r]
  show "linked L lm'" using R(1-3) K assms(3) by (auto simp: linked_def pointers_def lm' members_def)
  show "(lm_alerts lm' \<noteq> None) = ls_file_alerts (lm_cfg lm)" "lm_cfg lm' = lm_cfg lm" "lm_console lm' = lm_console lm"
    "lm_all lm' = lm_all lm" "\<not> lm_detached lm'"
    using R(4) K assms(3) by (auto simp: lm' cfg_def)
  have old: "i \<in> set (pointers lm) \<Longrightarrow> lm_sinks lm1 i = lm_sinks lm i" for i
    using R(5) D(2) by (simp add: pointers_def)
  show "has_target lm' (lm_console lm') Stdout" "has_target lm' (lm_all lm') T"
    using t(1,3) K old by (auto simp: has_target_def lm' pointers_def)
  have "has_target lm1 p (alerts_target cfg)"
    by (rule renew_target [OF R(5) _ R(6) t(2)])
      (use D(2) in \<open>auto simp: need_def alerts_target_def ptr_def\<close>)
  then show "has_target lm' (lm_alerts lm') (alerts_target (lm_cfg lm))" by (simp add: has_target_def lm' cfg_def)
qed


lemma fallback_props:
  assumes "dist_laws (ld_dist L)" "linked L lm" "\<not> lm_detached lm" "targets cfg lm"
    "(lm_console lm \<noteq> None) = ls_console cfg" "(lm_all lm \<noteq> None) = ls_file_all cfg"
    "(lm_alerts lm \<noteq> None) = ls_file_alerts cfg"
  shows "linked L (fallback L lm)" "targets cfg (fallback L lm)" "switched cfg (fallback L lm)"
    "lm_cfg (fallback L lm) = lm_cfg lm" "\<not> lm_detached (fallback L lm)"
proof -
  have e: "da_sinks (ld_dist L) (lm_dist lm) = [] \<longleftrightarrow> pointers lm = []"
    using assms(2,3) by (auto simp: linked_def members_def)
  have "switched cfg (fallback L lm)"
  proof (cases "pointers lm = []")
    case True
    then have "lm_console lm = None" "lm_all lm = None" "lm_alerts lm = None"
      by (auto simp: pointers_def ptr_def split: option.splits)
    then show ?thesis using True e assms add_console_props(2) [OF assms(1,2)]
      by (auto simp: fallback_def switched_def)
  next
    case False
    then show ?thesis using e assms(5-7)
      by (auto simp: fallback_def switched_def pointers_def ptr_def split: option.splits)
  qed
  then show "switched cfg (fallback L lm)" .
  show "linked L (fallback L lm)" "targets cfg (fallback L lm)" "lm_cfg (fallback L lm) = lm_cfg lm"
    "\<not> lm_detached (fallback L lm)"
    using assms add_console_props [OF assms(1,2) _ assms(4)] e
    by (auto simp: fallback_def pointers_def ptr_def split: option.splits)
qed

lemma apply_hard_props:
  assumes laws: "dist_laws (ld_dist L)" and "linked L lm" "\<not> lm_detached lm" "targets old lm"
    and h: "apply_hard_settings L env old lm = (True, lm')"
  shows "linked L lm'" "targets (lm_cfg lm) lm'" "switched (lm_cfg lm) lm'" "lm_cfg lm' = lm_cfg lm"
    "\<not> lm_detached lm'"
proof -
  define lm0 where "lm0 = hard_console L lm"
  note C = hard_console_props [OF laws assms(2,4), folded lm0_def]
  obtain lm1 lm2 where 1: "hard_all L env old lm0 = (True, lm1)" and 2: "hard_alerts L env old lm1 = (True, lm2)"
    and lm': "lm' = fallback L lm2"
    using h by (auto simp: apply_hard_settings_def lm0_def split: prod.splits bool.splits)
  have d0: "\<not> lm_detached lm0" using C(7) assms(3) by simp
  have t0: "has_target lm0 (lm_console lm0) Stdout" "has_target lm0 (lm_all lm0) (all_target old)"
    "has_target lm0 (lm_alerts lm0) (alerts_target old)" using C(2) by (simp_all add: targets_def)
  note A = hard_all_props [OF laws C(1) d0 1 t0]
  note B = hard_alerts_props [OF laws A(1,6) 2 A(7,9,8)]
  have cfg: "lm_cfg lm2 = lm_cfg lm" using A(3) B(3) C(4) by simp
  have "targets (lm_cfg lm) lm2" "(lm_console lm2 \<noteq> None) = ls_console (lm_cfg lm)"
    "(lm_all lm2 \<noteq> None) = ls_file_all (lm_cfg lm)" "(lm_alerts lm2 \<noteq> None) = ls_file_alerts (lm_cfg lm)"
    using A B C cfg by (simp_all add: targets_def)
  from fallback_props [OF laws B(1,6) this] show "linked L lm'" "targets (lm_cfg lm) lm'" "switched (lm_cfg lm) lm'"
    "lm_cfg lm' = lm_cfg lm" "\<not> lm_detached lm'" unfolding lm' by (simp_all add: cfg)
qed


subsection \<open>The disk guard\<close>

lemma remove_sink_keeps [simp]:
  "lm_cfg (remove_sink L s lm) = lm_cfg lm" "lm_console (remove_sink L s lm) = lm_console lm"
  "lm_all (remove_sink L s lm) = lm_all lm" "lm_alerts (remove_sink L s lm) = lm_alerts lm"
  "lm_sinks (remove_sink L s lm) = lm_sinks lm" "lm_next (remove_sink L s lm) = lm_next lm"
  "lm_detached (remove_sink L s lm) = lm_detached lm"
  "lm_last_udp (remove_sink L s lm) = lm_last_udp lm" "lm_sent (remove_sink L s lm) = lm_sent lm"
  by (simp_all add: remove_sink_def)

lemma add_sink_keeps [simp]:
  "lm_cfg (add_sink L s lm) = lm_cfg lm" "lm_console (add_sink L s lm) = lm_console lm"
  "lm_all (add_sink L s lm) = lm_all lm" "lm_alerts (add_sink L s lm) = lm_alerts lm"
  "lm_sinks (add_sink L s lm) = lm_sinks lm" "lm_next (add_sink L s lm) = lm_next lm"
  "lm_detached (add_sink L s lm) = lm_detached lm"
  "lm_last_udp (add_sink L s lm) = lm_last_udp lm" "lm_sent (add_sink L s lm) = lm_sent lm"
  by (simp_all add: add_sink_def)

lemma suspend_keeps [simp]:
  "lm_cfg (suspend_files L lm) = lm_cfg lm" "lm_console (suspend_files L lm) = lm_console lm"
  "lm_all (suspend_files L lm) = lm_all lm" "lm_alerts (suspend_files L lm) = lm_alerts lm"
  "lm_sinks (suspend_files L lm) = lm_sinks lm" "lm_next (suspend_files L lm) = lm_next lm"
  "lm_detached (suspend_files L lm)"
  "lm_last_udp (suspend_files L lm) = lm_last_udp lm" "lm_sent (suspend_files L lm) = lm_sent lm"
  by (auto simp: suspend_files_def Let_def split: option.split)

lemma suspend_linked:
  assumes laws: "dist_laws (ld_dist L)" and l: "linked L lm"
  shows "linked L (suspend_files L lm)"
proof (cases "lm_detached lm")
  case True
  then show ?thesis using l by (simp add: suspend_files_def)
next
  case False
  define c a b where "c = ptr (lm_console lm)" "a = ptr (lm_all lm)" "b = ptr (lm_alerts lm)"
  define xs where "xs = da_sinks (ld_dist L) (lm_dist lm)"
  define ys where "ys = (case lm_all lm of None \<Rightarrow> xs | Some s \<Rightarrow> removeAll s xs)"
  define zs where "zs = (case lm_alerts lm of None \<Rightarrow> ys | Some s \<Rightarrow> removeAll s ys)"
  have d: "distinct (c @ a @ b)" and x: "mset xs = mset (c @ a @ b)"
    using l False by (simp_all add: linked_def pointers_def members_def c_a_b_def xs_def)
  have y: "mset ys = mset (c @ b)"
    using d x remove_one [of c _ b xs] by (auto simp: ys_def c_a_b_def ptr_def split: option.splits)
  have z: "mset zs = mset c"
    using d y remove_one [of c _ "[]" ys] by (auto simp: zs_def c_a_b_def ptr_def split: option.splits)
  have "da_sinks (ld_dist L) (lm_dist (suspend_files L lm)) = zs"
    using False laws by (auto simp: suspend_files_def remove_sink_def zs_def ys_def xs_def dist_lawsD Let_def
      split: option.splits)
  then show ?thesis using l z False by (simp add: linked_def pointers_def members_def c_a_b_def)
qed

lemma resume_keeps [simp]:
  "lm_cfg (resume_files L lm) = lm_cfg lm" "lm_console (resume_files L lm) = lm_console lm"
  "lm_all (resume_files L lm) = lm_all lm" "lm_alerts (resume_files L lm) = lm_alerts lm"
  "lm_next (resume_files L lm) = lm_next lm" "\<not> lm_detached (resume_files L lm)"
  "sk_target (lm_sinks (resume_files L lm) i) = sk_target (lm_sinks lm i)"
  "lm_last_udp (resume_files L lm) = lm_last_udp lm" "lm_sent (resume_files L lm) = lm_sent lm"
  by (auto simp: resume_files_def Let_def split: option.split)

lemma resume_linked:
  assumes "dist_laws (ld_dist L)" "linked L lm" "switched (lm_cfg lm) lm"
  shows "linked L (resume_files L lm)"
proof (cases "lm_detached lm")
  case True
  have "lm_dist (resume_files L lm) = lm_dist (case lm_alerts lm of
      Some s \<Rightarrow> add_sink L s (case lm_all lm of Some r \<Rightarrow> add_sink L r lm | None \<Rightarrow> lm)
    | None \<Rightarrow> (case lm_all lm of Some r \<Rightarrow> add_sink L r lm | None \<Rightarrow> lm))"
    using True assms(3) by (auto simp: resume_files_def Let_def switched_def split: option.split)
  then have "members L (resume_files L lm) = mset (pointers lm)"
    using assms(1,2) True by (auto simp: members_def linked_def pointers_def add_sink_def dist_lawsD ptr_def
      split: option.split)
  then show ?thesis using assms(2) by (simp add: linked_def pointers_def)
next
  case False
  then show ?thesis using assms(2) by (simp add: resume_files_def)
qed

lemma alert_keeps [simp]:
  "lm_cfg (alert_if_due L env n r lm) = lm_cfg lm" "lm_console (alert_if_due L env n r lm) = lm_console lm"
  "lm_all (alert_if_due L env n r lm) = lm_all lm" "lm_alerts (alert_if_due L env n r lm) = lm_alerts lm"
  "lm_next (alert_if_due L env n r lm) = lm_next lm" "lm_detached (alert_if_due L env n r lm) = lm_detached lm"
  "lm_sinks (alert_if_due L env n r lm) = lm_sinks lm" "lm_dist (alert_if_due L env n r lm) = lm_dist lm"
  by (simp_all add: alert_if_due_def Let_def)

section \<open>Runs\<close>

text \<open>Everything the settings ask for is in place.\<close>

definition in_place :: "('d, 'l, 's) log_deps \<Rightarrow> ('d, 's) logger_manager \<Rightarrow> bool" where
  "in_place L lm \<longleftrightarrow> linked L lm \<and> targets (lm_cfg lm) lm \<and> switched (lm_cfg lm) lm \<and> styled L lm"

lemma in_place_cong:
  "linked L lm' \<Longrightarrow> in_place L lm \<Longrightarrow> lm_cfg lm' = lm_cfg lm \<Longrightarrow> lm_console lm' = lm_console lm \<Longrightarrow>
   lm_all lm' = lm_all lm \<Longrightarrow> lm_alerts lm' = lm_alerts lm \<Longrightarrow> lm_sinks lm' = lm_sinks lm \<Longrightarrow> in_place L lm'"
  by (simp add: in_place_def targets_def has_target_def switched_def styled_def)

lemma suspend_in_place: "dist_laws (ld_dist L) \<Longrightarrow> in_place L lm \<Longrightarrow> in_place L (suspend_files L lm)"
  by (rule in_place_cong [OF suspend_linked]) (simp_all add: in_place_def)

lemma resume_in_place:
  assumes "dist_laws (ld_dist L)" "in_place L lm"
  shows "in_place L (resume_files L lm)"
proof -
  have "linked L (resume_files L lm)" using assms by (simp add: in_place_def resume_linked)
  moreover have "styled L (resume_files L lm)"
  proof (cases "lm_detached lm")
    case True
    define lm2 where "lm2 = (let lm1 = (case lm_all lm of Some s \<Rightarrow> if ls_file_all (lm_cfg lm) then add_sink L s lm else lm
          | None \<Rightarrow> lm)
        in (case lm_alerts lm1 of Some s \<Rightarrow> if ls_file_alerts (lm_cfg lm1) then add_sink L s lm1 else lm1 | None \<Rightarrow> lm1))"
    have r: "resume_files L lm = (apply_soft_settings L lm2)\<lparr>lm_detached := False\<rparr>"
      using True by (simp add: resume_files_def lm2_def Let_def)
    have "pointers lm2 = pointers lm" by (auto simp: lm2_def Let_def pointers_def split: option.split)
    then have "styled L (apply_soft_settings L lm2)"
      using assms(2) by (intro soft_styled) (simp add: in_place_def linked_def)
    then show ?thesis unfolding r by (simp add: styled_def)
  next
    case False
    then show ?thesis using assms(2) by (simp add: resume_files_def in_place_def)
  qed
  ultimately show ?thesis using assms(2)
    by (auto simp: in_place_def targets_def has_target_def switched_def)
qed

lemma alert_in_place: "in_place L (alert_if_due L env n r lm) = in_place L lm"
  by (simp add: in_place_def linked_def pointers_def members_def targets_def has_target_def switched_def styled_def)

lemma check_cfg [simp]: "lm_cfg (check_disk L env lm) = lm_cfg lm"
  by (auto simp: check_disk_def Let_def split: option.splits)

lemma check_in_place: "dist_laws (ld_dist L) \<Longrightarrow> in_place L lm \<Longrightarrow> in_place L (check_disk L env lm)"
  by (auto simp: check_disk_def Let_def alert_in_place suspend_in_place resume_in_place split: option.split)


lemma load_config_True:
  "load_config L env ar lm = (True, lm') \<Longrightarrow> \<exists>ini. lm' = lm\<lparr>lm_ini := ini,
     lm_cfg := read_settings (ld_floats L) ini (lm_section lm) ar (lm_cfg lm)\<rparr>"
  by (auto simp: load_config_def split: prod.splits bool.splits)

lemma load_config_False: "load_config L env ar lm = (False, lm') \<Longrightarrow> \<exists>ini. lm' = lm\<lparr>lm_ini := ini\<rparr>"
  by (auto simp: load_config_def split: prod.splits bool.splits)

lemma init_file_props:
  assumes laws: "dist_laws (ld_dist L)" and "init_file L env enable path max_size files level lm = Some (p, lm')"
  shows "if enable then p = Some (lm_next lm) \<and> lm_next lm' = Suc (lm_next lm) \<and>
      members L lm' = add_mset (lm_next lm) (members L lm) \<and> sk_target (lm_sinks lm' (lm_next lm)) = Rotating path max_size files
    else p = None \<and> lm' = lm"
    "lm_cfg lm' = lm_cfg lm" "lm_console lm' = lm_console lm" "lm_all lm' = lm_all lm" "lm_alerts lm' = lm_alerts lm"
    "lm_detached lm' = lm_detached lm" "\<forall>i. i < lm_next lm \<longrightarrow> lm_sinks lm' i = lm_sinks lm i"
    "lm_last_udp lm' = lm_last_udp lm" "lm_sent lm' = lm_sent lm"
  using assms by (auto simp: init_file_def new_sink_def add_sink_def members_def dist_lawsD Let_def split: if_splits)

lemma init_sinks_props:
  assumes laws: "dist_laws (ld_dist L)" and i: "init_sinks L env lm = (True, lm')"
    and fresh: "lm_console lm = None" "lm_all lm = None" "lm_alerts lm = None" "\<not> lm_detached lm"
  shows "linked L lm' \<and> targets (lm_cfg lm) lm' \<and> switched (lm_cfg lm) lm' \<and> lm_cfg lm' = lm_cfg lm"
proof -
  define cfg where "cfg = lm_cfg lm"
  define lm1 where "lm1 = lm\<lparr>lm_dist := da_empty (ld_dist L)\<rparr>"
  define lm2 where "lm2 = (if ls_console cfg then add_console L (ls_console_min cfg) lm1 else lm1)"
  obtain a lm3 b lm5 where
    a: "init_file L env (ls_file_all cfg) (ls_all_path cfg) (ls_all_max_size cfg) (ls_all_max_files cfg)
      (ls_all_min cfg) lm2 = Some (a, lm3)"
    and b: "init_file L env (ls_file_alerts cfg) (ls_alerts_path cfg) (ls_alert_max_size cfg)
      (ls_alert_max_files cfg) (ls_alerts_min cfg) (if a = None then lm3 else lm3\<lparr>lm_all := a\<rparr>) = Some (b, lm5)"
    and lm': "lm' = fallback L (if b = None then lm5 else lm5\<lparr>lm_alerts := b\<rparr>)"
    using i by (auto simp: init_sinks_def Let_def cfg_def [symmetric] lm1_def [symmetric] lm2_def [symmetric]
      split: option.splits)
  define lm4 where "lm4 = (if a = None then lm3 else lm3\<lparr>lm_all := a\<rparr>)"
  define lm6 where "lm6 = (if b = None then lm5 else lm5\<lparr>lm_alerts := b\<rparr>)"
  have 1: "linked L lm1" "targets cfg lm1"
    using fresh laws by (simp_all add: lm1_def linked_def pointers_def members_def dist_lawsD targets_def has_target_def)
  have c1: "lm_console lm1 = None" using fresh by (simp add: lm1_def)
  have 2: "linked L lm2" "targets cfg lm2" "(lm_console lm2 \<noteq> None) = ls_console cfg" "lm_all lm2 = None"
    "lm_alerts lm2 = None" "\<not> lm_detached lm2" "lm_cfg lm2 = cfg"
    using 1 c1 add_console_props [OF laws 1(1) c1 1(2)] fresh by (simp_all add: lm2_def lm1_def cfg_def)
  note A = init_file_props [OF laws a]
  have 4: "linked L lm4" "targets cfg lm4" "lm_console lm4 = lm_console lm2" "(lm_all lm4 \<noteq> None) = ls_file_all cfg"
    "lm_alerts lm4 = None" "\<not> lm_detached lm4" "lm_cfg lm4 = cfg"
    using A 2 by (auto simp: lm4_def linked_def pointers_def members_def targets_def has_target_def all_target_def ptr_def
      less_Suc_eq split: if_splits option.splits)
  note B = init_file_props [OF laws b [folded lm4_def]]
  have 6: "linked L lm6" "targets cfg lm6" "lm_console lm6 = lm_console lm4" "lm_all lm6 = lm_all lm4"
    "(lm_alerts lm6 \<noteq> None) = ls_file_alerts cfg" "\<not> lm_detached lm6" "lm_cfg lm6 = cfg"
    using B 4 by (auto simp: lm6_def linked_def pointers_def members_def targets_def has_target_def alerts_target_def
      ptr_def less_Suc_eq split: if_splits option.splits)
  have "linked L (fallback L lm6) \<and> targets cfg (fallback L lm6) \<and> switched cfg (fallback L lm6) \<and>
      lm_cfg (fallback L lm6) = cfg"
    using fallback_props [OF laws 6(1,6,2)] 6 4 2 by simp
  then show ?thesis unfolding lm' lm6_def [symmetric] cfg_def [symmetric] by (simp add: cfg_def)
qed


lemma soft_in_place:
  "linked L lm \<Longrightarrow> targets (lm_cfg lm) lm \<Longrightarrow> switched (lm_cfg lm) lm \<Longrightarrow> in_place L (apply_soft_settings L lm)"
  by (simp add: in_place_def soft_styled linked_def [of L lm])

lemma in_place_other_members [simp]:
  "in_place L (lm\<lparr>lm_flush_period := f\<rparr>) = in_place L lm" "in_place L (lm\<lparr>lm_running := r\<rparr>) = in_place L lm"
  "in_place L (lm\<lparr>lm_ini := ini\<rparr>) = in_place L lm" "in_place L (lm\<lparr>lm_last_write := m\<rparr>) = in_place L lm"
  by (simp_all add: in_place_def linked_def pointers_def members_def targets_def has_target_def switched_def styled_def)

lemma in_place_auto_reload [simp]:
  "in_place L (lm\<lparr>lm_cfg := (lm_cfg lm)\<lparr>ls_auto_reload := n\<rparr>\<rparr>) = in_place L lm"
proof -
  let ?cfg = "(lm_cfg lm)\<lparr>ls_auto_reload := n\<rparr>"
  let ?lm = "lm\<lparr>lm_cfg := ?cfg\<rparr>"
  have "linked L ?lm = linked L lm" by (simp add: linked_def pointers_def members_def)
  moreover have "targets ?cfg ?lm = targets (lm_cfg lm) lm"
    by (simp add: targets_def has_target_def all_target_def alerts_target_def)
  moreover have "switched ?cfg ?lm = switched (lm_cfg lm) lm" by (simp add: switched_def)
  moreover have "styled L ?lm = styled L lm" by (simp add: styled_def console_format_def file_format_def Let_def)
  ultimately show ?thesis by (simp add: in_place_def)
qed

lemma start_stop_in_place [simp]:
  "in_place L (snd (start_auto_reload n lm)) = in_place L lm" "in_place L (stop_auto_reload lm) = in_place L lm"
  by (simp_all add: start_auto_reload_def stop_auto_reload_def Let_def)

lemma log_init_True:
  assumes i: "log_init L env path sect name var lm = (Some True, lm')"
  obtains lm2 m lm4 f where
    "load_config L env True (lm\<lparr>lm_name := name, lm_section := sect, lm_ini_path := config_path env path var\<rparr>) = (True, lm2)"
    "init_sinks L env (lm2\<lparr>lm_last_write := m\<rparr>) = (True, lm4)"
    "lm' = snd (start_auto_reload (ls_auto_reload (lm_cfg lm4)) (check_disk L env
        ((apply_soft_settings L (lm4\<lparr>lm_logger := Some (Info, Off)\<rparr>))\<lparr>lm_flush_period := f\<rparr>))) \<or>
     lm' = stop_auto_reload (check_disk L env
        ((apply_soft_settings L (lm4\<lparr>lm_logger := Some (Info, Off)\<rparr>))\<lparr>lm_flush_period := f\<rparr>))"
proof -
  define lm1 where "lm1 = lm\<lparr>lm_name := name, lm_section := sect, lm_ini_path := config_path env path var\<rparr>"
  obtain lm2 where l: "load_config L env True lm1 = (True, lm2)"
    using i by (cases "load_config L env True lm1") (auto simp: log_init_def lm1_def [symmetric] split: bool.splits)
  define m where "m = (case env_mtime env (lm_ini_path lm2) of Some m \<Rightarrow> m | None \<Rightarrow> 0)"
  obtain lm4 where k: "init_sinks L env (lm2\<lparr>lm_last_write := m\<rparr>) = (True, lm4)"
    using i l by (cases "init_sinks L env (lm2\<lparr>lm_last_write := m\<rparr>)") (auto simp: log_init_def lm1_def [symmetric]
      m_def [symmetric] Let_def split: bool.splits)
  define lm6 where "lm6 = apply_soft_settings L (lm4\<lparr>lm_logger := Some (Info, Off)\<rparr>)"
  define f where "f = (if ls_flush_every (lm_cfg lm6) > 0 then Some (ls_flush_every (lm_cfg lm6)) else lm_flush_period lm6)"
  have f: "(if ls_flush_every (lm_cfg lm6) > 0 then lm6\<lparr>lm_flush_period := Some (ls_flush_every (lm_cfg lm6))\<rparr> else lm6) =
      lm6\<lparr>lm_flush_period := f\<rparr>"
    by (simp add: f_def)
  have "lm' = (if ls_auto_reload (lm_cfg lm4) > 0
      then snd (start_auto_reload (ls_auto_reload (lm_cfg lm4)) (check_disk L env (lm6\<lparr>lm_flush_period := f\<rparr>)))
      else stop_auto_reload (check_disk L env (lm6\<lparr>lm_flush_period := f\<rparr>)))"
    using i l k by (auto simp: log_init_def lm1_def [symmetric] m_def [symmetric] lm6_def [symmetric] f Let_def
      split: if_splits) (simp_all add: lm6_def)
  note e = this
  show thesis by (rule that [OF l [unfolded lm1_def] k, of f]) (use e in \<open>auto simp: lm6_def split: if_splits\<close>)
qed

lemma new_manager_pointers [simp]:
  "lm_console (new_manager L) = None" "lm_all (new_manager L) = None" "lm_alerts (new_manager L) = None"
  "\<not> lm_detached (new_manager L)" "lm_ini (new_manager L) = new_ini" "lm_last_udp (new_manager L) = 0"
  "lm_sent (new_manager L) = []"
  by (simp_all add: new_manager_def)

lemma init_in_place:
  assumes laws: "dist_laws (ld_dist L)" and i: "log_init L env path sect name var (new_manager L) = (Some True, lm')"
  shows "in_place L lm'"
  using i
proof (rule log_init_True)
  fix lm2 m lm4 f
  assume l: "load_config L env True ((new_manager L)\<lparr>lm_name := name, lm_section := sect,
      lm_ini_path := config_path env path var\<rparr>) = (True, lm2)"
    and k: "init_sinks L env (lm2\<lparr>lm_last_write := m\<rparr>) = (True, lm4)"
    and e: "lm' = snd (start_auto_reload (ls_auto_reload (lm_cfg lm4)) (check_disk L env
        ((apply_soft_settings L (lm4\<lparr>lm_logger := Some (Info, Off)\<rparr>))\<lparr>lm_flush_period := f\<rparr>))) \<or>
     lm' = stop_auto_reload (check_disk L env
        ((apply_soft_settings L (lm4\<lparr>lm_logger := Some (Info, Off)\<rparr>))\<lparr>lm_flush_period := f\<rparr>))"
  have "lm_console lm2 = None" "lm_all lm2 = None" "lm_alerts lm2 = None" "\<not> lm_detached lm2"
    using load_config_True [OF l] by auto
  with init_sinks_props [OF laws k]
  have "in_place L (apply_soft_settings L (lm4\<lparr>lm_logger := Some (Info, Off)\<rparr>))"
    by (intro soft_in_place) (auto simp: linked_def pointers_def members_def targets_def has_target_def switched_def)
  then show ?thesis using e check_in_place [OF laws] by auto
qed

text \<open>The file at the path of the settings is not newer than the loaded one.\<close>

definition unchanged :: "log_env \<Rightarrow> ('d, 's) logger_manager \<Rightarrow> bool" where
  "unchanged env lm = (case env_mtime env (lm_ini_path lm) of None \<Rightarrow> True | Some m \<Rightarrow> m = lm_last_write lm)"

lemma reload_cases:
  assumes "reload_if_changed L env lm = (r, lm')"
  obtains (same) "unchanged env lm" "r = Some False" "lm' = check_disk L env lm"
  | (unread) m ini where "r = Some False" "lm' = check_disk L env (lm\<lparr>lm_last_write := m, lm_ini := ini\<rparr>)"
  | (throws) m ini lm2 where "r = None" "lm' = lm2" "apply_hard_settings L env (lm_cfg lm) (lm\<lparr>lm_last_write := m, lm_ini := ini,
      lm_cfg := read_settings (ld_floats L) ini (lm_section lm) False (lm_cfg lm)\<rparr>) = (False, lm2)"
      "\<not> unchanged env lm"
  | (loaded) m ini lm2 where "r = Some True" "\<not> unchanged env lm"
      "apply_hard_settings L env (lm_cfg lm) (lm\<lparr>lm_last_write := m, lm_ini := ini,
        lm_cfg := read_settings (ld_floats L) ini (lm_section lm) False (lm_cfg lm)\<rparr>) = (True, lm2)"
      "lm' = check_disk L env (let lm3 = apply_soft_settings L lm2 in
         if ls_flush_every (lm_cfg lm3) > 0 then lm3\<lparr>lm_flush_period := Some (ls_flush_every (lm_cfg lm3))\<rparr> else lm3)"
proof (cases "unchanged env lm")
  case True
  then show thesis using assms same by (auto simp: unchanged_def reload_if_changed_def split: option.splits if_splits)
next
  case False
  then obtain m where m: "env_mtime env (lm_ini_path lm) = Some m" "m \<noteq> lm_last_write lm"
    by (auto simp: unchanged_def split: option.splits)
  define lm0 where "lm0 = lm\<lparr>lm_last_write := m\<rparr>"
  obtain ok lm1 where l: "load_config L env False lm0 = (ok, lm1)" by fastforce
  show thesis
  proof (cases ok)
    case False
    then obtain ini where "lm1 = lm0\<lparr>lm_ini := ini\<rparr>" using load_config_False [of L env False lm0 lm1] l by auto
    then show thesis using unread [where m = m and ini = ini] assms m l False by (simp add: reload_if_changed_def lm0_def)
  next
    case ok: True
    then obtain ini where lm1: "lm1 = lm\<lparr>lm_last_write := m, lm_ini := ini,
        lm_cfg := read_settings (ld_floats L) ini (lm_section lm) False (lm_cfg lm)\<rparr>"
      using load_config_True l by (fastforce simp: lm0_def)
    obtain fin lm2 where h: "apply_hard_settings L env (lm_cfg lm) lm1 = (fin, lm2)" by fastforce
    show thesis
    proof (cases fin)
      case True
      then show thesis using loaded [where m = m and ini = ini and ?lm2.0 = lm2] assms m l ok h False lm1
        by (simp add: reload_if_changed_def lm0_def Let_def)
    next
      case nfin: False
      then show thesis using throws [where m = m and ini = ini and ?lm2.0 = lm2] assms m l ok h False lm1
        by (simp add: reload_if_changed_def lm0_def)
    qed
  qed
qed

lemma reload_in_place:
  assumes laws: "dist_laws (ld_dist L)" and "in_place L lm" "reload_if_changed L env lm = (Some b, lm')"
    and free: "lm_detached lm \<Longrightarrow> unchanged env lm"
  shows "in_place L lm'"
  using assms(3)
proof (cases rule: reload_cases)
  case same
  then show ?thesis using check_in_place [OF laws assms(2)] by simp
next
  case (unread m ini)
  then show ?thesis using check_in_place [OF laws] assms(2) by simp
next
  case (loaded m ini lm2)
  define lm1 where "lm1 = lm\<lparr>lm_last_write := m, lm_ini := ini,
      lm_cfg := read_settings (ld_floats L) ini (lm_section lm) False (lm_cfg lm)\<rparr>"
  have 1: "linked L lm1" "\<not> lm_detached lm1" "targets (lm_cfg lm) lm1"
    using assms(2) free loaded(2)
    by (auto simp: in_place_def lm1_def linked_def pointers_def members_def targets_def has_target_def)
  from apply_hard_props [OF laws 1 loaded(3) [folded lm1_def]]
  have "in_place L (apply_soft_settings L lm2)" by (intro soft_in_place) simp_all
  then have "in_place L (let lm3 = apply_soft_settings L lm2 in
      if ls_flush_every (lm_cfg lm3) > 0 then lm3\<lparr>lm_flush_period := Some (ls_flush_every (lm_cfg lm3))\<rparr> else lm3)"
    by (simp add: Let_def)
  then show ?thesis unfolding loaded(4) by (rule check_in_place [OF laws])
qed simp


text \<open>The runs of a manager that is initialised once. A changed file is read only while the file sinks are
  attached; a call that leaves by an exception ends the run.\<close>

inductive log_run :: "('d, 'l, 's) log_deps \<Rightarrow> ('d, 's) logger_manager \<Rightarrow> bool" for L where
  init: "log_init L env path sect name var (new_manager L) = (Some True, lm) \<Longrightarrow> log_run L lm"
| reload: "log_run L lm \<Longrightarrow> lm_detached lm \<longrightarrow> unchanged env lm \<Longrightarrow>
    reload_if_changed L env lm = (Some b, lm') \<Longrightarrow> log_run L lm'"
| starts: "log_run L lm \<Longrightarrow> log_run L (snd (start_auto_reload n lm))"
| stops: "log_run L lm \<Longrightarrow> log_run L (stop_auto_reload lm)"

lemma run_in_place: "log_run L lm \<Longrightarrow> dist_laws (ld_dist L) \<Longrightarrow> in_place L lm"
  by (induction rule: log_run.induct) (auto intro: init_in_place reload_in_place)

text \<open>The sinks that settings ask for.\<close>

definition wanted_console :: "('d, 'l, 's) log_deps \<Rightarrow> 'd log_settings \<Rightarrow> log_sink list" where
  "wanted_console L cfg =
     (if ls_console cfg \<or> \<not> ls_file_all cfg \<and> \<not> ls_file_alerts cfg
      then [\<lparr>sk_target = Stdout, sk_level = ls_console_min cfg, sk_format = console_format L cfg\<rparr>] else [])"

definition wanted_files :: "('d, 'l, 's) log_deps \<Rightarrow> 'd log_settings \<Rightarrow> log_sink list" where
  "wanted_files L cfg =
     (if ls_file_all cfg
      then [\<lparr>sk_target = all_target cfg, sk_level = ls_all_min cfg, sk_format = file_format L cfg\<rparr>] else []) @
     (if ls_file_alerts cfg
      then [\<lparr>sk_target = alerts_target cfg, sk_level = ls_alerts_min cfg, sk_format = file_format L cfg\<rparr>] else [])"

definition live_sinks :: "('d, 'l, 's) log_deps \<Rightarrow> ('d, 's) logger_manager \<Rightarrow> log_sink multiset" where
  "live_sinks L lm = image_mset (lm_sinks lm) (members L lm)"

lemma in_place_sinks:
  assumes "in_place L lm"
  shows "live_sinks L lm = mset (wanted_console L (lm_cfg lm) @ (if lm_detached lm then [] else wanted_files L (lm_cfg lm)))"
proof -
  let ?c = "lm_cfg lm"
  have c: "map (lm_sinks lm) (ptr (lm_console lm)) = wanted_console L ?c"
    using assms by (auto simp: in_place_def targets_def has_target_def switched_def styled_def Let_def wanted_console_def
      ptr_def intro!: log_sink.equality split: option.splits)
  have f: "map (lm_sinks lm) (ptr (lm_all lm) @ ptr (lm_alerts lm)) = wanted_files L ?c"
    using assms by (auto simp: in_place_def targets_def has_target_def switched_def styled_def Let_def wanted_files_def
      ptr_def intro!: log_sink.equality split: option.splits)
  have "live_sinks L lm = mset (map (lm_sinks lm) (if lm_detached lm then ptr (lm_console lm) else pointers lm))"
    using assms by (simp add: live_sinks_def in_place_def linked_def)
  also have "\<dots> = mset (wanted_console L ?c @ (if lm_detached lm then [] else wanted_files L ?c))"
    using c f by (auto simp: pointers_def simp flip: c f)
  finally show ?thesis .
qed

text \<open>C30: The sinks of a running manager. In every state of a run the sinks that log messages reach are
  exactly those that the loaded settings ask for, none of them twice, each with the configured file,
  level, pattern and time mode: the console if it is enabled or nothing else is, and the enabled files,
  or the console part alone while the disk is low.\<close>

theorem sinks_as_configured:
  assumes "dist_laws (ld_dist L)" "log_run L lm"
  shows "live_sinks L lm = mset (wanted_console L (lm_cfg lm) @
    (if lm_detached lm then [] else wanted_files L (lm_cfg lm)))"
  by (rule in_place_sinks [OF run_in_place [OF assms(2,1)]])


subsection \<open>A reload and a restart\<close>

text \<open>Settings that differ at most in the interval of the automatic reload.\<close>

definition same_settings :: "'d log_settings \<Rightarrow> 'd log_settings \<Rightarrow> bool" where
  "same_settings c d \<longleftrightarrow> c\<lparr>ls_auto_reload := 0\<rparr> = d\<lparr>ls_auto_reload := 0\<rparr>"

lemma same_settings_upd [simp]: "same_settings (c\<lparr>ls_auto_reload := n\<rparr>) d = same_settings c d"
  by (simp add: same_settings_def)

lemma same_settings_read: "same_settings (read_settings fl ini sect a old) (read_settings fl ini sect b old')"
  by (simp add: same_settings_def read_settings_def Let_def)

lemma same_settingsD:
  assumes "same_settings c d"
  shows "wanted_console L c = wanted_console L d" "wanted_files L c = wanted_files L d"
    "ls_guard c = ls_guard d" "ls_disk_root c = ls_disk_root d" "ls_min_ratio c = ls_min_ratio d"
proof -
  have c: "c = d\<lparr>ls_auto_reload := ls_auto_reload c\<rparr>"
    using arg_cong [OF assms [unfolded same_settings_def], of "\<lambda>x. x\<lparr>ls_auto_reload := ls_auto_reload c\<rparr>"] by simp
  show "wanted_console L c = wanted_console L d" "wanted_files L c = wanted_files L d"
    "ls_guard c = ls_guard d" "ls_disk_root c = ls_disk_root d" "ls_min_ratio c = ls_min_ratio d"
    by (subst c, simp add: wanted_console_def wanted_files_def all_target_def alerts_target_def console_format_def
      file_format_def)+
qed

definition disk_low :: "('d, 'l, 's) log_deps \<Rightarrow> log_env \<Rightarrow> 'd log_settings \<Rightarrow> bool" where
  "disk_low L env cfg \<longleftrightarrow> ls_guard cfg \<and> ls_disk_root cfg \<noteq> [] \<and> (case env_space env (ls_disk_root cfg) of
     None \<Rightarrow> False
   | Some (avail, cap) \<Rightarrow> lf_below (ld_floats L)
       (if cap > 0 then lf_percent (ld_floats L) avail cap else lf_hundred (ld_floats L)) (ls_min_ratio cfg))"

lemma same_disk_low: "same_settings c d \<Longrightarrow> disk_low L env c = disk_low L env d"
  unfolding disk_low_def by (simp add: same_settingsD(3-5) [of c d] cong: option.case_cong)

lemma check_detached: "\<not> lm_detached lm \<Longrightarrow> lm_detached (check_disk L env lm) = disk_low L env (lm_cfg lm)"
  by (auto simp: check_disk_def disk_low_def Let_def split: option.splits)

lemma init_sinks_keeps:
  assumes "init_sinks L env lm = (True, lm')"
  shows "lm_cfg lm' = lm_cfg lm" "lm_detached lm' = lm_detached lm" "lm_last_udp lm' = lm_last_udp lm"
    "lm_sent lm' = lm_sent lm"
  using assms
  by (auto simp: init_sinks_def init_file_def new_sink_def add_sink_def fallback_def Let_def split: option.splits if_splits)

lemma start_stop_keeps [simp]:
  "lm_detached (snd (start_auto_reload n lm)) = lm_detached lm" "lm_detached (stop_auto_reload lm) = lm_detached lm"
  "same_settings (lm_cfg (snd (start_auto_reload n lm))) c = same_settings (lm_cfg lm) c"
  "lm_cfg (stop_auto_reload lm) = lm_cfg lm" "same_settings c c"
  "lm_last_udp (snd (start_auto_reload n lm)) = lm_last_udp lm" "lm_last_udp (stop_auto_reload lm) = lm_last_udp lm"
  "lm_sent (snd (start_auto_reload n lm)) = lm_sent lm" "lm_sent (stop_auto_reload lm) = lm_sent lm"
  by (simp_all add: start_auto_reload_def stop_auto_reload_def same_settings_def Let_def)

lemma init_result:
  assumes "log_init L env path sect name [] (new_manager L) = (Some True, lm')"
  defines "fl \<equiv> ld_floats L"
  shows "\<exists>ini old. the (ini_load (lf_ini fl) (env_file env path) new_ini) = (True, ini) \<and>
    same_settings (lm_cfg lm') (read_settings fl ini sect True old) \<and>
    lm_detached lm' = disk_low L env (read_settings fl ini sect True old)"
  using assms(1)
proof (rule log_init_True)
  fix lm2 m lm4 f
  assume l: "load_config L env True ((new_manager L)\<lparr>lm_name := name, lm_section := sect,
      lm_ini_path := config_path env path []\<rparr>) = (True, lm2)"
    and k: "init_sinks L env (lm2\<lparr>lm_last_write := m\<rparr>) = (True, lm4)"
    and e: "lm' = snd (start_auto_reload (ls_auto_reload (lm_cfg lm4)) (check_disk L env
        ((apply_soft_settings L (lm4\<lparr>lm_logger := Some (Info, Off)\<rparr>))\<lparr>lm_flush_period := f\<rparr>))) \<or>
     lm' = stop_auto_reload (check_disk L env
        ((apply_soft_settings L (lm4\<lparr>lm_logger := Some (Info, Off)\<rparr>))\<lparr>lm_flush_period := f\<rparr>))"
  obtain ini where ini: "the (ini_load (lf_ini fl) (env_file env path) new_ini) = (True, ini)"
    and c: "lm_cfg lm2 = read_settings fl ini sect True (lm_cfg (new_manager L))" "\<not> lm_detached lm2"
    using l by (auto simp: load_config_def config_path_def fl_def split: prod.splits bool.splits)
  have 4: "lm_cfg lm4 = read_settings fl ini sect True (lm_cfg (new_manager L))" "\<not> lm_detached lm4"
    using init_sinks_keeps [OF k] c by simp_all
  have "same_settings (lm_cfg lm') (lm_cfg lm4)" "lm_detached lm' = disk_low L env (lm_cfg lm4)"
    using e 4(2) by (auto simp: check_detached)
  then show ?thesis using ini 4(1) by metis
qed

lemma hard_keeps:
  assumes "apply_hard_settings L env old lm = (ok, lm')"
  shows "lm_cfg lm' = lm_cfg lm" "lm_detached lm' = lm_detached lm" "lm_last_udp lm' = lm_last_udp lm"
    "lm_sent lm' = lm_sent lm"
  using assms
  by (auto simp: apply_hard_settings_def hard_console_def hard_all_def hard_alerts_def fallback_def Let_def
    split: prod.splits bool.splits option.splits if_splits dest!: renew_keeps)

lemma reload_result:
  assumes "reload_if_changed L env lm = (Some True, lm')" "\<not> lm_detached lm"
  defines "fl \<equiv> ld_floats L"
  shows "\<exists>ini. the (ini_load (lf_ini fl) (env_file env (lm_ini_path lm)) (lm_ini lm)) = (True, ini) \<and>
    lm_cfg lm' = read_settings fl ini (lm_section lm) False (lm_cfg lm) \<and> lm_detached lm' = disk_low L env (lm_cfg lm')"
proof -
  obtain m lm1 lm2 where l: "load_config L env False (lm\<lparr>lm_last_write := m\<rparr>) = (True, lm1)"
    and h: "apply_hard_settings L env (lm_cfg lm) lm1 = (True, lm2)"
    and e: "\<exists>f. lm' = check_disk L env ((apply_soft_settings L lm2)\<lparr>lm_flush_period := f\<rparr>)"
  proof -
    obtain m where m: "env_mtime env (lm_ini_path lm) = Some m" "m \<noteq> lm_last_write lm"
      using assms(1) by (auto simp: reload_if_changed_def split: option.splits if_splits)
    then obtain lm1 where 1: "load_config L env False (lm\<lparr>lm_last_write := m\<rparr>) = (True, lm1)"
      using assms(1) by (auto simp: reload_if_changed_def split: prod.splits bool.splits)
    then obtain lm2 where 2: "apply_hard_settings L env (lm_cfg lm) lm1 = (True, lm2)"
      using assms(1) m by (auto simp: reload_if_changed_def split: prod.splits bool.splits)
    define f where "f = (if ls_flush_every (lm_cfg lm2) > 0 then Some (ls_flush_every (lm_cfg lm2)) else lm_flush_period
      (apply_soft_settings L lm2))"
    have "lm' = check_disk L env ((apply_soft_settings L lm2)\<lparr>lm_flush_period := f\<rparr>)"
      using assms(1) m 1 2 by (auto simp: reload_if_changed_def Let_def f_def)
    then show thesis using that [OF 1 2] by blast
  qed
  obtain ini where i: "the (ini_load (lf_ini fl) (env_file env (lm_ini_path lm)) (lm_ini lm)) = (True, ini)"
    and c: "lm_cfg lm1 = read_settings fl ini (lm_section lm) False (lm_cfg lm)" "\<not> lm_detached lm1"
    using l assms(2) by (auto simp: load_config_def fl_def split: prod.splits bool.splits)
  have "lm_cfg lm' = lm_cfg lm1" "lm_detached lm' = disk_low L env (lm_cfg lm1)"
    using e hard_keeps [OF h] c(2) by (auto simp: check_detached)
  then show ?thesis using i c(1) by metis
qed

text \<open>C31: A reload is as good as a restart. When a running manager whose file sinks are attached reads a changed
  file, messages afterwards reach the same sinks, with the same files, levels, patterns and time modes, as
  in a manager that is started on that file in the same environment.\<close>

theorem reload_like_restart:
  assumes laws: "dist_laws (ld_dist L)" and run: "log_run L lm" "\<not> lm_detached lm"
    and r: "reload_if_changed L env lm = (Some True, lm1)"
    and i: "log_init L env (lm_ini_path lm) (lm_section lm) name [] (new_manager L) = (Some True, lm2)"
  shows "live_sinks L lm1 = live_sinks L lm2"
proof -
  obtain ini where 1: "the (ini_load (lf_ini (ld_floats L)) (env_file env (lm_ini_path lm)) (lm_ini lm)) = (True, ini)"
    "lm_cfg lm1 = read_settings (ld_floats L) ini (lm_section lm) False (lm_cfg lm)"
    "lm_detached lm1 = disk_low L env (lm_cfg lm1)"
    using reload_result [OF r run(2)] by blast
  obtain ini' old where 2: "the (ini_load (lf_ini (ld_floats L)) (env_file env (lm_ini_path lm)) new_ini) = (True, ini')"
    "same_settings (lm_cfg lm2) (read_settings (ld_floats L) ini' (lm_section lm) True old)"
    "lm_detached lm2 = disk_low L env (read_settings (ld_floats L) ini' (lm_section lm) True old)"
    using init_result [OF i] by blast
  have ini: "ini' = ini" using 1(1) 2(1) by (cases "env_file env (lm_ini_path lm)") (auto simp: ini_load_def)
  let ?c = "read_settings (ld_floats L) ini (lm_section lm) False (lm_cfg lm)"
  let ?d = "read_settings (ld_floats L) ini (lm_section lm) True old"
  have s: "same_settings ?c ?d" by (rule same_settings_read)
  have w: "wanted_console L (lm_cfg lm2) = wanted_console L ?c" "wanted_files L (lm_cfg lm2) = wanted_files L ?c"
    using same_settingsD(1,2) [OF s, of L] same_settingsD(1,2) [OF 2(2) [unfolded ini], of L] by simp_all
  have d: "lm_detached lm2 = lm_detached lm1"
    using 1(2,3) 2(3) same_disk_low [OF s, of L env] by (simp add: ini)
  have "in_place L lm1" using reload_in_place [OF laws run_in_place [OF run(1) laws] r] run(2) by blast
  moreover have "in_place L lm2" by (rule init_in_place [OF laws i])
  ultimately show ?thesis using in_place_sinks [of L lm1] in_place_sinks [of L lm2] 1(2) w d by simp
qed


subsection \<open>Alerts\<close>

definition alert_inv :: "('d, 's) logger_manager \<Rightarrow> bool" where
  "alert_inv lm \<longleftrightarrow> lm_last_udp lm = (if lm_sent lm = [] then 0 else last (lm_sent lm))"

definition spaced :: "log_env \<Rightarrow> ('d, 's) logger_manager \<Rightarrow> ('d, 's) logger_manager \<Rightarrow> bool" where
  "spaced env lm lm' \<longleftrightarrow> lm_sent lm' = lm_sent lm \<or> lm_sent lm' = lm_sent lm @ [env_now env] \<and>
     (lm_sent lm = [] \<or> last (lm_sent lm) = 0 \<or>
      env_now env - last (lm_sent lm) \<ge> int (ls_udp_interval (lm_cfg lm')) * 1000000000)"

lemma check_alerts:
  assumes "alert_inv lm"
  shows "alert_inv (check_disk L env lm) \<and> spaced env lm (check_disk L env lm)"
proof -
  have a: "alert_inv (alert_if_due L env n r lm') \<and> spaced env lm (alert_if_due L env n r lm')"
    if "lm_sent lm' = lm_sent lm" "lm_last_udp lm' = lm_last_udp lm" "lm_cfg lm' = lm_cfg lm" for n r lm'
    using assms that by (auto simp: alert_inv_def spaced_def alert_if_due_def Let_def)
  have "check_disk L env lm = lm \<or> check_disk L env lm = resume_files L lm \<or>
      (\<exists>n r. check_disk L env lm = alert_if_due L env n r (suspend_files L lm))"
    by (auto simp: check_disk_def Let_def split: option.split)
  then show ?thesis
  proof (elim disjE exE)
    fix n r assume "check_disk L env lm = alert_if_due L env n r (suspend_files L lm)"
    then show ?thesis using a [of "suspend_files L lm" n r] by simp
  qed (use assms in \<open>simp_all add: alert_inv_def spaced_def\<close>)
qed

lemma alert_inv_cong: "lm_sent lm' = lm_sent lm \<Longrightarrow> lm_last_udp lm' = lm_last_udp lm \<Longrightarrow> alert_inv lm' = alert_inv lm"
  by (simp add: alert_inv_def)

lemma spaced_cong: "lm_sent a = lm_sent b \<Longrightarrow> spaced env a c = spaced env b c"
  by (simp add: spaced_def)

lemma reload_alerts:
  assumes "reload_if_changed L env lm = (r, lm')" "alert_inv lm"
  shows "alert_inv lm' \<and> spaced env lm lm'"
  using assms(1)
proof (cases rule: reload_cases)
  case same
  then show ?thesis using check_alerts [OF assms(2)] by simp
next
  case (unread m ini)
  define l where "l = lm\<lparr>lm_last_write := m, lm_ini := ini\<rparr>"
  have "alert_inv l" "lm_sent l = lm_sent lm" using assms(2) by (simp_all add: l_def alert_inv_def)
  then show ?thesis using check_alerts [of l L env] unread(2) spaced_cong [of l lm] by (simp add: l_def)
next
  case (throws m ini lm2)
  then show ?thesis using hard_keeps [OF throws(3)] assms(2) by (simp add: alert_inv_def spaced_def)
next
  case (loaded m ini lm2)
  define l where "l = (let lm3 = apply_soft_settings L lm2 in
      if ls_flush_every (lm_cfg lm3) > 0 then lm3\<lparr>lm_flush_period := Some (ls_flush_every (lm_cfg lm3))\<rparr> else lm3)"
  have "alert_inv l" "lm_sent l = lm_sent lm"
    using hard_keeps [OF loaded(3)] assms(2) by (simp_all add: l_def alert_inv_def Let_def)
  then show ?thesis using check_alerts [of l L env] loaded(4) spaced_cong [of l lm] by (simp add: l_def)
qed

lemma start_stop_alerts [simp]:
  "alert_inv (snd (start_auto_reload n lm)) = alert_inv lm" "alert_inv (stop_auto_reload lm) = alert_inv lm"
  by (simp_all add: alert_inv_def)

lemma init_alerts:
  assumes "log_init L env path sect name var (new_manager L) = (Some True, lm')"
  shows "alert_inv lm'"
  using assms
proof (rule log_init_True)
  fix lm2 m lm4 f
  assume l: "load_config L env True ((new_manager L)\<lparr>lm_name := name, lm_section := sect,
      lm_ini_path := config_path env path var\<rparr>) = (True, lm2)"
    and k: "init_sinks L env (lm2\<lparr>lm_last_write := m\<rparr>) = (True, lm4)"
    and e: "lm' = snd (start_auto_reload (ls_auto_reload (lm_cfg lm4)) (check_disk L env
        ((apply_soft_settings L (lm4\<lparr>lm_logger := Some (Info, Off)\<rparr>))\<lparr>lm_flush_period := f\<rparr>))) \<or>
     lm' = stop_auto_reload (check_disk L env
        ((apply_soft_settings L (lm4\<lparr>lm_logger := Some (Info, Off)\<rparr>))\<lparr>lm_flush_period := f\<rparr>))"
  have "lm_sent lm2 = []" "lm_last_udp lm2 = 0" using load_config_True [OF l] by auto
  then have "alert_inv ((apply_soft_settings L (lm4\<lparr>lm_logger := Some (Info, Off)\<rparr>))\<lparr>lm_flush_period := f\<rparr>)"
    using init_sinks_keeps [OF k] by (simp add: alert_inv_def)
  from check_alerts [OF this, of L env, THEN conjunct1] show ?thesis using e by auto
qed

lemma run_alerts: "log_run L lm \<Longrightarrow> alert_inv lm"
  by (induction rule: log_run.induct) (auto dest: init_alerts reload_alerts)

text \<open>C32: Alerts are not sent more often than configured. A round of the automatic reload sends at most one UDP
  alert, and only if no alert was sent before or the configured interval has passed since the last one that
  was sent.\<close>

theorem udp_alerts_spaced:
  assumes "log_run L lm" "reload_if_changed L env lm = (r, lm')"
  shows "lm_sent lm' = lm_sent lm \<or> lm_sent lm' = lm_sent lm @ [env_now env] \<and>
    (lm_sent lm = [] \<or> last (lm_sent lm) = 0 \<or>
     int (ls_udp_interval (lm_cfg lm')) * 1000000000 \<le> env_now env - last (lm_sent lm))"
  using reload_alerts [OF assms(2) run_alerts [OF assms(1)]] by (simp add: spaced_def)

end
