(* ===== verification/Log_Examples.thy ===== *)
theory Log_Examples
  imports Log_Sinks Ini_File
begin

text \<open>
  Concrete runs of the log manager: the witnesses of the theorems of \<open>Log_Sinks\<close>, and a reload while the
  disk is low. Whole numbers stand for the floating-point numbers and a list for the distributing sink.
  A settings file is the saved form of a document, read back through the round trip of \<open>Ini_File\<close>.
\<close>

definition demo :: "(nat, nat, nat list) log_deps" where
  "demo = \<lparr>ld_floats = \<lparr>lf_ini = \<lparr>parse_double = (\<lambda>s. None), format_double = (\<lambda>d. [])\<rparr>, lf_trunc = int,
       lf_of_int = nat, lf_five = 5, lf_stod = (\<lambda>s. Some 104857600), lf_llround = (\<lambda>n k. int (n * k)),
       lf_percent = (\<lambda>a c. a * 100 div c), lf_hundred = 100, lf_below = (\<lambda>a b. a < b), lf_fixed2 = show_nat\<rparr>,
     ld_dist = \<lparr>da_empty = [], da_add = (\<lambda>i s. s @ [i]), da_remove = removeAll, da_sinks = id\<rparr>, ld_custom = True\<rparr>"

lemma demo_laws: "dist_laws (ld_dist demo)"
  by (simp add: dist_laws_def demo_def)

definition demo_entries :: "string \<Rightarrow> entry list" where
  "demo_entries path = map (\<lambda>(k, v). \<lparr>e_key = k, e_value = v, e_kind = VString, e_literal = False\<rparr>)
     [(''ALL_PATH'', path), (''DISK_ROOT'', ''/''), (''UDP_ALERT_IP'', ''h''), (''UDP_ALERT_PORT'', ''1''),
      (''UDP_ALERT_MESSAGE'', ''low'')]"

definition demo_ini :: "string \<Rightarrow> ini_parser" where
  "demo_ini path = mk_ini [(''Log'', demo_entries path)]"

definition demo_env :: "string \<Rightarrow> int \<Rightarrow> nat \<Rightarrow> log_env" where
  "demo_env path mtime free = \<lparr>env_var = (\<lambda>v. None), env_file = (\<lambda>p. Some (ini_save (demo_ini path))),
     env_mtime = (\<lambda>p. Some mtime), env_opens = (\<lambda>p n k. True), env_name_free = (\<lambda>n. True),
     env_space = (\<lambda>p. Some (free, 100)), env_now = 10 ^ 12 + mtime, env_udp = (\<lambda>m i p. True)\<rparr>"

lemma demo_load: "path \<in> {''a'', ''b''} \<Longrightarrow>
  ini_load (lf_ini (ld_floats demo)) (Some (ini_save (demo_ini path))) p = Some (True, demo_ini path)"
  by (rule load_save) (auto simp: saveable_def demo_ini_def demo_entries_def wf_document_def saveable_document_def
    saveable_section_def saveable_key_def saveable_value_def trimmed_def ini_space_def comment_free_def)

lemma parse_one: "parse_int ''1'' = Some 1"
proof -
  have "to_string 1 = ''1''" by (simp add: to_string_def show_nat.simps digit_char_def char_of_eq_iff)
  then show ?thesis using parse_int_to_string [of 1] by simp
qed

definition demo_settings :: "string \<Rightarrow> nat log_settings" where
  "demo_settings path = (initial_settings (ld_floats demo))\<lparr>ls_all_path := path, ls_disk_root := ''/'',
     ls_udp_ip := ''h'', ls_udp_port := 1, ls_udp_message := ''low''\<rparr>"

lemma demo_lookup:
  "find_entry ''Log'' k (demo_ini path) = Some (List.find (\<lambda>e. e_key e = k) (demo_entries path))"
  by (simp add: demo_ini_def find_entry_mk wf_document_def demo_entries_def doc_find_def)

lemma demo_values:
  "parse_level ''trace'' d = Trace" "parse_level ''warn'' d = Warn" "log_to_bool ''true'' b" "to_lower ''local'' \<noteq> ''utc''"
  by code_simp+

lemma demo_size: "parse_size_bytes (ld_floats demo) ''104857600'' d = 104857600"
  by (simp add: parse_size_bytes_def to_lower_def tolower_def isupper_def isspace_def isdigit_def size_unit_def as_size_def
    demo_def)

lemma demo_read:
  "read_settings (ld_floats demo) (demo_ini path) ''Log'' b old =
     (demo_settings path)\<lparr>ls_auto_reload := (if b then 60 else ls_auto_reload old)\<rparr>"
  by (simp add: read_settings_def demo_settings_def initial_settings_def log_get_str_def log_get_ll_def log_get_d_def
    get_string_def get_int_def get_double_def demo_lookup demo_entries_def demo_values demo_size parse_one as_size_def)


text \<open>Initialised on \<open>a\<close> with half of the disk free, then a low disk, then the file \<open>b\<close> while it is low, then
  free space again.\<close>

definition demo_start :: "(nat, nat list) logger_manager" where
  "demo_start = snd (log_init demo (demo_env ''a'' 1 50) ''f'' ''Log'' ''app'' [] (new_manager demo))"

definition demo_low :: "(nat, nat list) logger_manager" where
  "demo_low = snd (reload_if_changed demo (demo_env ''a'' 1 2) demo_start)"

definition demo_reloaded :: "(nat, nat list) logger_manager" where
  "demo_reloaded = snd (reload_if_changed demo (demo_env ''b'' 2 2) demo_low)"

definition demo_after :: "(nat, nat list) logger_manager" where
  "demo_after = snd (reload_if_changed demo (demo_env ''b'' 2 50) demo_reloaded)"

lemma demo_settings_fields:
  "ls_console (demo_settings p)" "ls_file_all (demo_settings p)" "ls_file_alerts (demo_settings p)"
  "ls_all_path (demo_settings p) = p" "ls_disk_root (demo_settings p) = ''/''" "ls_guard (demo_settings p)"
  "ls_udp_ip (demo_settings p) = ''h''" "ls_udp_port (demo_settings p) = 1" "ls_udp_message (demo_settings p) = ''low''"
  "ls_min_ratio (demo_settings p) = 5" "ls_auto_reload (demo_settings p) = 60" "ls_udp_interval (demo_settings p) = 60"
  "ls_flush_every (demo_settings p) = 1"
  "ls_all_max_size (demo_settings p) = ls_all_max_size (demo_settings q)"
  "ls_all_max_files (demo_settings p) = ls_all_max_files (demo_settings q)"
  "ls_alerts_path (demo_settings p) = ls_alerts_path (demo_settings q)"
  "ls_alert_max_size (demo_settings p) = ls_alert_max_size (demo_settings q)"
  "ls_alert_max_files (demo_settings p) = ls_alert_max_files (demo_settings q)"
  "(demo_settings p)\<lparr>ls_auto_reload := 60\<rparr> = demo_settings p"
  by (simp_all add: demo_settings_def initial_settings_def) (simp_all add: demo_def)

lemma demo_config: "p \<in> {''a'', ''b''} \<Longrightarrow> lm_section lm = ''Log'' \<Longrightarrow> b \<or> ls_auto_reload (lm_cfg lm) = 60 \<Longrightarrow>
  load_config demo (demo_env p m n) b lm = (True, lm\<lparr>lm_ini := demo_ini p, lm_cfg := demo_settings p\<rparr>)"
  using demo_load [of p "lm_ini lm"]
  by (auto simp: load_config_def demo_env_def demo_read demo_settings_fields)

lemma demo_message: "build_udp_message fl ''low'' q n r = ''low''"
  by (simp add: build_udp_message_def replace_all_in_def replace_loop.simps find_from_def)

lemma demo_deps: "da_empty (ld_dist demo) = []" "da_add (ld_dist demo) i s = s @ [i]" "da_remove (ld_dist demo) = removeAll"
  "da_sinks (ld_dist demo) s = s" "lf_percent (ld_floats demo) a c = a * 100 div c" "lf_below (ld_floats demo) a b = (a < b)"
  by (simp_all add: demo_def)

lemma demo_env_fields: "env_mtime (demo_env p m n) q = Some m" "env_opens (demo_env p m n) q k j"
  "env_name_free (demo_env p m n) q" "env_space (demo_env p m n) q = Some (n, 100)" "env_now (demo_env p m n) = 10 ^ 12 + m"
  "env_udp (demo_env p m n) x y z"
  by (simp_all add: demo_env_def)

lemmas demo_eval = demo_config demo_message demo_deps demo_env_fields demo_settings_fields config_path_def log_init_def
  init_sinks_def init_file_def new_sink_def add_sink_def add_console_def fallback_def check_disk_def resume_files_def
  suspend_files_def alert_if_due_def send_udp_alert_def remove_sink_def start_auto_reload_def reload_if_changed_def
  apply_hard_settings_def hard_console_def hard_all_def hard_alerts_def renew_sink_def Let_def

lemma demo_start_runs:
  "log_init demo (demo_env ''a'' 1 50) ''f'' ''Log'' ''app'' [] (new_manager demo) = (Some True, demo_start)"
proof -
  have "fst (log_init demo (demo_env ''a'' 1 50) ''f'' ''Log'' ''app'' [] (new_manager demo)) = Some True"
    by (simp add: demo_eval new_manager_def)
  then show ?thesis by (metis demo_start_def prod.collapse)
qed

lemma demo_start_state:
  "lm_dist demo_start = [0, 1, 2]" "lm_cfg demo_start = demo_settings ''a''" "lm_console demo_start = Some 0"
  "lm_all demo_start = Some 1" "lm_alerts demo_start = Some 2" "\<not> lm_detached demo_start" "lm_sent demo_start = []"
  "lm_last_udp demo_start = 0" "lm_section demo_start = ''Log''" "lm_last_write demo_start = 1" "lm_next demo_start = 3"
  "lm_ini_path demo_start = ''f''"
  unfolding demo_start_def by (simp_all add: demo_eval new_manager_def)

lemma demo_low_state:
  "lm_dist demo_low = [0]" "lm_cfg demo_low = demo_settings ''a''" "lm_console demo_low = Some 0"
  "lm_all demo_low = Some 1" "lm_alerts demo_low = Some 2" "lm_detached demo_low" "lm_sent demo_low = [10 ^ 12 + 1]"
  "lm_last_udp demo_low = 10 ^ 12 + 1" "lm_section demo_low = ''Log''" "lm_last_write demo_low = 1" "lm_next demo_low = 3"
  "reload_if_changed demo (demo_env ''a'' 1 2) demo_start = (Some False, demo_low)"
  unfolding demo_low_def by (simp_all add: demo_eval demo_start_state)

lemma demo_reloaded_state:
  "lm_dist demo_reloaded = [0, 3]" "lm_cfg demo_reloaded = demo_settings ''b''" "lm_console demo_reloaded = Some 0"
  "lm_all demo_reloaded = Some 3" "lm_alerts demo_reloaded = Some 2" "lm_detached demo_reloaded"
  "lm_last_write demo_reloaded = 2" "lm_sent demo_reloaded = [10 ^ 12 + 1]" "lm_last_udp demo_reloaded = 10 ^ 12 + 1"
  "sk_target (lm_sinks demo_reloaded 3) = all_target (demo_settings ''b'')"
  "reload_if_changed demo (demo_env ''b'' 2 2) demo_low = (Some True, demo_reloaded)"
  unfolding demo_reloaded_def by (simp_all add: demo_eval demo_low_state all_target_def)


text \<open>A reload that changes a path while the disk is low: the new file is attached at once although the guard
  has suspended file logging, and no later round takes it away; when space is free again it is attached a
  second time, so every message is written to it twice.\<close>

lemma reload_while_low:
  "lm_detached demo_reloaded" "lm_dist demo_reloaded = [0, 3]"
  "reload_if_changed demo (demo_env ''b'' 2 2) demo_reloaded = (Some False, demo_reloaded)"
  "reload_if_changed demo (demo_env ''b'' 2 50) demo_reloaded = (Some False, demo_after)"
  "\<not> lm_detached demo_after" "lm_dist demo_after = [0, 3, 3, 2]"
proof -
  show "lm_detached demo_reloaded" "lm_dist demo_reloaded = [0, 3]" by (fact demo_reloaded_state)+
  show "reload_if_changed demo (demo_env ''b'' 2 2) demo_reloaded = (Some False, demo_reloaded)"
    by (simp add: demo_eval demo_reloaded_state)
  show "reload_if_changed demo (demo_env ''b'' 2 50) demo_reloaded = (Some False, demo_after)"
    "\<not> lm_detached demo_after" "lm_dist demo_after = [0, 3, 3, 2]"
    unfolding demo_after_def by (simp_all add: demo_eval demo_reloaded_state)
qed

section \<open>Witnesses\<close>

lemma demo_runs: "log_run demo demo_start" "log_run demo demo_low"
proof -
  show s: "log_run demo demo_start" by (rule log_run.init [OF demo_start_runs])
  show "log_run demo demo_low" by (rule log_run.reload [OF s _ demo_low_state(12)]) (simp add: demo_start_state)
qed


theorem sinks_as_configured_witness:
  "live_sinks demo demo_low = mset (wanted_console demo (lm_cfg demo_low) @
    (if lm_detached demo_low then [] else wanted_files demo (lm_cfg demo_low)))"
  by (rule sinks_as_configured [OF demo_laws demo_runs(2)])

theorem udp_alerts_spaced_witness:
  "lm_sent demo_low = lm_sent demo_start \<or> lm_sent demo_low = lm_sent demo_start @ [env_now (demo_env ''a'' 1 2)] \<and>
    (lm_sent demo_start = [] \<or> last (lm_sent demo_start) = 0 \<or>
     int (ls_udp_interval (lm_cfg demo_low)) * 1000000000 \<le> env_now (demo_env ''a'' 1 2) - last (lm_sent demo_start))"
  by (rule udp_alerts_spaced [OF demo_runs(1) demo_low_state(12)])

definition demo_switched :: "(nat, nat list) logger_manager" where
  "demo_switched = snd (reload_if_changed demo (demo_env ''b'' 2 50) demo_start)"

definition demo_restarted :: "(nat, nat list) logger_manager" where
  "demo_restarted = snd (log_init demo (demo_env ''b'' 2 50) (lm_ini_path demo_start) (lm_section demo_start) ''app'' []
     (new_manager demo))"

theorem reload_like_restart_witness:
  "lm_cfg demo_switched = demo_settings ''b'' \<and> live_sinks demo demo_switched = live_sinks demo demo_restarted"
proof -
  have "fst (reload_if_changed demo (demo_env ''b'' 2 50) demo_start) = Some True"
    "fst (log_init demo (demo_env ''b'' 2 50) (lm_ini_path demo_start) (lm_section demo_start) ''app'' []
      (new_manager demo)) = Some True" "lm_cfg demo_switched = demo_settings ''b''"
    unfolding demo_switched_def by (simp_all add: demo_eval demo_start_state new_manager_def)
  then show ?thesis
    using reload_like_restart [OF demo_laws demo_runs(1) demo_start_state(6), of "demo_env ''b'' 2 50" demo_switched "''app''"
      demo_restarted] by (metis demo_restarted_def demo_switched_def prod.collapse)
qed

end
