(* ===== verification/Downloader.thy ===== *)
theory Downloader
  imports Paths String_Basic
begin

text \<open>
  \<open>network/downloader/multipart_downloader.cpp\<close>. The transfer itself is libcurl: a parameter that says
  which chunks of header and body and which progress reports a URL produces and how it ends; the
  callbacks that libcurl calls are the code's. The files are a map from the text of a path to the
  contents, and a parameter says which operations of the file system fail. Paths are POSIX.
\<close>

section \<open>Parameters\<close>

datatype transfer_event = Header_chunk string | Body_chunk string | Progress_report int int

record transfer =
  tr_events :: "transfer_event list"
  tr_error :: "string option"

text \<open>\<open>de_stores p d\<close> is what \<open>ofs.write\<close> and the closing of the stream do with the data \<open>d\<close>: whether the
  stream is still good after \<open>write\<close>, and the bytes that are in the file in the end.\<close>

record dl_env =
  de_transfer :: "string \<Rightarrow> transfer option"
  de_opens :: "string \<Rightarrow> bool"
  de_stores :: "string \<Rightarrow> string \<Rightarrow> bool \<times> string"
  de_renames :: "string \<Rightarrow> string \<Rightarrow> bool"
  de_removes :: "string \<Rightarrow> bool"

type_synonym files = "string \<Rightarrow> string option"

abbreviation crlf :: string where
  "crlf \<equiv> [cr, lf]"

section \<open>The object\<close>

record 'c multipart_downloader =
  progress_cb :: "('c \<Rightarrow> int \<Rightarrow> int \<Rightarrow> bool \<times> 'c) option"
  delete_partial_on_fail :: bool

definition new_downloader :: "'c multipart_downloader" where
  "new_downloader = \<lparr>progress_cb = None, delete_partial_on_fail = True\<rparr>"

definition set_progress_callback :: "('c \<Rightarrow> int \<Rightarrow> int \<Rightarrow> bool \<times> 'c) option \<Rightarrow> 'c multipart_downloader \<Rightarrow>
    'c multipart_downloader" where
  "set_progress_callback cb d = d\<lparr>progress_cb := cb\<rparr>"

definition set_delete_partial_file_on_fail :: "bool \<Rightarrow> 'c multipart_downloader \<Rightarrow> 'c multipart_downloader" where
  "set_delete_partial_file_on_fail enable d = d\<lparr>delete_partial_on_fail := enable\<rparr>"

section \<open>The callbacks of the transfer\<close>

definition write_body_callback :: "string \<Rightarrow> string \<Rightarrow> string" where
  "write_body_callback chunk body = body @ chunk"

definition write_header_callback :: "string \<Rightarrow> string \<Rightarrow> string" where
  "write_header_callback chunk headers = headers @ chunk"

definition xfer_info_callback :: "'c multipart_downloader \<Rightarrow> int \<Rightarrow> int \<Rightarrow> 'c \<Rightarrow> nat \<times> 'c" where
  "xfer_info_callback self dltotal now_bytes c =
     (case progress_cb self of
        None \<Rightarrow> (0, c)
      | Some f \<Rightarrow> (let (keep, c1) = f c dltotal now_bytes in (if keep then 0 else 1, c1)))"

text \<open>\<open>curl_easy_perform\<close> calls the callbacks one after the other and gives up when the one for the
  progress does not return zero.\<close>

datatype curl_code = Curl_ok | Curl_aborted | Curl_failed string

fun perform :: "'c multipart_downloader \<Rightarrow> transfer_event list \<Rightarrow> string option \<Rightarrow> string \<Rightarrow> string \<Rightarrow> 'c \<Rightarrow>
    curl_code \<times> string \<times> string \<times> 'c" where
  "perform d [] err headers body c = (case err of None \<Rightarrow> Curl_ok | Some e \<Rightarrow> Curl_failed e, headers, body, c)"
| "perform d (Header_chunk h # es) err headers body c = perform d es err (write_header_callback h headers) body c"
| "perform d (Body_chunk b # es) err headers body c = perform d es err headers (write_body_callback b body) c"
| "perform d (Progress_report dl_total now # es) err headers body c =
     (let (r, c1) = xfer_info_callback d dl_total now c
      in if r \<noteq> 0 then (Curl_aborted, headers, body, c1) else perform d es err headers body c1)"

section \<open>Reading headers\<close>

definition dl_trim :: "string \<Rightarrow> string" where
  "dl_trim s = strip isspace s"

definition chop_cr :: "string \<Rightarrow> string" where
  "chop_cr line = (if line \<noteq> [] \<and> last line = cr then butlast line else line)"

definition dl_unquote :: "string \<Rightarrow> string" where
  "dl_unquote s = (if s \<noteq> [] \<and> hd s = CHR 0x22 \<and> last s = CHR 0x22
                  then take (length s - 2) (drop 1 s) else s)"

text \<open>The value of \<open>key\<close> in the header \<open>field\<close>: nothing when the line is another header, \<open>Some None\<close>
  when the key is missing.\<close>

definition header_value :: "string \<Rightarrow> string \<Rightarrow> string \<Rightarrow> string option option" where
  "header_value field key l =
     (let line = chop_cr l; lower = map tolower line
      in if take (length field) lower = field
         then Some (case find_from lower key 0 of
                      None \<Rightarrow> None
                    | Some pos \<Rightarrow> Some (dl_unquote (dl_trim (drop (pos + length key) line))))
         else None)"

fun boundary_loop :: "string list \<Rightarrow> string option" where
  "boundary_loop [] = None"
| "boundary_loop (l # ls) =
     (case header_value ''content-type:'' ''boundary='' l of
        Some (Some b) \<Rightarrow> Some b
      | _ \<Rightarrow> boundary_loop ls)"

definition extract_boundary_from_headers :: "string \<Rightarrow> string option" where
  "extract_boundary_from_headers headers = boundary_loop (getline_loop lf headers)"

fun filename_loop :: "string list \<Rightarrow> string option" where
  "filename_loop [] = None"
| "filename_loop (l # ls) =
     (case header_value ''content-disposition:'' ''filename='' l of
        Some (Some n) \<Rightarrow> if n \<noteq> [] then Some n else None
      | Some None \<Rightarrow> None
      | None \<Rightarrow> filename_loop ls)"

definition extract_filename_from_content_disposition :: "string \<Rightarrow> string option" where
  "extract_filename_from_content_disposition header_block = filename_loop (getline_loop lf header_block)"

section \<open>The parts of the body\<close>

datatype next_part = No_more | Bad_headers | Part string string nat

definition skip_crlf :: "string \<Rightarrow> nat \<Rightarrow> nat" where
  "skip_crlf body cur = (if take 2 (drop cur body) = crlf then cur + 2 else cur)"

definition data_end :: "string \<Rightarrow> string \<Rightarrow> nat \<Rightarrow> nat" where
  "data_end marker body data_start =
     (case find_from body (crlf @ marker) data_start of None \<Rightarrow> length body | Some next \<Rightarrow> next)"

definition parse_part :: "string \<Rightarrow> string \<Rightarrow> nat \<Rightarrow> next_part" where
  "parse_part marker body pos =
     (case find_from body marker pos of
        None \<Rightarrow> No_more
      | Some bpos \<Rightarrow>
          if take (length marker + 2) (drop bpos body) = marker @ ''--'' then No_more
          else let cur = skip_crlf body (bpos + length marker)
               in case find_from body (crlf @ crlf) cur of
                    None \<Rightarrow> Bad_headers
                  | Some header_end \<Rightarrow>
                      let data_start = header_end + 4; next = data_end marker body data_start
                      in Part (take (header_end - cur) (drop cur body))
                           (take (next - data_start) (drop data_start body)) next)"

definition part_filename :: "string \<Rightarrow> nat \<Rightarrow> string" where
  "part_filename header_block part_index =
     (case extract_filename_from_content_disposition header_block of
        Some n \<Rightarrow> n
      | None \<Rightarrow> ''part_'' @ show_nat part_index @ ''.bin'')"

definition try_delete_file :: "dl_env \<Rightarrow> string \<Rightarrow> files \<Rightarrow> files" where
  "try_delete_file E p fs = (if de_removes E p then fs(p := None) else fs)"

text \<open>One part goes to a file with the suffix \<open>.part\<close> that is then renamed. The result is the error,
  if any, and the files.\<close>

definition save_part :: "dl_env \<Rightarrow> bool \<Rightarrow> string \<Rightarrow> string \<Rightarrow> files \<Rightarrow> string option \<times> files" where
  "save_part E del final_path data fs =
     (let temp_path = final_path @ ''.part'';
          fail = (\<lambda>msg fs1. (Some msg, if del then try_delete_file E temp_path fs1 else fs1))
      in if \<not> de_opens E temp_path then fail (''Failed to create temp file: '' @ temp_path) fs
         else let (good, stored) = de_stores E temp_path data; fs1 = fs(temp_path \<mapsto> stored)
              in if \<not> good then fail (''Failed to write temp file: '' @ temp_path) fs1
                 else if \<not> de_renames E temp_path final_path
                 then fail (''Failed to rename file: '' @ final_path) fs1
                 else (None, fs1(temp_path := None, final_path \<mapsto> stored)))"

function parts_loop :: "dl_env \<Rightarrow> bool \<Rightarrow> string \<Rightarrow> string \<Rightarrow> string \<Rightarrow> nat \<Rightarrow> nat \<Rightarrow> bool \<Rightarrow> string list \<Rightarrow> files \<Rightarrow>
    (string + bool) \<times> string list \<times> files" where
  "parts_loop E del out_dir marker body pos part_index found_any saved fs =
     (case parse_part marker body pos of
        No_more \<Rightarrow> (Inr found_any, saved, fs)
      | Bad_headers \<Rightarrow> (Inl ''Failed to parse multipart headers'', saved, fs)
      | Part header_block data next \<Rightarrow>
          let final_path = path_div out_dir (part_filename header_block part_index)
          in case save_part E del final_path data fs of
               (Some msg, fs1) \<Rightarrow> (Inl msg, saved, fs1)
             | (None, fs1) \<Rightarrow>
                 parts_loop E del out_dir marker body next (part_index + 1) True (saved @ [final_path]) fs1)"
  by pat_completeness auto

lemma parse_part_progress: "parse_part marker body pos = Part h d next \<Longrightarrow> pos < next \<and> next \<le> length body"
proof -
  assume "parse_part marker body pos = Part h d next"
  then obtain bpos e where p: "find_from body marker pos = Some bpos"
      "find_from body (crlf @ crlf) (skip_crlf body (bpos + length marker)) = Some e"
      "next = data_end marker body (e + 4)"
    by (auto simp: parse_part_def Let_def split: option.splits if_splits)
  have "pos \<le> bpos" using find_from_bounds(1) [OF p(1)] .
  also have "\<dots> \<le> skip_crlf body (bpos + length marker)" by (simp add: skip_crlf_def)
  also have "\<dots> \<le> e" using find_from_bounds(1) [OF p(2)] .
  finally have "pos < e + 4" by simp
  moreover have "e + 4 \<le> length body" using find_from_bounds(2) [OF p(2)] by simp
  moreover have "e + 4 \<le> next \<and> next \<le> length body"
    using calculation(2) p(3) find_from_bounds [of body "crlf @ marker" "e + 4"]
    by (auto simp: data_end_def split: option.splits)
  ultimately show ?thesis by linarith
qed

termination parts_loop
  by (relation "measure (\<lambda>(E, del, out_dir, marker, body, pos, _). length body - pos)")
     (auto dest: parse_part_progress)

declare parts_loop.simps [simp del]

section \<open>The download\<close>

record 'c download_result =
  dr_ok :: bool
  dr_saved :: "string list"
  dr_error :: "string option"
  dr_files :: files
  dr_client :: 'c

text \<open>\<open>error_message\<close> may be a null pointer, here \<open>None\<close>.\<close>

definition set_error :: "string option \<Rightarrow> string \<Rightarrow> string option" where
  "set_error error_message msg = map_option (\<lambda>_. msg) error_message"

definition download_multipart :: "dl_env \<Rightarrow> 'c multipart_downloader \<Rightarrow> string \<Rightarrow> string \<Rightarrow> string list \<Rightarrow>
    string option \<Rightarrow> files \<Rightarrow> 'c \<Rightarrow> 'c download_result" where
  "download_multipart E d url output_dir saved_files error_message fs c =
     (let fail = (\<lambda>msg saved fs1 c1. \<lparr>dr_ok = False, dr_saved = saved, dr_error = set_error error_message msg,
                    dr_files = fs1, dr_client = c1\<rparr>)
      in case de_transfer E url of
           None \<Rightarrow> fail ''curl initialization failed'' saved_files fs c
         | Some t \<Rightarrow>
             (case perform d (tr_events t) (tr_error t) [] [] c of
                (Curl_aborted, headers, body, c1) \<Rightarrow> fail ''Download aborted by user.'' saved_files fs c1
              | (Curl_failed e, headers, body, c1) \<Rightarrow> fail e saved_files fs c1
              | (Curl_ok, headers, body, c1) \<Rightarrow>
                  (case extract_boundary_from_headers headers of
                     None \<Rightarrow> fail ''Failed to extract boundary'' saved_files fs c1
                   | Some boundary \<Rightarrow>
                       (case parts_loop E (delete_partial_on_fail d) output_dir (''--'' @ boundary) body 0 0 False
                               saved_files fs of
                          (Inl msg, saved, fs1) \<Rightarrow> fail msg saved fs1 c1
                        | (Inr False, saved, fs1) \<Rightarrow> fail ''No multipart data found.'' saved fs1 c1
                        | (Inr True, saved, fs1) \<Rightarrow>
                            \<lparr>dr_ok = True, dr_saved = saved, dr_error = error_message, dr_files = fs1,
                             dr_client = c1\<rparr>))))"

end
