(* ===== verification/Download_Spec.thy ===== *)
theory Download_Spec
  imports Downloader
begin

text \<open>
  What the downloader promises: the parts of a well formed multipart body become files, and whatever
  happens no other file is left behind.
\<close>

section \<open>Searching behind a prefix\<close>

lemma find_in_skip: "c \<notin> set l \<Longrightarrow> find_in (c # n) (l @ s) = map_option (\<lambda>i. length l + i) (find_in (c # n) s)"
  by (induction l; cases "find_in (c # n) s") auto

lemma find_from_append: "find_from (p @ s) n (length p) = map_option (\<lambda>i. length p + i) (find_in n s)"
  by (simp add: find_from_def)

lemma find_in_here: "find_in n (n @ s) = Some 0"
  by (simp add: find_in_Some)

lemma take_drop_middle: "s = x @ y @ z \<Longrightarrow> take (length y) (drop (length x) s) = y"
  by simp

text \<open>A delimiter whose first character does not come again is found at the end of a text without it.\<close>

lemma find_in_delimiter:
  assumes "find_in (c # n) d = None" "c \<notin> set n"
  shows "find_in (c # n) (d @ (c # n) @ s) = Some (length d)"
  unfolding find_in_Some
proof (intro conjI allI impI)
  show "occurs_at (c # n) (d @ (c # n) @ s) (length d)" by (rule occurs_at_append)
next
  fix j assume j: "j < length d"
  show "\<not> occurs_at (c # n) (d @ (c # n) @ s) j"
  proof
    assume o: "occurs_at (c # n) (d @ (c # n) @ s) j"
    then have t: "take (length (c # n)) (drop j d @ (c # n) @ s) = c # n"
      using j by (simp add: occurs_at_def)
    show False
    proof (cases "length (c # n) \<le> length d - j")
      case True
      then have "take (length (c # n)) (drop j d) = c # n" using t by simp
      then have "occurs_at (c # n) d j" using j by (simp add: occurs_at_def)
      then show False using assms(1) by (simp add: find_in_None)
    next
      case False
      let ?k = "length d - j"
      have "(drop j d @ (c # n) @ s) ! ?k = c" by (simp add: nth_append)
      moreover have "(drop j d @ (c # n) @ s) ! ?k = (c # n) ! ?k"
        using False t by (metis not_le nth_take)
      moreover have "0 < ?k" "?k - 1 < length n" using j False by auto
      ultimately show False using assms(2) by (metis nth_Cons_pos nth_mem)
    qed
  qed
qed

section \<open>The shape of a multipart body\<close>

text \<open>A part: further header lines, the file name of its disposition, and the data.\<close>

record body_part =
  bp_headers :: "string list"
  bp_name :: "string option"
  bp_data :: string

definition disposition :: "string option \<Rightarrow> string" where
  "disposition n = (case n of
     None \<Rightarrow> ''Content-Disposition: attachment''
   | Some n \<Rightarrow> ''Content-Disposition: attachment; filename='' @ [CHR 0x22] @ n @ [CHR 0x22])"

definition part_lines :: "body_part \<Rightarrow> string list" where
  "part_lines p = bp_headers p @ [disposition (bp_name p)]"

fun crlf_join :: "string list \<Rightarrow> string" where
  "crlf_join [] = []"
| "crlf_join [l] = l"
| "crlf_join (l # ls) = l @ crlf @ crlf_join ls"

definition part_text :: "string \<Rightarrow> body_part \<Rightarrow> string" where
  "part_text b p = ''--'' @ b @ crlf @ crlf_join (part_lines p) @ crlf @ crlf @ bp_data p @ crlf"

definition multipart_body :: "string \<Rightarrow> body_part list \<Rightarrow> string" where
  "multipart_body b ps = concat (map (part_text b) ps) @ ''--'' @ b @ ''--'' @ crlf"

definition clean_line :: "string \<Rightarrow> bool" where
  "clean_line l \<longleftrightarrow> l \<noteq> [] \<and> cr \<notin> set l \<and> lf \<notin> set l"

definition other_header :: "string \<Rightarrow> bool" where
  "other_header l \<longleftrightarrow>
     take (length ''content-disposition:'') (map tolower l) \<noteq> ''content-disposition:''"

definition valid_part :: "string \<Rightarrow> body_part \<Rightarrow> bool" where
  "valid_part b p \<longleftrightarrow>
     list_all (\<lambda>l. clean_line l \<and> other_header l) (bp_headers p) \<and>
     (case bp_name p of None \<Rightarrow> True | Some n \<Rightarrow> clean_line n) \<and>
     find_in (crlf @ ''--'' @ b) (bp_data p) = None"

section \<open>Reading back the header lines\<close>

lemma clean_disposition: "(case n of None \<Rightarrow> True | Some n \<Rightarrow> clean_line n) \<Longrightarrow> clean_line (disposition n)"
  by (auto simp: clean_line_def disposition_def split: option.splits)

lemma find_in_join:
  "ls \<noteq> [] \<Longrightarrow> list_all clean_line ls \<Longrightarrow>
   find_in (crlf @ crlf) (crlf_join ls @ crlf @ crlf @ s) = Some (length (crlf_join ls))"
proof (induction ls rule: crlf_join.induct)
  case (2 l)
  then show ?case using find_in_skip [of cr l "[lf, cr, lf]" "crlf @ crlf @ s"]
    by (simp add: clean_line_def)
next
  case (3 l k ls)
  obtain x xs where x: "crlf_join (k # ls) @ crlf @ crlf @ s = x # xs" "x \<noteq> cr"
    using 3(3) by (cases k; cases ls) (auto simp: clean_line_def)
  have "find_in (crlf @ crlf) (crlf @ x # xs) = map_option (\<lambda>i. i + 2) (find_in (crlf @ crlf) (x # xs))"
    using x(2) by (simp add: option.map_comp comp_def)
  with 3 x(1) show ?case using find_in_skip [of cr l "[lf, cr, lf]" "crlf @ x # xs"]
    by (simp add: clean_line_def)
qed simp

lemma chop_cr_line: "cr \<notin> set l \<Longrightarrow> chop_cr l = l" "chop_cr (l @ [cr]) = l"
  by (metis chop_cr_def last_in_set) (simp add: chop_cr_def)

lemma getline_join:
  "ls \<noteq> [] \<Longrightarrow> list_all clean_line ls \<Longrightarrow>
   map chop_cr (getline_loop lf (crlf_join ls)) = ls"
proof (induction ls rule: crlf_join.induct)
  case (2 l)
  then have "takeWhile (\<lambda>c. c \<noteq> lf) l = l" "dropWhile (\<lambda>c. c \<noteq> lf) l = []"
    by (auto simp: clean_line_def takeWhile_eq_all_conv dropWhile_eq_Nil_conv)
  then have "getline_loop lf l = [l]" using 2
    by (subst getline_loop.simps)
       (simp add: clean_line_def getline_loop.simps del: dropWhile_eq_Nil_conv takeWhile_eq_all_conv)
  then show ?case using 2 by (simp add: chop_cr_line(1) clean_line_def)
next
  case (3 l k ls)
  have "getline_loop lf (l @ crlf @ crlf_join (k # ls)) = (l @ [cr]) # getline_loop lf (crlf_join (k # ls))"
    using 3(3) takeWhile_not_in [of lf "l @ [cr]" "crlf_join (k # ls)"]
      dropWhile_not_in [of lf "l @ [cr]" "crlf_join (k # ls)"]
    by (subst getline_loop.simps) (auto simp: clean_line_def)
  then show ?case using 3 by (simp add: chop_cr_def)
qed simp

lemma unquote_trim_quoted: "dl_unquote (dl_trim (CHR 0x22 # n @ [CHR 0x22])) = n"
proof -
  have "dl_trim (CHR 0x22 # n @ [CHR 0x22]) = CHR 0x22 # n @ [CHR 0x22]"
    unfolding dl_trim_def by (rule strip_keep) (simp add: isspace_def)
  then show ?thesis by (simp add: dl_unquote_def)
qed

text \<open>A header whose fixed beginning holds the field and ends with the key.\<close>

lemma header_value_at:
  assumes "map tolower p = lp" "take (length field) lp = field"
    "find_in key lp = Some (length lp - length key)" "length key \<le> length lp" "length field \<le> length lp"
    "chop_cr l = p @ [CHR 0x22] @ n @ [CHR 0x22]"
  shows "header_value field key l = Some (Some n)"
proof -
  have len: "length p = length lp" using assms(1) by (metis length_map)
  let ?t = "map tolower ([CHR 0x22] @ n @ [CHR 0x22])"
  have "find_in key (lp @ ?t) = Some (length lp - length key)"
    using assms(3,4) by (fastforce simp: find_in_Some occurs_at_def)
  then have "find_from (map tolower (chop_cr l)) key 0 = Some (length lp - length key)"
    using assms(1,6) by (simp add: find_from_def)
  then show ?thesis using assms len
    by (simp add: header_value_def Let_def unquote_trim_quoted)
qed

lemma tolower_prefixes:
  "map tolower ''Content-Disposition: attachment; filename='' = ''content-disposition: attachment; filename=''"
  "map tolower ''Content-Disposition: attachment'' = ''content-disposition: attachment''"
  "map tolower ''Content-Type: multipart/mixed; boundary='' = ''content-type: multipart/mixed; boundary=''"
  by code_simp+

lemma header_value_disposition:
  assumes "chop_cr l = disposition n"
  shows "header_value ''content-disposition:'' ''filename='' l = Some n"
proof (cases n)
  case None
  then show ?thesis using assms
    by (simp add: header_value_def disposition_def tolower_prefixes(2) [simplified] find_from_def)
next
  case (Some m)
  have "find_in ''filename='' ''content-disposition: attachment; filename='' = Some 33" by code_simp
  then show ?thesis using assms unfolding Some
    by (intro header_value_at [OF tolower_prefixes(1)]) (simp_all add: disposition_def)
qed

lemma filename_loop_lines:
  "list_all other_header ls \<Longrightarrow> (case n of None \<Rightarrow> True | Some n \<Rightarrow> n \<noteq> []) \<Longrightarrow>
   map chop_cr gs = ls @ [disposition n] \<Longrightarrow> filename_loop gs = n"
proof (induction gs arbitrary: ls)
  case (Cons g gs)
  show ?case
  proof (cases ls)
    case Nil
    then show ?thesis using Cons.prems header_value_disposition [of g n]
      by (cases n) auto
  next
    case (Cons l ls')
    then have l: "other_header l" "chop_cr g = l" using Cons.prems by auto
    have "header_value ''content-disposition:'' ''filename='' g = None"
      unfolding header_value_def Let_def l(2) using l(1) unfolding other_header_def by (rule if_not_P)
    then show ?thesis using Cons Cons.IH [of ls'] Cons.prems by simp
  qed
qed simp


lemma part_name_read:
  assumes "valid_part b p"
  shows "extract_filename_from_content_disposition (crlf_join (part_lines p)) = bp_name p"
proof -
  have "list_all clean_line (part_lines p)"
    using assms clean_disposition [of "bp_name p"]
    by (auto simp: valid_part_def part_lines_def list_all_iff)
  then have "map chop_cr (getline_loop lf (crlf_join (part_lines p))) = bp_headers p @ [disposition (bp_name p)]"
    using getline_join [of "part_lines p"] by (simp add: part_lines_def)
  then show ?thesis
    using assms unfolding extract_filename_from_content_disposition_def
    by (intro filename_loop_lines) (auto simp: valid_part_def list_all_iff clean_line_def split: option.splits)
qed

section \<open>Reading the parts\<close>

lemma skip_to_marker:
  "sep = [] \<or> sep = crlf \<Longrightarrow> find_from (pre @ sep @ CHR ''-'' # m) (CHR ''-'' # n) (length pre) =
     map_option (\<lambda>i. length pre + length sep + i) (find_in (CHR ''-'' # n) (CHR ''-'' # m))"
  by (auto simp: find_from_append find_in_skip [of _ crlf, simplified] option.map_comp comp_def)

lemma parse_part_end:
  "sep = [] \<or> sep = crlf \<Longrightarrow>
   parse_part (''--'' @ b) (pre @ sep @ multipart_body b []) (length pre) = No_more"
  using skip_to_marker [of sep pre "CHR ''-'' # b @ ''--'' @ crlf" "CHR ''-'' # b"]
    find_in_here [of "''--'' @ b" "''--'' @ crlf"]
  by (auto simp: parse_part_def multipart_body_def)

lemma parse_part_text:
  assumes sep: "sep = [] \<or> sep = crlf" and p: "valid_part b p" and b: "cr \<notin> set b"
    and body: "body = pre @ sep @ multipart_body b (p # ps)"
  shows "\<exists>pre'. parse_part (''--'' @ b) body (length pre) = Part (crlf_join (part_lines p)) (bp_data p) (length pre') \<and>
    body = pre' @ crlf @ multipart_body b ps"
proof -
  let ?m = "''--'' @ b" and ?h = "crlf_join (part_lines p)" and ?d = "bp_data p"
  let ?q = "pre @ sep @ ?m" and ?r = "multipart_body b ps"
  obtain r where r: "?r = ?m @ r"
    by (cases ps) (auto simp: multipart_body_def part_text_def)
  have all: "body = pre @ sep @ ?m @ crlf @ ?h @ crlf @ crlf @ ?d @ crlf @ ?m @ r"
    using body r by (simp add: multipart_body_def part_text_def)
  have m: "find_from body ?m (length pre) = Some (length pre + length sep)"
    using skip_to_marker [OF sep, of pre "tl ?m @ crlf @ ?h @ crlf @ crlf @ ?d @ crlf @ ?m @ r" "tl ?m"]
      find_in_here [of ?m "crlf @ ?h @ crlf @ crlf @ ?d @ crlf @ ?m @ r"] by (simp add: all)
  have t: "drop (length pre + length sep) body = ?m @ crlf @ ?h @ crlf @ crlf @ ?d @ crlf @ ?m @ r"
    by (simp add: all)
  have c: "skip_crlf body (length pre + length sep + length ?m) = length (?q @ crlf)"
  proof -
    have "drop (length pre + length sep + length ?m) body = drop (length ?m) (drop (length pre + length sep) body)"
      by (simp add: ac_simps)
    also have "\<dots> = crlf @ ?h @ crlf @ crlf @ ?d @ crlf @ ?m @ r" unfolding t by simp
    finally show ?thesis by (simp add: skip_crlf_def)
  qed
  have lines: "list_all clean_line (part_lines p)" "part_lines p \<noteq> []"
    using p clean_disposition [of "bp_name p"]
    by (auto simp: valid_part_def part_lines_def list_all_iff)
  have h: "find_from body (crlf @ crlf) (length (?q @ crlf)) = Some (length (?q @ crlf) + length ?h)"
  proof -
    have "body = (?q @ crlf) @ ?h @ crlf @ crlf @ ?d @ crlf @ ?m @ r" by (simp add: all)
    then show ?thesis
      by (simp only: find_from_append find_in_join [OF lines(2,1)] option.map)
  qed
  let ?s = "?q @ crlf @ ?h @ crlf @ crlf"
  have e: "data_end ?m body (length ?s) = length (?s @ ?d)"
  proof -
    have "find_in (cr # lf # ?m) (?d @ (cr # lf # ?m) @ r) = Some (length ?d)"
      by (rule find_in_delimiter) (use p b in \<open>auto simp: valid_part_def\<close>)
    then have "find_in (crlf @ ?m) (?d @ crlf @ ?m @ r) = Some (length ?d)" by simp
    moreover have "body = ?s @ ?d @ crlf @ ?m @ r" by (simp add: all)
    ultimately have "data_end ?m body (length ?s) = length ?s + length ?d"
      by (simp only: data_end_def find_from_append option.map option.case)
    then show ?thesis by simp
  qed
  have hd: "take (length ?h) (drop (length (?q @ crlf)) body) = ?h"
    by (rule take_drop_middle [where z = "crlf @ crlf @ ?d @ crlf @ ?m @ r"]) (simp add: all)
  have dd: "take (length ?d) (drop (length ?s) body) = ?d"
    by (rule take_drop_middle [where z = "crlf @ ?m @ r"]) (simp add: all)
  have l: "length (?q @ crlf) + length ?h + 4 = length ?s"
    "length (?q @ crlf) + length ?h - length (?q @ crlf) = length ?h"
    "length (?s @ ?d) - length ?s = length ?d" by simp_all
  have no_end: "take (length ?m + 2) (drop (length pre + length sep) body) \<noteq> ?m @ ''--''"
    unfolding t by simp
  have "parse_part ?m body (length pre) = Part ?h ?d (length (?s @ ?d))"
    unfolding parse_part_def Let_def m option.case if_not_P [OF no_end] c h l e hd dd ..
  moreover have "body = (?s @ ?d) @ crlf @ ?r" by (simp add: all r)
  ultimately show ?thesis by blast
qed


section \<open>The saved files\<close>

definition part_path :: "string \<Rightarrow> nat \<Rightarrow> body_part \<Rightarrow> string" where
  "part_path dir i p =
     path_div dir (case bp_name p of Some n \<Rightarrow> n | None \<Rightarrow> ''part_'' @ show_nat i @ ''.bin'')"

fun part_paths :: "string \<Rightarrow> nat \<Rightarrow> body_part list \<Rightarrow> string list" where
  "part_paths dir i [] = []"
| "part_paths dir i (p # ps) = part_path dir i p # part_paths dir (Suc i) ps"

fun place_parts :: "string \<Rightarrow> nat \<Rightarrow> body_part list \<Rightarrow> files \<Rightarrow> files" where
  "place_parts dir i [] fs = fs"
| "place_parts dir i (p # ps) fs =
     (let x = part_path dir i p
      in place_parts dir (Suc i) ps (fs(x @ ''.part'' := None, x \<mapsto> bp_data p)))"

definition disk_works :: "dl_env \<Rightarrow> bool" where
  "disk_works E \<longleftrightarrow> (\<forall>p q d. de_opens E p \<and> de_stores E p d = (True, d) \<and> de_renames E p q)"

lemma length_part_paths [simp]: "length (part_paths dir i ps) = length ps"
  by (induction ps arbitrary: i) auto

lemma save_part_works:
  "disk_works E \<Longrightarrow> save_part E del x d fs = (None, fs(x @ ''.part'' := None, x \<mapsto> d))"
  by (simp add: disk_works_def save_part_def Let_def)

lemma parts_loop_saves:
  assumes "disk_works E" "cr \<notin> set b"
  shows "list_all (valid_part b) ps \<Longrightarrow> sep = [] \<or> sep = crlf \<Longrightarrow> body = pre @ sep @ multipart_body b ps \<Longrightarrow>
    parts_loop E del dir (''--'' @ b) body (length pre) i found saved fs =
      (Inr (found \<or> ps \<noteq> []), saved @ part_paths dir i ps, place_parts dir i ps fs)"
proof (induction ps arbitrary: pre sep i found saved fs)
  case Nil
  then show ?case using parse_part_end [of sep b pre] by (subst parts_loop.simps) simp
next
  case (Cons p ps)
  then have p: "valid_part b p" "list_all (valid_part b) ps" by auto
  from parse_part_text [OF Cons.prems(2) p(1) assms(2) Cons.prems(3)] obtain pre' where
    pre': "parse_part (''--'' @ b) body (length pre) =
        Part (crlf_join (part_lines p)) (bp_data p) (length pre')"
      "body = pre' @ crlf @ multipart_body b ps" by blast
  have x: "path_div dir (part_filename (crlf_join (part_lines p)) i) = part_path dir i p"
    by (simp add: part_filename_def part_name_read [OF p(1)] part_path_def split: option.splits)
  have "parts_loop E del dir (''--'' @ b) body (length pre) i found saved fs =
      parts_loop E del dir (''--'' @ b) body (length pre') (i + 1) True (saved @ [part_path dir i p])
        (fs(part_path dir i p @ ''.part'' := None, part_path dir i p \<mapsto> bp_data p))"
    by (subst parts_loop.simps) (simp only: pre'(1) next_part.case x Let_def
      save_part_works [OF assms(1)] prod.case option.case)
  also have "\<dots> = (Inr True, (saved @ [part_path dir i p]) @ part_paths dir (Suc i) ps,
      place_parts dir i (p # ps) fs)"
    by (subst Cons.IH [OF p(2) _ pre'(2)]) (simp_all add: Let_def)
  finally show ?case by simp
qed

lemma place_other:
  "x \<notin> set (part_paths dir i ps) \<Longrightarrow>
   place_parts dir i ps fs x = (if x \<in> (\<lambda>y. y @ ''.part'') ` set (part_paths dir i ps) then None else fs x)"
  by (induction ps arbitrary: i fs) (auto simp: Let_def)

lemma place_at:
  "distinct (part_paths dir i ps) \<Longrightarrow> \<forall>x \<in> set (part_paths dir i ps). x @ ''.part'' \<notin> set (part_paths dir i ps) \<Longrightarrow>
   k < length ps \<Longrightarrow> place_parts dir i ps fs (part_paths dir i ps ! k) = Some (bp_data (ps ! k))"
proof (induction ps arbitrary: i fs k)
  case (Cons p ps)
  show ?case
  proof (cases k)
    case 0
    then show ?thesis using Cons.prems
      by (auto simp: Let_def place_other)
  next
    case (Suc j)
    then show ?thesis using Cons.IH [of "Suc i" j] Cons.prems by (simp add: Let_def)
  qed
qed simp

section \<open>The transfer\<close>

definition keeps_going :: "'c multipart_downloader \<Rightarrow> bool" where
  "keeps_going d \<longleftrightarrow> (case progress_cb d of None \<Rightarrow> True | Some f \<Rightarrow> (\<forall>c x y. fst (f c x y)))"

fun sent_headers :: "transfer_event list \<Rightarrow> string" where
  "sent_headers [] = []"
| "sent_headers (Header_chunk h # es) = h @ sent_headers es"
| "sent_headers (_ # es) = sent_headers es"

fun sent_body :: "transfer_event list \<Rightarrow> string" where
  "sent_body [] = []"
| "sent_body (Body_chunk b # es) = b @ sent_body es"
| "sent_body (_ # es) = sent_body es"

lemma perform_ok:
  "keeps_going d \<Longrightarrow> \<exists>c1. perform d es None headers body c = (Curl_ok, headers @ sent_headers es, body @ sent_body es, c1)"
proof (induction es arbitrary: headers body c)
  case (Cons e es)
  show ?case
  proof (cases e)
    case (Header_chunk h)
    then show ?thesis using Cons.IH [OF Cons.prems, of "headers @ h" body c]
      by (simp add: write_header_callback_def)
  next
    case (Body_chunk b)
    then show ?thesis using Cons.IH [OF Cons.prems, of headers "body @ b" c]
      by (simp add: write_body_callback_def)
  next
    case (Progress_report x y)
    have "fst (xfer_info_callback d x y c) = 0"
      using Cons.prems
      by (cases "progress_cb d") (simp_all add: keeps_going_def xfer_info_callback_def Let_def case_prod_beta)
    then obtain c' where "xfer_info_callback d x y c = (0, c')" by (metis prod.collapse)
    then show ?thesis using Cons.IH [OF Cons.prems, of headers body c'] Progress_report by simp
  qed
qed simp

definition content_type :: "string \<Rightarrow> string" where
  "content_type b = ''Content-Type: multipart/mixed; boundary='' @ [CHR 0x22] @ b @ [CHR 0x22]"

definition plain_header :: "string \<Rightarrow> bool" where
  "plain_header l \<longleftrightarrow> cr \<notin> set l \<and> lf \<notin> set l \<and>
     take (length ''content-type:'') (map tolower l) \<noteq> ''content-type:''"

lemma getline_line: "lf \<notin> set l \<Longrightarrow> getline_loop lf (l @ crlf @ s) = (l @ [cr]) # getline_loop lf s"
  using takeWhile_not_in [of lf "l @ [cr]" s] dropWhile_not_in [of lf "l @ [cr]" s]
  by (subst getline_loop.simps) simp

lemma boundary_read:
  assumes "cr \<notin> set b" "lf \<notin> set b"
  shows "list_all plain_header hs \<Longrightarrow>
    extract_boundary_from_headers (concat (map (\<lambda>l. l @ crlf) hs) @ content_type b @ crlf @ rest) = Some b"
proof (induction hs)
  case Nil
  have "find_in ''boundary='' ''content-type: multipart/mixed; boundary='' = Some 31" by code_simp
  moreover have "chop_cr (content_type b @ [cr]) =
      ''Content-Type: multipart/mixed; boundary='' @ [CHR 0x22] @ b @ [CHR 0x22]"
    unfolding chop_cr_line(2) content_type_def ..
  ultimately have "header_value ''content-type:'' ''boundary='' (content_type b @ [cr]) = Some (Some b)"
    by (intro header_value_at [OF tolower_prefixes(3)]) simp_all
  moreover have "lf \<notin> set (content_type b)" using assms by (simp add: content_type_def)
  ultimately show ?case
    using getline_line [of "content_type b" rest] by (simp add: extract_boundary_from_headers_def)
next
  case (Cons h hs)
  then have h: "plain_header h" by simp
  then have "header_value ''content-type:'' ''boundary='' (h @ [cr]) = None"
    unfolding header_value_def Let_def chop_cr_line(2) plain_header_def
    by (intro if_not_P) blast
  then show ?case
    using Cons h getline_line [of h "concat (map (\<lambda>l. l @ crlf) hs) @ content_type b @ crlf @ rest"]
    by (simp add: extract_boundary_from_headers_def plain_header_def)
qed


section \<open>The download\<close>

text \<open>The conditions under which a download of the parts \<open>ps\<close> goes through: the server sends them, in
  whatever chunks, behind headers that name the boundary, and the disk takes them.\<close>

definition served :: "dl_env \<Rightarrow> 'c multipart_downloader \<Rightarrow> string \<Rightarrow> string \<Rightarrow> body_part list \<Rightarrow> bool" where
  "served E d url b ps \<longleftrightarrow>
     (\<exists>t hs rest. de_transfer E url = Some t \<and> tr_error t = None \<and> list_all plain_header hs \<and>
       sent_headers (tr_events t) = concat (map (\<lambda>l. l @ crlf) hs) @ content_type b @ crlf @ rest \<and>
       sent_body (tr_events t) = multipart_body b ps) \<and>
     keeps_going d \<and> disk_works E \<and> cr \<notin> set b \<and> lf \<notin> set b \<and> ps \<noteq> [] \<and> list_all (valid_part b) ps"

lemma download_succeeds:
  assumes "served E d url b ps"
  shows "\<exists>c1. download_multipart E d url dir saved em fs c =
    \<lparr>dr_ok = True, dr_saved = saved @ part_paths dir 0 ps, dr_error = em,
     dr_files = place_parts dir 0 ps fs, dr_client = c1\<rparr>"
proof -
  from assms obtain t hs rest where t: "de_transfer E url = Some t" "tr_error t = None" "list_all plain_header hs"
      "sent_headers (tr_events t) = concat (map (\<lambda>l. l @ crlf) hs) @ content_type b @ crlf @ rest"
      "sent_body (tr_events t) = multipart_body b ps"
    and w: "keeps_going d" "disk_works E" "cr \<notin> set b" "lf \<notin> set b" "ps \<noteq> []" "list_all (valid_part b) ps"
    unfolding served_def by blast
  obtain c1 where p: "perform d (tr_events t) None [] [] c =
      (Curl_ok, concat (map (\<lambda>l. l @ crlf) hs) @ content_type b @ crlf @ rest, multipart_body b ps, c1)"
    using perform_ok [OF w(1), of "tr_events t" "[]" "[]" c] t(4,5) by auto
  have "parts_loop E (delete_partial_on_fail d) dir (''--'' @ b) (multipart_body b ps) 0 0 False saved fs =
      (Inr True, saved @ part_paths dir 0 ps, place_parts dir 0 ps fs)"
    using parts_loop_saves [OF w(2,3,6), of "[]" "multipart_body b ps" "[]"] w(5) by simp
  then show ?thesis
    unfolding download_multipart_def Let_def t(1,2) p option.case prod.case curl_code.case
      boundary_read [OF w(3,4) t(3)] by simp
qed

text \<open>C33: A multipart response, in whatever chunks it arrives, is taken apart into its parts: the download
  succeeds, appends one path per part to the caller's list, in order, with the name the part gives or
  one made of its number, every such file holds exactly the data of its part, and no other file is
  changed but for the temporary ones, which are gone.\<close>

theorem download_saves_parts:
  assumes "served E d url b ps"
    and "distinct (part_paths dir 0 ps)"
    and "\<forall>x \<in> set (part_paths dir 0 ps). x @ ''.part'' \<notin> set (part_paths dir 0 ps)"
  shows "let r = download_multipart E d url dir saved em fs c; xs = part_paths dir 0 ps
    in dr_ok r \<and> dr_saved r = saved @ xs \<and> dr_error r = em \<and>
       (\<forall>k < length ps. dr_files r (xs ! k) = Some (bp_data (ps ! k))) \<and>
       (\<forall>x. x \<notin> set xs \<longrightarrow> dr_files r x = (if x \<in> (\<lambda>y. y @ ''.part'') ` set xs then None else fs x))"
proof -
  obtain c1 where "download_multipart E d url dir saved em fs c =
      \<lparr>dr_ok = True, dr_saved = saved @ part_paths dir 0 ps, dr_error = em,
       dr_files = place_parts dir 0 ps fs, dr_client = c1\<rparr>"
    using download_succeeds [OF assms(1)] by blast
  then show ?thesis using place_at [OF assms(2,3)] place_other by (simp add: Let_def)
qed

section \<open>Failures\<close>

text \<open>A path that is not among the saved ones is as it was, or it is the name of a temporary file that
  does not exist any more, or that the file system refuses to remove.\<close>

definition only_saved :: "dl_env \<Rightarrow> string list \<Rightarrow> files \<Rightarrow> files \<Rightarrow> bool" where
  "only_saved E saved fs fs1 \<longleftrightarrow>
     (\<forall>x. x \<notin> set saved \<longrightarrow> fs1 x = fs x \<or> suffix ''.part'' x \<and> (fs1 x = None \<or> \<not> de_removes E x))"

lemma only_saved_refl: "only_saved E saved fs fs"
  by (simp add: only_saved_def)

lemma only_saved_drop_temp: "only_saved E saved fs0 fs \<Longrightarrow> only_saved E saved fs0 (fs(x @ ''.part'' := None))"
  by (simp add: only_saved_def suffixI)

lemma only_saved_stuck:
  "only_saved E saved fs0 fs \<Longrightarrow> \<not> de_removes E (x @ ''.part'') \<Longrightarrow> only_saved E saved fs0 (fs(x @ ''.part'' := v))"
  by (simp add: only_saved_def suffixI)

lemma only_saved_put: "only_saved E saved fs0 fs \<Longrightarrow> only_saved E (saved @ [x]) fs0 (fs(x \<mapsto> s))"
  by (simp add: only_saved_def)

lemma save_part_ok:
  "save_part E del x data fs = (None, fs1) \<Longrightarrow> \<exists>s. fs1 = fs(x @ ''.part'' := None, x \<mapsto> s)"
  by (auto simp: save_part_def Let_def split: if_splits prod.splits)

lemma save_part_fails:
  "save_part E True x data fs = (Some msg, fs1) \<Longrightarrow>
     msg \<noteq> [] \<and> (if de_removes E (x @ ''.part'') then fs1 = fs(x @ ''.part'' := None)
       else fs1 = fs \<or> (\<exists>v. fs1 = fs(x @ ''.part'' := v)))"
  by (auto simp: save_part_def try_delete_file_def Let_def split: if_splits prod.splits)

lemma save_part_clean:
  assumes "save_part E True x data fs = (e, fs1)" "only_saved E saved fs0 fs"
  shows "only_saved E (if e = None then saved @ [x] else saved) fs0 fs1"
proof (cases e)
  case None
  then obtain s where "fs1 = fs(x @ ''.part'' := None, x \<mapsto> s)" using assms(1) save_part_ok by blast
  then show ?thesis using None only_saved_put [OF only_saved_drop_temp [OF assms(2)]] by simp
next
  case (Some msg)
  then show ?thesis
    using save_part_fails [of E x data fs msg fs1] assms only_saved_drop_temp [OF assms(2)]
      only_saved_stuck [OF assms(2)] by (auto split: if_splits)
qed

lemma parts_loop_clean:
  "parts_loop E True dir marker body pos i found saved fs = (r, saved1, fs1) \<Longrightarrow>
   only_saved E saved fs0 fs \<Longrightarrow>
   only_saved E saved1 fs0 fs1 \<and> prefix saved saved1 \<and> (r = Inr True \<longrightarrow> found \<or> saved \<noteq> saved1) \<and> r \<noteq> Inl []"
proof (induction E True dir marker body pos i found saved fs rule: parts_loop.induct)
  case (1 E dir marker body pos i found saved fs)
  note loop = "1.prems"(1) [unfolded parts_loop.simps [of E True dir marker body pos]]
  show ?case
  proof (cases "parse_part marker body pos")
    case (Part h data nxt)
    let ?x = "path_div dir (part_filename h i)"
    obtain e fs2 where s: "save_part E True ?x data fs = (e, fs2)" by (cases "save_part E True ?x data fs")
    note c = save_part_clean [OF s "1.prems"(2)]
    show ?thesis
    proof (cases e)
      case None
      have "only_saved E (saved @ [?x]) fs0 fs2" using c None by simp
      moreover have "parts_loop E True dir marker body nxt (i + 1) True (saved @ [?x]) fs2 = (r, saved1, fs1)"
        using loop Part s None by simp
      ultimately have "only_saved E saved1 fs0 fs1 \<and> prefix (saved @ [?x]) saved1 \<and> r \<noteq> Inl []"
        using "1.hyps" [OF Part refl s [symmetric] None] by simp
      then show ?thesis by (auto simp: prefix_def)
    next
      case (Some msg)
      moreover have "msg \<noteq> []" using save_part_fails [of E ?x data fs msg fs2] s Some by simp
      ultimately show ?thesis using loop c Part s by auto
    qed
  qed (use "1.prems"(2) loop in auto)
qed

lemma perform_error: "perform d es err headers body c = (Curl_failed e, h1, b1, c1) \<Longrightarrow> err = Some e"
  by (induction d es err headers body c rule: perform.induct)
    (auto simp: Let_def split: option.splits prod.splits if_splits)

text \<open>C34: Whatever the server sends and whichever operation of the disk fails, a download with the
  deletion of partial files on leaves no debris that the file system lets it remove: the caller's list
  only grows, and a path that is not on it holds what it held before, unless it is a temporary name,
  which then does not exist or cannot be removed. A successful download has saved a part and reports
  nothing; a failed one reports a message, which is empty only when the text of libcurl's error is.\<close>

theorem download_leaves_no_debris:
  assumes "delete_partial_on_fail d"
  shows "let r = download_multipart E d url dir saved (Some em) fs c
    in only_saved E (dr_saved r) fs (dr_files r) \<and> prefix saved (dr_saved r) \<and>
       (if dr_ok r then dr_error r = Some em \<and> saved \<noteq> dr_saved r
        else \<exists>msg. dr_error r = Some msg \<and>
          (msg = [] \<longrightarrow> (\<exists>t. de_transfer E url = Some t \<and> tr_error t = Some [])))"
proof -
  have loop: "only_saved E s1 fs fs1 \<and> prefix saved s1 \<and> (q = Inr True \<longrightarrow> saved \<noteq> s1) \<and> q \<noteq> Inl []"
    if "parts_loop E True dir m body 0 0 False saved fs = (q, s1, fs1)" for m body q s1 fs1
    using parts_loop_clean [OF that only_saved_refl] by auto
  show ?thesis
    using assms by (auto simp: download_multipart_def Let_def set_error_def only_saved_refl
      split: option.splits prod.splits curl_code.splits sum.splits bool.splits dest!: loop dest: perform_error)
qed

section \<open>An example\<close>

definition demo_parts :: "body_part list" where
  "demo_parts = [\<lparr>bp_headers = [''Content-Type: text/plain''], bp_name = Some ''a.txt'', bp_data = ''hello''\<rparr>,
     \<lparr>bp_headers = [], bp_name = None, bp_data = [cr]\<rparr>]"

definition demo_chunks :: "transfer_event list" where
  "demo_chunks = [Header_chunk (''HTTP/1.1 200 OK'' @ crlf), Progress_report 0 0,
     Header_chunk (content_type ''bb'' @ crlf), Header_chunk crlf,
     Body_chunk (take 20 (multipart_body ''bb'' demo_parts)), Progress_report 100 20,
     Body_chunk (drop 20 (multipart_body ''bb'' demo_parts))]"

definition demo_server :: dl_env where
  "demo_server = \<lparr>de_transfer = (\<lambda>_. Some \<lparr>tr_events = demo_chunks, tr_error = None\<rparr>),
     de_opens = (\<lambda>_. True), de_stores = (\<lambda>_ d. (True, d)), de_renames = (\<lambda>_ _. True), de_removes = (\<lambda>_. True)\<rparr>"

lemma demo_served: "served demo_server (new_downloader :: unit multipart_downloader) url ''bb'' demo_parts"
proof -
  have "list_all plain_header [''HTTP/1.1 200 OK'']" "list_all (valid_part ''bb'') demo_parts" by code_simp+
  moreover have "sent_headers demo_chunks =
      concat (map (\<lambda>l. l @ crlf) [''HTTP/1.1 200 OK'']) @ content_type ''bb'' @ crlf @ crlf"
    by (simp add: demo_chunks_def)
  moreover have "sent_body demo_chunks = multipart_body ''bb'' demo_parts"
    by (simp add: demo_chunks_def)
  ultimately show ?thesis
    unfolding served_def
    by (intro conjI exI [of _ "\<lparr>tr_events = demo_chunks, tr_error = None\<rparr>"]
        exI [of _ "[''HTTP/1.1 200 OK'']"] exI [of _ crlf])
      (simp_all add: demo_server_def keeps_going_def new_downloader_def disk_works_def demo_parts_def)
qed

lemma demo_paths: "part_paths ''out'' 0 demo_parts = [''out/a.txt'', ''out/part_1.bin'']"
  by code_simp

theorem download_saves_parts_witness:
  "let r = download_multipart demo_server (new_downloader :: unit multipart_downloader) ''u'' ''out'' [''x''] None Map.empty ()
   in dr_ok r \<and> dr_saved r = [''x'', ''out/a.txt'', ''out/part_1.bin''] \<and>
      dr_files r ''out/a.txt'' = Some ''hello'' \<and> dr_files r ''out/part_1.bin'' = Some [cr]"
  using download_saves_parts [OF demo_served, of "''out''" "''u''" "[''x'']" None Map.empty "()"]
  unfolding demo_paths by (auto simp: Let_def demo_parts_def less_Suc_eq)

text \<open>A disk on which the second part cannot be renamed, and one on which it cannot be removed either.\<close>

definition failing_disk :: dl_env where
  "failing_disk = demo_server\<lparr>de_renames := (\<lambda>_ q. q \<noteq> ''out/part_1.bin'')\<rparr>"

definition stuck_disk :: dl_env where
  "stuck_disk = failing_disk\<lparr>de_removes := (\<lambda>p. p \<noteq> ''out/part_1.bin.part'')\<rparr>"

theorem download_leaves_no_debris_witness:
  "let r = download_multipart failing_disk (new_downloader :: unit multipart_downloader) ''u'' ''out'' [] (Some []) Map.empty ()
   in only_saved failing_disk (dr_saved r) Map.empty (dr_files r) \<and> prefix [] (dr_saved r)"
  using download_leaves_no_debris [of "new_downloader :: unit multipart_downloader" failing_disk "''u''" "''out''" "[]"
      "[]" Map.empty "()"]
  by (simp add: Let_def new_downloader_def)

lemma failing_disks:
  "(let r = download_multipart failing_disk (new_downloader :: unit multipart_downloader) ''u'' ''out'' [] (Some []) Map.empty ()
    in (dr_ok r, dr_saved r, dr_error r, dr_files r ''out/part_1.bin.part'')) =
     (False, [''out/a.txt''], Some ''Failed to rename file: out/part_1.bin'', None)"
  "(let r = download_multipart stuck_disk (new_downloader :: unit multipart_downloader) ''u'' ''out'' [] (Some []) Map.empty ()
    in (dr_ok r, dr_saved r, dr_error r, dr_files r ''out/part_1.bin.part'')) =
     (False, [''out/a.txt''], Some ''Failed to rename file: out/part_1.bin'', Some [cr])"
  by code_simp+

section \<open>What the code does not do\<close>

text \<open>A part without headers, which the format allows, is refused or swallows the headers of the next.\<close>

lemma headerless_part_refused:
  "parse_part ''--b'' (''--b'' @ crlf @ crlf @ ''data'' @ crlf @ ''--b--'' @ crlf) 0 = Bad_headers"
  by code_simp

text \<open>The name that the server gives is used as it is: an absolute one leaves the output directory.\<close>

lemma absolute_name_escapes:
  "part_path ''/srv/in'' 0 \<lparr>bp_headers = [], bp_name = Some ''/etc/cron.d/x'', bp_data = []\<rparr> = ''/etc/cron.d/x''"
  by code_simp

text \<open>A parameter behind the boundary becomes part of it.\<close>

lemma boundary_takes_rest:
  "extract_boundary_from_headers (''Content-Type: multipart/mixed; boundary=b; charset=utf-8'' @ crlf) =
   Some ''b; charset=utf-8''"
  by code_simp

text \<open>A body that ends without its closing marker is taken for complete.\<close>

lemma truncated_body_accepted:
  "parse_part ''--b'' (''--b'' @ crlf @ ''X: y'' @ crlf @ crlf @ ''da'') 0 = Part ''X: y'' ''da'' 15"
  by code_simp

end
