(* ===== verification/Directory_Tree.thy ===== *)
theory Directory_Tree
  imports Directory_Maker
begin

text \<open>
  What \<open>create_directory_tree\<close> promises, under laws of the file system: a reported success means the
  directory is there, the list of created paths is exact, and nothing that was a directory ceases to be
  one; and where nothing is in the way the whole path is made.
\<close>

section \<open>Laws of the file system\<close>

definition isdir :: "'s dir_api \<Rightarrow> 's \<Rightarrow> string \<Rightarrow> bool" where
  "isdir A s p \<longleftrightarrow> fst (da_status A True p s) = ft_directory"

text \<open>\<open>obj s p\<close> is the directory that the path \<open>p\<close> leads to in the state \<open>s\<close>, if it leads to one; many
  paths lead to the same directory, and the range of \<open>obj s\<close> is the set of the directories. The laws: a
  path whose type is directory, links followed or not, leads to one; \<open>create_directory\<close> reports exactly
  whether it made a directory: then there is one directory more, the path leads to it, and every other
  path leads where it led, also after the permissions of the new one are set; otherwise nothing changes.
  Repeated separators mean one; the root is a directory.\<close>

definition dir_laws :: "'s dir_api \<Rightarrow> ('s \<Rightarrow> string \<Rightarrow> 'd option) \<Rightarrow> bool" where
  "dir_laws A obj \<longleftrightarrow>
     (\<forall>p s. fst (da_status A False p s) = ft_directory \<longrightarrow> isdir A s p) \<and>
     (\<forall>p s. isdir A s p \<longleftrightarrow> obj s p \<noteq> None) \<and>
     (\<forall>p s e s' m. da_create A p s = (True, e, s') \<longrightarrow>
        (\<exists>d. d \<notin> ran (obj s) \<and> ran (obj (try_set_perms A m p s')) = insert d (ran (obj s)) \<and>
             obj (try_set_perms A m p s') p = Some d \<and> obj s \<subseteq>\<^sub>m obj (try_set_perms A m p s'))) \<and>
     (\<forall>p s e s'. da_create A p s = (False, e, s') \<longrightarrow> s' = s) \<and>
     (\<forall>p s. isdir A s (squeeze p) = isdir A s p) \<and>
     (\<forall>s. isdir A s [slash])"

lemma dir_law_isdir: "dir_laws A obj \<Longrightarrow> isdir A s p \<longleftrightarrow> obj s p \<noteq> None"
  unfolding dir_laws_def by blast

lemma dir_law_create:
  assumes "dir_laws A obj" "da_create A p s = (True, e, s1)"
  obtains d where "d \<notin> ran (obj s)" "ran (obj (try_set_perms A m p s1)) = insert d (ran (obj s))"
    "obj (try_set_perms A m p s1) p = Some d" "obj s \<subseteq>\<^sub>m obj (try_set_perms A m p s1)"
  using assms unfolding dir_laws_def by blast

lemma map_le_Some: "f \<subseteq>\<^sub>m g \<Longrightarrow> f x = Some y \<Longrightarrow> g x = Some y"
  by (metis domI map_le_def)

lemma dir_lawsD:
  assumes "dir_laws A obj"
  shows "fst (safe_status A p f s) = ft_directory \<Longrightarrow> isdir A s p"
    and "da_create A p s = (True, e, s1) \<Longrightarrow> isdir A (try_set_perms A m p s1) p"
    and "da_create A p s = (False, e, s1) \<Longrightarrow> s1 = s"
    and "isdir A s (squeeze p) = isdir A s p"
    and "isdir A s [slash]"
proof -
  show "fst (safe_status A p f s) = ft_directory \<Longrightarrow> isdir A s p"
    using assms by (auto simp: dir_laws_def safe_status_def isdir_def split: if_splits)
  show "da_create A p s = (True, e, s1) \<Longrightarrow> isdir A (try_set_perms A m p s1) p"
    by (erule dir_law_create [OF assms, where m = m]) (simp add: dir_law_isdir [OF assms])
qed (use assms in \<open>unfold dir_laws_def, blast\<close>)+

lemma now_directory_isdir: "dir_laws A obj \<Longrightarrow> now_directory A m p s \<Longrightarrow> isdir A s p"
  unfolding now_directory_def by (rule dir_lawsD(1))

section \<open>The endings\<close>

lemma map_errc_not_created: "map_errc ec \<noteq> Created"
  by (auto simp: map_errc_def split: option.splits errc.splits)

lemma ending_fields [simp]:
  "dm_created (already_there A m res) = dm_created res" "dm_code (already_there A m res) = AlreadyExists"
  "dm_created (no_directory A m p ec res) = dm_created res" "dm_code (no_directory A m p ec res) = NotDirectory"
  "dm_success (no_directory A m p ec res) = dm_success res"
  "dm_created (blocked A m res) = dm_created res" "dm_code (blocked A m res) = SymlinkBlocked"
  "dm_success (blocked A m res) = dm_success res"
  "dm_created (failed_with c ec msg res) = dm_created res" "dm_code (failed_with c ec msg res) = c"
  "dm_success (failed_with c ec msg res) = dm_success res"
  "dm_created (new_dir_result target) = []" "dm_success (new_dir_result target) = False"
  by (simp_all add: already_there_def no_directory_def blocked_def failed_with_def new_dir_result_def)

section \<open>The loop\<close>

text \<open>What happened between two states: exactly the paths \<open>new\<close> were made. Each of them leads to a
  directory of its own that was not there before, there are no other new directories, and every path
  that led to a directory leads to the same one.\<close>

definition made_dirs :: "('s \<Rightarrow> string \<Rightarrow> 'd option) \<Rightarrow> 's \<Rightarrow> string list \<Rightarrow> 's \<Rightarrow> bool" where
  "made_dirs obj s new s' \<longleftrightarrow> obj s \<subseteq>\<^sub>m obj s' \<and>
     (\<exists>ds. map (obj s') new = map Some ds \<and> distinct ds \<and> set ds \<inter> ran (obj s) = {} \<and>
        ran (obj s') = set ds \<union> ran (obj s)) \<and>
     (new = [] \<longrightarrow> s' = s)"

lemma made_dirs_none [simp]: "made_dirs obj s [] s"
  by (simp add: made_dirs_def)

lemma made_dirs_isdir: "dir_laws A obj \<Longrightarrow> made_dirs obj s new s' \<Longrightarrow> isdir A s q \<Longrightarrow> isdir A s' q"
  by (auto simp: made_dirs_def dir_law_isdir dest: map_le_Some)

lemma made_dirs_cons:
  assumes "dir_laws A obj" "da_create A p s = (True, e, s1)" "made_dirs obj (try_set_perms A m p s1) new s'"
  shows "made_dirs obj s (p # new) s'"
proof -
  obtain d where d: "d \<notin> ran (obj s)" "ran (obj (try_set_perms A m p s1)) = insert d (ran (obj s))"
    "obj (try_set_perms A m p s1) p = Some d" "obj s \<subseteq>\<^sub>m obj (try_set_perms A m p s1)"
    using dir_law_create [OF assms(1,2), where m = m] .
  obtain ds where ds: "map (obj s') new = map Some ds" "distinct ds"
    "set ds \<inter> ran (obj (try_set_perms A m p s1)) = {}" "ran (obj s') = set ds \<union> ran (obj (try_set_perms A m p s1))"
    and le: "obj (try_set_perms A m p s1) \<subseteq>\<^sub>m obj s'"
    using assms(3) unfolding made_dirs_def by blast
  have "map (obj s') (p # new) = map Some (d # ds)" using ds(1) map_le_Some [OF le d(3)] by simp
  moreover have "distinct (d # ds)" "set (d # ds) \<inter> ran (obj s) = {}" using ds(2,3) d(1,2) by auto
  moreover have "ran (obj s') = set (d # ds) \<union> ran (obj s)" using ds(4) d(2) by auto
  ultimately show ?thesis unfolding made_dirs_def using map_le_trans [OF d(4) le] by blast
qed

lemma make_loop_props:
  assumes "dir_laws A obj"
  shows "make_loop A m acc parts s res = (x, s') \<Longrightarrow>
    \<exists>new. made_dirs obj s new s' \<and>
      (case x of
         Inl r \<Rightarrow> dm_created r = dm_created res @ new \<and> dm_success r = dm_success res \<and> dm_code r \<noteq> Created
       | Inr r \<Rightarrow> r = res\<lparr>dm_created := dm_created res @ new\<rparr> \<and>
                  (parts \<noteq> [] \<longrightarrow> isdir A s' (foldl path_div acc parts)))"
proof (induction parts arbitrary: acc s res)
  case Nil
  then show ?case by (intro exI [of _ "[]"]) auto
next
  case (Cons part parts)
  let ?p = "path_div acc part"
  have step: ?case if i: "isdir A s ?p" and l: "make_loop A m ?p parts s res = (x, s')"
  proof -
    obtain new where n: "made_dirs obj s new s'"
      "case x of
         Inl r \<Rightarrow> dm_created r = dm_created res @ new \<and> dm_success r = dm_success res \<and> dm_code r \<noteq> Created
       | Inr r \<Rightarrow> r = res\<lparr>dm_created := dm_created res @ new\<rparr> \<and>
                  (parts \<noteq> [] \<longrightarrow> isdir A s' (foldl path_div ?p parts))"
      using Cons.IH [OF l] by blast
    moreover have "isdir A s' ?p" using made_dirs_isdir [OF assms n(1) i] .
    ultimately show ?thesis by (cases parts) (auto split: sum.splits)
  qed
  have stop: ?case if "x = Inl r" "s' = s" "dm_created r = dm_created res" "dm_success r = dm_success res"
      "dm_code r \<noteq> Created" for r
    using that by (intro exI [of _ "[]"]) auto
  obtain st ec where st: "safe_status A ?p (dm_follow_symlinks (dm_opt m)) s = (st, ec)" by (metis prod.exhaust)
  obtain made mec s1 where c: "da_create A ?p s = (made, mec, s1)" by (metis prod.exhaust)
  note eq = Cons.prems [unfolded make_loop.simps Let_def st c prod.case]
  consider (there) "ec = None \<and> st \<noteq> ft_none \<and> st \<noteq> ft_not_found"
    | (error) "\<not> (ec = None \<and> st \<noteq> ft_none \<and> st \<noteq> ft_not_found)"
        "ec \<noteq> None \<and> \<not> has_errc No_such_file_or_directory ec"
    | (create) "\<not> (ec = None \<and> st \<noteq> ft_none \<and> st \<noteq> ft_not_found)"
        "\<not> (ec \<noteq> None \<and> \<not> has_errc No_such_file_or_directory ec)" by blast
  then show ?case
  proof cases
    case there
    then show ?thesis using eq dir_lawsD(1) [OF assms, of ?p "dm_follow_symlinks (dm_opt m)" s] st
      by (auto intro: step stop split: if_splits)
  next
    case error
    then show ?thesis using eq map_errc_not_created by (auto intro: stop split: if_splits)
  next
    case create
    note eq2 = eq [unfolded if_not_P [OF create(1)] if_not_P [OF create(2)]]
    show ?thesis
    proof (cases made)
      case False
      then have "s1 = s" using c dir_lawsD(3) [OF assms] by metis
      then show ?thesis using eq2 False now_directory_isdir [OF assms] map_errc_not_created
        by (auto intro: step stop split: if_splits)
    next
      case True
      then have c: "da_create A ?p s = (True, mec, s1)" using c by simp
      let ?s = "try_set_perms A m ?p s1" and ?res = "res\<lparr>dm_created := dm_created res @ [?p]\<rparr>"
      have "make_loop A m ?p parts ?s ?res = (x, s')" using eq2 True by simp
      from Cons.IH [OF this] obtain new where n: "made_dirs obj ?s new s'"
        "case x of
           Inl r \<Rightarrow> dm_created r = dm_created ?res @ new \<and> dm_success r = dm_success ?res \<and> dm_code r \<noteq> Created
         | Inr r \<Rightarrow> r = ?res\<lparr>dm_created := dm_created ?res @ new\<rparr> \<and>
                    (parts \<noteq> [] \<longrightarrow> isdir A s' (foldl path_div ?p parts))" by blast
      have "isdir A s' ?p" using made_dirs_isdir [OF assms n(1) dir_lawsD(2) [OF assms c]] .
      with n(2) show ?thesis
        by (intro exI [of _ "?p # new"] conjI made_dirs_cons [OF assms c n(1)])
          (cases parts; auto split: sum.splits)
    qed
  qed
qed

lemma final_path:
  assumes "dir_laws A obj" "relative_path target \<noteq> []"
    "isdir A s (foldl path_div (root_directory target) (path_elements (relative_path target)))"
  shows "isdir A s target"
proof -
  let ?r = "relative_path target" and ?t = "takeWhile (\<lambda>c. c = slash) target"
  have hd: "hd ?r \<noteq> slash" using hd_dropWhile [of "\<lambda>c. c = slash" target] assms(2)
    by (simp add: relative_path_def)
  have "squeeze target = root_directory target @ squeeze ?r"
  proof (cases "?t = []")
    case True
    then have "root_directory target = []" "?r = target"
      by (cases target; auto simp: root_directory_def relative_path_def split: if_splits)+
    then show ?thesis by simp
  next
    case False
    then have "root_directory target = [slash]"
      by (cases target) (auto simp: root_directory_def split: if_splits)
    moreover have "list_all (\<lambda>c. c = slash) ?t" by (auto simp: list_all_iff dest: set_takeWhileD)
    moreover have "target = ?t @ ?r" by (simp add: relative_path_def)
    ultimately show ?thesis using squeeze_slashes [OF False, of ?r] hd by simp
  qed
  moreover have "root_directory target = [] \<or> last (root_directory target) = slash"
    by (simp add: root_directory_def)
  ultimately have "foldl path_div (root_directory target) (path_elements ?r) = squeeze target"
    using join_elements [OF disjI2 [OF hd] assms(2)] by simp
  then show ?thesis using assms(3) dir_lawsD(4) [OF assms(1)] by simp
qed

lemma root_only:
  assumes "dir_laws A obj" "target \<noteq> []" "relative_path target = []"
  shows "isdir A s target"
proof -
  have "list_all (\<lambda>c. c = slash) target"
    using assms(3) by (simp add: relative_path_def list_all_iff dropWhile_eq_Nil_conv)
  then have "squeeze target = [slash]" using squeeze_slashes [OF assms(2), of "[]"] by simp
  then show ?thesis using dir_lawsD(4,5) [OF assms(1)] by metis
qed

lemma path_elements_Nil: "path_elements s = [] \<longleftrightarrow> s = []"
proof (cases "s = []")
  case False
  let ?r = "dropWhile (\<lambda>c. c \<noteq> slash) s"
  from False show ?thesis
    by (cases "?r = []"; cases "dropWhile (\<lambda>c. c = slash) ?r = []")
      (simp_all only: path_elements.simps [of s] Let_def if_True if_False list.distinct simp_thms)
qed (simp add: path_elements.simps)

lemma make_single_props:
  assumes "dir_laws A obj" "make_single A m target s (new_dir_result target) = (r, s')"
  shows "(dm_success r \<longrightarrow> isdir A s' target) \<and> made_dirs obj s (dm_created r) s' \<and>
    (dm_code r = Created \<longleftrightarrow> dm_success r \<and> dm_created r \<noteq> [])"
proof -
  let ?p = "parent_path target"
  obtain there pec where p: "path_exists_ec A ?p s = (there, pec)" by (metis prod.exhaust)
  obtain made mec s1 where c: "da_create A target s = (made, mec, s1)" by (metis prod.exhaust)
  note eq = assms(2) [unfolded make_single_def Let_def p c prod.case]
  show ?thesis
  proof (cases "?p \<noteq> [] \<and> \<not> there")
    case True
    then show ?thesis using eq by auto
  next
    case False
    note eq2 = eq [unfolded if_not_P [OF False]]
    show ?thesis
    proof (cases made)
      case True
      then have "da_create A target s = (True, mec, s1)" using c by simp
      from made_dirs_cons [OF assms(1) this made_dirs_none] dir_lawsD(2) [OF assms(1) this]
      show ?thesis using eq2 True by (auto simp: new_dir_result_def)
    next
      case False
      then have "s1 = s" using c dir_lawsD(3) [OF assms(1)] by metis
      then show ?thesis using eq2 False now_directory_isdir [OF assms(1)] map_errc_not_created
        by (auto split: if_splits)
    qed
  qed
qed

section \<open>What a result says\<close>

lemma directory_result_true_core:
  assumes "dir_laws A obj" "create_directory_tree A m target s = (r, s')"
  shows "(dm_success r \<longrightarrow> isdir A s' target) \<and> made_dirs obj s (dm_created r) s' \<and>
    (dm_code r = Created \<longleftrightarrow> dm_success r \<and> dm_created r \<noteq> [])"
proof (cases "target = []")
  case True
  then show ?thesis using assms(2) by (auto simp: create_directory_tree_def new_dir_result_def Let_def)
next
  case ne: False
  let ?o = "new_dir_result target"
  show ?thesis
  proof (cases "check_target A m target s ?o")
    case (Some r')
    obtain st ec where "safe_status A target (dm_follow_symlinks (dm_opt m)) s = (st, ec)" by (metis prod.exhaust)
    with Some have "dm_created r' = []" "dm_code r' \<noteq> Created" "dm_success r' \<longrightarrow> isdir A s target"
      using dir_lawsD(1) [OF assms(1), of target "dm_follow_symlinks (dm_opt m)" s] map_errc_not_created [of ec]
      by (auto simp: check_target_def Let_def split: if_splits)
    moreover have "r = r'" "s' = s" using assms(2) ne Some by (auto simp: create_directory_tree_def Let_def)
    ultimately show ?thesis by simp
  next
    case check: None
    show ?thesis
    proof (cases "make_parents (dm_opt m)")
      case False
      then have "make_single A m target s ?o = (r, s')"
        using assms(2) ne check by (simp add: create_directory_tree_def Let_def)
      then show ?thesis by (rule make_single_props [OF assms(1)])
    next
      case True
      let ?e = "path_elements (relative_path target)" and ?d = "root_directory target"
      obtain x s1 where l: "make_loop A m ?d ?e s ?o = (x, s1)" by (metis prod.exhaust)
      obtain new where n: "made_dirs obj s new s1" "case x of
          Inl r \<Rightarrow> dm_created r = dm_created ?o @ new \<and> dm_success r = dm_success ?o \<and> dm_code r \<noteq> Created
        | Inr r \<Rightarrow> r = ?o\<lparr>dm_created := dm_created ?o @ new\<rparr> \<and> (?e \<noteq> [] \<longrightarrow> isdir A s1 (foldl path_div ?d ?e))"
        using make_loop_props [OF assms(1) l] by blast
      have res: "(r, s') = (case x of Inl r \<Rightarrow> (r, s1) | Inr r \<Rightarrow> (finish_tree A m r, s1))"
        using assms(2) ne check True l by (simp add: create_directory_tree_def Let_def split: sum.splits)
      have dir: "isdir A s1 target" if "?e \<noteq> [] \<longrightarrow> isdir A s1 (foldl path_div ?d ?e)"
        using that final_path [OF assms(1), of target s1] root_only [OF assms(1) ne, of s1]
        by (cases "relative_path target = []") (auto simp: path_elements_Nil)
      show ?thesis using n res dir by (auto simp: finish_tree_def split: sum.splits)
    qed
  qed
qed

text \<open>C35: A result is true to the file system, whatever fails on the way: success means that the target
  is a directory; exactly the reported paths were made, each of which leads to a directory of its own
  that was not there before, while no other directory is new and every old one is where it was; the
  code is \<open>Created\<close> exactly for a success that made something; nothing changes when nothing is
  reported.\<close>

theorem directory_result_true:
  assumes "dir_laws A obj" "create_directory_tree A m target s = (r, s')"
  shows "(dm_success r \<longrightarrow> isdir A s' target) \<and> made_dirs obj s (dm_created r) s' \<and>
    (dm_code r = Created \<longleftrightarrow> dm_success r \<and> dm_created r \<noteq> [])"
  by (rule directory_result_true_core [OF assms])

section \<open>Making a whole path\<close>

text \<open>Nothing but directories exists and nothing fails: a path is a directory or missing; a single name that
  is missing in an existing directory can be made there (the empty path is the working directory), while
  nothing is said of a path whose parent is missing; and a final separator changes nothing.\<close>

definition nothing_in_the_way :: "'s dir_api \<Rightarrow> bool" where
  "nothing_in_the_way A \<longleftrightarrow>
     (\<forall>p s f. p \<noteq> [] \<longrightarrow> (if isdir A s p then da_status A f p s = (ft_directory, None)
        else \<exists>msg. da_status A f p s = (ft_not_found, Some (No_such_file_or_directory, msg)))) \<and>
     (\<forall>d e s. e \<noteq> [] \<and> slash \<notin> set e \<and> (d = [] \<or> isdir A s d) \<and> \<not> isdir A s (path_div d e) \<longrightarrow>
        fst (da_create A (path_div d e) s)) \<and>
     (\<forall>p s. p \<noteq> [] \<longrightarrow> isdir A s (path_div p []) = isdir A s p)"

lemma path_div_not_Nil: "e \<noteq> [] \<or> d \<noteq> [] \<Longrightarrow> path_div d e \<noteq> []"
  by (cases e; cases d) (auto simp: path_div_def)

lemma free_statusD:
  assumes "nothing_in_the_way A" "p \<noteq> []"
  shows "isdir A s p \<Longrightarrow> safe_status A p f s = (ft_directory, None)"
    and "\<not> isdir A s p \<Longrightarrow> \<exists>msg. safe_status A p f s = (ft_not_found, Some (No_such_file_or_directory, msg))"
proof -
  have s: "safe_status A p f s = da_status A f p s" by (cases f) (simp_all add: safe_status_def)
  have "if isdir A s p then da_status A f p s = (ft_directory, None)
      else \<exists>msg. da_status A f p s = (ft_not_found, Some (No_such_file_or_directory, msg))"
    using assms(1) [unfolded nothing_in_the_way_def, THEN conjunct1] assms(2) by blast
  then show "isdir A s p \<Longrightarrow> safe_status A p f s = (ft_directory, None)"
    and "\<not> isdir A s p \<Longrightarrow> \<exists>msg. safe_status A p f s = (ft_not_found, Some (No_such_file_or_directory, msg))"
    by (simp_all add: s)
qed

lemma free_createD:
  "nothing_in_the_way A \<Longrightarrow> e \<noteq> [] \<Longrightarrow> slash \<notin> set e \<Longrightarrow> d = [] \<or> isdir A s d \<Longrightarrow> \<not> isdir A s (path_div d e) \<Longrightarrow>
   fst (da_create A (path_div d e) s)"
  unfolding nothing_in_the_way_def by blast

lemma free_finalD: "nothing_in_the_way A \<Longrightarrow> p \<noteq> [] \<Longrightarrow> isdir A s (path_div p []) = isdir A s p"
  unfolding nothing_in_the_way_def by blast

lemma make_loop_completes:
  assumes "dir_laws A obj" "nothing_in_the_way A"
  shows "acc = [] \<or> isdir A s acc \<Longrightarrow> (acc = [] \<longrightarrow> parts \<noteq> [] \<longrightarrow> hd parts \<noteq> []) \<Longrightarrow>
    \<forall>e \<in> set parts. slash \<notin> set e \<Longrightarrow>
    \<exists>r s'. make_loop A m acc parts s res = (Inr r, s')"
proof (induction parts arbitrary: acc s res)
  case (Cons part parts)
  let ?p = "path_div acc part"
  have ne: "?p \<noteq> []" using Cons.prems(2) by (intro path_div_not_Nil) auto
  show ?case
  proof (cases "isdir A s ?p")
    case True
    then have "make_loop A m acc (part # parts) s res = make_loop A m ?p parts s res"
      using free_statusD(1) [OF assms(2) ne True] by (simp add: Let_def)
    then show ?thesis using Cons.IH [of ?p s res] Cons.prems(3) True ne by simp
  next
    case False
    obtain msg where msg: "safe_status A ?p (dm_follow_symlinks (dm_opt m)) s =
        (ft_not_found, Some (No_such_file_or_directory, msg))"
      using free_statusD(2) [OF assms(2) ne False] by blast
    have "part \<noteq> []"
      using False Cons.prems free_finalD [OF assms(2), of acc s] by (cases "acc = []") auto
    moreover have "slash \<notin> set part" using Cons.prems(3) by simp
    ultimately have "fst (da_create A ?p s)" using free_createD [OF assms(2) _ _ Cons.prems(1) False] by blast
    then obtain mec s1 where c: "da_create A ?p s = (True, mec, s1)"
      by (cases "da_create A ?p s") auto
    let ?s = "try_set_perms A m ?p s1" and ?res = "res\<lparr>dm_created := dm_created res @ [?p]\<rparr>"
    have "make_loop A m acc (part # parts) s res = make_loop A m ?p parts ?s ?res"
      using msg c by (simp add: Let_def has_errc_def)
    then show ?thesis using Cons.IH [of ?p ?s ?res] Cons.prems(3) dir_lawsD(2) [OF assms(1) c] ne by simp
  qed
qed simp

lemma elements_are_names: "e \<in> set (path_elements s) \<Longrightarrow> slash \<notin> set e"
proof (induction s rule: path_elements.induct)
  case (1 s)
  define t where "t = takeWhile (\<lambda>c. c \<noteq> slash) s"
  define r where "r = dropWhile (\<lambda>c. c \<noteq> slash) s"
  define q where "q = dropWhile (\<lambda>c. c = slash) r"
  have t: "slash \<notin> set t" unfolding t_def by (auto dest: set_takeWhileD)
  have "path_elements s = (if s = [] then [] else if r = [] then [t] else if q = [] then [t, []] else t # path_elements q)"
    by (subst path_elements.simps) (simp only: Let_def t_def r_def q_def)
  then consider "e = t" | "e = []" | "s \<noteq> []" "r \<noteq> []" "q \<noteq> []" "e \<in> set (path_elements q)"
    using "1.prems" by (auto split: if_splits)
  then show ?case
  proof cases
    case 3
    then show ?thesis using "1.IH" [OF _ refl refl] unfolding r_def q_def by simp
  qed (use t in simp_all)
qed

lemma hd_elements: "s \<noteq> [] \<Longrightarrow> hd s \<noteq> slash \<Longrightarrow> hd (path_elements s) \<noteq> []"
proof -
  assume s: "s \<noteq> []" "hd s \<noteq> slash"
  let ?r = "dropWhile (\<lambda>c. c \<noteq> slash) s"
  have "hd (path_elements s) = takeWhile (\<lambda>c. c \<noteq> slash) s"
    using s(1) by (cases "?r = []"; cases "dropWhile (\<lambda>c. c = slash) ?r = []")
      (simp_all only: path_elements.simps [of s] Let_def if_True if_False list.sel simp_thms)
  then show ?thesis using s by (cases s) auto
qed

text \<open>C36: Where nothing is in the way, a directory maker with the default policies makes every path: for any
  target but the empty one, with repeated or final separators, the call succeeds and the target is a
  directory afterwards.\<close>

theorem directory_tree_made:
  assumes "dir_laws A obj" "nothing_in_the_way A" "make_parents (dm_opt m)" "succeed_if_exists (dm_opt m)" "target \<noteq> []"
  shows "let (r, s') = create_directory_tree A m target s in dm_success r \<and> isdir A s' target"
proof -
  obtain r s' where rs: "create_directory_tree A m target s = (r, s')" by (metis prod.exhaust)
  have "dm_success r"
  proof (cases "check_target A m target s (new_dir_result target)")
    case (Some r')
    have "r' = already_there A m (new_dir_result target)"
      using Some free_statusD [OF assms(2,5), of s "dm_follow_symlinks (dm_opt m)"]
      by (cases "isdir A s target") (auto simp: check_target_def Let_def has_errc_def)
    moreover have "r = r'" using rs Some assms(5) by (simp add: create_directory_tree_def Let_def)
    ultimately show ?thesis using assms(4) by (simp add: already_there_def)
  next
    case None
    let ?d = "root_directory target" and ?r = "relative_path target"
    have hd: "?r \<noteq> [] \<longrightarrow> hd ?r \<noteq> slash"
      using hd_dropWhile [of "\<lambda>c. c = slash" target] by (simp add: relative_path_def)
    have "?d = [] \<or> isdir A s ?d" using dir_lawsD(5) [OF assms(1)] by (simp add: root_directory_def)
    moreover have "\<forall>e \<in> set (path_elements ?r). slash \<notin> set e" using elements_are_names by blast
    ultimately obtain q s1 where "make_loop A m ?d (path_elements ?r) s (new_dir_result target) = (Inr q, s1)"
      using make_loop_completes [OF assms(1,2), of ?d s "path_elements ?r" m "new_dir_result target"]
        hd_elements [of ?r] hd by (auto simp: path_elements_Nil)
    then have "r = finish_tree A m q" using rs None assms(3,5) by (simp add: create_directory_tree_def Let_def)
    then show ?thesis using assms(4) by (simp add: finish_tree_def)
  qed
  then show ?thesis using rs directory_result_true_core [OF assms(1) rs] by simp
qed

end
