(* ===== verification/Directory_Examples.thy ===== *)
theory Directory_Examples
  imports Directory_Tree
begin

text \<open>
  A file system that satisfies the laws, the witnesses of the theorems on it, and the case of a final
  separator, which the code does not handle.
\<close>

section \<open>A file system of directories\<close>

text \<open>A directory is named by whether its path is absolute and by the names in the path; the state is
  the list of the directories beside the root and the working directory. A directory can be made only
  where its parent is one.\<close>

fun names_of :: "string \<Rightarrow> string \<Rightarrow> string list" where
  "names_of acc [] = (if acc = [] then [] else [acc])"
| "names_of acc (c # p) =
     (if c = slash then (if acc = [] then names_of [] p else acc # names_of [] p) else names_of (acc @ [c]) p)"

type_synonym dir_key = "bool \<times> string list"

definition key_of :: "string \<Rightarrow> dir_key" where
  "key_of p = (p \<noteq> [] \<and> hd p = slash, names_of [] p)"

definition dir_in :: "dir_key list \<Rightarrow> string \<Rightarrow> bool" where
  "dir_in s p \<longleftrightarrow> p \<noteq> [] \<and> (key_of p = (True, []) \<or> key_of p \<in> set s)"

definition parent_in :: "dir_key list \<Rightarrow> string \<Rightarrow> bool" where
  "parent_in s p \<longleftrightarrow> p \<noteq> [] \<and> (let (a, ns) = key_of p in butlast ns = [] \<or> (a, butlast ns) \<in> set s)"

definition missing :: error_code where
  "missing = Some (No_such_file_or_directory, ''No such file or directory'')"

definition demo_dirs :: "dir_key list dir_api" where
  "demo_dirs = \<lparr>da_status = (\<lambda>_ p s. if dir_in s p then (ft_directory, None) else (ft_not_found, missing)),
     da_create = (\<lambda>p s. if dir_in s p then (False, None, s)
       else if \<not> parent_in s p then (False, missing, s) else (True, None, key_of p # s)),
     da_permissions = (\<lambda>_ _ _ s. s), da_console = None\<rparr>"

definition demo_obj :: "dir_key list \<Rightarrow> string \<Rightarrow> dir_key option" where
  "demo_obj s p = (if dir_in s p then Some (key_of p) else None)"

lemma hd_squeeze: "s \<noteq> [] \<Longrightarrow> squeeze s \<noteq> [] \<and> hd (squeeze s) = hd s"
  by (induction s rule: squeeze.induct) auto

lemma names_squeeze: "names_of acc (squeeze p) = names_of acc p"
proof (induction p arbitrary: acc rule: squeeze.induct)
  case (1 a b p)
  then show ?case by (cases "a = slash"; cases "b = slash") simp_all
qed simp_all

lemma names_slash: "names_of acc (p @ slash # q) = names_of acc p @ names_of [] q"
  by (induction acc p rule: names_of.induct) simp_all

lemma names_name: "slash \<notin> set e \<Longrightarrow> names_of acc e = (if acc @ e = [] then [] else [acc @ e])"
  by (induction acc e rule: names_of.induct) auto

lemma key_squeeze: "key_of (squeeze p) = key_of p \<and> (squeeze p = [] \<longleftrightarrow> p = [])"
  using hd_squeeze [of p] by (cases "p = []") (auto simp: key_of_def names_squeeze)

lemma name_not_absolute: "slash \<notin> set e \<Longrightarrow> \<not> (e \<noteq> [] \<and> hd e = slash)"
  using hd_in_set by metis

text \<open>A name appended to a path is one name more.\<close>

lemma names_div:
  assumes "slash \<notin> set e"
  shows "names_of [] (path_div p e) = names_of [] p @ names_of [] e"
proof -
  note h = name_not_absolute [OF assms]
  consider "p = []" | q where "p = q @ [slash]" | "p \<noteq> []" "last p \<noteq> slash"
    by (cases p rule: rev_cases) auto
  then show ?thesis
  proof cases
    case 2
    have "path_div p e = q @ slash # e" using h 2 by (auto simp: path_div_def)
    then show ?thesis using names_slash [of "[]" q e] names_slash [of "[]" q "[]"] 2 by simp
  next
    case 3
    have "path_div p e = p @ slash # e" using h 3 by (auto simp: path_div_def)
    then show ?thesis using names_slash [of "[]" p e] by simp
  qed (use h in \<open>auto simp: path_div_def\<close>)
qed

lemma key_div:
  assumes "slash \<notin> set e"
  shows "key_of (path_div p e) = (p \<noteq> [] \<and> hd p = slash, names_of [] p @ names_of [] e)"
proof -
  have "(path_div p e \<noteq> [] \<and> hd (path_div p e) = slash) = (p \<noteq> [] \<and> hd p = slash)"
    using name_not_absolute [OF assms] by (cases "p = []") (auto simp: path_div_def)
  then show ?thesis by (simp add: key_of_def names_div [OF assms])
qed

lemma demo_isdir: "isdir demo_dirs s p = dir_in s p"
  by (simp add: isdir_def demo_dirs_def)

lemma demo_perms: "try_set_perms demo_dirs m p s = s"
  by (simp add: try_set_perms_def demo_dirs_def)

lemma demo_create_iff: "da_create demo_dirs p s = (True, e, s') \<longleftrightarrow>
    \<not> dir_in s p \<and> parent_in s p \<and> e = None \<and> s' = key_of p # s"
  by (auto simp: demo_dirs_def)

lemma demo_obj_Some: "demo_obj s p = Some k \<longleftrightarrow> dir_in s p \<and> k = key_of p"
  by (auto simp: demo_obj_def)

lemma dir_in_Cons: "dir_in (k # s) q \<longleftrightarrow> dir_in s q \<or> q \<noteq> [] \<and> key_of q = k"
  by (auto simp: dir_in_def)

lemma demo_ran:
  assumes "\<not> dir_in s p" "p \<noteq> []"
  shows "key_of p \<notin> ran (demo_obj s)" "ran (demo_obj (key_of p # s)) = insert (key_of p) (ran (demo_obj s))"
    "demo_obj (key_of p # s) p = Some (key_of p)" "demo_obj s \<subseteq>\<^sub>m demo_obj (key_of p # s)"
proof -
  show "key_of p \<notin> ran (demo_obj s)"
  proof
    assume "key_of p \<in> ran (demo_obj s)"
    then obtain q where "dir_in s q" "key_of p = key_of q" unfolding ran_def demo_obj_Some by blast
    then show False using assms by (simp add: dir_in_def)
  qed
  show p: "demo_obj (key_of p # s) p = Some (key_of p)"
    using assms(2) by (simp add: demo_obj_Some dir_in_Cons)
  show le: "demo_obj s \<subseteq>\<^sub>m demo_obj (key_of p # s)"
    unfolding map_le_def dom_def by (simp add: demo_obj_def dir_in_Cons)
  show "ran (demo_obj (key_of p # s)) = insert (key_of p) (ran (demo_obj s))"
  proof (intro equalityI subsetI)
    fix k assume "k \<in> ran (demo_obj (key_of p # s))"
    then obtain q where "dir_in (key_of p # s) q" "k = key_of q" unfolding ran_def demo_obj_Some by blast
    then show "k \<in> insert (key_of p) (ran (demo_obj s))"
      unfolding dir_in_Cons using ranI [of "demo_obj s" q k] by (auto simp only: demo_obj_Some insert_iff)
  next
    fix k assume "k \<in> insert (key_of p) (ran (demo_obj s))"
    then consider "k = key_of p" | q where "demo_obj s q = Some k" unfolding ran_def by blast
    then show "k \<in> ran (demo_obj (key_of p # s))"
    proof cases
      case 1
      then show ?thesis using p by (simp only: ran_def mem_Collect_eq) blast
    next
      case 2
      from map_le_Some [OF le 2] show ?thesis by (simp only: ran_def mem_Collect_eq) blast
    qed
  qed
qed

lemma demo_dir_laws: "dir_laws demo_dirs demo_obj"
  unfolding dir_laws_def demo_isdir demo_perms
proof (intro conjI allI impI)
  show "dir_in s (squeeze p) = dir_in s p" for s p using key_squeeze [of p] by (simp add: dir_in_def)
  show "dir_in s [slash]" for s by (simp add: dir_in_def key_of_def)
  show "dir_in s p = (demo_obj s p \<noteq> None)" for s p by (simp add: demo_obj_def)
  fix p s e s' assume "da_create demo_dirs p s = (True, e, s')"
  then have "\<not> dir_in s p" "p \<noteq> []" "s' = key_of p # s" by (auto simp: demo_create_iff parent_in_def)
  then show "\<exists>d. d \<notin> ran (demo_obj s) \<and> ran (demo_obj s') = insert d (ran (demo_obj s)) \<and>
      demo_obj s' p = Some d \<and> demo_obj s \<subseteq>\<^sub>m demo_obj s'"
    using demo_ran [of s p] by blast
qed (auto simp: demo_dirs_def split: if_splits)

lemma demo_nothing_in_the_way: "nothing_in_the_way demo_dirs"
  unfolding nothing_in_the_way_def demo_isdir
proof (intro conjI allI impI)
  fix p s assume "p \<noteq> ([] :: string)"
  then show "dir_in s (path_div p []) = dir_in s p"
    using key_div [of "[]" p] path_div_not_Nil [of "[]" p] by (simp add: dir_in_def key_of_def [of p])
next
  fix d e :: string and s
  assume a: "e \<noteq> [] \<and> slash \<notin> set e \<and> (d = [] \<or> dir_in s d) \<and> \<not> dir_in s (path_div d e)"
  have "key_of (path_div d e) = (d \<noteq> [] \<and> hd d = slash, names_of [] d @ [e])"
    using a key_div [of e d] names_name [of e "[]"] by simp
  then have "parent_in s (path_div d e)"
    using a path_div_not_Nil [of e d] by (auto simp: parent_in_def dir_in_def key_of_def [of d])
  then show "fst (da_create demo_dirs (path_div d e) s)" using a by (simp add: demo_dirs_def)
qed (simp add: demo_dirs_def missing_def)

text \<open>Without its parent a directory is not made.\<close>

lemma demo_needs_parent: "\<not> fst (da_create demo_dirs ''a/b'' []) \<and> \<not> fst (da_create demo_dirs ''/a/b'' [(False, [''a''])])"
  by code_simp

definition demo_maker :: directory_maker where
  "demo_maker = new_directory_maker English default_dir_options"

lemma demo_created:
  "let (r, s') = create_directory_tree demo_dirs demo_maker ''a//b/'' []
   in dm_success r \<and> dm_created r = [''a'', ''a/b''] \<and> s' = [(False, [''a'', ''b'']), (False, [''a''])]"
  by code_simp

theorem directory_result_true_witness:
  "let (r, s') = create_directory_tree demo_dirs demo_maker ''a//b/'' []
   in isdir demo_dirs s' ''a//b/'' \<and> made_dirs demo_obj [] [''a'', ''a/b''] s' \<and> dm_code r = Created"
proof -
  obtain r s' where rs: "create_directory_tree demo_dirs demo_maker ''a//b/'' [] = (r, s')" by (metis prod.exhaust)
  then have "dm_created r = [''a'', ''a/b'']" "dm_success r" using demo_created by simp_all
  then show ?thesis using directory_result_true [OF demo_dir_laws rs] rs by simp
qed

theorem directory_tree_made_witness:
  "let (r, s') = create_directory_tree demo_dirs demo_maker ''/srv/data/2024'' [(True, [''srv''])]
   in dm_success r \<and> isdir demo_dirs s' ''/srv/data/2024''"
  by (rule directory_tree_made [OF demo_dir_laws demo_nothing_in_the_way])
    (simp_all add: demo_maker_def new_directory_maker_def default_dir_options_def)

section \<open>A final separator without \<open>make_parents\<close>\<close>

text \<open>\<open>parent_path\<close> of a path with a final separator is the path itself, so the code looks for the
  directory it is about to make and refuses.\<close>

lemma trailing_separator_refused:
  assumes "\<not> make_parents (dm_opt m)" "target = p @ [slash]" "p \<noteq> []" "last p \<noteq> slash"
    and "snd (safe_status A target (dm_follow_symlinks (dm_opt m)) s) = Some (No_such_file_or_directory, msg)"
    and "fst (da_status A True p s) = ft_not_found"
  shows "let (r, s') = create_directory_tree A m target s in \<not> dm_success r \<and> dm_code r = NoSuchParent \<and> s' = s"
proof -
  have rev: "dropWhile (\<lambda>c. c = slash) (rev p) = rev p"
    using assms(3,4) by (cases p rule: rev_cases) auto
  have "\<not> list_all (\<lambda>c. c = slash) target"
    using last_in_set [OF assms(3)] assms(2,4) by (auto simp: list_all_iff)
  then have "relative_path target \<noteq> []"
    unfolding relative_path_def list_all_iff by (simp only: dropWhile_eq_Nil_conv not_False_eq_True)
  then have "parent_path target = p"
    unfolding parent_path_def Let_def assms(2) by (simp add: rev assms(3))
  then have "make_single A m target s (new_dir_result target) =
      (failed_with NoSuchParent None (msg_no_parent (to_console A) (dm_lang m) p) (new_dir_result target), s)"
    using assms(3,6) by (cases "da_status A True p s") (simp add: make_single_def path_exists_ec_def Let_def)
  moreover have "check_target A m target s (new_dir_result target) = None"
    using assms(5) by (cases "safe_status A target (dm_follow_symlinks (dm_opt m)) s")
      (simp add: check_target_def has_errc_def Let_def)
  ultimately show ?thesis using assms(1,2) by (simp add: create_directory_tree_def Let_def)
qed

end
