(* ===== verification/Dynamic_Thread.thy ===== *)
theory Dynamic_Thread
  imports Prelude
begin

text \<open>
  \<open>thread/dynamic_thread.cpp\<close> and its header: a worker thread that runs a task again and again until
  it is stopped. \<open>start\<close> and \<open>stop\<close> are sequences of accesses to the members; other callers and the
  workers may act between any two of them, so a call is a position in its code and the threads are a
  step relation. A task is a value; that a task returns is assumed. The three forms of \<open>start\<close> differ in
  how they wrap the task. What ends the program (\<open>std::terminate\<close>) or is undefined is \<open>terminated\<close>.
\<close>

section \<open>The object and its threads\<close>

text \<open>\<open>dt_thread\<close> is the joinable thread of \<open>workerThread_\<close>, an index into the list of all workers.\<close>

record 't dynamic_thread =
  dt_running :: bool
  dt_task :: "'t option"
  dt_interval :: nat
  dt_thread :: "nat option"

datatype 't worker = Checking | Running 't | Sleeping | Finished

datatype 't call_position = Idle | Start_load 't | Start_task 't | Start_flag | Start_spawn |
  Stop_load | Stop_store | Stop_join | Stop_wait nat

record 't thread_world =
  tw_object :: "'t dynamic_thread"
  tw_workers :: "'t worker list"
  tw_calls :: "nat \<Rightarrow> 't call_position"
  tw_done :: "'t list"
  tw_terminated :: bool

definition new_dynamic_thread :: "'t dynamic_thread" where
  "new_dynamic_thread = \<lparr>dt_running = False, dt_task = None, dt_interval = 100, dt_thread = None\<rparr>"

definition new_thread_world :: "'t thread_world" where
  "new_thread_world = \<lparr>tw_object = new_dynamic_thread, tw_workers = [], tw_calls = (\<lambda>_. Idle), tw_done = [],
     tw_terminated = False\<rparr>"

definition set_interval :: "nat \<Rightarrow> 't dynamic_thread \<Rightarrow> 't dynamic_thread" where
  "set_interval n d = d\<lparr>dt_interval := n\<rparr>"

definition is_running :: "'t dynamic_thread \<Rightarrow> bool" where
  "is_running d = dt_running d"

section \<open>The steps\<close>

definition goto :: "nat \<Rightarrow> 't call_position \<Rightarrow> 't thread_world \<Rightarrow> 't thread_world" where
  "goto k p w = w\<lparr>tw_calls := (tw_calls w)(k := p)\<rparr>"

definition set_object :: "('t dynamic_thread \<Rightarrow> 't dynamic_thread) \<Rightarrow> 't thread_world \<Rightarrow> 't thread_world" where
  "set_object f w = w\<lparr>tw_object := f (tw_object w)\<rparr>"

text \<open>\<open>start\<close>: a running thread is left alone; a joinable handle that is assigned to ends the program.\<close>

definition start_step :: "nat \<Rightarrow> 't thread_world \<Rightarrow> 't thread_world option" where
  "start_step k w =
     (case tw_calls w k of
        Start_load t \<Rightarrow> Some (goto k (if is_running (tw_object w) then Idle else Start_task t) w)
      | Start_task t \<Rightarrow> Some (goto k Start_flag (set_object (\<lambda>d. d\<lparr>dt_task := Some t\<rparr>) w))
      | Start_flag \<Rightarrow> Some (goto k Start_spawn (set_object (\<lambda>d. d\<lparr>dt_running := True\<rparr>) w))
      | Start_spawn \<Rightarrow>
          if dt_thread (tw_object w) \<noteq> None then Some (w\<lparr>tw_terminated := True\<rparr>)
          else Some (goto k Idle (set_object (\<lambda>d. d\<lparr>dt_thread := Some (length (tw_workers w))\<rparr>)
                 (w\<lparr>tw_workers := tw_workers w @ [Checking]\<rparr>)))
      | _ \<Rightarrow> None)"

text \<open>\<open>stop\<close>: \<open>join\<close> waits for the worker; two calls that join one thread are undefined.\<close>

definition stop_step :: "nat \<Rightarrow> 't thread_world \<Rightarrow> 't thread_world option" where
  "stop_step k w =
     (case tw_calls w k of
        Stop_load \<Rightarrow> Some (goto k (if is_running (tw_object w) then Stop_store else Idle) w)
      | Stop_store \<Rightarrow> Some (goto k Stop_join (set_object (\<lambda>d. d\<lparr>dt_running := False\<rparr>) w))
      | Stop_join \<Rightarrow>
          Some (goto k (case dt_thread (tw_object w) of None \<Rightarrow> Idle | Some i \<Rightarrow> Stop_wait i) w)
      | Stop_wait i \<Rightarrow>
          if tw_workers w ! i \<noteq> Finished then None
          else if dt_thread (tw_object w) \<noteq> Some i then Some (w\<lparr>tw_terminated := True\<rparr>)
          else Some (goto k Idle (set_object (\<lambda>d. d\<lparr>dt_thread := None\<rparr>) w))
      | _ \<Rightarrow> None)"

text \<open>\<open>threadFunction\<close>.\<close>

definition worker_step :: "nat \<Rightarrow> 't thread_world \<Rightarrow> 't thread_world option" where
  "worker_step i w =
     (if i < length (tw_workers w)
      then (case tw_workers w ! i of
              Checking \<Rightarrow>
                Some (w\<lparr>tw_workers := (tw_workers w)[i :=
                  if dt_running (tw_object w)
                  then (case dt_task (tw_object w) of Some t \<Rightarrow> Running t | None \<Rightarrow> Sleeping)
                  else Finished]\<rparr>)
            | Running t \<Rightarrow> Some (w\<lparr>tw_workers := (tw_workers w)[i := Sleeping], tw_done := tw_done w @ [t]\<rparr>)
            | Sleeping \<Rightarrow> Some (w\<lparr>tw_workers := (tw_workers w)[i := Checking]\<rparr>)
            | Finished \<Rightarrow> None)
      else None)"

text \<open>A step of the calls that are under way and of the workers; the callers are those of the set \<open>C\<close>.\<close>

inductive internal_step :: "'t thread_world \<Rightarrow> 't thread_world \<Rightarrow> bool" where
  starting: "start_step k w = Some w' \<Longrightarrow> internal_step w w'"
| stopping: "stop_step k w = Some w' \<Longrightarrow> internal_step w w'"
| working: "worker_step i w = Some w' \<Longrightarrow> internal_step w w'"

inductive thread_run :: "nat set \<Rightarrow> 't thread_world \<Rightarrow> bool" for C where
  created: "thread_run C new_thread_world"
| start_called: "thread_run C w \<Longrightarrow> \<not> tw_terminated w \<Longrightarrow> k \<in> C \<Longrightarrow> tw_calls w k = Idle \<Longrightarrow>
    thread_run C (goto k (Start_load t) w)"
| stop_called: "thread_run C w \<Longrightarrow> \<not> tw_terminated w \<Longrightarrow> k \<in> C \<Longrightarrow> tw_calls w k = Idle \<Longrightarrow>
    thread_run C (goto k Stop_load w)"
| interval_set: "thread_run C w \<Longrightarrow> \<not> tw_terminated w \<Longrightarrow> k \<in> C \<Longrightarrow> tw_calls w k = Idle \<Longrightarrow>
    thread_run C (set_object (set_interval n) w)"
| stepped: "thread_run C w \<Longrightarrow> \<not> tw_terminated w \<Longrightarrow> internal_step w w' \<Longrightarrow> thread_run C w'"

section \<open>One caller\<close>

definition position_ok :: "'t dynamic_thread \<Rightarrow> 't call_position \<Rightarrow> bool" where
  "position_ok d p =
     (case p of
        Idle \<Rightarrow> dt_running d \<longleftrightarrow> dt_thread d \<noteq> None
      | Start_load _ \<Rightarrow> dt_running d \<longleftrightarrow> dt_thread d \<noteq> None
      | Stop_load \<Rightarrow> dt_running d \<longleftrightarrow> dt_thread d \<noteq> None
      | Start_task _ \<Rightarrow> \<not> dt_running d \<and> dt_thread d = None
      | Start_flag \<Rightarrow> \<not> dt_running d \<and> dt_thread d = None
      | Start_spawn \<Rightarrow> dt_running d \<and> dt_thread d = None
      | Stop_store \<Rightarrow> dt_running d \<and> dt_thread d \<noteq> None
      | Stop_join \<Rightarrow> \<not> dt_running d \<and> dt_thread d \<noteq> None
      | Stop_wait i \<Rightarrow> \<not> dt_running d \<and> dt_thread d = Some i)"

definition one_worker :: "'t thread_world \<Rightarrow> bool" where
  "one_worker w \<longleftrightarrow>
     (\<forall>i < length (tw_workers w). dt_thread (tw_object w) \<noteq> Some i \<longrightarrow> tw_workers w ! i = Finished) \<and>
     (\<forall>i. dt_thread (tw_object w) = Some i \<longrightarrow> i < length (tw_workers w)) \<and>
     (\<forall>i < length (tw_workers w). \<forall>t. tw_workers w ! i = Running t \<longrightarrow> dt_task (tw_object w) = Some t)"

definition thread_inv :: "nat \<Rightarrow> 't thread_world \<Rightarrow> bool" where
  "thread_inv k w \<longleftrightarrow> \<not> tw_terminated w \<and> one_worker w \<and> (\<forall>j. j \<noteq> k \<longrightarrow> tw_calls w j = Idle) \<and>
     position_ok (tw_object w) (tw_calls w k)"

lemmas thread_defs = thread_inv_def one_worker_def goto_def set_object_def

lemma other_caller: "thread_inv k w \<Longrightarrow> j \<noteq> k \<Longrightarrow> start_step j w = None \<and> stop_step j w = None"
  by (simp add: thread_inv_def start_step_def stop_step_def)

lemma start_step_inv: "thread_inv k w \<Longrightarrow> start_step k w = Some w' \<Longrightarrow> thread_inv k w'"
  by (cases "tw_calls w k")
    (auto simp: thread_defs start_step_def is_running_def position_ok_def nth_append less_Suc_eq)

lemma stop_step_inv: "thread_inv k w \<Longrightarrow> stop_step k w = Some w' \<Longrightarrow> thread_inv k w'"
  by (cases "tw_calls w k")
    (auto simp: thread_defs stop_step_def is_running_def position_ok_def split: if_splits option.splits)

lemma worker_step_inv: "thread_inv k w \<Longrightarrow> worker_step i w = Some w' \<Longrightarrow> thread_inv k w'"
  by (cases "tw_workers w ! i")
    (auto simp: thread_defs worker_step_def nth_list_update split: if_splits option.splits)

lemma internal_step_inv: "internal_step w w' \<Longrightarrow> thread_inv k w \<Longrightarrow> thread_inv k w'"
  by (induction rule: internal_step.induct)
    (metis other_caller option.distinct(1) start_step_inv, metis other_caller option.distinct(1) stop_step_inv,
     metis worker_step_inv)

lemma run_inv: "thread_run {k} w \<Longrightarrow> thread_inv k w"
proof (induction rule: thread_run.induct)
  case (stepped w w')
  then show ?case using internal_step_inv by blast
qed (auto simp: thread_defs new_thread_world_def new_dynamic_thread_def position_ok_def set_interval_def
  split: call_position.splits)


text \<open>C37: As long as one thread makes the calls, in whatever order and however the workers run in between,
  the program is not ended by the object, at most one worker is alive, it runs the registered task and
  no earlier one, and when no call is under way and the thread is not running then no worker will do
  anything any more.\<close>

theorem one_caller_safe:
  assumes "thread_run {k} w"
  shows "\<not> tw_terminated w \<and>
    card {i. i < length (tw_workers w) \<and> tw_workers w ! i \<noteq> Finished} \<le> 1 \<and>
    (\<forall>i t. i < length (tw_workers w) \<and> tw_workers w ! i = Running t \<longrightarrow> dt_task (tw_object w) = Some t) \<and>
    (tw_calls w k = Idle \<and> \<not> is_running (tw_object w) \<longrightarrow> (\<forall>i. worker_step i w = None))"
proof -
  note inv = run_inv [OF assms]
  have "{i. i < length (tw_workers w) \<and> tw_workers w ! i \<noteq> Finished} \<subseteq> set_option (dt_thread (tw_object w))"
    using inv by (auto simp: thread_inv_def one_worker_def)
  moreover have "card (set_option (dt_thread (tw_object w))) \<le> 1" "finite (set_option (dt_thread (tw_object w)))"
    by (cases "dt_thread (tw_object w)"; auto)+
  ultimately have "card {i. i < length (tw_workers w) \<and> tw_workers w ! i \<noteq> Finished} \<le> 1"
    by (meson card_mono le_trans)
  then show ?thesis using inv
    by (auto simp: thread_inv_def one_worker_def position_ok_def is_running_def worker_step_def)
qed

section \<open>Stopping\<close>

fun worker_rest :: "'t worker \<Rightarrow> nat" where
  "worker_rest Finished = 0"
| "worker_rest Checking = 1"
| "worker_rest Sleeping = 2"
| "worker_rest (Running t) = 3"

definition call_rest :: "'t call_position \<Rightarrow> nat" where
  "call_rest p = (case p of Stop_join \<Rightarrow> 2 | Stop_wait i \<Rightarrow> 1 | _ \<Rightarrow> 0)"

definition stop_rest :: "nat \<Rightarrow> 't thread_world \<Rightarrow> nat" where
  "stop_rest k w = call_rest (tw_calls w k) +
     (case dt_thread (tw_object w) of None \<Rightarrow> 0 | Some i \<Rightarrow> worker_rest (tw_workers w ! i))"

definition being_stopped :: "nat \<Rightarrow> 't thread_world \<Rightarrow> bool" where
  "being_stopped k w \<longleftrightarrow> thread_inv k w \<and> \<not> dt_running (tw_object w) \<and>
     (case tw_calls w k of Stop_join \<Rightarrow> True | Stop_wait i \<Rightarrow> True | Idle \<Rightarrow> True | _ \<Rightarrow> False)"

lemma stopping_worker:
  "being_stopped k w \<Longrightarrow> worker_step i w = Some w' \<Longrightarrow> being_stopped k w' \<and> stop_rest k w' < stop_rest k w"
  using worker_step_inv [of k w i w']
  by (cases "tw_workers w ! i")
    (auto simp: being_stopped_def stop_rest_def thread_defs worker_step_def split: if_splits option.splits)

lemma stopping_caller:
  "being_stopped k w \<Longrightarrow> stop_step k w = Some w' \<Longrightarrow> being_stopped k w' \<and> stop_rest k w' < stop_rest k w"
  using stop_step_inv [of k w w']
  by (cases "tw_calls w k")
    (auto simp: being_stopped_def stop_rest_def call_rest_def thread_defs stop_step_def position_ok_def
      split: if_splits option.splits)

lemma stopping_step:
  assumes "being_stopped k w" "internal_step w w'"
  shows "being_stopped k w' \<and> stop_rest k w' < stop_rest k w"
  using assms(2)
proof cases
  case (starting j)
  then have "start_step k w = Some w'"
    using other_caller [of k w j] assms(1) by (cases "j = k") (auto simp: being_stopped_def)
  then show ?thesis using assms(1)
    by (auto simp: being_stopped_def start_step_def split: call_position.splits)
next
  case (stopping j)
  then have "stop_step k w = Some w'"
    using other_caller [of k w j] assms(1) by (cases "j = k") (auto simp: being_stopped_def)
  then show ?thesis by (rule stopping_caller [OF assms(1)])
next
  case (working i)
  then show ?thesis by (rule stopping_worker [OF assms(1)])
qed

lemma stopping_steps:
  "(internal_step ^^ n) w w' \<Longrightarrow> being_stopped k w \<Longrightarrow> being_stopped k w' \<and> n + stop_rest k w' \<le> stop_rest k w"
proof (induction n arbitrary: w')
  case (Suc n)
  then obtain v where v: "(internal_step ^^ n) w v" "internal_step v w'" by auto
  with Suc.IH [OF v(1) Suc.prems(2)] stopping_step [of k v w'] show ?case by auto
qed simp

lemma stopping_not_stuck:
  assumes "being_stopped k w" "tw_calls w k \<noteq> Idle"
  shows "\<exists>w'. internal_step w w'"
proof (cases "tw_calls w k")
  case Stop_join
  then have "stop_step k w \<noteq> None" by (simp add: stop_step_def)
  then show ?thesis using internal_step.stopping by blast
next
  case (Stop_wait i)
  then have i: "dt_thread (tw_object w) = Some i" "i < length (tw_workers w)"
    using assms(1) by (auto simp: being_stopped_def thread_inv_def position_ok_def one_worker_def)
  show ?thesis
  proof (cases "tw_workers w ! i = Finished")
    case True
    then have "stop_step k w \<noteq> None" using Stop_wait i by (simp add: stop_step_def)
    then show ?thesis using internal_step.stopping by blast
  next
    case False
    then have "worker_step i w \<noteq> None" using i by (cases "tw_workers w ! i") (auto simp: worker_step_def)
    then show ?thesis using internal_step.working by blast
  qed
qed (use assms in \<open>auto simp: being_stopped_def\<close>)

text \<open>C38: \<open>stop\<close> returns: once it has cleared the flag, at most five more steps are taken by anybody, in
  whatever order, and as long as it has not returned one of them can be taken.\<close>

theorem stop_returns:
  assumes "thread_run {k} w" "tw_calls w k = Stop_join" "(internal_step ^^ n) w w'"
  shows "n \<le> 5 \<and> (tw_calls w' k = Idle \<or> (\<exists>w''. internal_step w' w''))"
proof -
  have b: "being_stopped k w"
    using run_inv [OF assms(1)] assms(2) by (auto simp: being_stopped_def thread_inv_def position_ok_def)
  have "worker_rest x \<le> 3" for x :: "'a worker" by (cases x) auto
  then have "stop_rest k w \<le> 5" using assms(2)
    by (auto simp: stop_rest_def call_rest_def split: option.splits)
  then show ?thesis using stopping_steps [OF assms(3) b] stopping_not_stuck [of k w'] by auto
qed

section \<open>Examples\<close>

text \<open>The states after some calls, one step after the other.\<close>

definition demo_started :: "string thread_world" where
  "demo_started = \<lparr>tw_object = \<lparr>dt_running = True, dt_task = Some ''tick'', dt_interval = 100, dt_thread = Some 0\<rparr>,
     tw_workers = [Checking], tw_calls = (\<lambda>_. Idle), tw_done = [], tw_terminated = False\<rparr>"

definition demo_stopping :: "string thread_world" where
  "demo_stopping = \<lparr>tw_object = \<lparr>dt_running = False, dt_task = Some ''tick'', dt_interval = 100, dt_thread = Some 0\<rparr>,
     tw_workers = [Checking], tw_calls = (\<lambda>_. Idle)(0 := Stop_join), tw_done = [], tw_terminated = False\<rparr>"

lemmas demo_steps = goto_def set_object_def start_step_def stop_step_def worker_step_def is_running_def
  new_thread_world_def new_dynamic_thread_def demo_started_def demo_stopping_def

lemma stepped_start: "thread_run C w \<Longrightarrow> \<not> tw_terminated w \<Longrightarrow> start_step k w = Some w' \<Longrightarrow> thread_run C w'"
  by (metis stepped internal_step.starting)

lemma stepped_stop: "thread_run C w \<Longrightarrow> \<not> tw_terminated w \<Longrightarrow> stop_step k w = Some w' \<Longrightarrow> thread_run C w'"
  by (metis stepped internal_step.stopping)

lemma demo_started_run: "0 \<in> C \<Longrightarrow> thread_run C demo_started"
proof -
  assume c: "0 \<in> C"
  let ?w = "goto 0 (Start_load ''tick'') new_thread_world"
  have 1: "thread_run C ?w"
    using start_called [OF created _ c] by (simp add: new_thread_world_def)
  have 2: "thread_run C (goto 0 (Start_task ''tick'') ?w)"
    by (rule stepped_start [where k = 0, OF 1]) (simp_all add: demo_steps)
  have 3: "thread_run C (goto 0 Start_flag (set_object (\<lambda>d. d\<lparr>dt_task := Some ''tick''\<rparr>)
      (goto 0 (Start_task ''tick'') ?w)))"
    by (rule stepped_start [where k = 0, OF 2]) (simp_all add: demo_steps)
  have 4: "thread_run C (goto 0 Start_spawn (demo_started\<lparr>tw_workers := [],
      tw_object := (tw_object demo_started)\<lparr>dt_thread := None\<rparr>\<rparr>))"
    by (rule stepped_start [where k = 0, OF 3]) (simp_all add: demo_steps)
  show ?thesis
    by (rule stepped_start [where k = 0, OF 4]) (simp_all add: demo_steps fun_upd_idem)
qed

lemma demo_stopping_run: "0 \<in> C \<Longrightarrow> thread_run C demo_stopping"
proof -
  assume c: "0 \<in> C"
  have 1: "thread_run C (goto 0 Stop_load demo_started)"
    using stop_called [OF demo_started_run [OF c] _ c] by (simp add: demo_started_def)
  have 2: "thread_run C (goto 0 Stop_store demo_started)"
    by (rule stepped_stop [where k = 0, OF 1]) (simp_all add: demo_steps)
  show ?thesis by (rule stepped_stop [where k = 0, OF 2]) (simp_all add: demo_steps)
qed

theorem one_caller_safe_witness:
  "\<not> tw_terminated demo_started \<and> dt_task (tw_object demo_started) = Some ''tick'' \<and>
   card {i. i < length (tw_workers demo_started) \<and> tw_workers demo_started ! i \<noteq> Finished} \<le> 1"
  using one_caller_safe [OF demo_started_run [of "{0}"]] by (simp add: demo_started_def)

theorem stop_returns_witness: "\<exists>w''. internal_step demo_stopping w''"
  using stop_returns [OF demo_stopping_run [of "{0}"], of 0 demo_stopping] by (simp add: demo_stopping_def)

text \<open>With two callers the object can end the program: a \<open>start\<close> between the clearing of the flag and the
  join of a \<open>stop\<close> assigns to a joinable thread.\<close>

lemma two_callers_terminate: "\<exists>w :: string thread_world. thread_run {0, 1} w \<and> tw_terminated w"
proof -
  let ?C = "{0, 1 :: nat}" and ?w = demo_stopping
  have 1: "thread_run ?C (goto 1 (Start_load ''tick'') ?w)"
    using start_called [OF demo_stopping_run [of ?C]] by (simp add: demo_stopping_def)
  have 2: "thread_run ?C (goto 1 (Start_task ''tick'') ?w)"
    by (rule stepped_start [where k = 1, OF 1]) (simp_all add: demo_steps)
  have 3: "thread_run ?C (goto 1 Start_flag ?w)"
    by (rule stepped_start [where k = 1, OF 2]) (simp_all add: demo_steps)
  have 4: "thread_run ?C (goto 1 Start_spawn (set_object (\<lambda>d. d\<lparr>dt_running := True\<rparr>) ?w))"
    by (rule stepped_start [where k = 1, OF 3]) (simp_all add: demo_steps)
  let ?v = "goto 1 Start_spawn (set_object (\<lambda>d. d\<lparr>dt_running := True\<rparr>) ?w)"
  have "thread_run ?C (?v\<lparr>tw_terminated := True\<rparr>)"
    by (rule stepped_start [where k = 1, OF 4]) (simp_all add: demo_steps)
  then show ?thesis by (metis (no_types, lifting) thread_world.select_convs(5) thread_world.surjective thread_world.update_convs(5))
qed

end
