(* ===== verification/Rest_Client.thy ===== *)
theory Rest_Client
  imports Cpp_Std Str_Loops
begin

text \<open>
  The REST clients \<open>network/rest/curl_get_client.cpp\<close> and \<open>curl_post_client.cpp\<close>. libcurl is the
  parameter \<open>curl_api\<close>: the handle it gives or not, its percent encoding, and what a request brings: the
  header lines and the chunks of the body that go to the callbacks, and how it ends. The two classes
  have the same members and share their functions but for the callback of the headers and the request.
  A thrown exception is its text.
\<close>

section \<open>libcurl\<close>

datatype http_method = Http_get | Http_post string

record curl_request =
  cr_url :: string
  cr_method :: http_method
  cr_timeout_ms :: int
  cr_headers :: "string list"
  cr_verify_peer :: int
  cr_verify_host :: int

datatype curl_event = Curl_header string | Curl_body string

text \<open>An answer: the events, the error number with its text if it failed, the status of the response.\<close>

record curl_answer =
  ca_events :: "curl_event list"
  ca_error :: "(int \<times> string) option"
  ca_status :: int

record curl_api =
  curl_global_init :: bool
  curl_easy_init :: bool
  curl_easy_escape :: "string \<Rightarrow> string option"
  curl_easy_perform :: "curl_request \<Rightarrow> curl_answer"

text \<open>The error numbers of libcurl that the code names.\<close>

definition curle_couldnt_resolve_host :: int where "curle_couldnt_resolve_host = 6"
definition curle_couldnt_connect :: int where "curle_couldnt_connect = 7"
definition curle_operation_timedout :: int where "curle_operation_timedout = 28"
definition curle_ssl_connect_error :: int where "curle_ssl_connect_error = 35"
definition curle_peer_failed_verification :: int where "curle_peer_failed_verification = 60"

section \<open>Responses\<close>

datatype http_status = Http_unknown | Http_ok | Http_created | Http_no_content | Http_bad_request |
  Http_unauthorized | Http_forbidden | Http_not_found | Http_internal_server_error | Http_bad_gateway |
  Http_service_unavailable

datatype result_code = Rc_ok | Rc_curl_timeout | Rc_curl_ssl_error | Rc_curl_network_error |
  Rc_curl_other_error | Rc_client_error_4xx | Rc_not_found | Rc_server_error_5xx | Rc_redirect_3xx |
  Rc_other_error | Rc_unknown_error

record response =
  rs_status :: http_status
  rs_raw_status :: int
  rs_curl_error :: int
  rs_body :: string
  rs_error :: string
  rs_headers :: "string list"
  rs_content_type :: string

definition new_response :: response where
  "new_response = \<lparr>rs_status = Http_unknown, rs_raw_status = 0, rs_curl_error = 0, rs_body = [], rs_error = [],
     rs_headers = [], rs_content_type = []\<rparr>"

definition is_success :: "response \<Rightarrow> bool" where
  "is_success r \<longleftrightarrow> rs_error r = [] \<and> 200 \<le> rs_raw_status r \<and> rs_raw_status r < 300"

definition to_http_status :: "int \<Rightarrow> http_status" where
  "to_http_status c =
     (if c = 200 then Http_ok
      else if c = 201 then Http_created
      else if c = 204 then Http_no_content
      else if c = 400 then Http_bad_request
      else if c = 401 then Http_unauthorized
      else if c = 403 then Http_forbidden
      else if c = 404 then Http_not_found
      else if c = 500 then Http_internal_server_error
      else if c = 502 then Http_bad_gateway
      else if c = 503 then Http_service_unavailable
      else Http_unknown)"

definition classify :: "response \<Rightarrow> result_code" where
  "classify r =
     (if rs_error r \<noteq> []
      then (if rs_curl_error r = curle_operation_timedout then Rc_curl_timeout
            else if rs_curl_error r = curle_peer_failed_verification \<or> rs_curl_error r = curle_ssl_connect_error
            then Rc_curl_ssl_error
            else if rs_curl_error r = curle_couldnt_resolve_host \<or> rs_curl_error r = curle_couldnt_connect
            then Rc_curl_network_error
            else Rc_curl_other_error)
      else if 200 \<le> rs_raw_status r \<and> rs_raw_status r < 300 then Rc_ok
      else if rs_raw_status r = 404 then Rc_not_found
      else if 400 \<le> rs_raw_status r \<and> rs_raw_status r < 500 then Rc_client_error_4xx
      else if 500 \<le> rs_raw_status r \<and> rs_raw_status r < 600 then Rc_server_error_5xx
      else if 300 \<le> rs_raw_status r \<and> rs_raw_status r < 400 then Rc_redirect_3xx
      else if rs_raw_status r > 0 then Rc_other_error
      else Rc_unknown_error)"

lemma classify_ok: "classify r = Rc_ok \<longleftrightarrow> is_success r"
  by (auto simp: classify_def is_success_def)

section \<open>The callbacks\<close>

definition write_callback :: "string \<Rightarrow> string \<Rightarrow> string" where
  "write_callback chunk body = body @ chunk"

text \<open>\<open>std::remove\<close> and \<open>erase\<close> over the last \<open>n\<close> characters.\<close>

definition erase_last :: "nat \<Rightarrow> char \<Rightarrow> string \<Rightarrow> string" where
  "erase_last n c s = take (length s - n) s @ filter (\<lambda>x. x \<noteq> c) (drop (length s - n) s)"

definition content_type_key :: string where
  "content_type_key = ''Content-Type:''"

definition store_header :: "string \<Rightarrow> response \<Rightarrow> response" where
  "store_header header_line resp =
     (if header_line \<noteq> [] \<and> find_from header_line '':'' 0 \<noteq> None
      then let resp1 = resp\<lparr>rs_headers := rs_headers resp @ [header_line]\<rparr>; n = length content_type_key
           in if length header_line > n \<and> map tolower (take n header_line) = map tolower content_type_key
              then resp1\<lparr>rs_content_type :=
                dropWhile (\<lambda>c. c = CHR '' '' \<or> c = CHR 0x09) (drop n header_line)\<rparr>
              else resp1
      else resp)"

text \<open>The client for GET steps back over two characters that may not be there: \<open>None\<close> is undefined.\<close>

definition header_callback_get :: "string \<Rightarrow> response \<Rightarrow> response option" where
  "header_callback_get buffer resp =
     (if length buffer < 2 then None
      else let l = erase_last 2 (CHR 0x0D) buffer
           in if l = [] then None else Some (store_header (erase_last 1 (CHR 0x0A) l) resp))"

definition header_callback_post :: "string \<Rightarrow> response \<Rightarrow> response option" where
  "header_callback_post buffer resp =
     (let l1 = (if length buffer \<ge> 2 then erase_last 2 (CHR 0x0D) buffer else buffer);
          l2 = (if length l1 \<ge> 1 then erase_last 1 (CHR 0x0A) l1 else l1)
      in Some (store_header l2 resp))"

fun deliver_events :: "(string \<Rightarrow> response \<Rightarrow> response option) \<Rightarrow> curl_event list \<Rightarrow> string \<times> response \<Rightarrow>
    (string \<times> response) option" where
  "deliver_events hcb [] st = Some st"
| "deliver_events hcb (Curl_body b # es) (body, resp) = deliver_events hcb es (write_callback b body, resp)"
| "deliver_events hcb (Curl_header h # es) (body, resp) =
     (case hcb h resp of None \<Rightarrow> None | Some resp1 \<Rightarrow> deliver_events hcb es (body, resp1))"

section \<open>The client\<close>

record rest_client =
  rc_scheme :: string
  rc_host :: string
  rc_port :: int
  rc_path :: string
  rc_headers :: "(string \<times> string) list"
  rc_timeout_ms :: int
  rc_ignore_ssl :: bool

definition new_rest_client :: "curl_api \<Rightarrow> string + rest_client" where
  "new_rest_client A =
     (if \<not> curl_global_init A then Inl ''curl_global_init failed''
      else if \<not> curl_easy_init A then Inl ''curl_easy_init failed''
      else Inr \<lparr>rc_scheme = ''http'', rc_host = [], rc_port = 0, rc_path = [], rc_headers = [],
                rc_timeout_ms = 30000, rc_ignore_ssl = False\<rparr>)"

definition set_server :: "string \<Rightarrow> string \<Rightarrow> int \<Rightarrow> string \<Rightarrow> rest_client \<Rightarrow> string + rest_client" where
  "set_server scheme host port path c =
     (if scheme = [] then Inl ''scheme is empty.''
      else if host = [] then Inl ''host is empty.''
      else Inr (c\<lparr>rc_scheme := scheme, rc_host := host, rc_port := port, rc_path := path\<rparr>))"

definition set_headers :: "(string \<times> string) list \<Rightarrow> rest_client \<Rightarrow> rest_client" where
  "set_headers hs c = c\<lparr>rc_headers := hs\<rparr>"

definition set_timeout_ms :: "int \<Rightarrow> rest_client \<Rightarrow> string + rest_client" where
  "set_timeout_ms ms c =
     (if ms \<le> 0 then Inl ''timeoutMs must be greater than 0.'' else Inr (c\<lparr>rc_timeout_ms := ms\<rparr>))"

definition set_ignore_ssl_errors :: "bool \<Rightarrow> rest_client \<Rightarrow> rest_client" where
  "set_ignore_ssl_errors b c = c\<lparr>rc_ignore_ssl := b\<rparr>"

definition build_header_lines :: "(string \<times> string) list \<Rightarrow> string list" where
  "build_header_lines hs = map (\<lambda>(k, v). k @ '': '' @ v) (filter (\<lambda>(k, v). k \<noteq> []) hs)"

fun query_loop :: "curl_api \<Rightarrow> bool \<Rightarrow> (string \<times> string) list \<Rightarrow> string \<Rightarrow> string + string" where
  "query_loop A first [] oss = Inr oss"
| "query_loop A first ((key, v) # ps) oss =
     (case (curl_easy_escape A key, curl_easy_escape A v) of
        (Some k', Some v') \<Rightarrow>
          query_loop A False ps (oss @ (if first then [] else ''&'') @ k' @ ''='' @ v')
      | _ \<Rightarrow> Inl ''URL encoding failed'')"

definition server_url :: "rest_client \<Rightarrow> string" where
  "server_url c =
     rc_scheme c @ ''://'' @ rc_host c @ (if rc_port c > 0 then '':'' @ to_string (rc_port c) else []) @
     (if rc_path c \<noteq> [] then (if hd (rc_path c) \<noteq> CHR ''/'' then ''/'' else []) @ rc_path c else [])"

definition build_url :: "curl_api \<Rightarrow> rest_client \<Rightarrow> (string \<times> string) list \<Rightarrow> string + string" where
  "build_url A c ps =
     (if rc_host c = [] then Inl ''setServer() must be called first.''
      else if ps = [] then Inr (server_url c)
      else query_loop A True ps (server_url c @ ''?''))"

definition make_request :: "rest_client \<Rightarrow> string \<Rightarrow> http_method \<Rightarrow> curl_request" where
  "make_request c url m =
     \<lparr>cr_url = url, cr_method = m, cr_timeout_ms = rc_timeout_ms c, cr_headers = build_header_lines (rc_headers c),
      cr_verify_peer = (if rc_ignore_ssl c then 0 else 1), cr_verify_host = (if rc_ignore_ssl c then 0 else 2)\<rparr>"

text \<open>The response that comes of an answer.\<close>

definition finish_response :: "curl_answer \<Rightarrow> string \<times> response \<Rightarrow> response" where
  "finish_response a st =
     (case st of (body, resp) \<Rightarrow>
        (case ca_error a of
           Some (n, msg) \<Rightarrow> resp\<lparr>rs_error := msg, rs_curl_error := n\<rparr>
         | None \<Rightarrow> resp\<lparr>rs_raw_status := ca_status a, rs_status := to_http_status (ca_status a), rs_body := body\<rparr>))"

text \<open>The outer \<open>None\<close> is what is undefined, \<open>Inl\<close> an exception.\<close>

definition rest_get :: "curl_api \<Rightarrow> rest_client \<Rightarrow> (string \<times> string) list \<Rightarrow> (string + response) option" where
  "rest_get A c ps =
     (case build_url A c ps of
        Inl e \<Rightarrow> Some (Inl e)
      | Inr url \<Rightarrow>
          (let a = curl_easy_perform A (make_request c url Http_get)
           in map_option (\<lambda>st. Inr (finish_response a st)) (deliver_events header_callback_get (ca_events a) ([], new_response))))"

definition rest_post :: "curl_api \<Rightarrow> rest_client \<Rightarrow> string \<Rightarrow> (string + response) option" where
  "rest_post A c body_str =
     (case build_url A c [] of
        Inl e \<Rightarrow> Some (Inl e)
      | Inr url \<Rightarrow>
          (let a = curl_easy_perform A (make_request c url (Http_post body_str))
           in map_option (\<lambda>st. Inr (finish_response a st)) (deliver_events header_callback_post (ca_events a) ([], new_response))))"

text \<open>The versions that do not throw keep the caller's response and put the text of the exception in it.\<close>

definition without_exception :: "(string + response) option \<Rightarrow> response \<Rightarrow> (result_code \<times> response) option" where
  "without_exception r out_resp =
     map_option (\<lambda>x. case x of Inr resp \<Rightarrow> (classify resp, resp)
                   | Inl e \<Rightarrow> (Rc_unknown_error, out_resp\<lparr>rs_error := e\<rparr>)) r"

definition rest_get_noexcept :: "curl_api \<Rightarrow> rest_client \<Rightarrow> (string \<times> string) list \<Rightarrow> response \<Rightarrow>
    (result_code \<times> response) option" where
  "rest_get_noexcept A c ps out_resp = without_exception (rest_get A c ps) out_resp"

definition rest_post_noexcept :: "curl_api \<Rightarrow> rest_client \<Rightarrow> string \<Rightarrow> response \<Rightarrow> (result_code \<times> response) option" where
  "rest_post_noexcept A c body_str out_resp = without_exception (rest_post A c body_str) out_resp"

section \<open>The query comes back\<close>

text \<open>What a server does with the query: it splits at the ampersands, then at the first equals sign, and
  undoes the percent encoding. The encoding leaves neither of the two characters.\<close>

definition decode_query :: "(string \<Rightarrow> string) \<Rightarrow> string \<Rightarrow> (string \<times> string) list" where
  "decode_query unescape q =
     map (\<lambda>s. (unescape (takeWhile (\<lambda>c. c \<noteq> CHR ''='') s), unescape (drop 1 (dropWhile (\<lambda>c. c \<noteq> CHR ''='') s))))
       (split_on ''&'' q)"

definition query_of :: "string \<Rightarrow> string" where
  "query_of url = drop 1 (dropWhile (\<lambda>c. c \<noteq> CHR ''?'') url)"

definition escape_laws :: "curl_api \<Rightarrow> (string \<Rightarrow> string) \<Rightarrow> bool" where
  "escape_laws A unescape \<longleftrightarrow>
     (\<forall>s t. curl_easy_escape A s = Some t \<longrightarrow> CHR ''&'' \<notin> set t \<and> CHR ''='' \<notin> set t \<and> unescape t = s)"

lemma query_loop_Inr:
  "query_loop A first ps oss = Inr r \<Longrightarrow> ps \<noteq> [] \<Longrightarrow>
   \<exists>qs. list_all2 (\<lambda>(k, v) q. \<exists>k' v'. curl_easy_escape A k = Some k' \<and> curl_easy_escape A v = Some v' \<and>
            q = k' @ ''='' @ v') ps qs \<and>
        r = oss @ (if first then [] else ''&'') @ join qs ''&''"
proof (induction ps arbitrary: first oss)
  case (Cons p ps)
  obtain k v where p: "p = (k, v)" by (cases p)
  obtain k' v' where e: "curl_easy_escape A k = Some k'" "curl_easy_escape A v = Some v'"
    using Cons.prems(1) p by (auto split: option.splits)
  let ?q = "k' @ ''='' @ v'"
  have step: "query_loop A False ps (oss @ (if first then [] else ''&'') @ ?q) = Inr r"
    using Cons.prems(1) p e by simp
  show ?case
  proof (cases "ps = []")
    case True
    then show ?thesis using step p e by (intro exI [of _ "[?q]"]) auto
  next
    case False
    from Cons.IH [OF step False] obtain qs where qs:
      "list_all2 (\<lambda>(k, v) q. \<exists>k' v'. curl_easy_escape A k = Some k' \<and> curl_easy_escape A v = Some v' \<and>
            q = k' @ ''='' @ v') ps qs"
      "r = (oss @ (if first then [] else ''&'') @ ?q) @ ''&'' @ join qs ''&''" by auto
    then have "qs \<noteq> []" using False by auto
    then show ?thesis using qs p e by (intro exI [of _ "?q # qs"]) (cases qs; auto)
  qed
qed simp

text \<open>C39: A server that splits the query of a built URL and undoes the percent encoding gets back exactly
  the parameters of the call, in order and with repetitions, whatever characters they hold.\<close>

theorem query_parameters_arrive:
  assumes "escape_laws A unescape" "build_url A c ps = Inr url" "ps \<noteq> []" "CHR ''?'' \<notin> set (server_url c)"
  shows "decode_query unescape (query_of url) = ps"
proof -
  from assms(2,3) have "query_loop A True ps (server_url c @ ''?'') = Inr url"
    by (auto simp: build_url_def split: if_splits)
  from query_loop_Inr [OF this assms(3)] obtain qs where qs:
    "list_all2 (\<lambda>(k, v) q. \<exists>k' v'. curl_easy_escape A k = Some k' \<and> curl_easy_escape A v = Some v' \<and>
          q = k' @ ''='' @ v') ps qs"
    "url = server_url c @ CHR ''?'' # join qs ''&''" by auto
  have "dropWhile (\<lambda>c. c \<noteq> CHR ''?'') url = CHR ''?'' # join qs ''&''"
    unfolding qs(2) by (rule dropWhile_not_in [OF assms(4)])
  then have q: "query_of url = join qs ''&''" by (simp add: query_of_def)
  have "list_all (\<lambda>q. CHR ''&'' \<notin> set q) qs \<and>
      map (\<lambda>s. (unescape (takeWhile (\<lambda>c. c \<noteq> CHR ''='') s), unescape (drop 1 (dropWhile (\<lambda>c. c \<noteq> CHR ''='') s)))) qs = ps"
    using qs(1)
  proof (induction ps qs rule: list_all2_induct)
    case (Cons p ps q qs)
    then obtain k v k' v' where e: "p = (k, v)" "curl_easy_escape A k = Some k'" "curl_easy_escape A v = Some v'"
      "q = k' @ CHR ''='' # v'" by (cases p) auto
    then have "CHR ''='' \<notin> set k'" "CHR ''&'' \<notin> set k'" "CHR ''&'' \<notin> set v'" "unescape k' = k" "unescape v' = v"
      using assms(1) by (auto simp: escape_laws_def)
    then show ?case using Cons.IH e by (simp add: takeWhile_not_in dropWhile_not_in)
  qed simp
  moreover have "qs \<noteq> []" using qs(1) assms(3) by auto
  ultimately show ?thesis by (simp add: decode_query_def q split_on_join parts_of_def)
qed

section \<open>Results\<close>

text \<open>The version that does not throw says \<open>ok\<close> exactly for an answer without error and a status 2xx.\<close>

lemma get_ok_iff:
  assumes "build_url A c ps = Inr url" "a = curl_easy_perform A (make_request c url Http_get)"
    "deliver_events header_callback_get (ca_events a) ([], new_response) = Some (body, resp)"
    "\<forall>n msg. ca_error a = Some (n, msg) \<longrightarrow> msg \<noteq> []" "rs_error resp = []"
  shows "\<exists>r. rest_get_noexcept A c ps res = Some (classify r, r) \<and>
    (classify r = Rc_ok \<longleftrightarrow> ca_error a = None \<and> 200 \<le> ca_status a \<and> ca_status a < 300)"
  using assms by (auto simp: rest_get_noexcept_def rest_get_def without_exception_def finish_response_def
    Let_def classify_ok is_success_def split: option.splits)

lemma length_erase_last: "n \<le> length s \<Longrightarrow> length s - n \<le> length (erase_last n c s)"
  by (simp add: erase_last_def)

text \<open>The two callbacks agree on every line of at least two characters that does not consist of carriage
  returns; on shorter ones, such as a bare newline, the one for GET is undefined.\<close>

lemma header_callbacks_agree:
  "length buffer \<ge> 2 \<Longrightarrow> erase_last 2 (CHR 0x0D) buffer \<noteq> [] \<Longrightarrow>
   header_callback_get buffer resp = header_callback_post buffer resp"
  by (auto simp: header_callback_get_def header_callback_post_def Let_def Suc_le_eq)

lemma bare_newline_undefined: "header_callback_get [CHR 0x0A] resp = None"
  by (simp add: header_callback_get_def)

text \<open>A line break in a header value starts a header of its own.\<close>

lemma header_injection:
  "build_header_lines [(''X'', ''1'' @ [CHR 0x0D, CHR 0x0A] @ ''Host: other'')] =
   [''X: 1'' @ [CHR 0x0D, CHR 0x0A] @ ''Host: other'']"
  by (simp add: build_header_lines_def)

section \<open>Percent encoding\<close>

text \<open>The encoding of RFC 3986 satisfies the law.\<close>

definition hex_value :: "char \<Rightarrow> nat" where
  "hex_value c = (if isdigit c then code c - 48 else code c - 55)"

definition rfc_char :: "char \<Rightarrow> string" where
  "rfc_char c =
     (if isalnum c \<or> c \<in> set ''-._~'' then [c]
      else [CHR ''%'', ''0123456789ABCDEF'' ! (code c div 16), ''0123456789ABCDEF'' ! (code c mod 16)])"

fun rfc_unescape :: "string \<Rightarrow> string" where
  "rfc_unescape (c # a # b # s) =
     (if c = CHR ''%'' then char_of (16 * hex_value a + hex_value b) # rfc_unescape s
      else c # rfc_unescape (a # b # s))"
| "rfc_unescape s = s"

definition rfc_curl :: curl_api where
  "rfc_curl = \<lparr>curl_global_init = True, curl_easy_init = True, curl_easy_escape = (\<lambda>s. Some (concat (map rfc_char s))),
     curl_easy_perform = (\<lambda>_. \<lparr>ca_events = [], ca_error = None, ca_status = 200\<rparr>)\<rparr>"

lemma hex_digits:
  assumes "n < 16"
  shows "hex_value (''0123456789ABCDEF'' ! n) = n" "isalnum (''0123456789ABCDEF'' ! n)"
proof -
  have "list_all (\<lambda>n. hex_value (''0123456789ABCDEF'' ! n) = n \<and> isalnum (''0123456789ABCDEF'' ! n)) [0..<16]"
    by code_simp
  then show "hex_value (''0123456789ABCDEF'' ! n) = n" "isalnum (''0123456789ABCDEF'' ! n)"
    using assms by (auto simp: list_all_iff)
qed

lemma rfc_unescape_plain: "c \<noteq> CHR ''%'' \<Longrightarrow> rfc_unescape (c # s) = c # rfc_unescape s"
  by (cases s; cases "tl s") auto

lemma code_lt_256: "code c < 256"
  using of_char_mod_256 [of c, where 'a = nat] by (metis mod_less_divisor zero_less_numeral)

lemma high_nibble: "code c div 16 < 16"
  by (rule less_mult_imp_div_less) (use code_lt_256 [of c] in simp)

lemma low_nibble: "code c mod 16 < 16"
  by simp

lemma rfc_char_unescape: "rfc_unescape (rfc_char c @ s) = c # rfc_unescape s"
proof (cases "isalnum c \<or> c \<in> set ''-._~''")
  case True
  then have "c \<noteq> CHR ''%''" by (auto simp: isalnum_def isdigit_def isupper_def islower_def)
  then show ?thesis using True by (simp add: rfc_char_def rfc_unescape_plain del: list.set)
next
  case False
  note nibbles = high_nibble [of c] low_nibble [of c]
  then have "rfc_unescape (rfc_char c @ s) = char_of (16 * (code c div 16) + code c mod 16) # rfc_unescape s"
    using False nibbles [THEN hex_digits(1)] by (simp add: rfc_char_def del: list.set)
  then show ?thesis by simp
qed

lemma rfc_char_plain: "x \<in> set (rfc_char c) \<Longrightarrow> x \<noteq> CHR ''&'' \<and> x \<noteq> CHR ''=''"
proof -
  have *: "isalnum x \<Longrightarrow> x \<noteq> CHR ''&'' \<and> x \<noteq> CHR ''=''" for x
    by (auto simp: isalnum_def isdigit_def isupper_def islower_def)
  note nibbles = high_nibble [of c] low_nibble [of c]
  note h = nibbles [THEN hex_digits(2), THEN *]
  assume "x \<in> set (rfc_char c)"
  then show ?thesis using h * by (auto simp: rfc_char_def split: if_splits simp del: nth_Cons_numeral)
qed

lemma rfc_unescape_escape: "rfc_unescape (concat (map rfc_char s)) = s"
  by (induction s) (simp_all add: rfc_char_unescape)

interpretation percent: codec "\<lambda>_. True" "\<lambda>s. concat (map rfc_char s)" "\<lambda>t. Some (rfc_unescape t)"
  by unfold_locales (simp add: rfc_unescape_escape)

lemma rfc_laws: "escape_laws rfc_curl rfc_unescape"
proof -
  have "rfc_unescape (concat (map rfc_char s)) = s" for s using percent.decode_encode [of s] by simp
  then show ?thesis using rfc_char_plain by (fastforce simp: escape_laws_def rfc_curl_def)
qed

definition demo_client :: rest_client where
  "demo_client = \<lparr>rc_scheme = ''https'', rc_host = ''api.example.org'', rc_port = 8443, rc_path = ''v1/items'',
     rc_headers = [], rc_timeout_ms = 30000, rc_ignore_ssl = False\<rparr>"

lemma demo_server_url: "server_url demo_client = ''https://api.example.org:8443/v1/items''"
proof -
  have "digit_char 8 = CHR ''8''" "digit_char 4 = CHR ''4''" "digit_char 3 = CHR ''3''" by code_simp+
  then show ?thesis by (simp add: server_url_def demo_client_def to_string_def show_nat.simps)
qed

lemma demo_url: "build_url rfc_curl demo_client [(''q'', ''a&b=c''), (''n'', '''')] =
   Inr ''https://api.example.org:8443/v1/items?q=a%26b%3Dc&n=''"
  unfolding build_url_def demo_server_url
  by (simp add: demo_client_def rfc_curl_def rfc_char_def isalnum_def isdigit_def isupper_def islower_def)

theorem query_parameters_arrive_witness:
  "decode_query rfc_unescape (query_of ''https://api.example.org:8443/v1/items?q=a%26b%3Dc&n='') =
   [(''q'', ''a&b=c''), (''n'', '''')]"
  by (rule query_parameters_arrive [OF rfc_laws demo_url]) (simp_all add: demo_server_url)

end
