(* ===== verification/Ftp_Client.thy ===== *)
theory Ftp_Client
  imports Cpp_Std "HOL-Library.Signed_Division"
begin

text \<open>
  \<open>network/ftp/ftp_client.cpp\<close>: the listener that thins out the progress reports of a transfer, the
  callbacks for libcurl, and the two clients, whose operations are stubs that only leave an error text.
  Times are in nanoseconds of the steady clock. The product with 100 is assumed to fit 64 bits.
\<close>

section \<open>The filtered listener\<close>

text \<open>\<open>fl_target\<close>: whether there is a listener to forward to, owned or not.\<close>

record filtered_listener =
  fl_target :: bool
  fl_min_percent :: int
  fl_min_ms :: int
  fl_last_dl :: int
  fl_last_ul :: int
  fl_last_forward :: int

definition new_listener :: "bool \<Rightarrow> int \<Rightarrow> int \<Rightarrow> int \<Rightarrow> filtered_listener" where
  "new_listener target min_percent min_ms now =
     \<lparr>fl_target = target, fl_min_percent = min_percent, fl_min_ms = min_ms, fl_last_dl = - 1, fl_last_ul = - 1,
      fl_last_forward = now\<rparr>"

text \<open>The constructor without arguments.\<close>

definition default_listener :: "int \<Rightarrow> filtered_listener" where
  "default_listener now = new_listener False 1 100 now"

definition set_target :: "bool \<Rightarrow> int \<Rightarrow> filtered_listener \<Rightarrow> filtered_listener" where
  "set_target target now fl =
     fl\<lparr>fl_target := target, fl_last_dl := - 1, fl_last_ul := - 1, fl_last_forward := now\<rparr>"

definition set_policy :: "int \<Rightarrow> int \<Rightarrow> filtered_listener \<Rightarrow> filtered_listener" where
  "set_policy min_percent min_ms fl = fl\<lparr>fl_min_percent := min_percent, fl_min_ms := min_ms\<rparr>"

text \<open>The check of one direction: whether the report is due, and the new last percentage.\<close>

definition percent_check :: "int \<Rightarrow> int \<Rightarrow> int \<Rightarrow> int \<Rightarrow> bool \<times> int" where
  "percent_check min_percent last_percent done_now size_total =
     (if size_total > 0
      then let pct = (done_now * 100) sdiv size_total
           in if last_percent < 0 \<or> pct \<ge> last_percent + min_percent then (True, pct) else (False, last_percent)
      else (False, last_percent))"

definition on_progress :: "int \<Rightarrow> int \<Rightarrow> int \<Rightarrow> int \<Rightarrow> int \<Rightarrow> filtered_listener \<Rightarrow> bool \<times> filtered_listener" where
  "on_progress now dlnow dltotal ulnow ultotal fl =
     (if \<not> fl_target fl then (False, fl)
      else let elapsed_ms = (now - fl_last_forward fl) sdiv 1000000;
               (dl_due, dl) = percent_check (fl_min_percent fl) (fl_last_dl fl) dlnow dltotal;
               (ul_due, ul) = percent_check (fl_min_percent fl) (fl_last_ul fl) ulnow ultotal;
               fl1 = fl\<lparr>fl_last_dl := dl, fl_last_ul := ul\<rparr>
           in if dl_due \<or> ul_due \<or> elapsed_ms \<ge> fl_min_ms fl then (True, fl1\<lparr>fl_last_forward := now\<rparr>)
              else (False, fl1))"

section \<open>The callbacks and the clients\<close>

record ftp_client_base =
  fc_host_name :: string
  fc_port :: int
  fc_user_name :: string
  fc_password :: string
  fc_last_error :: string
  fc_listener :: "filtered_listener option"

definition new_ftp_client :: ftp_client_base where
  "new_ftp_client = \<lparr>fc_host_name = [], fc_port = 0, fc_user_name = [], fc_password = [], fc_last_error = [],
     fc_listener = None\<rparr>"

definition set_progress_listener :: "filtered_listener \<Rightarrow> ftp_client_base \<Rightarrow> ftp_client_base" where
  "set_progress_listener l c = c\<lparr>fc_listener := Some l\<rparr>"

definition remove_progress_listener :: "ftp_client_base \<Rightarrow> ftp_client_base" where
  "remove_progress_listener c = c\<lparr>fc_listener := None\<rparr>"

text \<open>libcurl gives the totals first; the listener takes the current values first. The result 0 lets the
  transfer go on.\<close>

definition progress_callback_internal :: "int \<Rightarrow> int \<Rightarrow> int \<Rightarrow> int \<Rightarrow> int \<Rightarrow> ftp_client_base \<Rightarrow>
    int \<times> bool \<times> ftp_client_base" where
  "progress_callback_internal now dltotal dlnow ultotal ulnow c =
     (case fc_listener c of
        None \<Rightarrow> (0, False, c)
      | Some l \<Rightarrow> (let (fwd, l1) = on_progress now dlnow dltotal ulnow ultotal l
                  in (0, fwd, c\<lparr>fc_listener := Some l1\<rparr>)))"

text \<open>The stream to write to and the stream to read from may be null.\<close>

definition ftp_write_callback :: "string \<Rightarrow> string option \<Rightarrow> nat \<times> string option" where
  "ftp_write_callback contents os =
     (case os of Some written \<Rightarrow> (length contents, Some (written @ contents)) | None \<Rightarrow> (length contents, None))"

definition ftp_read_callback :: "nat \<Rightarrow> string option \<Rightarrow> nat \<times> string \<times> string option" where
  "ftp_read_callback room is =
     (case is of Some rest \<Rightarrow> (min room (length rest), take room rest, Some (drop room rest)) | None \<Rightarrow> (0, [], None))"

definition connect_stub :: "string \<Rightarrow> string \<Rightarrow> int \<Rightarrow> string \<Rightarrow> string \<Rightarrow> ftp_client_base \<Rightarrow> bool \<times> ftp_client_base" where
  "connect_stub class_name host p user pass c =
     (False, c\<lparr>fc_host_name := host, fc_port := p, fc_user_name := user, fc_password := pass,
               fc_last_error := class_name @ ''::connect() not implemented in this stub.''\<rparr>)"

definition stub_error :: "string \<Rightarrow> string \<Rightarrow> string \<Rightarrow> ftp_client_base \<Rightarrow> ftp_client_base" where
  "stub_error class_name method detail c =
     c\<lparr>fc_last_error := class_name @ ''::'' @ method @ ''() not implemented in this stub. '' @ detail\<rparr>"

definition ftp_connect :: "string \<Rightarrow> int \<Rightarrow> string \<Rightarrow> string \<Rightarrow> ftp_client_base \<Rightarrow> bool \<times> ftp_client_base" where
  "ftp_connect host p user pass c = connect_stub ''ftp_client'' host p user pass c"

definition ftp_upload :: "string \<Rightarrow> string \<Rightarrow> ftp_client_base \<Rightarrow> bool \<times> ftp_client_base" where
  "ftp_upload local_file remote_file c =
     (False, stub_error ''ftp_client'' ''upload'' (''remote_file: '' @ remote_file @ '', local_file: '' @ local_file) c)"

definition ftp_download :: "string \<Rightarrow> string \<Rightarrow> ftp_client_base \<Rightarrow> bool \<times> ftp_client_base" where
  "ftp_download remote_file local_file c =
     (False, stub_error ''ftp_client'' ''download'' (''remote_file: '' @ remote_file @ '', local_file: '' @ local_file) c)"

definition ftp_delete_file :: "string \<Rightarrow> ftp_client_base \<Rightarrow> bool \<times> ftp_client_base" where
  "ftp_delete_file remote_file c = (False, stub_error ''ftp_client'' ''delete_file'' (''remote_file: '' @ remote_file) c)"

definition ftp_list_directory :: "string \<Rightarrow> ftp_client_base \<Rightarrow> string list \<times> ftp_client_base" where
  "ftp_list_directory path c = ([], stub_error ''ftp_client'' ''list_directory'' (''path: '' @ path) c)"

definition ftp_create_directory :: "string \<Rightarrow> ftp_client_base \<Rightarrow> bool \<times> ftp_client_base" where
  "ftp_create_directory path c = (False, stub_error ''ftp_client'' ''create_directory'' (''path: '' @ path) c)"

definition ftp_remove_directory :: "string \<Rightarrow> ftp_client_base \<Rightarrow> bool \<times> ftp_client_base" where
  "ftp_remove_directory path c = (False, stub_error ''ftp_client'' ''remove_directory'' (''path: '' @ path) c)"

definition sftp_connect :: "string \<Rightarrow> int \<Rightarrow> string \<Rightarrow> string \<Rightarrow> ftp_client_base \<Rightarrow> bool \<times> ftp_client_base" where
  "sftp_connect host p user pass c = connect_stub ''sftp_client'' host p user pass c"

definition sftp_upload :: "string \<Rightarrow> string \<Rightarrow> ftp_client_base \<Rightarrow> bool \<times> ftp_client_base" where
  "sftp_upload local_file remote_file c =
     (False, stub_error ''sftp_client'' ''upload'' (''remote_file: '' @ remote_file @ '', local_file: '' @ local_file) c)"

definition sftp_download :: "string \<Rightarrow> string \<Rightarrow> ftp_client_base \<Rightarrow> bool \<times> ftp_client_base" where
  "sftp_download remote_file local_file c =
     (False, stub_error ''sftp_client'' ''download'' (''remote_file: '' @ remote_file @ '', local_file: '' @ local_file) c)"

definition sftp_delete_file :: "string \<Rightarrow> ftp_client_base \<Rightarrow> bool \<times> ftp_client_base" where
  "sftp_delete_file remote_file c = (False, stub_error ''sftp_client'' ''delete_file'' (''remote_file: '' @ remote_file) c)"

definition sftp_list_directory :: "string \<Rightarrow> ftp_client_base \<Rightarrow> string list \<times> ftp_client_base" where
  "sftp_list_directory path c = ([], stub_error ''sftp_client'' ''list_directory'' (''path: '' @ path) c)"

definition sftp_create_directory :: "string \<Rightarrow> ftp_client_base \<Rightarrow> bool \<times> ftp_client_base" where
  "sftp_create_directory path c = (False, stub_error ''sftp_client'' ''create_directory'' (''path: '' @ path) c)"

definition sftp_remove_directory :: "string \<Rightarrow> ftp_client_base \<Rightarrow> bool \<times> ftp_client_base" where
  "sftp_remove_directory path c = (False, stub_error ''sftp_client'' ''remove_directory'' (''path: '' @ path) c)"

section \<open>How many reports get through\<close>

record report =
  rp_time :: int
  rp_dlnow :: int
  rp_dltotal :: int
  rp_ulnow :: int
  rp_ultotal :: int

fun forwarded :: "report list \<Rightarrow> filtered_listener \<Rightarrow> nat" where
  "forwarded [] fl = 0"
| "forwarded (r # rs) fl =
     (let (fwd, fl1) = on_progress (rp_time r) (rp_dlnow r) (rp_dltotal r) (rp_ulnow r) (rp_ultotal r) fl
      in (if fwd then 1 else 0) + forwarded rs fl1)"

definition sane_report :: "report \<Rightarrow> bool" where
  "sane_report r \<longleftrightarrow> 0 \<le> rp_dlnow r \<and> rp_dlnow r \<le> rp_dltotal r \<and> 0 \<le> rp_ulnow r \<and> rp_ulnow r \<le> rp_ultotal r"

text \<open>The reports that one direction can still make due.\<close>

definition steps_left :: "int \<Rightarrow> int \<Rightarrow> int" where
  "steps_left p last_percent = (if last_percent < 0 then 1 + 100 div p else 100 div p - last_percent div p)"

lemma sdiv_nonneg: "0 \<le> a \<Longrightarrow> 0 < b \<Longrightarrow> a sdiv b = a div b" for a b :: int
  by (cases "a = 0") (simp_all add: signed_divide_int_def sgn_if)

lemma percent_bound: "n \<le> t \<Longrightarrow> 0 < t \<Longrightarrow> n * 100 div t \<le> 100" for n t :: int
  using zdiv_mono1 [of "n * 100" "t * 100" t] by simp

lemma percent_check_steps:
  assumes "percent_check p lp n t = (due, lp')" "0 < p" "- 1 \<le> lp" "lp \<le> 100" "0 \<le> n" "n \<le> t"
  shows "- 1 \<le> lp' \<and> lp' \<le> 100 \<and> steps_left p lp' + (if due then 1 else 0) \<le> steps_left p lp"
proof (cases "0 < t \<and> (lp < 0 \<or> (n * 100) sdiv t \<ge> lp + p)")
  case True
  let ?q = "(n * 100) div t"
  have q: "(n * 100) sdiv t = ?q" using True assms(5) by (simp add: sdiv_nonneg)
  have "0 \<le> ?q" using True assms(5) by (simp add: pos_imp_zdiv_nonneg_iff)
  moreover have "?q \<le> 100" using True assms(6) percent_bound by simp
  moreover have "lp < 0 \<or> lp div p + 1 \<le> ?q div p"
  proof (cases "lp < 0")
    case False
    then have "lp + p \<le> ?q" using True q by auto
    then have "(lp + p) div p \<le> ?q div p" using assms(2) by (intro zdiv_mono1)
    moreover have "(lp + p) div p = lp div p + 1" using assms(2) by (intro div_add_self2) simp
    ultimately show ?thesis by simp
  qed simp
  moreover have "due" "lp' = ?q" using True assms(1) q by (auto simp: percent_check_def)
  moreover have "0 \<le> ?q div p" using calculation(1) assms(2) by (simp add: pos_imp_zdiv_nonneg_iff)
  ultimately show ?thesis by (auto simp: steps_left_def)
next
  case False
  then have "\<not> due" "lp' = lp" using assms(1) by (auto simp: percent_check_def Let_def split: if_splits)
  then show ?thesis using assms(3,4) by simp
qed

lemma steps_left_nonneg: "0 < p \<Longrightarrow> lp \<le> 100 \<Longrightarrow> 0 \<le> steps_left p lp"
  by (simp add: steps_left_def zdiv_mono1 pos_imp_zdiv_nonneg_iff add_nonneg_nonneg)

definition listener_room :: "int \<Rightarrow> filtered_listener \<Rightarrow> int" where
  "listener_room t fl = steps_left (fl_min_percent fl) (fl_last_dl fl) + steps_left (fl_min_percent fl) (fl_last_ul fl) +
     (t - fl_last_forward fl) div (fl_min_ms fl * 1000000)"

lemma time_step:
  assumes "0 < m" "l \<le> now" "now \<le> t" "fwd \<Longrightarrow> m \<le> (now - l) div 1000000"
  shows "(t - (now :: int)) div (m * 1000000) + (if fwd then 1 else 0) \<le> (t - l) div (m * 1000000)"
proof (cases fwd)
  case True
  have "m * 1000000 \<le> (now - l) div 1000000 * 1000000" using assms(4) [OF True] by simp
  also have "\<dots> \<le> now - l" by (simp add: minus_mod_eq_div_mult [symmetric])
  finally have "m * 1000000 \<le> now - l" .
  then have "(t - now + m * 1000000) div (m * 1000000) \<le> (t - l) div (m * 1000000)"
    using assms(1) by (intro zdiv_mono1) auto
  moreover have "(t - now + m * 1000000) div (m * 1000000) = (t - now) div (m * 1000000) + 1"
    using assms(1) by (intro div_add_self2) simp
  ultimately show ?thesis using True by simp
next
  case False
  then show ?thesis using assms(1-3) by (simp add: zdiv_mono1)
qed

text \<open>Reports that come in order, and each direction between nothing and its total.\<close>

fun in_order :: "int \<Rightarrow> report list \<Rightarrow> int \<Rightarrow> bool" where
  "in_order l [] t \<longleftrightarrow> l \<le> t"
| "in_order l (r # rs) t \<longleftrightarrow> l \<le> rp_time r \<and> in_order (rp_time r) rs t \<and> sane_report r"

lemma in_order_le: "in_order l rs t \<Longrightarrow> l \<le> t"
  by (induction rs arbitrary: l) force+

lemma in_order_mono: "in_order l rs t \<Longrightarrow> l' \<le> l \<Longrightarrow> in_order l' rs t"
  by (cases rs) auto

definition listener_ok :: "filtered_listener \<Rightarrow> bool" where
  "listener_ok fl \<longleftrightarrow> 0 < fl_min_percent fl \<and> 0 < fl_min_ms fl \<and> - 1 \<le> fl_last_dl fl \<and> fl_last_dl fl \<le> 100 \<and>
     - 1 \<le> fl_last_ul fl \<and> fl_last_ul fl \<le> 100"

lemma report_room:
  assumes "listener_ok fl" "fl_last_forward fl \<le> rp_time r" "rp_time r \<le> t" "sane_report r"
    and "on_progress (rp_time r) (rp_dlnow r) (rp_dltotal r) (rp_ulnow r) (rp_ultotal r) fl = (fwd, fl1)"
  shows "listener_ok fl1 \<and> fl_last_forward fl1 \<le> rp_time r \<and>
    listener_room t fl1 + (if fwd then 1 else 0) \<le> listener_room t fl"
proof (cases "fl_target fl")
  case False
  then show ?thesis using assms by (simp add: on_progress_def)
next
  case True
  let ?p = "fl_min_percent fl" and ?m = "fl_min_ms fl" and ?l = "fl_last_forward fl" and ?n = "rp_time r"
  obtain dd dl where d: "percent_check ?p (fl_last_dl fl) (rp_dlnow r) (rp_dltotal r) = (dd, dl)" by (metis prod.exhaust)
  obtain ud ul where u: "percent_check ?p (fl_last_ul fl) (rp_ulnow r) (rp_ultotal r) = (ud, ul)" by (metis prod.exhaust)
  have D: "- 1 \<le> dl \<and> dl \<le> 100 \<and> steps_left ?p dl + (if dd then 1 else 0) \<le> steps_left ?p (fl_last_dl fl)"
    by (rule percent_check_steps [OF d]) (use assms in \<open>auto simp: listener_ok_def sane_report_def\<close>)
  have U: "- 1 \<le> ul \<and> ul \<le> 100 \<and> steps_left ?p ul + (if ud then 1 else 0) \<le> steps_left ?p (fl_last_ul fl)"
    by (rule percent_check_steps [OF u]) (use assms in \<open>auto simp: listener_ok_def sane_report_def\<close>)
  have e: "(?n - ?l) sdiv 1000000 = (?n - ?l) div 1000000" using assms(2) by (simp add: sdiv_nonneg)
  define td where "td \<longleftrightarrow> ?m \<le> (?n - ?l) div 1000000"
  have T: "(t - ?n) div (?m * 1000000) + (if td then 1 else 0) \<le> (t - ?l) div (?m * 1000000)"
    by (rule time_step) (use assms in \<open>auto simp: listener_ok_def td_def\<close>)
  have r: "fwd = (dd \<or> ud \<or> td)"
    "fl1 = (if dd \<or> ud \<or> td then fl\<lparr>fl_last_dl := dl, fl_last_ul := ul, fl_last_forward := ?n\<rparr>
            else fl\<lparr>fl_last_dl := dl, fl_last_ul := ul\<rparr>)"
    using assms(5) True d u e by (auto simp: on_progress_def Let_def td_def split: if_splits)
  show ?thesis using D U T assms(1,2) r
    by (cases dd; cases ud; cases td) (simp_all add: listener_room_def listener_ok_def)
qed

lemma forwarded_room:
  "listener_ok fl \<Longrightarrow> fl_last_forward fl \<le> l \<Longrightarrow> in_order l rs t \<Longrightarrow> int (forwarded rs fl) \<le> listener_room t fl"
proof (induction rs arbitrary: fl l)
  case Nil
  then have "0 \<le> (t - fl_last_forward fl) div (fl_min_ms fl * 1000000)"
    by (simp add: listener_ok_def pos_imp_zdiv_nonneg_iff)
  then show ?case using Nil steps_left_nonneg [of "fl_min_percent fl" "fl_last_dl fl"]
      steps_left_nonneg [of "fl_min_percent fl" "fl_last_ul fl"]
    by (simp add: listener_room_def listener_ok_def)
next
  case (Cons r rs)
  obtain fwd fl1 where o: "on_progress (rp_time r) (rp_dlnow r) (rp_dltotal r) (rp_ulnow r) (rp_ultotal r) fl = (fwd, fl1)"
    by (metis prod.exhaust)
  have i: "in_order (rp_time r) rs t" "sane_report r" "fl_last_forward fl \<le> rp_time r" using Cons.prems by auto
  from report_room [OF Cons.prems(1) i(3) in_order_le [OF i(1)] i(2) o] Cons.IH [of fl1 "rp_time r"] i(1)
  show ?case by (cases fwd) (auto simp: o)
qed

text \<open>C40: A filtered listener forwards few reports, however many arrive: in a transfer that lasts \<open>t\<close>
  nanoseconds from the setting of the target, at most one report for each step of the percentage in each
  direction, and one for each minimal interval of time.\<close>

theorem listener_forwards_few:
  assumes "in_order t0 rs (t0 + t)" "0 < p" "0 < m"
  shows "int (forwarded rs (new_listener target p m t0)) \<le> 2 * (1 + 100 div p) + t div (m * 1000000)"
  using forwarded_room [of "new_listener target p m t0" t0 rs "t0 + t"] assms
  by (simp add: new_listener_def listener_ok_def listener_room_def steps_left_def)

definition demo_reports :: "report list" where
  "demo_reports = [\<lparr>rp_time = 10, rp_dlnow = 0, rp_dltotal = 0, rp_ulnow = 0, rp_ultotal = 0\<rparr>,
     \<lparr>rp_time = 20, rp_dlnow = 500, rp_dltotal = 1000, rp_ulnow = 0, rp_ultotal = 0\<rparr>,
     \<lparr>rp_time = 900000000, rp_dlnow = 1000, rp_dltotal = 1000, rp_ulnow = 0, rp_ultotal = 0\<rparr>]"

theorem listener_forwards_few_witness: "int (forwarded demo_reports (new_listener True 50 100 0)) \<le> 16"
  using listener_forwards_few [of 0 demo_reports 1000000000 50 100 True]
  by (simp add: demo_reports_def sane_report_def)

text \<open>The last percentages stay when the next transfer begins: after one full download no percentage of the
  next is ever due, and its reports come through by time alone.\<close>

lemma second_transfer_by_time_only:
  assumes "fl_last_dl fl = 100" "0 < fl_min_percent fl" "0 \<le> n" "n \<le> t"
  shows "percent_check (fl_min_percent fl) (fl_last_dl fl) n t = (False, 100)"
proof -
  have "(n * 100) sdiv t \<le> 100" if "0 < t"
    using that assms(3,4) percent_bound [of n t] by (simp add: sdiv_nonneg)
  then show ?thesis using assms(1,2) by (auto simp: percent_check_def Let_def)
qed

end
