(* ===== verification/U8_Values.thy ===== *)
theory U8_Values
  imports U8str
begin

text \<open>
  The value side of the class \<open>u8str\<close> in \<open>string/u8string.cpp\<close>: the constructors, the accessors, the
  conversions and the setters, the operators and the global helpers. An object is its bytes; a
  \<open>const char*\<close> is the string before its terminating zero. \<open>std::wstring\<close> is left out.
\<close>

section \<open>Constructors\<close>

definition u8str_new :: u8string where
  "u8str_new = []"

definition u8str_of_cstr :: "string \<Rightarrow> u8string" where
  "u8str_of_cstr s = to_u8_string s"

definition u8str_of_string :: "string \<Rightarrow> u8string" where
  "u8str_of_string s = to_u8_string s"

definition u8str_of_u16 :: "char16 list \<Rightarrow> u8string" where
  "u8str_of_u16 s16 = u8_of_u16string s16"

definition u8str_of_u32 :: "char32 list \<Rightarrow> u8string" where
  "u8str_of_u32 s32 = u8_of_u32string s32"

text \<open>The helpers outside of the namespace.\<close>

definition u8 :: "string \<Rightarrow> u8string" where
  "u8 s = u8str_of_string s"

section \<open>Accessors and conversions\<close>

definition u8str_size :: "u8string \<Rightarrow> nat" where
  "u8str_size v = length v"

definition u8str_empty :: "u8string \<Rightarrow> bool" where
  "u8str_empty v \<longleftrightarrow> v = []"

definition u8str_clear :: "u8string \<Rightarrow> u8string" where
  "u8str_clear v = []"

definition u8str_to_std_string :: "u8string \<Rightarrow> string" where
  "u8str_to_std_string v = to_std_string v"

definition u8str_to_u16string :: "u8string \<Rightarrow> char16 list" where
  "u8str_to_u16string v = to_u16string v"

definition u8str_to_u32string :: "u8string \<Rightarrow> char32 list" where
  "u8str_to_u32string v = to_u32string v"

section \<open>Setters\<close>

definition u8str_from_std_string :: "string \<Rightarrow> u8string \<Rightarrow> u8string" where
  "u8str_from_std_string s v = to_u8_string s"

definition u8str_from_cstr :: "string \<Rightarrow> u8string \<Rightarrow> u8string" where
  "u8str_from_cstr s v = to_u8_string s"

definition u8str_from_u16string :: "char16 list \<Rightarrow> u8string \<Rightarrow> u8string" where
  "u8str_from_u16string s16 v = u8_of_u16string s16"

definition u8str_from_u32string :: "char32 list \<Rightarrow> u8string \<Rightarrow> u8string" where
  "u8str_from_u32string s32 v = u8_of_u32string s32"

section \<open>Operators\<close>

definition u8str_append_cstr :: "u8string \<Rightarrow> string \<Rightarrow> u8string" where
  "u8str_append_cstr v s = v @ to_u8_string s"

definition u8str_eq :: "u8string \<Rightarrow> u8string \<Rightarrow> bool" where
  "u8str_eq a b \<longleftrightarrow> a = b"

definition u8str_neq :: "u8string \<Rightarrow> u8string \<Rightarrow> bool" where
  "u8str_neq a b \<longleftrightarrow> \<not> u8str_eq a b"

definition u8str_plus :: "u8string \<Rightarrow> u8string \<Rightarrow> u8string" where
  "u8str_plus a b = u8str_append a b"

definition u8str_plus_cstr :: "u8string \<Rightarrow> string \<Rightarrow> u8string" where
  "u8str_plus_cstr a b = u8str_append_cstr a b"

definition u8str_cstr_plus :: "string \<Rightarrow> u8string \<Rightarrow> u8string" where
  "u8str_cstr_plus a b = u8str_append (u8str_of_cstr a) b"

definition u8str_to_lower_copy :: "u8string \<Rightarrow> u8string" where
  "u8str_to_lower_copy v = u8str_to_lower v"

definition u8str_to_upper_copy :: "u8string \<Rightarrow> u8string" where
  "u8str_to_upper_copy v = u8str_to_upper v"

section \<open>The value is kept\<close>

interpretation std_bytes: codec "\<lambda>_. True" u8str_of_string "\<lambda>v. Some (u8str_to_std_string v)"
  by unfold_locales (simp add: u8str_of_string_def u8str_to_std_string_def to_std_string_def to_u8_string_def comp_def)

lemma std_string_kept: "u8str_to_std_string (u8str_from_std_string s v) = s"
  using std_bytes.decode_encode [of s] by (simp add: u8str_of_string_def u8str_from_std_string_def)

lemma bytes_kept: "u8str_from_std_string (u8str_to_std_string v) w = v"
  by (simp add: u8str_to_std_string_def u8str_from_std_string_def to_std_string_def to_u8_string_def comp_def)

lemma u32_kept: "list_all scalar s \<Longrightarrow> u8str_to_u32string (u8str_from_u32string s v) = s"
  by (simp add: u8str_to_u32string_def u8str_from_u32string_def u8_of_u32string_utf8 to_u32string_utf8
    map_sanitize_scalar)

text \<open>Concatenation does not depend on the form of the operands.\<close>

lemma plus_forms:
  "u8str_plus_cstr a s = u8str_plus a (u8str_of_cstr s)" "u8str_cstr_plus s b = u8str_plus (u8str_of_cstr s) b"
  by (simp_all add: u8str_plus_cstr_def u8str_plus_def u8str_append_cstr_def u8str_append_def u8str_of_cstr_def
    u8str_cstr_plus_def)

lemma decode_utf8_append: "to_u32string (utf8 cps @ b) = map sanitize cps @ to_u32string b"
  by (induction cps) (simp_all add: to_u32string_append)

text \<open>The decoding of a sum is the sum of the decodings when the first operand is well formed.\<close>

lemma plus_decodes:
  "well_formed a \<Longrightarrow> u8str_to_u32string (u8str_plus a b) = u8str_to_u32string a @ u8str_to_u32string b"
  by (erule well_formedE)
    (simp add: u8str_to_u32string_def u8str_plus_def u8str_append_def decode_utf8_append to_u32string_utf8)

end
