(* ===== verification/Spec2Isabelle.thy ===== *)
theory Spec2Isabelle
  imports Prelude Cpp_Std Weekly_Schedule Schedule_Io Schedule_Xml Cipher Str_Loops String_Basic
    Wildcard Utf8_Codec U8str Encoding Mutex_Guard Bit_Array Concurrent_Queue Key_Value Object_Broker
    Ini_File Config Xml_Path Datetime_Parse Date_Time_V1 Uuid File_Search File_Info
    Log_Examples Download_Spec Directory_Examples Dynamic_Thread Rest_Client Ftp_Client U8_Values
begin

text \<open>
  A model of the C++ library \<open>j2_library\<close> (below \<open>src/j2_library\<close>, headers below
  \<open>src/j2_library/include/j2_library\<close>) and the theorems that make its parts correct. The library is a
  collection of independent components over the C++ standard library; the components call each other
  only where this is said below, and each theory imports those its component calls.

  \<^bold>\<open>Conventions.\<close> A class is a record of its members, or the type of its only member; an enum is a
  datatype. A method is a function that takes the object and returns the new one with the result. A
  thrown exception is \<open>Inl\<close> of a sum or \<open>None\<close>, as is an error code. \<open>std::string\<close> is a list of \<open>char\<close>,
  a byte or code unit is a word of its width, \<open>size_t\<close> and \<open>int\<close> are \<open>nat\<close> and \<open>int\<close> where the code
  cannot leave their range, and the wrap-around is written out where it can. What is undefined in C++
  is an outcome of its own, \<open>None\<close> where the theory says so. Loops are recursive functions named after
  the method, with the suffix \<open>_loop\<close>.

  \<^bold>\<open>Library.\<close> \<open>Prelude\<close> holds the collections \<open>std_simps\<close> and \<open>model_defs\<close>, the machine types, lemmas on
  bytes and lists, stripping, and the contract \<open>codec\<close> of an encoder with its decoder (\<open>codec_chain\<close>
  composes two). \<open>Cpp_Std\<close> models what the code uses of the C++ library: character classes, \<open>find\<close> and
  \<open>rfind\<close>, printing and scanning of integers. \<open>Key_Value\<close> holds the contracts \<open>map_store\<close> and
  \<open>key_value_store\<close> with the theorem that a sequence of calls acts as updates of a mathematical map.

  \<^bold>\<open>Weekly schedule\<close> (\<open>schedule/weekly\<close>). \<open>Weekly_Schedule\<close>: \<open>scheduler.cpp\<close>, a list of ranges of
  minutes in a cyclic week, \<open>add_range\<close> with its merging passes, the query \<open>is_active_at_tm\<close>, and the
  intervals of \<open>schedule_normalizer.cpp\<close>. Shown: \<open>add_range\<close> covers exactly the old and the new
  minutes, keeps the ranges valid and apart, and \<open>normalize\<close> keeps every answer. \<open>Schedule_Io\<close>:
  \<open>schedule_json.cpp\<close>, \<open>schedule_dump.cpp\<close> and the time base; reading back what was written.
  \<open>Schedule_Xml\<close>: \<open>schedule_xml.cpp\<close> on the XML printer, readable by the XML parser.

  \<^bold>\<open>Strings.\<close> \<open>Str_Loops\<close> and \<open>String_Basic\<close>: \<open>string_basic.cpp\<close> (trimming, splitting, joining,
  replacing, padding, case, separators); \<open>Wildcard\<close>: its greedy matcher decides the recursive glob
  relation. \<open>Utf8_Codec\<close> and \<open>U8str\<close>: the decoder, encoder and the class of \<open>u8string.cpp\<close>; decoding
  reads every encoding that is there and replaces the rest, and the conversions to UTF-16 and UTF-32 are inverse on scalar values; \<open>U8_Values\<close> has the
  constructors, conversions and operators of the class. \<open>Encoding\<close>:
  \<open>encoding_function.cpp\<close>, the same conversions with errors, in the Windows build and in the others
  (with the codecvt facets as libstdc++ has them, which drop a cut-off end), and the Korean character sets through \<open>iconv\<close>. \<open>Mutex_String\<close> and \<open>Mutex_Guard\<close>: \<open>mutex_string\<close>,
  each method under its mutex, the guards, \<open>with_lock\<close> and any number of threads as a step relation
  with its reachable states: mutual exclusion, isolation, and what the assertions of the debug build
  catch and miss.

  \<^bold>\<open>Data.\<close> \<open>Bit_Array\<close>: \<open>bit_array.cpp\<close> refines operations on lists of bits. \<open>Concurrent_Queue\<close>:
  \<open>concurrent_queue.hpp\<close>, the operations, the contract \<open>fifo_store\<close>, and the interleavings of threads
  with condition variables: size bound, no loss, no lost wake-up. \<open>Object_Broker\<close>: \<open>object_broker.hpp\<close>
  as a map of maps. \<open>Cipher\<close>: AES-128 in \<open>cipher.cpp\<close> with its padding and hexadecimal text;
  decryption undoes encryption. \<open>Uuid\<close>: \<open>uuid_v4.cpp\<close>.

  \<^bold>\<open>Files.\<close> \<open>Ini_Text\<close>, \<open>Ini_Parser\<close>, \<open>Ini_File\<close>: \<open>ini_parser.cpp\<close>, its text forms, its document with
  index maps that never point outside, and the round trip of a saved file. \<open>Config\<close>:
  \<open>config_manager.cpp\<close>. \<open>Xml_Parser\<close>, \<open>Xml_Print\<close>, \<open>Xml_Path\<close>: the parser, the printers and the paths of
  \<open>xml_parser.cpp\<close>; parsing ends on every input and reads back what was printed. \<open>File_Finder\<close> (the
  code) and \<open>File_Search\<close> (its theorems): \<open>file_finder.cpp\<close>; a search ends whatever links there are,
  and on a tree it is the filtered walk of the tree (a file system has finitely many directories, whatever
  paths lead to them). \<open>Paths\<close>: the operations of \<open>std::filesystem::path\<close>.
  \<open>Directory_Text\<close>, \<open>Directory_Maker\<close>, \<open>Directory_Tree\<close>, \<open>Directory_Examples\<close>: \<open>directory_maker.cpp\<close> with
  its messages and \<open>to_console_encoding.cpp\<close>, and what its results say of the file system: a success is a
  directory, the reported paths are exactly the new directories, and a path is made whole where nothing is in the way.
  \<open>File_Info\<close>: \<open>file_info.cpp\<close> and the POSIX build of \<open>permissions.cpp\<close>.

  \<^bold>\<open>Log manager\<close> (\<open>log/logger_manager.cpp\<close>). \<open>Log_Settings\<close>: the settings read from an INI document
  by the model of the parser. \<open>Logger_Manager\<close>: the object with its list of sinks, \<open>init\<close>,
  \<open>reloadIfChanged\<close>, the disk guard and its alerts. \<open>Log_Sinks\<close>: in every state of a run the sinks are
  those the settings ask for, each once, or the console alone while the disk is low; a reload is like a
  restart; alerts keep their distance. \<open>Log_Examples\<close>: an instance of the parameters, the witnesses, and
  a reload that attaches a file twice.

  \<^bold>\<open>Network.\<close> \<open>Downloader\<close> and \<open>Download_Spec\<close>: \<open>multipart_downloader.cpp\<close>, the callbacks, the headers,
  the split of the body and the files; a well formed response becomes its files, and a failure leaves
  nothing behind but a temporary file that cannot be removed. \<open>Rest_Client\<close>: \<open>curl_get_client.cpp\<close> and \<open>curl_post_client.cpp\<close>; the query of a URL
  decodes to the parameters of the call. \<open>Ftp_Client\<close>: \<open>ftp_client.cpp\<close>, with a bound on the reports that
  its filtered listener forwards.

  \<^bold>\<open>Threads.\<close> \<open>Dynamic_Thread\<close>: \<open>dynamic_thread.cpp\<close>, the calls and the worker as steps; with one caller
  the object is safe and \<open>stop\<close> returns, with two it can end the program.

  \<^bold>\<open>Dates.\<close> \<open>Calendar\<close>: the conversions between seconds and calendar fields; \<open>Datetime\<close> and
  \<open>Datetime_Parse\<close>: formatting and the strict and loose parsers; \<open>Date_Time_V1\<close>: the class of
  \<open>v1/date_time.cpp\<close>.

  \<^bold>\<open>Interfaces.\<close> Interpretations: \<open>block_cipher\<close> as \<open>aes\<close>; \<open>fifo_store\<close> as \<open>cq\<close>; \<open>map_store\<close> as \<open>config\<close>;
  \<open>key_value_store\<close> as \<open>broker\<close> and \<open>ini\<close>; \<open>codec\<close> as \<open>hex\<close>, \<open>padding\<close>, \<open>joined\<close>, \<open>utf32\<close>, \<open>utf16\<close>,
  \<open>ini_file\<close>, \<open>config_file\<close>, \<open>std_bytes\<close> and \<open>percent\<close>; \<open>codec_chain\<close> as \<open>utf32_via_16\<close>.

  \<^bold>\<open>Fuel.\<close> \<open>parse_element\<close> has twice the length of the text and three as fuel, which the termination
  theorem shows to be enough; the searches of the file finder end for any fuel beyond the number of
  directories; \<open>ellipsize_utf8_loop\<close> has the length of the text plus one; the loop around \<open>iconv\<close> is a
  partial function and is shown to return.

  \<^bold>\<open>Parameters.\<close> Code that is not in the repository is an argument: \<open>json_api\<close> (nlohmann::json),
  \<open>float_api\<close> and \<open>log_floats\<close> (printing and reading of doubles), \<open>local_zone\<close> (the local time zone),
  \<open>win_api\<close> and \<open>iconv_api\<close> (the conversions of the operating system), \<open>filesystem\<close> and \<open>dir_api\<close>
  (\<open>std::filesystem\<close>), \<open>dist_api\<close> (the sinks of spdlog), \<open>log_env\<close> (time, files, disk and socket of the
  log manager), \<open>dl_env\<close> and \<open>curl_api\<close> (libcurl, and the disk of the downloader), the numbers of a random
  engine, the current time, \<open>moved\<close> (a string that was moved from). What is assumed of them is a named
  hypothesis of the theorem, and each such theorem has a witness.

  \<^bold>\<open>Not modelled.\<close> The socket clients and servers, the crash handler, device and resource information,
  the network interfaces and the paths of the executable only call the operating system. The JSON
  wrapper forwards to its library. \<open>expected\<close>, \<open>result\<close> and the macros are templates whose expansions
  are sums and options here. The access lists of the Windows build of the permissions, the conversions of
  \<open>std::wstring\<close> in \<open>u8string.cpp\<close>, the printing of floating point numbers, and the messages the log
  manager writes about itself are left out. Inside the modelled components, allocation failures and the
  locale of the C library are left out.
\<close>

end
